(* ===== verification/Prelude.thy ===== *)
theory Prelude
  imports
    Main
    "HOL-Library.AList"
    "HOL-Library.Word"
    "HOL-Library.Char_ord"
    "HOL-Library.List_Lexorder"
    "HOL-Library.Sublist"
    "HOL-Library.Signed_Division"
begin

text \<open>
  Shared vocabulary of the development: Go maps as association lists with distinct keys, the
  types every component uses, generic lemmas on maps, lists and folds, and the two abstract
  interfaces (invariants of a step function, functional refinement of one step function by
  another) that the components interpret.
\<close>

section \<open>Types and collections of facts\<close>

type_synonym key = string
type_synonym node_id = string
type_synonym go_time = int \<comment> \<open>nanoseconds; 0 is Go's zero time\<close>
type_synonym ('k, 'v) gomap = "('k \<times> 'v) list"

named_theorems gomap_simps \<open>lookups and well-formedness after Go map operations\<close>
named_theorems store_defs \<open>definitions of the storage operations\<close>
named_theorems wal_defs \<open>definitions of the write-ahead log operations\<close>
named_theorems replica_defs \<open>definitions of the operations of a partition replica\<close>
named_theorems planner_defs \<open>definitions of the planner's phases\<close>

section \<open>Go maps\<close>

text \<open>
  A Go map is an association list without duplicate keys; the order of the list stands for
  the (unspecified) order in which a \<open>range\<close> loop visits it.
  \<open>map_of m k\<close> is the comma-ok read \<open>v, ok := m[k]\<close>.
\<close>

abbreviation gm_put :: "'k \<Rightarrow> 'v \<Rightarrow> ('k, 'v) gomap \<Rightarrow> ('k, 'v) gomap" where
  "gm_put k v m \<equiv> AList.update k v m"

abbreviation gm_del :: "'k \<Rightarrow> ('k, 'v) gomap \<Rightarrow> ('k, 'v) gomap" where
  "gm_del k m \<equiv> AList.delete k m"

definition gm_ok :: "('k, 'v) gomap \<Rightarrow> bool" where
  "gm_ok m \<longleftrightarrow> distinct (map fst m)"

lemma gm_ok_Nil [gomap_simps, simp]: "gm_ok []"
  by (simp add: gm_ok_def)

lemma gm_ok_Cons [gomap_simps]: "gm_ok ((k, v) # m) \<longleftrightarrow> map_of m k = None \<and> gm_ok m"
  by (auto simp: gm_ok_def map_of_eq_None_iff)

lemma gm_ok_put [gomap_simps, simp]: "gm_ok m \<Longrightarrow> gm_ok (gm_put k v m)"
  by (simp add: gm_ok_def distinct_update)

lemma gm_ok_del [gomap_simps, simp]: "gm_ok m \<Longrightarrow> gm_ok (gm_del k m)"
  by (simp add: gm_ok_def distinct_delete)

lemma map_of_put [gomap_simps]: "map_of (gm_put k v m) = (map_of m)(k \<mapsto> v)"
  by (simp add: update_conv')

lemma map_of_del [gomap_simps]: "map_of (gm_del k m) = (map_of m)(k := None)"
  by (simp add: delete_conv')

lemma gm_put_new: "map_of m k = None \<Longrightarrow> gm_put k v m = m @ [(k, v)]"
  by (induction m) (auto split: if_splits)

lemma gm_put_not_Nil [simp]: "gm_put k v m \<noteq> []"
  by (cases m) auto

lemma gm_len_card: "gm_ok m \<Longrightarrow> length m = card (dom (map_of m))"
  by (simp add: gm_ok_def dom_map_of_conv_image_fst distinct_card flip: set_map)

lemma gm_ok_map_snd [simp]: "gm_ok (map (\<lambda>(k, v). (k, f k v)) m) = gm_ok m"
  by (simp add: gm_ok_def comp_def case_prod_beta)

lemma map_of_map_snd: "map_of (map (\<lambda>(k, v). (k, f k v)) m) k = map_option (f k) (map_of m k)"
  by (induction m) auto

text \<open>A map read without the comma-ok: the zero value for a missing key.\<close>

definition gm_get :: "'v \<Rightarrow> ('k, 'v) gomap \<Rightarrow> 'k \<Rightarrow> 'v" where
  "gm_get d m k = (case map_of m k of None \<Rightarrow> d | Some v \<Rightarrow> v)"

definition gm_add :: "'k \<Rightarrow> int \<Rightarrow> ('k, int) gomap \<Rightarrow> ('k, int) gomap" where
  "gm_add k d m = gm_put k (gm_get 0 m k + d) m"

lemma gm_get_put [gomap_simps, simp]: "gm_get d (gm_put k v m) k' = (if k' = k then v else gm_get d m k')"
  by (simp add: gm_get_def update_conv')

lemma gm_get_add [gomap_simps, simp]:
  "gm_get 0 (gm_add k v m) k' = (if k' = k then gm_get 0 m k' + v else gm_get 0 m k')"
  by (simp add: gm_add_def)

text \<open>
  A \<open>range\<close> loop whose body changes at most the visited key of an accumulator map: every key
  of the range is visited once, so the result does not depend on the order of the visit.
\<close>

lemma map_of_range_loop:
  assumes "gm_ok m"
    and body: "\<And>acc k e. map_of (g acc (k, e)) = (map_of acc)(k := h k e (map_of acc k))"
  shows "map_of (foldl g acc m) k =
    (case map_of m k of None \<Rightarrow> map_of acc k | Some e \<Rightarrow> h k e (map_of acc k))"
  using assms(1)
proof (induction m arbitrary: acc)
  case Nil
  then show ?case by simp
next
  case (Cons p m)
  obtain k' e' where p: "p = (k', e')" by (cases p)
  from Cons.prems p have fresh: "map_of m k' = None" and ok: "gm_ok m"
    by (auto simp: gm_ok_Cons)
  show ?case
    using Cons.IH [OF ok, of "g acc (k', e')"] fresh
    by (auto simp: p body split: option.splits)
qed

lemma gm_ok_range_loop:
  assumes "gm_ok acc" and "\<And>acc p. gm_ok acc \<Longrightarrow> gm_ok (g acc p)"
  shows "gm_ok (foldl g acc m)"
  using assms by (induction m arbitrary: acc) auto

lemma restrict_map_UNIV [simp]: "m |` UNIV = m"
  by (auto simp: restrict_map_def)

section \<open>Lists\<close>

lemma foldl_inv:
  assumes "P a" and "\<And>a x. x \<in> set xs \<Longrightarrow> P a \<Longrightarrow> P (f a x)"
  shows "P (foldl f a xs)"
  using assms by (induction xs arbitrary: a) auto

lemma card_dom_upd:
  assumes "finite (dom m)"
  shows "card (dom (m(k \<mapsto> v))) = (if m k = None then Suc (card (dom m)) else card (dom m))"
  using assms by (auto simp: domIff card_insert_if)

lemma card_dom_del:
  assumes "finite (dom m)" and "m k \<noteq> None"
  shows "card (dom m) = Suc (card (dom (m(k := None))))"
  using assms by (metis card_Suc_Diff1 domIff dom_fun_upd)

lemma prefix_take_le: "i \<le> j \<Longrightarrow> prefix (take i xs) (take j xs)"
  by (metis min.absorb1 take_is_prefix take_take)

lemma prefix_same_take: "prefix xs ys \<Longrightarrow> xs = take (length xs) ys"
  by (metis append_eq_conv_conj prefix_def)

section \<open>Interfaces\<close>

text \<open>
  An operation set with an invariant: what one step keeps, any sequence of steps keeps.
\<close>

locale invariant_steps =
  fixes step :: "'op \<Rightarrow> 'c \<Rightarrow> 'c" and inv :: "'c \<Rightarrow> bool"
  assumes inv_step: "inv c \<Longrightarrow> inv (step op c)"
begin

lemma inv_run: "inv c \<Longrightarrow> inv (fold step ops c)"
  by (induction ops arbitrary: c) (simp_all add: inv_step)

end

text \<open>
  A functional refinement: the concrete step commutes with the abstract one through \<open>abs\<close>.
  Two concrete states that agree abstractly stay in agreement under the same operations,
  whatever differs between their representations.
\<close>

locale functional_refinement = invariant_steps step inv
  for step :: "'op \<Rightarrow> 'c \<Rightarrow> 'c" and inv :: "'c \<Rightarrow> bool" +
  fixes spec :: "'op \<Rightarrow> 'a \<Rightarrow> 'a" and abs :: "'c \<Rightarrow> 'a"
  assumes abs_step: "inv c \<Longrightarrow> abs (step op c) = spec op (abs c)"
begin

lemma abs_run: "inv c \<Longrightarrow> abs (fold step ops c) = fold spec ops (abs c)"
  by (induction ops arbitrary: c) (simp_all add: abs_step inv_step)

lemma convergence:
  assumes "inv c" and "inv d" and "abs c = abs d"
  shows "abs (fold step ops c) = abs (fold step ops d)"
  using assms by (simp add: abs_run)

end

end
