(* ===== verification/Hashing.thy ===== *)
theory Hashing
  imports Prelude
begin

text \<open>
  \<open>src/pkg/hash/hash.go\<close>: the 32-bit FNV-1a hash (Go's \<open>hash/fnv\<close>), the partition of a
  key, and the source partitions of a resharding.
\<close>

unbundle bit_operations_syntax

section \<open>Definitions\<close>

text \<open>\<open>fnv.New32a\<close>, \<open>Write\<close> and \<open>Sum32\<close>: xor in each byte, then multiply, modulo \<open>2 ^ 32\<close>.\<close>

fun fnv1a_write :: "32 word \<Rightarrow> string \<Rightarrow> 32 word" where
  "fnv1a_write h [] = h"
| "fnv1a_write h (c # cs) = fnv1a_write ((h XOR of_char c) * 16777619) cs"

definition Sum :: "key \<Rightarrow> 32 word" where
  "Sum k = fnv1a_write 2166136261 k"

text \<open>
  \<open>int(h % uint32(n))\<close>: the conversion truncates \<open>n\<close> to 32 bits, and a zero divisor is a
  run-time panic (\<open>None\<close>).
\<close>

definition mod_u32 :: "32 word \<Rightarrow> int \<Rightarrow> int option" where
  "mod_u32 h n =
     (let m = (word_of_int n :: 32 word) in if m = 0 then None else Some (uint (h mod m)))"

definition GetPartitionID :: "key \<Rightarrow> int \<Rightarrow> int option" where
  "GetPartitionID k partitionCount =
     (if partitionCount \<le> 0 then Some 0 else mod_u32 (Sum k) partitionCount)"

text \<open>The loop \<open>for b != 0 { a, b = b, a%b }\<close>; Go's remainder truncates towards zero.\<close>

function go_gcd :: "int \<Rightarrow> int \<Rightarrow> int" where
  "go_gcd a b = (if b \<noteq> 0 then go_gcd b (a smod b) else a)"
  by pat_completeness auto
termination
proof (relation "measure (\<lambda>(a, b). nat \<bar>b\<bar>)")
  show "wf (measure (\<lambda>(a, b). nat \<bar>b :: int\<bar>))" by simp
next
  fix a b :: int
  assume "b \<noteq> 0"
  then have "\<bar>a smod b\<bar> < \<bar>b\<bar>"
    by (simp add: signed_modulo_int_def abs_mult abs_sgn_eq)
  then show "((b, a smod b), (a, b)) \<in> measure (\<lambda>(a, b). nat \<bar>b\<bar>)" by simp
qed

declare go_gcd.simps [simp del]

definition SourcePartitions :: "int \<Rightarrow> int \<Rightarrow> int \<Rightarrow> int list" where
  "SourcePartitions newID oldCount newCount =
     (let g = go_gcd oldCount newCount
      in filter (\<lambda>p. p smod g = newID smod g) [0..oldCount - 1])"

section \<open>Partition of a key\<close>

lemma mod_u32_Some:
  assumes "0 < n" and "n < 2 ^ 32"
  shows "mod_u32 h n = Some (uint h mod n)"
proof -
  have u: "uint (word_of_int n :: 32 word) = n"
    using assms by (simp add: uint_word_of_int)
  with assms have "(word_of_int n :: 32 word) \<noteq> 0"
    by (metis unsigned_0 less_irrefl)
  with u show ?thesis by (simp add: mod_u32_def uint_mod)
qed

lemma mod_u32_bounds:
  assumes "0 < n" and "n < 2 ^ 32"
  shows "\<exists>i. mod_u32 h n = Some i \<and> 0 \<le> i \<and> i < n"
  using mod_u32_Some [OF assms] assms by simp

text \<open>A count that is a multiple of \<open>2 ^ 32\<close> truncates to zero: the source divides by zero.\<close>

lemma mod_u32_panic: "mod_u32 h (2 ^ 32 * c) = None"
proof -
  have "(word_of_int (2 ^ 32 * c) :: 32 word) = 0"
    by transfer (simp add: take_bit_eq_mod)
  then show ?thesis by (simp add: mod_u32_def)
qed

section \<open>Source partitions of a resharding\<close>

lemma smod_nonneg: "0 \<le> a \<Longrightarrow> 0 \<le> b \<Longrightarrow> (a :: int) smod b = a mod b"
  by (cases "a = 0") (simp_all add: signed_modulo_int_def sgn_if)

lemma go_gcd_eq_gcd: "0 \<le> a \<Longrightarrow> 0 \<le> b \<Longrightarrow> go_gcd a b = gcd a b"
proof (induction a b rule: go_gcd.induct)
  case (1 a b)
  show ?case
  proof (cases "b = 0")
    case True
    with "1.prems" show ?thesis by (simp add: go_gcd.simps)
  next
    case False
    with "1.prems" have "go_gcd b (a smod b) = gcd b (a mod b)"
      using "1.IH" by (simp add: smod_nonneg)
    with False show ?thesis
      by (simp add: go_gcd.simps [of a b] gcd_red_int [of a b])
  qed
qed

lemma distinct_SourcePartitions: "distinct (SourcePartitions newID oldCount newCount)"
  by (simp add: SourcePartitions_def Let_def)

lemma mem_SourcePartitions:
  assumes "0 < oldCount" and "0 < newCount" and "0 \<le> newID"
  shows "p \<in> set (SourcePartitions newID oldCount newCount) \<longleftrightarrow>
    0 \<le> p \<and> p < oldCount \<and> p mod gcd oldCount newCount = newID mod gcd oldCount newCount"
  using assms by (auto simp: SourcePartitions_def go_gcd_eq_gcd smod_nonneg Let_def)

lemma common_residue:
  fixes x m n :: int
  shows "(x mod m) mod gcd m n = (x mod n) mod gcd m n"
  by (metis gcd_dvd1 gcd_dvd2 mod_mod_cancel)

text \<open>The converse, by Bezout: residues that agree modulo the gcd have a common solution.\<close>

lemma common_solution:
  fixes p q m n :: int
  assumes "p mod gcd m n = q mod gcd m n"
  obtains x where "x mod m = p mod m" and "x mod n = q mod n"
proof -
  obtain u v where uv: "u * m + v * n = gcd m n"
    using bezout_int by blast
  from assms have "gcd m n dvd q - p"
    by (metis mod_eq_dvd_iff)
  then obtain k where k: "q - p = gcd m n * k" by (auto elim: dvdE)
  define x where "x = p + m * (u * k)"
  have "x = q + n * (- (v * k))"
  proof -
    have "m * (u * k) = (u * m + v * n) * k - n * (v * k)" by algebra
    with uv k show ?thesis by (simp add: x_def)
  qed
  then have "x mod n = q mod n" by (metis mod_mult_self2)
  moreover have "x mod m = p mod m" by (simp add: x_def)
  ultimately show ?thesis by (rule that [rotated])
qed

lemma common_hash:
  fixes p q m n :: int
  assumes "0 < m" and "0 < n" and "m * n \<le> 2 ^ 32" and "p mod gcd m n = q mod gcd m n"
  obtains h :: "32 word" where "uint h mod m = p mod m" and "uint h mod n = q mod n"
proof -
  obtain x where x: "x mod m = p mod m" "x mod n = q mod n"
    using assms(4) by (rule common_solution)
  define y where "y = x mod (m * n)"
  have "0 \<le> y" and "y < m * n"
    using assms(1,2) by (simp_all add: y_def)
  with assms(3) have "0 \<le> y" and "y < 2 ^ 32" by simp_all
  then have "uint (word_of_int y :: 32 word) = y"
    by (simp add: uint_word_of_int)
  moreover have "y mod m = p mod m" and "y mod n = q mod n"
    using x by (simp_all add: y_def mod_mod_cancel)
  ultimately show ?thesis using that [of "word_of_int y"] by simp
qed

section \<open>Properties\<close>

text \<open>
  C32. The source partitions of a resharding are exactly the old partitions that can hold a key
  of the new partition: \<open>p\<close> is listed if and only if some 32-bit hash value lies in \<open>p\<close> under
  the old count and in \<open>newID\<close> under the new one. Pulling from the listed partitions misses no
  key, and none of them is asked in vain.
\<close>

theorem SourcePartitions_exact:
  assumes "0 < oldCount" and "oldCount < 2 ^ 32" and "0 < newCount" and "newCount < 2 ^ 32"
    and "oldCount * newCount \<le> 2 ^ 32" and "0 \<le> newID" and "newID < newCount"
  shows "p \<in> set (SourcePartitions newID oldCount newCount) \<longleftrightarrow>
    (\<exists>h. mod_u32 h oldCount = Some p \<and> mod_u32 h newCount = Some newID)"
    (is "?listed \<longleftrightarrow> ?held")
proof
  assume ?listed
  with assms have p: "0 \<le> p" "p < oldCount"
    and res: "p mod gcd oldCount newCount = newID mod gcd oldCount newCount"
    by (auto simp: mem_SourcePartitions)
  obtain h :: "32 word" where "uint h mod oldCount = p mod oldCount"
    and "uint h mod newCount = newID mod newCount"
    using common_hash [OF assms(1,3,5) res] by blast
  with p assms show ?held by (auto simp: mod_u32_Some)
next
  assume ?held
  then obtain h where "mod_u32 h oldCount = Some p" and "mod_u32 h newCount = Some newID"
    by blast
  then have "p = uint h mod oldCount" and "newID = uint h mod newCount"
    using assms by (simp_all add: mod_u32_Some)
  with assms show ?listed by (auto simp: mem_SourcePartitions common_residue)
qed

theorem SourcePartitions_exact_witness:
  "set (SourcePartitions 5 4 8) = {1} \<and>
   (\<exists>h. mod_u32 h 4 = Some 1 \<and> mod_u32 h 8 = Some 5) \<and> \<not> (\<exists>h. mod_u32 h 4 = Some 2 \<and> mod_u32 h 8 = Some 5)"
proof -
  have "set (SourcePartitions 5 4 8) = {1}"
    by (simp add: SourcePartitions_def go_gcd_eq_gcd smod_nonneg Let_def upto.simps)
  with SourcePartitions_exact [of 4 8 5 1] SourcePartitions_exact [of 4 8 5 2]
  show ?thesis by simp
qed

lemma key_in_SourcePartitions:
  assumes "0 < oldCount" and "oldCount < 2 ^ 32" and "0 < newCount" and "newCount < 2 ^ 32"
    and "GetPartitionID k newCount = Some newID"
  shows "\<exists>p. GetPartitionID k oldCount = Some p \<and> p \<in> set (SourcePartitions newID oldCount newCount)"
proof -
  from assms have new: "newID = uint (Sum k) mod newCount"
    by (simp add: GetPartitionID_def mod_u32_Some)
  with assms have "uint (Sum k) mod oldCount \<in> set (SourcePartitions newID oldCount newCount)"
    by (simp add: mem_SourcePartitions common_residue)
  with assms show ?thesis by (simp add: GetPartitionID_def mod_u32_Some)
qed

text \<open>
  Every key of a new partition is found: the old partition of a key that the new count maps
  to \<open>newID\<close> is among the source partitions of \<open>newID\<close>, for all counts a configuration can have.
\<close>

theorem SourcePartitions_cover_keys:
  assumes "0 < oldCount" and "oldCount < 2 ^ 32" and "0 < newCount" and "newCount < 2 ^ 32"
    and "GetPartitionID k newCount = Some newID"
  shows "\<exists>p. GetPartitionID k oldCount = Some p \<and> p \<in> set (SourcePartitions newID oldCount newCount)"
  using assms by (rule key_in_SourcePartitions)

theorem SourcePartitions_cover_keys_witness:
  "GetPartitionID ''user:42'' 12 = Some 2 \<and>
   (\<exists>p. GetPartitionID ''user:42'' 8 = Some p \<and> p \<in> set (SourcePartitions 2 8 12))"
proof -
  have h: "GetPartitionID ''user:42'' 12 = Some 2"
    by (simp add: GetPartitionID_def mod_u32_Some Sum_def)
  with SourcePartitions_cover_keys [OF _ _ _ _ h, of 8] show ?thesis by simp
qed

end
