(* ===== verification/Model.thy ===== *)
theory Model
  imports Hashing
begin

text \<open>
  \<open>src/internal/model/model.go\<close>: the layout (routing table) with its partitions and its
  resharding state, routing, and the records the components exchange. Integers that only count
  up by one (sequence numbers, epochs, versions, generations) are unbounded here.
\<close>

section \<open>Data\<close>

datatype NodeRole = NodeRoleLeader | NodeRoleFollower | NodeRoleUnset \<comment> \<open>the last: Go's zero value\<close>

record Node =
  n_ID :: node_id
  n_Address :: string
  n_Incarnation :: int

record Config =
  cfg_PartitionCount :: int
  cfg_ReplicationFactor :: int

datatype PartitionState = PartitionActive | PartitionHandoff

record Partition =
  p_ID :: int
  p_Epoch :: int
  p_Leader :: node_id \<comment> \<open>empty: none\<close>
  p_Followers :: "node_id list"
  p_Joining :: "node_id list"
  p_Evict :: "node_id list"
  p_State :: PartitionState
  p_HandoffTo :: node_id
  p_HandoffAt :: int
  p_HandoffVersion :: int
  p_Pinned :: bool

datatype MigrationStatus = MigrationPending | MigrationDone

record Resharding =
  r_Generation :: int
  r_PartitionCount :: int
  r_Partitions :: "Partition list"
  r_Status :: "MigrationStatus list"

datatype PartitionRef = PartitionRef (ref_Generation: int) (ref_ID: int)

text \<open>References are ordered by generation, then by id, as a node sorts its status report.\<close>

instantiation PartitionRef :: linorder
begin

definition less_eq_PartitionRef :: "PartitionRef \<Rightarrow> PartitionRef \<Rightarrow> bool" where
  "less_eq_PartitionRef a b \<longleftrightarrow>
     ref_Generation a < ref_Generation b \<or>
     ref_Generation a = ref_Generation b \<and> ref_ID a \<le> ref_ID b"

definition less_PartitionRef :: "PartitionRef \<Rightarrow> PartitionRef \<Rightarrow> bool" where
  "less_PartitionRef a b \<longleftrightarrow>
     ref_Generation a < ref_Generation b \<or>
     ref_Generation a = ref_Generation b \<and> ref_ID a < ref_ID b"

instance
  by standard
    (auto simp: less_eq_PartitionRef_def less_PartitionRef_def intro: PartitionRef.expand)

end

record Layout =
  l_Version :: int
  l_Generation :: int
  l_PartitionCount :: int
  l_Partitions :: "Partition list"
  l_Resharding :: "Resharding option"
  l_Members :: "(node_id, int) gomap"

datatype OpType = OpSet | OpDelete | OpCheckpoint

record Operation =
  op_Type :: OpType
  op_Key :: key
  op_Value :: string
  op_Timestamp :: go_time

record LogEntry =
  le_SequenceNumber :: int
  le_Operation :: Operation

record Snapshot =
  sn_Generation :: int
  sn_PartitionID :: int
  sn_Epoch :: int
  sn_Seq :: int
  sn_Data :: "(key, string) gomap"

record ReplicateResponse =
  rr_Epoch :: int
  rr_LeaderSeq :: int
  rr_Entries :: "LogEntry list"

datatype ChunkMode = ModeSnapshot | ModeLogs

record MigrationChunk =
  mc_Mode :: ChunkMode
  mc_Epoch :: int
  mc_Seq :: int
  mc_Data :: "(key, string) gomap"
  mc_Entries :: "LogEntry list"

record MigrationSource =
  ms_PartitionID :: int
  ms_Epoch :: int
  ms_Address :: string

record MigrationRequest =
  mr_Target :: PartitionRef
  mr_TargetEpoch :: int
  mr_TargetCount :: int
  mr_SourceGeneration :: int
  mr_Sources :: "MigrationSource list"

record MigrationResult =
  mres_Keys :: int
  mres_Imported :: int

record PartitionStatus =
  ps_Generation :: int
  ps_ID :: int
  ps_Role :: NodeRole
  ps_Epoch :: int
  ps_DataEpoch :: int
  ps_Seq :: int
  ps_Synced :: bool
  ps_Sealed :: bool
  ps_Keys :: int
  ps_MemTable :: int
  ps_Levels :: int
  ps_WAL :: int

record NodeStatus =
  ns_Node :: Node
  ns_LayoutVersion :: int
  ns_Partitions :: "PartitionStatus list"
  ns_Ops :: "(string, int) gomap"

section \<open>Operations\<close>

fun ContainsString :: "string list \<Rightarrow> string \<Rightarrow> bool" where
  "ContainsString [] s = False"
| "ContainsString (item # items) s = (if item = s then True else ContainsString items s)"

fun RemoveString :: "string list \<Rightarrow> string \<Rightarrow> string list" where
  "RemoveString [] s = []"
| "RemoveString (item # items) s =
     (if item \<noteq> s then item # RemoveString items s else RemoveString items s)"

definition Holders :: "Partition \<Rightarrow> node_id list" where
  "Holders p = (if p_Leader p \<noteq> '''' then [p_Leader p] else []) @ p_Followers p @ p_Joining p"

definition Has :: "Partition \<Rightarrow> node_id \<Rightarrow> bool" where
  "Has p n \<longleftrightarrow> p_Leader p = n \<or> ContainsString (p_Followers p) n \<or> ContainsString (p_Joining p) n"

definition Writable :: "Partition \<Rightarrow> bool" where
  "Writable p \<longleftrightarrow> p_Leader p \<noteq> '''' \<and> p_State p \<noteq> PartitionHandoff"

definition ReadReplicas :: "Partition \<Rightarrow> node_id list" where
  "ReadReplicas p = (if p_Leader p \<noteq> '''' then [p_Leader p] else []) @ p_Followers p"

text \<open>
  \<open>Route\<close> on a possibly \<open>nil\<close> layout. The result \<open>None\<close> is a run-time panic; the inner option is
  the returned pointer.
\<close>

definition route_current :: "Layout \<Rightarrow> 32 word \<Rightarrow> (PartitionRef \<times> Partition option) option" where
  "route_current l h =
     (case mod_u32 h (l_PartitionCount l) of
        None \<Rightarrow> None
      | Some i \<Rightarrow> Some (PartitionRef (l_Generation l) i, Some (l_Partitions l ! nat i)))"

definition Route :: "Layout option \<Rightarrow> key \<Rightarrow> (PartitionRef \<times> Partition option) option" where
  "Route lo k =
     (case lo of
        None \<Rightarrow> Some (PartitionRef 0 0, None)
      | Some l \<Rightarrow>
          if l_PartitionCount l \<le> 0 \<or> int (length (l_Partitions l)) \<noteq> l_PartitionCount l
          then Some (PartitionRef 0 0, None)
          else
            (case l_Resharding l of
               None \<Rightarrow> route_current l (Sum k)
             | Some r \<Rightarrow>
                 if 0 < r_PartitionCount r \<and> int (length (r_Partitions r)) = r_PartitionCount r \<and>
                    int (length (r_Status r)) = r_PartitionCount r
                 then
                   (case mod_u32 (Sum k) (r_PartitionCount r) of
                      None \<Rightarrow> None
                    | Some i \<Rightarrow>
                        if r_Status r ! nat i = MigrationDone
                        then Some (PartitionRef (r_Generation r) i, Some (r_Partitions r ! nat i))
                        else route_current l (Sum k))
                 else route_current l (Sum k)))"

definition Owns :: "Layout option \<Rightarrow> PartitionRef \<Rightarrow> key \<Rightarrow> bool option" where
  "Owns l ref k =
     (case Route l k of None \<Rightarrow> None | Some (got, p) \<Rightarrow> Some (p \<noteq> None \<and> got = ref))"

definition Find :: "Layout option \<Rightarrow> PartitionRef \<Rightarrow> Partition option" where
  "Find lo ref =
     (case lo of
        None \<Rightarrow> None
      | Some l \<Rightarrow>
          if ref_Generation ref = l_Generation l \<and> 0 \<le> ref_ID ref \<and> ref_ID ref < int (length (l_Partitions l))
          then Some (l_Partitions l ! nat (ref_ID ref))
          else
            (case l_Resharding l of
               None \<Rightarrow> None
             | Some r \<Rightarrow>
                 if ref_Generation ref = r_Generation r \<and> 0 \<le> ref_ID ref \<and> ref_ID ref < int (length (r_Partitions r))
                 then Some (r_Partitions r ! nat (ref_ID ref))
                 else None))"

text \<open>The partitions \<open>Each\<close> visits, in its order, with the references it passes.\<close>

definition Each :: "Layout option \<Rightarrow> (PartitionRef \<times> Partition) list" where
  "Each lo =
     (case lo of
        None \<Rightarrow> []
      | Some l \<Rightarrow>
          map (\<lambda>p. (PartitionRef (l_Generation l) (p_ID p), p)) (l_Partitions l) @
          (case l_Resharding l of
             None \<Rightarrow> []
           | Some r \<Rightarrow> map (\<lambda>p. (PartitionRef (r_Generation r) (p_ID p), p)) (r_Partitions r)))"

definition ps_Ref :: "PartitionStatus \<Rightarrow> PartitionRef" where
  "ps_Ref s = PartitionRef (ps_Generation s) (ps_ID s)"

definition zero_status :: PartitionStatus where
  "zero_status =
     \<lparr>ps_Generation = 0, ps_ID = 0, ps_Role = NodeRoleUnset, ps_Epoch = 0, ps_DataEpoch = 0,
      ps_Seq = 0, ps_Synced = False, ps_Sealed = False, ps_Keys = 0, ps_MemTable = 0,
      ps_Levels = 0, ps_WAL = 0\<rparr>"

fun find_status :: "PartitionStatus list \<Rightarrow> PartitionRef \<Rightarrow> PartitionStatus \<times> bool" where
  "find_status [] ref = (zero_status, False)"
| "find_status (p # ps) ref = (if ps_Ref p = ref then (p, True) else find_status ps ref)"

definition NodeStatus_Partition :: "NodeStatus \<Rightarrow> PartitionRef \<Rightarrow> PartitionStatus \<times> bool" where
  "NodeStatus_Partition s ref = find_status (ns_Partitions s) ref"

section \<open>Basic facts\<close>

lemma ContainsString_iff [simp]: "ContainsString xs s \<longleftrightarrow> s \<in> set xs"
  by (induction xs) auto

lemma RemoveString_filter: "RemoveString xs s = filter (\<lambda>x. x \<noteq> s) xs"
  by (induction xs) auto

lemma set_RemoveString [simp]: "set (RemoveString xs s) = set xs - {s}"
  by (auto simp: RemoveString_filter)

lemma distinct_RemoveString [simp]: "distinct xs \<Longrightarrow> distinct (RemoveString xs s)"
  by (simp add: RemoveString_filter)

lemma RemoveString_idem [simp]: "s \<notin> set xs \<Longrightarrow> RemoveString xs s = xs"
  by (induction xs) auto

lemma set_Holders:
  "set (Holders p) = (if p_Leader p = '''' then {} else {p_Leader p}) \<union> set (p_Followers p) \<union> set (p_Joining p)"
  by (auto simp: Holders_def)

lemma Has_iff_Holders: "n \<noteq> '''' \<Longrightarrow> Has p n \<longleftrightarrow> n \<in> set (Holders p)"
  by (auto simp: Has_def set_Holders)

lemma find_status_True:
  "find_status ps ref = (st, True) \<Longrightarrow> st \<in> set ps \<and> ps_Ref st = ref"
  by (induction ps) (auto split: if_splits)

section \<open>Well-formed layouts\<close>

text \<open>
  Counts match the partition lists and fit in 32 bits (the API admits 1 to 1024), ids are
  indices, and a resharding has its own generation and one status per partition.
\<close>

definition table_ok :: "int \<Rightarrow> Partition list \<Rightarrow> bool" where
  "table_ok n ps \<longleftrightarrow> 0 < n \<and> n < 2 ^ 32 \<and> int (length ps) = n \<and>
     (\<forall>i < length ps. p_ID (ps ! i) = int i)"

definition layout_ok :: "Layout \<Rightarrow> bool" where
  "layout_ok l \<longleftrightarrow> table_ok (l_PartitionCount l) (l_Partitions l) \<and>
     (case l_Resharding l of
        None \<Rightarrow> True
      | Some r \<Rightarrow> table_ok (r_PartitionCount r) (r_Partitions r) \<and>
          int (length (r_Status r)) = r_PartitionCount r \<and> r_Generation r \<noteq> l_Generation l)"

lemma table_ok_mod:
  assumes "table_ok n ps"
  obtains i where "mod_u32 h n = Some i" and "0 \<le> i" and "i < int (length ps)"
    and "p_ID (ps ! nat i) = i"
proof -
  obtain i where "mod_u32 h n = Some i" "0 \<le> i" "i < n"
    using assms mod_u32_bounds [of n h] by (auto simp: table_ok_def)
  with assms show ?thesis by (intro that [of i]) (auto simp: table_ok_def)
qed

text \<open>Routing by the current generation alone, and by an in-progress resharding.\<close>

lemma route_current_ok:
  assumes "layout_ok l"
  obtains i where "mod_u32 h (l_PartitionCount l) = Some i"
    and "route_current l h = Some (PartitionRef (l_Generation l) i, Some (l_Partitions l ! nat i))"
    and "0 \<le> i" and "i < int (length (l_Partitions l))"
proof -
  from assms have "table_ok (l_PartitionCount l) (l_Partitions l)"
    by (simp add: layout_ok_def)
  then obtain i where "mod_u32 h (l_PartitionCount l) = Some i" "0 \<le> i" "i < int (length (l_Partitions l))"
    by (rule table_ok_mod)
  then show ?thesis by (intro that [of i]) (simp_all add: route_current_def)
qed

lemma Route_stable:
  assumes "layout_ok l" and "l_Resharding l = None"
  shows "Route (Some l) k = route_current l (Sum k)"
  using assms by (auto simp: Route_def layout_ok_def table_ok_def)

lemma Route_resharding:
  assumes "layout_ok l" and "l_Resharding l = Some r"
  obtains i where "mod_u32 (Sum k) (r_PartitionCount r) = Some i"
    and "0 \<le> i" and "i < int (length (r_Partitions r))"
    and "Route (Some l) k =
      (if r_Status r ! nat i = MigrationDone
       then Some (PartitionRef (r_Generation r) i, Some (r_Partitions r ! nat i))
       else route_current l (Sum k))"
proof -
  from assms have t: "table_ok (r_PartitionCount r) (r_Partitions r)"
    and st: "int (length (r_Status r)) = r_PartitionCount r"
    and c: "table_ok (l_PartitionCount l) (l_Partitions l)"
    by (auto simp: layout_ok_def)
  from t obtain i where i: "mod_u32 (Sum k) (r_PartitionCount r) = Some i"
    "0 \<le> i" "i < int (length (r_Partitions r))"
    by (rule table_ok_mod)
  with t st c assms(2) show ?thesis
    by (intro that [of i]) (simp_all add: Route_def table_ok_def)
qed

lemma Find_current:
  assumes "0 \<le> i" and "i < int (length (l_Partitions l))"
  shows "Find (Some l) (PartitionRef (l_Generation l) i) = Some (l_Partitions l ! nat i)"
  using assms by (simp add: Find_def)

lemma Find_next:
  assumes "l_Resharding l = Some r" and "r_Generation r \<noteq> l_Generation l"
    and "0 \<le> i" and "i < int (length (r_Partitions r))"
  shows "Find (Some l) (PartitionRef (r_Generation r) i) = Some (r_Partitions r ! nat i)"
  using assms by (simp add: Find_def)

lemma Route_Find:
  assumes "layout_ok l"
  obtains ref p where "Route (Some l) k = Some (ref, Some p)" and "Find (Some l) ref = Some p"
    and "p_ID p = ref_ID ref"
proof (cases "\<exists>r i. l_Resharding l = Some r \<and> mod_u32 (Sum k) (r_PartitionCount r) = Some i \<and>
    r_Status r ! nat i = MigrationDone")
  case True
  then obtain r i where r: "l_Resharding l = Some r"
    and i: "mod_u32 (Sum k) (r_PartitionCount r) = Some i" "r_Status r ! nat i = MigrationDone"
    by blast
  from Route_resharding [OF assms r, of k] i
  have "0 \<le> i" "i < int (length (r_Partitions r))"
    "Route (Some l) k = Some (PartitionRef (r_Generation r) i, Some (r_Partitions r ! nat i))"
    by (metis option.inject)+
  with assms r show ?thesis
    by (intro that [of "PartitionRef (r_Generation r) i"])
      (auto simp: Find_next layout_ok_def table_ok_def)
next
  case False
  have "Route (Some l) k = route_current l (Sum k)"
  proof (cases "l_Resharding l")
    case None
    with assms show ?thesis by (rule Route_stable)
  next
    case (Some r)
    with False Route_resharding [OF assms Some, of k] show ?thesis by metis
  qed
  moreover obtain i where "route_current l (Sum k) =
      Some (PartitionRef (l_Generation l) i, Some (l_Partitions l ! nat i))"
    and "0 \<le> i" "i < int (length (l_Partitions l))"
    using assms by (rule route_current_ok [of l "Sum k"])
  ultimately show ?thesis
    using assms that [of "PartitionRef (l_Generation l) i" "l_Partitions l ! nat i"]
    by (auto simp: Find_current layout_ok_def table_ok_def)
qed

section \<open>Properties\<close>

text \<open>
  C31. On a well-formed layout, resharding or not, every key has exactly one owner: \<open>Route\<close>
  returns (without a panic) a partition that \<open>Find\<close> resolves to from the returned reference, and
  \<open>Owns\<close> accepts that reference for the key and rejects every other one. A node that checks
  \<open>Owns\<close> and a load balancer that uses \<open>Route\<close> therefore agree whenever they see the same layout.
\<close>

theorem route_unique_owner:
  assumes "layout_ok l"
  shows "\<exists>ref p. Route (Some l) k = Some (ref, Some p) \<and> Find (Some l) ref = Some p \<and>
    p_ID p = ref_ID ref \<and> (\<forall>ref'. Owns (Some l) ref' k = Some (ref' = ref))"
proof -
  obtain ref p where "Route (Some l) k = Some (ref, Some p)" "Find (Some l) ref = Some p"
    "p_ID p = ref_ID ref"
    using assms by (rule Route_Find)
  then show ?thesis by (auto simp: Owns_def)
qed

definition example_partition :: "int \<Rightarrow> Partition" where
  "example_partition i =
     \<lparr>p_ID = i, p_Epoch = 1, p_Leader = ''node1'', p_Followers = [''node2''], p_Joining = [],
      p_Evict = [], p_State = PartitionActive, p_HandoffTo = '''', p_HandoffAt = 0,
      p_HandoffVersion = 0, p_Pinned = False\<rparr>"

definition example_layout :: Layout where
  "example_layout =
     \<lparr>l_Version = 7, l_Generation = 1, l_PartitionCount = 2,
      l_Partitions = [example_partition 0, example_partition 1],
      l_Resharding = Some \<lparr>r_Generation = 2, r_PartitionCount = 3,
        r_Partitions = [example_partition 0, example_partition 1, example_partition 2],
        r_Status = [MigrationPending, MigrationPending, MigrationDone]\<rparr>,
      l_Members = [(''node1'', 11), (''node2'', 12)]\<rparr>"

lemma example_layout_ok: "layout_ok example_layout"
  by (auto simp: layout_ok_def table_ok_def example_layout_def example_partition_def
      less_Suc_eq)

theorem route_unique_owner_witness:
  "\<exists>ref p. Route (Some example_layout) ''user:42'' = Some (ref, Some p) \<and>
    Find (Some example_layout) ref = Some p \<and> p_ID p = ref_ID ref \<and>
    (\<forall>ref'. Owns (Some example_layout) ref' ''user:42'' = Some (ref' = ref))"
  by (rule route_unique_owner [OF example_layout_ok])

end
