(* ===== verification/Reshard.thy ===== *)
theory Reshard
  imports Model
begin

text \<open>
  The layout changes of an online resharding, from \<open>src/internal/controller/controller.go\<close>
  (\<open>reshardStep\<close>): a target partition is marked done once it was pulled, and when all are done
  the next generation becomes the current one. Both run inside \<open>updateLayout\<close> on a fresh copy
  of the layout.
\<close>

section \<open>Operations\<close>

datatype reshard_error =
    ReshardingReplaced
  | TargetChangedLeader PartitionRef
  | SourceChangedLeader int PartitionRef

datatype reshard_event =
    ReshardingFinished int int int \<comment> \<open>from, to, generation\<close>
  | PartitionLive PartitionRef node_id

definition all_done :: "MigrationStatus list \<Rightarrow> bool" where
  "all_done st \<longleftrightarrow> list_all (\<lambda>s. s = MigrationDone) st"

text \<open>The closure that makes generation \<open>g\<close> current; it leaves any other layout alone.\<close>

definition finish_resharding :: "int \<Rightarrow> Layout \<Rightarrow> Layout \<times> reshard_event list" where
  "finish_resharding g n =
     (case l_Resharding n of
        None \<Rightarrow> (n, [])
      | Some r \<Rightarrow>
          if r_Generation r \<noteq> g then (n, [])
          else if \<not> all_done (r_Status r) then (n, [])
          else (n\<lparr>l_Generation := r_Generation r, l_PartitionCount := r_PartitionCount r,
                  l_Partitions := r_Partitions r, l_Resharding := None\<rparr>,
                [ReshardingFinished (l_PartitionCount n) (r_PartitionCount r) (r_Generation r)]))"

text \<open>The first source whose partition changed leader since the pull was requested.\<close>

fun changed_source :: "Layout \<Rightarrow> MigrationSource list \<Rightarrow> int option" where
  "changed_source n [] = None"
| "changed_source n (src # srcs) =
     (if p_Epoch (l_Partitions n ! nat (ms_PartitionID src)) \<noteq> ms_Epoch src
      then Some (ms_PartitionID src) else changed_source n srcs)"

text \<open>The closure that marks target \<open>i\<close> of generation \<open>g\<close> done after a successful pull.\<close>

definition mark_migrated ::
  "int \<Rightarrow> nat \<Rightarrow> Partition \<Rightarrow> MigrationSource list \<Rightarrow> Layout \<Rightarrow> reshard_error + Layout \<times> reshard_event list"
  where
  "mark_migrated g i target sources n =
     (let ref = PartitionRef g (int i) in
      case l_Resharding n of
        None \<Rightarrow> Inl ReshardingReplaced
      | Some nr \<Rightarrow>
          if r_Generation nr \<noteq> g then Inl ReshardingReplaced
          else if p_Leader (r_Partitions nr ! i) \<noteq> p_Leader target \<or>
                  p_Epoch (r_Partitions nr ! i) \<noteq> p_Epoch target
          then Inl (TargetChangedLeader ref)
          else
            (case changed_source n sources of
               Some sid \<Rightarrow> Inl (SourceChangedLeader sid ref)
             | None \<Rightarrow>
                 Inr (n\<lparr>l_Resharding := Some (nr\<lparr>r_Status := (r_Status nr)[i := MigrationDone]\<rparr>)\<rparr>,
                      [PartitionLive ref (p_Leader target)])))"

section \<open>Lemmas\<close>

lemma changed_source_None:
  "changed_source n srcs = None \<longleftrightarrow>
     (\<forall>src \<in> set srcs. p_Epoch (l_Partitions n ! nat (ms_PartitionID src)) = ms_Epoch src)"
  by (induction srcs) auto

lemma mark_migrated_Inr:
  assumes "mark_migrated g i target sources n = Inr (n', ev)"
  obtains r where "l_Resharding n = Some r" and "r_Generation r = g"
    and "n' = n\<lparr>l_Resharding := Some (r\<lparr>r_Status := (r_Status r)[i := MigrationDone]\<rparr>)\<rparr>"
    and "changed_source n sources = None"
    and "p_Leader (r_Partitions r ! i) = p_Leader target"
    and "p_Epoch (r_Partitions r ! i) = p_Epoch target"
  using assms
  by (auto simp: mark_migrated_def Let_def split: option.splits if_splits)

lemma layout_ok_mark:
  assumes "layout_ok n" and "l_Resharding n = Some r"
  shows "layout_ok (n\<lparr>l_Resharding := Some (r\<lparr>r_Status := (r_Status r)[i := s]\<rparr>)\<rparr>)"
  using assms by (simp add: layout_ok_def)

lemma route_current_resharding [simp]:
  "route_current (n\<lparr>l_Resharding := x\<rparr>) h = route_current n h"
  by (simp add: route_current_def split: option.splits)

section \<open>Properties\<close>

text \<open>
  C29. Marking target partition \<open>i\<close> done moves exactly the keys that hash to \<open>i\<close> under the new
  count: they are served by partition \<open>i\<close> of the new generation from then on, and no other key
  changes its owner. It succeeds only while the target and every source still have the leader
  (epoch) the migration was run against.
\<close>

theorem mark_migrated_moves_exactly:
  assumes "layout_ok n" and "mark_migrated g i target sources n = Inr (n', ev)"
    and "l_Resharding n = Some r" and "i < length (r_Status r)"
  shows "Route (Some n') k =
      (if mod_u32 (Sum k) (r_PartitionCount r) = Some (int i)
       then Some (PartitionRef g (int i), Some (r_Partitions r ! i))
       else Route (Some n) k) \<and>
    (\<forall>src \<in> set sources. p_Epoch (l_Partitions n ! nat (ms_PartitionID src)) = ms_Epoch src) \<and>
    p_Leader (r_Partitions r ! i) = p_Leader target \<and> p_Epoch (r_Partitions r ! i) = p_Epoch target"
proof -
  have n': "n' = n\<lparr>l_Resharding := Some (r\<lparr>r_Status := (r_Status r)[i := MigrationDone]\<rparr>)\<rparr>"
    and g: "r_Generation r = g" and src: "changed_source n sources = None"
    and tgt: "p_Leader (r_Partitions r ! i) = p_Leader target"
      "p_Epoch (r_Partitions r ! i) = p_Epoch target"
    using assms(2,3) by (auto elim: mark_migrated_Inr)
  let ?r' = "r\<lparr>r_Status := (r_Status r)[i := MigrationDone]\<rparr>"
  have ok': "layout_ok n'" unfolding n' by (rule layout_ok_mark [OF assms(1,3)])
  obtain j where j: "mod_u32 (Sum k) (r_PartitionCount r) = Some j" "0 \<le> j"
    and old: "Route (Some n) k = (if r_Status r ! nat j = MigrationDone
       then Some (PartitionRef (r_Generation r) j, Some (r_Partitions r ! nat j))
       else route_current n (Sum k))"
    using assms(1,3) by (rule Route_resharding)
  have "l_Resharding n' = Some ?r'" by (simp add: n')
  with ok' obtain j' where j': "mod_u32 (Sum k) (r_PartitionCount ?r') = Some j'"
    and new: "Route (Some n') k = (if r_Status ?r' ! nat j' = MigrationDone
       then Some (PartitionRef (r_Generation ?r') j', Some (r_Partitions ?r' ! nat j'))
       else route_current n' (Sum k))"
    by (rule Route_resharding)
  from j j' have "j' = j" by simp
  then have "Route (Some n') k =
      (if mod_u32 (Sum k) (r_PartitionCount r) = Some (int i)
       then Some (PartitionRef g (int i), Some (r_Partitions r ! i)) else Route (Some n) k)"
    using new old j g assms(4) by (cases "j = int i") (auto simp: n' nth_list_update)
  with src tgt show ?thesis by (simp add: changed_source_None)
qed


text \<open>Concrete layouts: a resharding from two to three partitions with the last one done.\<close>

theorem mark_migrated_moves_exactly_witness:
  "\<exists>n' ev. mark_migrated 2 0 (example_partition 0)
      [\<lparr>ms_PartitionID = 1, ms_Epoch = 1, ms_Address = ''node1:7000''\<rparr>] example_layout = Inr (n', ev) \<and>
    Route (Some n') ''user:7'' =
      (if mod_u32 (Sum ''user:7'') 3 = Some 0
       then Some (PartitionRef 2 0, Some (example_partition 0))
       else Route (Some example_layout) ''user:7'')"
proof -
  let ?r = "the (l_Resharding example_layout)"
  have r: "l_Resharding example_layout = Some ?r" and len: "0 < length (r_Status ?r)"
    by (simp_all add: example_layout_def)
  let ?srcs = "[\<lparr>ms_PartitionID = 1, ms_Epoch = 1, ms_Address = ''node1:7000''\<rparr>]"
  obtain n' ev where n': "mark_migrated 2 0 (example_partition 0) ?srcs example_layout = Inr (n', ev)"
    by (simp add: mark_migrated_def example_layout_def example_partition_def Let_def)
  from mark_migrated_moves_exactly [OF example_layout_ok n' r len, of "''user:7''"] n'
  show ?thesis by (auto simp: example_layout_def)
qed


end
