(* ===== verification/Interfaces.thy ===== *)
theory Interfaces
  imports Prelude
begin

text \<open>
  The contracts between components. \<open>kv_store\<close> is what a partition replica
  (\<open>src/internal/partition\<close>) relies on from its storage (\<open>src/internal/storage\<close>).
  Each contract is interpreted on the model of the component that provides it, in that
  component's theory.
\<close>

section \<open>Key-value storage\<close>

locale kv_store =
  fixes inv :: "'s \<Rightarrow> bool"
    and contents :: "'s \<Rightarrow> key \<rightharpoonup> string"
    and put :: "key \<Rightarrow> string \<Rightarrow> 's \<Rightarrow> 's"
    and delete :: "key \<Rightarrow> 's \<Rightarrow> 's"
    and flush :: "int \<Rightarrow> 's \<Rightarrow> 's"
    and reset :: "'s \<Rightarrow> 's"
    and load :: "(key, string) gomap \<Rightarrow> int \<Rightarrow> 's \<Rightarrow> 's"
    and export :: "int \<Rightarrow> (key \<Rightarrow> bool) \<Rightarrow> 's \<Rightarrow> (key, string) gomap"
  assumes finite_contents: "inv s \<Longrightarrow> finite (dom (contents s))"
    and inv_put: "inv s \<Longrightarrow> inv (put k v s)"
    and inv_delete: "inv s \<Longrightarrow> inv (delete k s)"
    and inv_flush: "inv s \<Longrightarrow> inv (flush c s)"
    and inv_reset: "inv s \<Longrightarrow> inv (reset s)"
    and inv_load: "inv s \<Longrightarrow> gm_ok d \<Longrightarrow> inv (load d c s)"
    and contents_put: "inv s \<Longrightarrow> contents (put k v s) = (contents s)(k \<mapsto> v)"
    and contents_delete: "inv s \<Longrightarrow> contents (delete k s) = (contents s)(k := None)"
    and contents_flush: "inv s \<Longrightarrow> contents (flush c s) = contents s"
    and contents_reset: "inv s \<Longrightarrow> contents (reset s) = Map.empty"
    and contents_load: "inv s \<Longrightarrow> gm_ok d \<Longrightarrow> contents (load d c s) = map_of d"
    and ok_export: "inv s \<Longrightarrow> gm_ok (export c f s)"
    and map_of_export: "inv s \<Longrightarrow> map_of (export c f s) = contents s |` {k. f k}"
begin

lemmas inv_intros = inv_put inv_delete inv_flush inv_reset inv_load

lemmas contents_simps =
  contents_put contents_delete contents_flush contents_reset contents_load map_of_export

text \<open>The number of keys after a write, as a client that counts keys needs it.\<close>

lemma card_put:
  assumes "inv s"
  shows "card (dom (contents (put k v s))) =
    (if contents s k = None then Suc (card (dom (contents s))) else card (dom (contents s)))"
  using finite_contents [OF assms] by (simp only: contents_put [OF assms] card_dom_upd)

lemma card_delete:
  assumes "inv s" and "contents s k \<noteq> None"
  shows "card (dom (contents s)) = Suc (card (dom (contents (delete k s))))"
  using finite_contents [OF assms(1)] assms(2)
  by (simp only: contents_delete [OF assms(1)] card_dom_del)

text \<open>A copy loaded from an unfiltered export has the same contents and as many keys.\<close>

lemma load_export:
  assumes "inv s" and "inv t"
  shows "contents (load (export c (\<lambda>_. True) s) c' t) = contents s"
  using assms by (simp add: contents_load ok_export map_of_export)

lemma length_export:
  assumes "inv s"
  shows "length (export c (\<lambda>_. True) s) = card (dom (contents s))"
  using assms by (simp add: gm_len_card ok_export map_of_export)

end

section \<open>Sequenced log\<close>

text \<open>
  What a replica relies on from its write-ahead log (\<open>src/internal/wal\<close>): the log is a window on
  a history, the list of all entries ever recorded, numbered from 1. \<open>holds h w\<close> says that \<open>w\<close>
  is such a window on \<open>h\<close>; truncation shortens the window, never the history. \<open>after\<close> either
  returns the entries that follow a position, or reports that they were truncated.
\<close>

locale sequenced_log =
  fixes holds :: "'e list \<Rightarrow> 'w \<Rightarrow> bool"
    and numbered :: "'e \<Rightarrow> int"
    and seqno :: "'w \<Rightarrow> int"
    and record_entry :: "'e \<Rightarrow> 'w \<Rightarrow> 'w"
    and after :: "int \<Rightarrow> int \<Rightarrow> 'w \<Rightarrow> 'e list \<times> bool"
    and reset :: "int \<Rightarrow> 'w \<Rightarrow> 'w"
  assumes holds_seqno: "holds h w \<Longrightarrow> seqno w = int (length h)"
    and holds_numbered: "holds h w \<Longrightarrow> i < length h \<Longrightarrow> numbered (h ! i) = int i + 1"
    and holds_record:
      "holds h w \<Longrightarrow> numbered e = int (length h) + 1 \<Longrightarrow> holds (h @ [e]) (record_entry e w)"
    and holds_reset:
      "holds h' w \<Longrightarrow> (\<And>i. i < length h \<Longrightarrow> numbered (h ! i) = int i + 1) \<Longrightarrow>
        holds h (reset (int (length h)) w)"
    and after_entries: "holds h w \<Longrightarrow> 0 \<le> pos \<Longrightarrow> after pos limit w = (es, True) \<Longrightarrow>
        es = (if 0 < limit then take (nat limit) (drop (nat pos) h) else drop (nat pos) h)"
begin

text \<open>A replica at \<open>pos\<close> that appends what \<open>after\<close> returns stays on the same history.\<close>

lemma after_extends_prefix:
  assumes "holds h w" and "0 \<le> pos" and "pos \<le> int (length h)" and "after pos limit w = (es, True)"
  shows "prefix (take (nat pos) h @ es) h"
proof -
  have "take (nat pos) h @ es =
      (if 0 < limit then take (nat pos + nat limit) h else h)"
    using after_entries [OF assms(1,2,4)] by (simp add: take_add)
  then show ?thesis by (simp add: take_is_prefix)
qed

text \<open>Without a limit it has the whole history.\<close>

lemma after_catches_up:
  assumes "holds h w" and "0 \<le> pos" and "after pos 0 w = (es, True)"
  shows "take (nat pos) h @ es = h"
  using after_entries [OF assms] by simp

lemma after_numbered:
  assumes "holds h w" and "0 \<le> pos" and "after pos limit w = (es, True)" and "i < length es"
  shows "numbered (es ! i) = pos + int i + 1"
proof -
  have es: "es = (if 0 < limit then take (nat limit) (drop (nat pos) h) else drop (nat pos) h)"
    using after_entries [OF assms(1-3)] .
  with assms(4) have "es ! i = h ! (nat pos + i)" and "nat pos + i < length h"
    by (auto split: if_splits)
  with holds_numbered [OF assms(1)] assms(2) show ?thesis by simp
qed

end

section \<open>Evolution\<close>

text \<open>
  What operations of a component keep of its state, as a reflexive and transitive relation; a loop
  of such operations keeps it too.
\<close>

locale evolution =
  fixes evolves :: "'s \<Rightarrow> 's \<Rightarrow> bool"
  assumes refl: "evolves s s"
    and trans: "evolves s t \<Longrightarrow> evolves t u \<Longrightarrow> evolves s u"
begin

lemma fold_evolves: "(\<And>x s. evolves s (f x s)) \<Longrightarrow> evolves s (fold f xs s)"
  by (induction xs arbitrary: s) (auto intro: refl trans)

end

end
