(* ===== verification/Lsm.thy ===== *)
theory Lsm
  imports Interfaces
begin

text \<open>
  \<open>src/internal/storage/lsm.go\<close>: the in-memory LSM store. A level is never modified after its
  creation, so a level is a value and a view is a list of levels. Compaction runs in two
  critical sections with the merge in between; \<open>lsm_step\<close> interleaves it with all other
  operations of the store.
\<close>

section \<open>Data\<close>

record entry =
  e_value :: string
  e_deleted :: bool

record level =
  lv_data :: "(key, entry) gomap"
  lv_checkpoint :: int

record View =
  v_levels :: "level list"
  v_Checkpoint :: int

record Store =
  st_active :: "(key, entry) gomap"
  st_levels :: "level list" \<comment> \<open>oldest first\<close>
  st_flushSize :: int
  st_maxLevels :: int
  st_resets :: nat

section \<open>Operations\<close>

definition Store_New :: "int \<Rightarrow> int \<Rightarrow> Store" where
  "Store_New flushSize maxLevels =
     \<lparr>st_active = [], st_levels = [],
      st_flushSize = (if flushSize \<le> 0 then 4096 else flushSize),
      st_maxLevels = (if maxLevels \<le> 0 then 4 else maxLevels),
      st_resets = 0\<rparr>"

text \<open>The loop of \<open>Get\<close> over the levels, which it visits from the newest to the oldest.\<close>

fun levels_get :: "level list \<Rightarrow> key \<Rightarrow> string \<times> bool" where
  "levels_get [] k = ('''', False)"
| "levels_get (l # ls) k =
     (case map_of (lv_data l) k of
        Some e \<Rightarrow> (e_value e, \<not> e_deleted e)
      | None \<Rightarrow> levels_get ls k)"

definition Store_Get :: "Store \<Rightarrow> key \<Rightarrow> string \<times> bool" where
  "Store_Get s k =
     (case map_of (st_active s) k of
        Some e \<Rightarrow> (e_value e, \<not> e_deleted e)
      | None \<Rightarrow> levels_get (rev (st_levels s)) k)"

definition Store_Put :: "key \<Rightarrow> string \<Rightarrow> Store \<Rightarrow> Store" where
  "Store_Put k v s = s\<lparr>st_active := gm_put k \<lparr>e_value = v, e_deleted = False\<rparr> (st_active s)\<rparr>"

definition Store_Delete :: "key \<Rightarrow> Store \<Rightarrow> Store" where
  "Store_Delete k s = s\<lparr>st_active := gm_put k \<lparr>e_value = '''', e_deleted = True\<rparr> (st_active s)\<rparr>"

definition ShouldFlush :: "Store \<Rightarrow> bool" where
  "ShouldFlush s \<longleftrightarrow> st_flushSize s \<le> int (length (st_active s))"

text \<open>The result: the view, whether a background compaction is started, and the store.\<close>

definition Store_Flush :: "int \<Rightarrow> Store \<Rightarrow> View \<times> bool \<times> Store" where
  "Store_Flush checkpoint s =
     (let s' = (if 0 < length (st_active s)
                then s\<lparr>st_levels := st_levels s @ [\<lparr>lv_data = st_active s, lv_checkpoint = checkpoint\<rparr>],
                       st_active := []\<rparr>
                else s)
      in (\<lparr>v_levels = st_levels s', v_Checkpoint = checkpoint\<rparr>,
          st_maxLevels s' < int (length (st_levels s')),
          s'))"

text \<open>
  \<open>compactLocked\<close>, in its three parts: the first critical section reads the levels, the merge
  runs without a lock, the second critical section installs the merged level. Slicing off more
  levels than there are is a run-time panic (\<open>None\<close>).
\<close>

definition compact_read :: "Store \<Rightarrow> (level list \<times> nat) option" where
  "compact_read s = (if length (st_levels s) < 2 then None else Some (st_levels s, st_resets s))"

definition merge_entry :: "(key, entry) gomap \<Rightarrow> key \<times> entry \<Rightarrow> (key, entry) gomap" where
  "merge_entry merged ke =
     (if e_deleted (snd ke) then gm_del (fst ke) merged else gm_put (fst ke) (snd ke) merged)"

definition compact_merge :: "level list \<Rightarrow> level" where
  "compact_merge input =
     \<lparr>lv_data = foldl (\<lambda>merged l. foldl merge_entry merged (lv_data l)) [] input,
      lv_checkpoint = lv_checkpoint (last input)\<rparr>"

definition compact_install :: "level list \<Rightarrow> nat \<Rightarrow> level \<Rightarrow> Store \<Rightarrow> Store option" where
  "compact_install input resets bottom s =
     (if st_resets s \<noteq> resets then Some s
      else if length (st_levels s) < length input then None
      else Some (s\<lparr>st_levels := bottom # drop (length input) (st_levels s)\<rparr>))"

definition compactLocked :: "Store \<Rightarrow> Store option" where
  "compactLocked s =
     (case compact_read s of
        None \<Rightarrow> Some s
      | Some (input, resets) \<Rightarrow> compact_install input resets (compact_merge input) s)"

definition Store_Load :: "(key, string) gomap \<Rightarrow> int \<Rightarrow> Store \<Rightarrow> Store" where
  "Store_Load data checkpoint s =
     s\<lparr>st_resets := Suc (st_resets s), st_active := [],
       st_levels := [\<lparr>lv_data = map (\<lambda>(k, v). (k, \<lparr>e_value = v, e_deleted = False\<rparr>)) data,
                      lv_checkpoint = checkpoint\<rparr>]\<rparr>"

definition Store_Reset :: "Store \<Rightarrow> Store" where
  "Store_Reset s = s\<lparr>st_resets := Suc (st_resets s), st_active := [], st_levels := []\<rparr>"

definition Store_Stats :: "Store \<Rightarrow> int \<times> int" where
  "Store_Stats s = (int (length (st_active s)), int (length (st_levels s)))"

definition materialize_entry ::
  "(key \<Rightarrow> bool) \<Rightarrow> (key, string) gomap \<Rightarrow> key \<times> entry \<Rightarrow> (key, string) gomap" where
  "materialize_entry accept out ke =
     (if \<not> accept (fst ke) then out
      else if e_deleted (snd ke) then gm_del (fst ke) out
      else gm_put (fst ke) (e_value (snd ke)) out)"

text \<open>A \<open>nil\<close> filter accepts every key.\<close>

definition Materialize :: "(key \<Rightarrow> bool) option \<Rightarrow> View \<Rightarrow> (key, string) gomap" where
  "Materialize filter_fn v =
     foldl (\<lambda>out l. foldl (materialize_entry (case filter_fn of None \<Rightarrow> \<lambda>_. True | Some f \<Rightarrow> f))
        out (lv_data l)) [] (v_levels v)"

lemmas [store_defs] =
  Store_New_def Store_Put_def Store_Delete_def Store_Flush_def compact_read_def compact_merge_def
  compact_install_def compactLocked_def Store_Load_def Store_Reset_def Let_def

section \<open>Contents and invariant\<close>

text \<open>What a reader sees.\<close>

definition contents :: "Store \<Rightarrow> key \<rightharpoonup> string" where
  "contents s k = (case Store_Get s k of (v, ok) \<Rightarrow> if ok then Some v else None)"

definition store_ok :: "Store \<Rightarrow> bool" where
  "store_ok s \<longleftrightarrow> gm_ok (st_active s) \<and> (\<forall>l \<in> set (st_levels s). gm_ok (lv_data l)) \<and>
     0 < st_flushSize s \<and> 0 < st_maxLevels s"

definition live :: "entry option \<Rightarrow> string option" where
  "live x = (case x of None \<Rightarrow> None | Some e \<Rightarrow> if e_deleted e then None else Some (e_value e))"

lemma live_simps [simp]:
  "live None = None"
  "live (Some e) = (if e_deleted e then None else Some (e_value e))"
  by (simp_all add: live_def)

text \<open>The levels as one map, newer levels shadowing older ones.\<close>

definition level_map :: "level list \<Rightarrow> key \<rightharpoonup> entry" where
  "level_map ls = foldl (\<lambda>m l. m ++ map_of (lv_data l)) Map.empty ls"

lemma level_map_Nil [simp]: "level_map [] = Map.empty"
  by (simp add: level_map_def)

lemma level_map_snoc [simp]: "level_map (ls @ [l]) = level_map ls ++ map_of (lv_data l)"
  by (simp add: level_map_def)

lemma level_map_append: "level_map (ls @ ms) = level_map ls ++ level_map ms"
proof (induction ms rule: rev_induct)
  case (snoc m ms)
  then show ?case by (simp flip: append_assoc)
qed simp

lemma level_map_single [simp]: "level_map [l] = map_of (lv_data l)"
  by (simp add: level_map_def)

lemma level_map_Cons: "level_map (l # ls) = map_of (lv_data l) ++ level_map ls"
  using level_map_append [of "[l]" ls] by simp

lemma levels_get_live:
  "(case levels_get (rev ls) k of (v, ok) \<Rightarrow> if ok then Some v else None) = live (level_map ls k)"
  by (induction ls rule: rev_induct) (auto simp: map_add_def split: option.splits)

lemma contents_eq: "contents s k = live ((level_map (st_levels s) ++ map_of (st_active s)) k)"
  using levels_get_live [of "st_levels s" k]
  by (auto simp: contents_def Store_Get_def map_add_def split: option.splits)

lemma finite_level_map: "finite (dom (level_map ls))"
  by (induction ls rule: rev_induct) (auto simp: finite_dom_map_of)

lemma finite_contents: "finite (dom (contents s))"
proof (rule finite_subset)
  show "dom (contents s) \<subseteq> dom (level_map (st_levels s) ++ map_of (st_active s))"
    by (auto simp: contents_eq domIff live_def split: option.splits)
  show "finite (dom (level_map (st_levels s) ++ map_of (st_active s)))"
    by (simp add: finite_level_map finite_dom_map_of)
qed

section \<open>Merging levels\<close>

lemma map_of_merge_entry:
  "map_of (merge_entry acc (k, e)) = (map_of acc)(k := if e_deleted e then None else Some e)"
  by (simp add: merge_entry_def gomap_simps)

lemma gm_ok_merge_entry [simp]: "gm_ok acc \<Longrightarrow> gm_ok (merge_entry acc ke)"
  by (simp add: merge_entry_def)

lemma map_of_merge_level:
  assumes "gm_ok data"
  shows "map_of (foldl merge_entry acc data) k =
    (case map_of data k of None \<Rightarrow> map_of acc k | Some e \<Rightarrow> if e_deleted e then None else Some e)"
  by (rule map_of_range_loop [OF assms, of merge_entry "\<lambda>k e _. if e_deleted e then None else Some e"])
    (rule map_of_merge_entry)

lemma map_of_compact_merge:
  assumes "\<forall>l \<in> set ls. gm_ok (lv_data l)"
  shows "map_of (lv_data (compact_merge ls)) k =
    (case level_map ls k of None \<Rightarrow> None | Some e \<Rightarrow> if e_deleted e then None else Some e)"
  using assms
proof (induction ls rule: rev_induct)
  case Nil
  then show ?case by (simp add: compact_merge_def)
next
  case (snoc l ls)
  then show ?case
    by (auto simp: compact_merge_def map_of_merge_level map_add_def split: option.splits)
qed

lemma gm_ok_compact_merge: "gm_ok (lv_data (compact_merge ls))"
  unfolding compact_merge_def
  by (simp, intro foldl_inv [where P = gm_ok] gm_ok_range_loop) simp_all

lemma live_compact_merge:
  assumes "\<forall>l \<in> set ls. gm_ok (lv_data l)"
  shows "live ((map_of (lv_data (compact_merge ls)) ++ m) k) = live ((level_map ls ++ m) k)"
  using map_of_compact_merge [OF assms, of k] by (auto simp: map_add_def split: option.splits)

section \<open>Materializing a view\<close>

lemma map_of_materialize_entry:
  "map_of (materialize_entry f acc (k, e)) =
    (map_of acc)(k := if f k then (if e_deleted e then None else Some (e_value e)) else map_of acc k)"
  by (auto simp: materialize_entry_def gomap_simps)

lemma gm_ok_materialize_entry [simp]: "gm_ok acc \<Longrightarrow> gm_ok (materialize_entry f acc ke)"
  by (simp add: materialize_entry_def)

lemma map_of_materialize_level:
  assumes "gm_ok data"
  shows "map_of (foldl (materialize_entry f) acc data) k =
    (case map_of data k of None \<Rightarrow> map_of acc k
     | Some e \<Rightarrow> if f k then (if e_deleted e then None else Some (e_value e)) else map_of acc k)"
  by (rule map_of_range_loop [OF assms, of "materialize_entry f"
        "\<lambda>k e old. if f k then (if e_deleted e then None else Some (e_value e)) else old"])
    (rule map_of_materialize_entry)

lemma map_of_Materialize:
  assumes "\<forall>l \<in> set (v_levels v). gm_ok (lv_data l)"
  shows "map_of (Materialize (Some f) v) = (\<lambda>k. live (level_map (v_levels v) k)) |` {k. f k}"
proof
  fix k
  have "map_of (foldl (\<lambda>out l. foldl (materialize_entry f) out (lv_data l)) [] ls) k =
      (if f k then live (level_map ls k) else None)"
    if "\<forall>l \<in> set ls. gm_ok (lv_data l)" for ls
    using that
    by (induction ls rule: rev_induct)
      (auto simp: map_of_materialize_level map_add_def split: option.splits)
  then show "map_of (Materialize (Some f) v) k =
      ((\<lambda>k. live (level_map (v_levels v) k)) |` {k. f k}) k"
    using assms by (simp add: Materialize_def restrict_map_def)
qed

lemma Materialize_None: "Materialize None v = Materialize (Some (\<lambda>_. True)) v"
  by (simp add: Materialize_def)

lemma gm_ok_Materialize: "gm_ok (Materialize f v)"
  unfolding Materialize_def
  by (intro foldl_inv [where P = gm_ok] gm_ok_range_loop) simp_all

section \<open>Effect of the operations on the contents\<close>

lemma snd_snd_Flush:
  "snd (snd (Store_Flush c s)) =
     (if st_active s = [] then s
      else s\<lparr>st_levels := st_levels s @ [\<lparr>lv_data = st_active s, lv_checkpoint = c\<rparr>], st_active := []\<rparr>)"
  by (simp add: Store_Flush_def Let_def)

lemma v_levels_Flush [simp]:
  "v_levels (fst (Store_Flush c s)) = st_levels (snd (snd (Store_Flush c s)))"
  "v_Checkpoint (fst (Store_Flush c s)) = c"
  by (simp_all add: Store_Flush_def Let_def)

lemma active_after_Flush [simp]: "st_active (snd (snd (Store_Flush c s))) = []"
  by (simp add: snd_snd_Flush)

lemma store_ok_ops [intro]:
  assumes "store_ok s"
  shows "store_ok (Store_Put k v s)" and "store_ok (Store_Delete k s)"
    and "store_ok (snd (snd (Store_Flush c s)))" and "store_ok (Store_Reset s)"
    and "gm_ok d \<Longrightarrow> store_ok (Store_Load d c s)"
  using assms
  by (auto simp: store_ok_def Store_Put_def Store_Delete_def snd_snd_Flush Store_Reset_def Store_Load_def)

lemma store_ok_New: "store_ok (Store_New f m)"
  by (simp add: store_ok_def Store_New_def)

lemma contents_New: "contents (Store_New f m) = Map.empty"
  by (rule ext) (simp add: contents_eq Store_New_def)

lemma contents_Put: "contents (Store_Put k v s) = (contents s)(k \<mapsto> v)"
  by (rule ext) (simp add: contents_eq Store_Put_def gomap_simps map_add_def)

lemma contents_Delete: "contents (Store_Delete k s) = (contents s)(k := None)"
  by (rule ext) (simp add: contents_eq Store_Delete_def gomap_simps map_add_def)

lemma contents_Flush: "contents (snd (snd (Store_Flush c s))) = contents s"
  by (rule ext) (simp add: contents_eq snd_snd_Flush)

lemma contents_Reset: "contents (Store_Reset s) = Map.empty"
  by (rule ext) (simp add: contents_eq Store_Reset_def)

lemma contents_Load: "contents (Store_Load d c s) = map_of d"
proof
  show "contents (Store_Load d c s) k = map_of d k" for k
    by (cases "map_of d k") (simp_all add: contents_eq Store_Load_def map_of_map_snd)
qed

lemma Materialize_Flush:
  assumes "store_ok s"
  shows "map_of (Materialize (Some f) (fst (Store_Flush c s))) = contents s |` {k. f k}"
proof -
  let ?s = "snd (snd (Store_Flush c s))"
  have "\<forall>l \<in> set (v_levels (fst (Store_Flush c s))). gm_ok (lv_data l)"
    using store_ok_ops(3) [OF assms] by (simp add: store_ok_def)
  moreover have "(\<lambda>k. live (level_map (st_levels ?s) k)) = contents ?s"
    by (rule ext) (simp add: contents_eq)
  ultimately show ?thesis by (simp add: map_of_Materialize contents_Flush)
qed

interpretation lsm: kv_store store_ok contents Store_Put Store_Delete
  "\<lambda>c s. snd (snd (Store_Flush c s))" Store_Reset Store_Load
  "\<lambda>c f s. Materialize (Some f) (fst (Store_Flush c s))"
  by unfold_locales
    (auto simp: finite_contents contents_Put contents_Delete contents_Flush contents_Reset
      contents_Load gm_ok_Materialize Materialize_Flush)

section \<open>Interleaved compaction\<close>

text \<open>
  The store together with a compaction that has left its first critical section and not yet
  entered its second one. \<open>compactMu\<close> admits one compaction at a time. Every other operation
  may run in between, in any order.
\<close>

record lsm_sys =
  sys_store :: Store
  sys_compaction :: "(level list \<times> nat) option"

datatype lsm_op =
    LPut key string
  | LDelete key
  | LFlush int
  | LLoad "(key, string) gomap" int
  | LReset
  | LCompactBegin
  | LCompactEnd

inductive lsm_step :: "lsm_sys \<Rightarrow> lsm_op \<Rightarrow> lsm_sys \<Rightarrow> bool" where
  put: "lsm_step s (LPut k v) (s\<lparr>sys_store := Store_Put k v (sys_store s)\<rparr>)"
| delete: "lsm_step s (LDelete k) (s\<lparr>sys_store := Store_Delete k (sys_store s)\<rparr>)"
| flush: "lsm_step s (LFlush c) (s\<lparr>sys_store := snd (snd (Store_Flush c (sys_store s)))\<rparr>)"
| load: "gm_ok d \<Longrightarrow> lsm_step s (LLoad d c) (s\<lparr>sys_store := Store_Load d c (sys_store s)\<rparr>)"
| reset: "lsm_step s LReset (s\<lparr>sys_store := Store_Reset (sys_store s)\<rparr>)"
| compact_begin: "sys_compaction s = None \<Longrightarrow>
    lsm_step s LCompactBegin (s\<lparr>sys_compaction := compact_read (sys_store s)\<rparr>)"
| compact_end: "sys_compaction s = Some (input, resets) \<Longrightarrow>
    compact_install input resets (compact_merge input) (sys_store s) = Some st \<Longrightarrow>
    lsm_step s LCompactEnd (s\<lparr>sys_store := st, sys_compaction := None\<rparr>)"

inductive_cases lsm_step_endE: "lsm_step s LCompactEnd s'"

inductive lsm_reachable :: "lsm_sys \<Rightarrow> bool" where
  start: "lsm_reachable \<lparr>sys_store = Store_New f m, sys_compaction = None\<rparr>"
| step: "lsm_reachable s \<Longrightarrow> lsm_step s op s' \<Longrightarrow> lsm_reachable s'"

text \<open>The abstract store: a map, untouched by flushes and compactions.\<close>

fun kv_spec :: "lsm_op \<Rightarrow> (key \<rightharpoonup> string) \<Rightarrow> (key \<rightharpoonup> string)" where
  "kv_spec (LPut k v) m = m(k \<mapsto> v)"
| "kv_spec (LDelete k) m = m(k := None)"
| "kv_spec (LLoad d c) m = map_of d"
| "kv_spec LReset m = Map.empty"
| "kv_spec _ m = m"

text \<open>
  A running compaction's input is a prefix of the levels unless the store was reset meanwhile,
  which its counter shows.
\<close>

definition lsm_inv :: "lsm_sys \<Rightarrow> bool" where
  "lsm_inv s \<longleftrightarrow> store_ok (sys_store s) \<and>
     (case sys_compaction s of None \<Rightarrow> True
      | Some (input, resets) \<Rightarrow> 2 \<le> length input \<and> resets \<le> st_resets (sys_store s) \<and>
          (st_resets (sys_store s) = resets \<longrightarrow> prefix input (st_levels (sys_store s))))"

lemma install_effect:
  assumes "store_ok s" and "st_resets s = resets \<longrightarrow> prefix input (st_levels s)"
  obtains s' where "compact_install input resets (compact_merge input) s = Some s'"
    and "store_ok s'" and "contents s' = contents s"
proof (cases "st_resets s = resets")
  case False
  with assms(1) show ?thesis by (intro that [of s]) (simp_all add: compact_install_def)
next
  case True
  with assms(2) obtain rest where lv: "st_levels s = input @ rest"
    by (auto elim: prefixE)
  let ?s' = "s\<lparr>st_levels := compact_merge input # rest\<rparr>"
  have ok: "\<forall>l \<in> set input. gm_ok (lv_data l)"
    using assms(1) lv by (simp add: store_ok_def)
  show ?thesis
  proof (rule that [of ?s'])
    show "compact_install input resets (compact_merge input) s = Some ?s'"
      using True lv by (simp add: compact_install_def)
    show "store_ok ?s'"
      using assms(1) lv by (auto simp: store_ok_def gm_ok_compact_merge)
    show "contents ?s' = contents s"
      by (rule ext)
        (simp add: contents_eq lv level_map_Cons level_map_append live_compact_merge [OF ok]
          flip: map_add_assoc)
  qed
qed

lemma lsm_step_inv: "lsm_step s op s' \<Longrightarrow> lsm_inv s \<Longrightarrow> lsm_inv s'"
proof (induction rule: lsm_step.induct)
  case (compact_end s input resets st)
  then have "store_ok (sys_store s)"
    and "st_resets (sys_store s) = resets \<longrightarrow> prefix input (st_levels (sys_store s))"
    by (auto simp: lsm_inv_def)
  then have "store_ok st"
    by (rule install_effect) (use compact_end.hyps(2) in simp)
  then show ?case by (simp add: lsm_inv_def)
next
  case (flush s c)
  then show ?case
    by (auto simp: lsm_inv_def snd_snd_Flush store_ok_def prefix_append split: option.splits)
next
  case (compact_begin s)
  then show ?case by (auto simp: lsm_inv_def compact_read_def)
qed (auto simp: lsm_inv_def store_ok_def Store_Put_def Store_Delete_def Store_Load_def
      Store_Reset_def split: option.splits)

lemma lsm_reachable_inv: "lsm_reachable s \<Longrightarrow> lsm_inv s"
proof (induction rule: lsm_reachable.induct)
  case (start f m)
  then show ?case by (simp add: lsm_inv_def store_ok_New)
next
  case (step s op s')
  then show ?case by (blast intro: lsm_step_inv)
qed

section \<open>Properties\<close>

text \<open>
  C9. The store with background compaction refines a plain map. In every reachable state, each
  step (a write, a flush, a load, a reset, or either critical section of a compaction that
  runs in between) changes what \<open>Get\<close> answers exactly as the abstract map changes; flushing and
  compacting change nothing, tombstones dropped by the merge included.
\<close>

theorem lsm_refines_map:
  assumes "lsm_reachable s" and "lsm_step s op s'"
  shows "contents (sys_store s') = kv_spec op (contents (sys_store s))"
proof -
  have inv: "lsm_inv s" using assms(1) by (rule lsm_reachable_inv)
  from assms(2) show ?thesis
  proof cases
    case (compact_end input resets st)
    then have "store_ok (sys_store s)"
      and "st_resets (sys_store s) = resets \<longrightarrow> prefix input (st_levels (sys_store s))"
      using inv by (auto simp: lsm_inv_def)
    then have "contents st = contents (sys_store s)"
      by (rule install_effect) (use compact_end in simp)
    with compact_end show ?thesis by simp
  qed (simp_all add: contents_Put contents_Delete contents_Flush contents_Load contents_Reset)
qed

text \<open>
  A compaction never fails: whatever ran since it read its input, its second critical
  section finds at least as many levels as it is about to slice off (or sees that the store was
  reset), so it can always complete.
\<close>

lemma compaction_never_panics:
  assumes "lsm_reachable s" and "sys_compaction s = Some (input, resets)"
  shows "\<exists>s'. lsm_step s LCompactEnd s' \<and> sys_compaction s' = None"
proof -
  have "store_ok (sys_store s)"
    and "st_resets (sys_store s) = resets \<longrightarrow> prefix input (st_levels (sys_store s))"
    using lsm_reachable_inv [OF assms(1)] assms(2) by (auto simp: lsm_inv_def)
  then obtain st where "compact_install input resets (compact_merge input) (sys_store s) = Some st"
    by (rule install_effect)
  with assms(2) show ?thesis by (auto intro: lsm_step.compact_end)
qed

text \<open>A concrete run: two flushed levels, a compaction begun, and a write in between.\<close>

definition lsm_example :: lsm_sys where
  "lsm_example =
     (let s0 = Store_New 4 1;
          s1 = snd (snd (Store_Flush 2 (Store_Put ''a'' ''1'' s0)));
          s2 = snd (snd (Store_Flush 4 (Store_Delete ''a'' (Store_Put ''b'' ''2'' s1))))
      in \<lparr>sys_store = Store_Put ''c'' ''3'' s2, sys_compaction = compact_read s2\<rparr>)"

lemma lsm_example_reachable: "lsm_reachable lsm_example"
proof -
  define t0 where "t0 = \<lparr>sys_store = Store_New 4 1, sys_compaction = None\<rparr>"
  define t1 where "t1 = t0\<lparr>sys_store := Store_Put ''a'' ''1'' (sys_store t0)\<rparr>"
  define t2 where "t2 = t1\<lparr>sys_store := snd (snd (Store_Flush 2 (sys_store t1)))\<rparr>"
  define t3 where "t3 = t2\<lparr>sys_store := Store_Put ''b'' ''2'' (sys_store t2)\<rparr>"
  define t4 where "t4 = t3\<lparr>sys_store := Store_Delete ''a'' (sys_store t3)\<rparr>"
  define t5 where "t5 = t4\<lparr>sys_store := snd (snd (Store_Flush 4 (sys_store t4)))\<rparr>"
  define t6 where "t6 = t5\<lparr>sys_compaction := compact_read (sys_store t5)\<rparr>"
  define t7 where "t7 = t6\<lparr>sys_store := Store_Put ''c'' ''3'' (sys_store t6)\<rparr>"
  note defs = t0_def t1_def t2_def t3_def t4_def t5_def t6_def t7_def
  have "lsm_reachable t0" unfolding t0_def by (rule lsm_reachable.start)
  then have "lsm_reachable t1" by (rule lsm_reachable.step) (unfold t1_def, rule lsm_step.put)
  then have "lsm_reachable t2" by (rule lsm_reachable.step) (unfold t2_def, rule lsm_step.flush)
  then have "lsm_reachable t3" by (rule lsm_reachable.step) (unfold t3_def, rule lsm_step.put)
  then have "lsm_reachable t4" by (rule lsm_reachable.step) (unfold t4_def, rule lsm_step.delete)
  then have "lsm_reachable t5" by (rule lsm_reachable.step) (unfold t5_def, rule lsm_step.flush)
  then have "lsm_reachable t6"
    by (rule lsm_reachable.step) (unfold t6_def, rule lsm_step.compact_begin, simp add: defs)
  then have "lsm_reachable t7" by (rule lsm_reachable.step) (unfold t7_def, rule lsm_step.put)
  moreover have "t7 = lsm_example" by (simp add: defs lsm_example_def Let_def)
  ultimately show ?thesis by simp
qed

theorem lsm_refines_map_witness:
  "contents (sys_store (lsm_example\<lparr>sys_store := Store_Delete ''b'' (sys_store lsm_example)\<rparr>)) =
     (contents (sys_store lsm_example))(''b'' := None) \<and>
   contents (sys_store lsm_example) ''b'' = Some ''2''"
  using lsm_refines_map [OF lsm_example_reachable lsm_step.delete [of lsm_example "''b''"]]
  by (simp add: lsm_example_def Let_def store_defs contents_def Store_Get_def)

text \<open>
  A snapshot is exact: the map materialized from the view that \<open>Flush\<close> returns holds the
  accepted keys with the values \<open>Get\<close> answered when the view was taken, and no others (deleted
  keys stay out).
\<close>

lemma snapshot_exact:
  assumes "store_ok s"
  shows "map_of (Materialize (Some accept) (fst (Store_Flush checkpoint s))) k =
    (case Store_Get s k of (v, ok) \<Rightarrow> if ok \<and> accept k then Some v else None)"
  using lsm.map_of_export [OF assms, of accept checkpoint]
  by (auto simp: contents_def restrict_map_def split: prod.splits)

end
