(* ===== verification/Wal.thy ===== *)
theory Wal
  imports Model Interfaces
begin

text \<open>
  \<open>src/internal/wal/wal.go\<close>: the write-ahead log of a partition. The \<open>changed\<close> channel is
  modelled by the number of times it was closed and replaced: a waiter that took the channel
  at count \<open>n\<close> is woken exactly when the count exceeds \<open>n\<close>.
\<close>

section \<open>State and operations\<close>

record WAL =
  w_logs :: "LogEntry list"
  w_base :: int
  w_currentSeq :: int
  w_lastCheckpoint :: int
  w_retain :: int
  w_changed :: nat

definition NewWAL :: "int \<Rightarrow> WAL" where
  "NewWAL retain =
     \<lparr>w_logs = [], w_base = 0, w_currentSeq = 0, w_lastCheckpoint = 0,
      w_retain = (if retain \<le> 0 then 100000 else retain), w_changed = 0\<rparr>"

text \<open>The end of \<open>appendLocked\<close>: drop the oldest entries once half as many again are held.\<close>

definition truncate :: "WAL \<Rightarrow> WAL" where
  "truncate w =
     (if w_retain w + w_retain w div 2 < int (length (w_logs w))
      then let cut = nat (int (length (w_logs w)) - w_retain w)
           in w\<lparr>w_base := le_SequenceNumber (w_logs w ! (cut - 1)), w_logs := drop cut (w_logs w)\<rparr>
      else w)"

definition WAL_appendLocked :: "LogEntry \<Rightarrow> WAL \<Rightarrow> WAL" where
  "WAL_appendLocked e w =
     (let w1 = w\<lparr>w_logs := w_logs w @ [e], w_currentSeq := le_SequenceNumber e\<rparr>;
          w2 = (if op_Type (le_Operation e) = OpCheckpoint
                then w1\<lparr>w_lastCheckpoint := le_SequenceNumber e\<rparr> else w1);
          w3 = truncate w2
      in w3\<lparr>w_changed := Suc (w_changed w3)\<rparr>)"

text \<open>\<open>now\<close> is the clock reading that \<open>time.Now()\<close> gives.\<close>

definition Append :: "go_time \<Rightarrow> Operation \<Rightarrow> WAL \<Rightarrow> LogEntry \<times> WAL" where
  "Append now op w =
     (let op' = (if op_Timestamp op = 0 then op\<lparr>op_Timestamp := now\<rparr> else op);
          e = \<lparr>le_SequenceNumber = w_currentSeq w + 1, le_Operation = op'\<rparr>
      in (e, WAL_appendLocked e w))"

definition AppendSet :: "go_time \<Rightarrow> key \<Rightarrow> string \<Rightarrow> WAL \<Rightarrow> LogEntry \<times> WAL" where
  "AppendSet now k v w =
     Append now \<lparr>op_Type = OpSet, op_Key = k, op_Value = v, op_Timestamp = 0\<rparr> w"

definition AppendDelete :: "go_time \<Rightarrow> key \<Rightarrow> WAL \<Rightarrow> LogEntry \<times> WAL" where
  "AppendDelete now k w =
     Append now \<lparr>op_Type = OpDelete, op_Key = k, op_Value = '''', op_Timestamp = 0\<rparr> w"

definition WAL_Checkpoint :: "go_time \<Rightarrow> WAL \<Rightarrow> LogEntry \<times> WAL" where
  "WAL_Checkpoint now w =
     Append now \<lparr>op_Type = OpCheckpoint, op_Key = '''', op_Value = '''', op_Timestamp = 0\<rparr> w"

text \<open>The error carries the expected and the found sequence number.\<close>

definition Record :: "LogEntry \<Rightarrow> WAL \<Rightarrow> (int \<times> int) + WAL" where
  "Record e w =
     (if le_SequenceNumber e \<noteq> w_currentSeq w + 1
      then Inl (w_currentSeq w + 1, le_SequenceNumber e)
      else Inr (WAL_appendLocked e w))"

definition After :: "int \<Rightarrow> int \<Rightarrow> WAL \<Rightarrow> LogEntry list \<times> bool" where
  "After sq limit w =
     (if sq < w_base w then ([], False)
      else if w_currentSeq w \<le> sq then ([], True)
      else
        let start = sq - w_base w;
            stop0 = int (length (w_logs w));
            stop = (if 0 < limit \<and> limit < stop0 - start then start + limit else stop0)
        in (take (nat (stop - start)) (drop (nat start) (w_logs w)), True))"

definition GetLogsAfter :: "int \<Rightarrow> WAL \<Rightarrow> LogEntry list" where
  "GetLogsAfter sq w = fst (After sq 0 w)"

definition WAL_Reset :: "int \<Rightarrow> WAL \<Rightarrow> WAL" where
  "WAL_Reset sq w =
     w\<lparr>w_logs := [], w_base := sq, w_currentSeq := sq, w_lastCheckpoint := sq,
       w_changed := Suc (w_changed w)\<rparr>"

definition ClearAll :: "WAL \<Rightarrow> WAL" where
  "ClearAll w = WAL_Reset 0 w"

lemmas [wal_defs] =
  NewWAL_def truncate_def WAL_appendLocked_def Append_def AppendSet_def AppendDelete_def
  WAL_Checkpoint_def Record_def After_def WAL_Reset_def ClearAll_def Let_def

section \<open>Invariant\<close>

text \<open>\<open>logs[i].SequenceNumber == base+1+i\<close>, as the source's comment says, and bounded length.\<close>

definition wal_ok :: "WAL \<Rightarrow> bool" where
  "wal_ok w \<longleftrightarrow> 0 < w_retain w \<and> 0 \<le> w_base w \<and>
     w_currentSeq w = w_base w + int (length (w_logs w)) \<and>
     (\<forall>i < length (w_logs w). le_SequenceNumber (w_logs w ! i) = w_base w + 1 + int i) \<and>
     int (length (w_logs w)) \<le> w_retain w + w_retain w div 2 \<and>
     w_lastCheckpoint w \<le> w_currentSeq w"

text \<open>A history is numbered from 1; the log is a window on it that ends where it ends.\<close>

definition hist_ok :: "LogEntry list \<Rightarrow> bool" where
  "hist_ok h \<longleftrightarrow> (\<forall>i < length h. le_SequenceNumber (h ! i) = int i + 1)"

definition wal_holds :: "LogEntry list \<Rightarrow> WAL \<Rightarrow> bool" where
  "wal_holds h w \<longleftrightarrow> wal_ok w \<and> hist_ok h \<and> w_currentSeq w = int (length h) \<and>
     w_logs w = drop (nat (w_base w)) h"

lemma hist_ok_Nil [simp]: "hist_ok []"
  by (simp add: hist_ok_def)

lemma hist_ok_snoc: "hist_ok (h @ [e]) \<longleftrightarrow> hist_ok h \<and> le_SequenceNumber e = int (length h) + 1"
  by (auto simp: hist_ok_def nth_append less_Suc_eq)

lemma hist_ok_take: "hist_ok h \<Longrightarrow> hist_ok (take n h)"
  by (simp add: hist_ok_def)

lemma hist_ok_prefix: "prefix g h \<Longrightarrow> hist_ok h \<Longrightarrow> hist_ok g"
  by (metis hist_ok_take prefix_same_take)

lemma wal_ok_NewWAL: "wal_ok (NewWAL r)"
  by (simp add: wal_ok_def NewWAL_def)

lemma wal_ok_Reset: "wal_ok w \<Longrightarrow> 0 \<le> s \<Longrightarrow> wal_ok (WAL_Reset s w)"
  by (simp add: wal_ok_def WAL_Reset_def)

text \<open>Truncation keeps a window on the same history.\<close>

lemma truncate_window:
  assumes "0 < w_retain w" and "0 \<le> w_base w"
    and "w_currentSeq w = w_base w + int (length (w_logs w))"
    and "\<forall>i < length (w_logs w). le_SequenceNumber (w_logs w ! i) = w_base w + 1 + int i"
  shows "w_logs (truncate w) = drop (nat (w_base (truncate w) - w_base w)) (w_logs w)"
    and "w_base w \<le> w_base (truncate w)"
    and "w_currentSeq (truncate w) = w_base (truncate w) + int (length (w_logs (truncate w)))"
    and "int (length (w_logs (truncate w))) \<le> w_retain w + w_retain w div 2"
    and "\<forall>i < length (w_logs (truncate w)).
      le_SequenceNumber (w_logs (truncate w) ! i) = w_base (truncate w) + 1 + int i"
proof -
  let ?n = "int (length (w_logs w))"
  have *: "w_logs (truncate w) = drop (nat (w_base (truncate w) - w_base w)) (w_logs w) \<and>
    w_base w \<le> w_base (truncate w) \<and>
    w_currentSeq (truncate w) = w_base (truncate w) + int (length (w_logs (truncate w))) \<and>
    int (length (w_logs (truncate w))) \<le> w_retain w + w_retain w div 2 \<and>
    (\<forall>i < length (w_logs (truncate w)).
      le_SequenceNumber (w_logs (truncate w) ! i) = w_base (truncate w) + 1 + int i)"
  proof (cases "w_retain w + w_retain w div 2 < ?n")
    case False
    with assms show ?thesis by (simp add: truncate_def)
  next
    case True
    define cut where "cut = nat (?n - w_retain w)"
    have cut: "0 < cut" "cut \<le> length (w_logs w)" "int cut = ?n - w_retain w"
      using True assms(1) by (auto simp: cut_def)
    have "le_SequenceNumber (w_logs w ! (cut - 1)) = w_base w + int cut"
      using assms(4) cut by simp
    then have t: "truncate w = w\<lparr>w_base := w_base w + int cut, w_logs := drop cut (w_logs w)\<rparr>"
      using True by (simp add: truncate_def cut_def)
    have len: "int (length (drop cut (w_logs w))) = w_retain w"
      using cut by simp
    with assms cut(1,2) show ?thesis by (auto simp: t)
  qed
  from * show "w_logs (truncate w) = drop (nat (w_base (truncate w) - w_base w)) (w_logs w)"
    and "w_base w \<le> w_base (truncate w)"
    and "w_currentSeq (truncate w) = w_base (truncate w) + int (length (w_logs (truncate w)))"
    and "int (length (w_logs (truncate w))) \<le> w_retain w + w_retain w div 2"
    and "\<forall>i < length (w_logs (truncate w)).
      le_SequenceNumber (w_logs (truncate w) ! i) = w_base (truncate w) + 1 + int i"
    by blast+
qed

lemma truncate_frame [simp]:
  "w_retain (truncate w) = w_retain w" "w_currentSeq (truncate w) = w_currentSeq w"
  "w_lastCheckpoint (truncate w) = w_lastCheckpoint w" "w_changed (truncate w) = w_changed w"
  by (simp_all add: truncate_def Let_def)

lemma appendLocked_frame [simp]:
  "w_currentSeq (WAL_appendLocked e w) = le_SequenceNumber e"
  "w_changed (WAL_appendLocked e w) = Suc (w_changed w)"
  "w_retain (WAL_appendLocked e w) = w_retain w"
  by (simp_all add: WAL_appendLocked_def Let_def)

lemma appendLocked_ok:
  assumes "wal_ok w" and "le_SequenceNumber e = w_currentSeq w + 1"
  shows "wal_ok (WAL_appendLocked e w)"
    and "w_logs (WAL_appendLocked e w) =
      drop (nat (w_base (WAL_appendLocked e w) - w_base w)) (w_logs w @ [e])"
    and "w_base w \<le> w_base (WAL_appendLocked e w)"
proof -
  define v where "v = w\<lparr>w_logs := w_logs w @ [e], w_currentSeq := le_SequenceNumber e,
    w_lastCheckpoint := (if op_Type (le_Operation e) = OpCheckpoint then le_SequenceNumber e
      else w_lastCheckpoint w)\<rparr>"
  have app: "WAL_appendLocked e w = (truncate v)\<lparr>w_changed := Suc (w_changed (truncate v))\<rparr>"
    by (simp add: WAL_appendLocked_def v_def Let_def)
  have pre: "0 < w_retain v" "0 \<le> w_base v" "w_currentSeq v = w_base v + int (length (w_logs v))"
    "\<forall>i < length (w_logs v). le_SequenceNumber (w_logs v ! i) = w_base v + 1 + int i"
    using assms by (auto simp: v_def wal_ok_def nth_append less_Suc_eq)
  note win = truncate_window [OF pre]
  show "wal_ok (WAL_appendLocked e w)"
    using win pre assms by (auto simp: app wal_ok_def) (auto simp: v_def)
  show "w_logs (WAL_appendLocked e w) =
      drop (nat (w_base (WAL_appendLocked e w) - w_base w)) (w_logs w @ [e])"
    using win(1) by (simp add: app) (simp add: v_def)
  show "w_base w \<le> w_base (WAL_appendLocked e w)"
    using win(2) by (simp add: app) (simp add: v_def)
qed

lemma wal_holds_append:
  assumes "wal_holds h w" and "le_SequenceNumber e = int (length h) + 1"
  shows "wal_holds (h @ [e]) (WAL_appendLocked e w)"
proof -
  have ok: "wal_ok w" and cur: "w_currentSeq w = int (length h)"
    and logs: "w_logs w = drop (nat (w_base w)) h" and hok: "hist_ok h"
    using assms(1) by (auto simp: wal_holds_def)
  let ?w = "WAL_appendLocked e w"
  have e: "le_SequenceNumber e = w_currentSeq w + 1" using assms(2) cur by simp
  have b: "0 \<le> w_base w" "nat (w_base w) \<le> length h"
    using ok cur by (auto simp: wal_ok_def)
  have "w_logs ?w = drop (nat (w_base ?w - w_base w)) (drop (nat (w_base w)) (h @ [e]))"
    using appendLocked_ok(2) [OF ok e] logs b by simp
  also have "\<dots> = drop (nat (w_base ?w)) (h @ [e])"
    using appendLocked_ok(3) [OF ok e] b by (simp add: nat_diff_distrib)
  finally show ?thesis
    using appendLocked_ok(1) [OF ok e] hok assms(2) by (simp add: wal_holds_def hist_ok_snoc)
qed

lemma wal_holds_Reset:
  assumes "wal_ok w" and "hist_ok h"
  shows "wal_holds h (WAL_Reset (int (length h)) w)"
  using assms by (simp add: wal_holds_def wal_ok_Reset) (simp add: WAL_Reset_def)

lemma After_window:
  assumes "wal_holds h w" and "0 \<le> sq" and "After sq limit w = (es, ok)"
  shows "ok \<longleftrightarrow> w_base w \<le> sq"
    and "ok \<Longrightarrow> es = (if 0 < limit then take (nat limit) (drop (nat sq) h) else drop (nat sq) h)"
proof -
  show "ok \<longleftrightarrow> w_base w \<le> sq"
    using assms(3) by (auto simp: After_def Let_def split: if_splits)
  assume ok
  then have b: "w_base w \<le> sq" using \<open>ok \<longleftrightarrow> w_base w \<le> sq\<close> by simp
  have logs: "w_logs w = drop (nat (w_base w)) h" and cur: "w_currentSeq w = int (length h)"
    and "0 \<le> w_base w" and len: "w_currentSeq w = w_base w + int (length (w_logs w))"
    using assms(1) unfolding wal_holds_def wal_ok_def by blast+
  show "es = (if 0 < limit then take (nat limit) (drop (nat sq) h) else drop (nat sq) h)"
  proof (cases "w_currentSeq w \<le> sq")
    case True
    with assms(3) b cur show ?thesis by (auto simp: After_def Let_def)
  next
    case False
    have d: "drop (nat (sq - w_base w)) (w_logs w) = drop (nat sq) h"
      using logs b \<open>0 \<le> w_base w\<close> by (simp add: nat_diff_distrib)
    define n where "n = int (length (w_logs w)) - (sq - w_base w)"
    have n: "n = int (length (drop (nat sq) h))"
    proof -
      have "nat sq \<le> length h" using False cur by linarith
      then show ?thesis using len cur assms(2) unfolding n_def length_drop by linarith
    qed
    have "es = take (nat (if 0 < limit \<and> limit < n then limit else n)) (drop (nat sq) h)"
    proof -
      have "es = take (nat ((if 0 < limit \<and> limit < n then (sq - w_base w) + limit
          else int (length (w_logs w))) - (sq - w_base w))) (drop (nat (sq - w_base w)) (w_logs w))"
        using assms(3) False b by (simp only: After_def Let_def n_def) simp
      then show ?thesis unfolding d by (simp add: n_def)
    qed
    then show ?thesis by (auto simp: n)
  qed
qed

interpretation wlog: sequenced_log wal_holds le_SequenceNumber w_currentSeq WAL_appendLocked After WAL_Reset
proof unfold_locales
  show "w_currentSeq w = int (length h)" if "wal_holds h w" for h w
    using that by (simp add: wal_holds_def)
  show "le_SequenceNumber (h ! i) = int i + 1" if "wal_holds h w" "i < length h" for h w i
    using that by (simp add: wal_holds_def hist_ok_def)
  show "wal_holds h (WAL_Reset (int (length h)) w)"
    if "wal_holds h' w" "\<And>i. i < length h \<Longrightarrow> le_SequenceNumber (h ! i) = int i + 1" for h h' w
    using that by (intro wal_holds_Reset) (auto simp: wal_holds_def hist_ok_def)
qed (use wal_holds_append After_window(2) in blast)+

lemma appendLocked_base:
  assumes "wal_ok w" and "le_SequenceNumber e = w_currentSeq w + 1"
  shows "w_base (WAL_appendLocked e w) = w_base w \<or>
    w_base (WAL_appendLocked e w) = le_SequenceNumber e - w_retain w"
proof -
  let ?logs = "w_logs w @ [e]"
  have num: "le_SequenceNumber (?logs ! i) = w_base w + 1 + int i" if "i < length ?logs" for i
    using assms that by (auto simp: wal_ok_def nth_append less_Suc_eq)
  let ?cut = "nat (int (length ?logs) - w_retain w)"
  have len: "le_SequenceNumber e = w_base w + int (length ?logs)"
    using assms by (simp add: wal_ok_def)
  have "le_SequenceNumber (?logs ! (?cut - 1)) = le_SequenceNumber e - w_retain w"
    if "w_retain w + w_retain w div 2 < int (length ?logs)"
  proof -
    have "0 < w_retain w" "0 \<le> w_retain w div 2"
      using assms(1) by (simp_all add: wal_ok_def)
    with that have c: "0 < ?cut" "?cut \<le> length ?logs" "int ?cut = int (length ?logs) - w_retain w"
      by linarith+
    with num [of "?cut - 1"] len show ?thesis by linarith
  qed
  then show ?thesis
    by (auto simp: WAL_appendLocked_def truncate_def Let_def)
qed

text \<open>A run of appends from an empty log, with the entries it returned.\<close>

fun append_all :: "(go_time \<times> Operation) list \<Rightarrow> WAL \<Rightarrow> LogEntry list \<times> WAL" where
  "append_all [] w = ([], w)"
| "append_all ((now, op) # ops) w =
     (let (e, w1) = Append now op w; (es, w2) = append_all ops w1 in (e # es, w2))"

lemma append_all_holds:
  assumes "wal_holds g w" and "w_base w \<le> max 0 (w_currentSeq w - w_retain w)"
    and "append_all ops w = (h, w')"
  shows "wal_holds (g @ h) w' \<and> w_retain w' = w_retain w \<and>
    w_base w' \<le> max 0 (w_currentSeq w' - w_retain w')"
  using assms
proof (induction ops arbitrary: g w h)
  case Nil
  then show ?case by simp
next
  case (Cons nop ops)
  obtain now op where nop: "nop = (now, op)" by (cases nop)
  obtain e w1 where app: "Append now op w = (e, w1)" by (cases "Append now op w")
  from Cons.prems(3) nop app obtain es where h: "h = e # es" and rest: "append_all ops w1 = (es, w')"
    by (auto split: prod.splits)
  have ok: "wal_ok w" and cur: "w_currentSeq w = int (length g)"
    using Cons.prems(1) by (auto simp: wal_holds_def)
  have w1: "w1 = WAL_appendLocked e w" and e: "le_SequenceNumber e = w_currentSeq w + 1"
    using app by (auto simp: Append_def Let_def)
  have "wal_holds (g @ [e]) w1"
    unfolding w1 using Cons.prems(1) by (rule wal_holds_append) (simp add: e cur)
  moreover have "w_base w1 \<le> max 0 (w_currentSeq w1 - w_retain w1)"
    using appendLocked_base [OF ok e] Cons.prems(2) e by (auto simp: w1)
  ultimately have "wal_holds ((g @ [e]) @ es) w' \<and> w_retain w' = w_retain w1 \<and>
      w_base w' \<le> max 0 (w_currentSeq w' - w_retain w')"
    using rest by (rule Cons.IH)
  then show ?case by (auto simp: h w1)
qed

lemma wal_holds_NewWAL: "wal_holds [] (NewWAL r)"
  by (simp add: wal_holds_def wal_ok_NewWAL) (simp add: NewWAL_def)

section \<open>Properties\<close>

text \<open>
  Every operation of the log keeps its invariant: sequence numbers are contiguous from the
  base, the current sequence number is the last one, and at most one and a half times the
  retention limit is held. \<open>Record\<close> accepts exactly the next sequence number.
\<close>

lemma wal_invariant:
  assumes "wal_ok w" and "0 \<le> s"
  shows "wal_ok (snd (Append now op w)) \<and> le_SequenceNumber (fst (Append now op w)) = w_currentSeq w + 1 \<and>
    wal_ok (WAL_Reset s w) \<and>
    (case Record e w of
       Inl (expected, found) \<Rightarrow> expected = w_currentSeq w + 1 \<and> found \<noteq> expected
     | Inr w' \<Rightarrow> wal_ok w' \<and> w_currentSeq w' = w_currentSeq w + 1)"
  using appendLocked_ok(1) [OF assms(1)] wal_ok_Reset [OF assms]
  by (auto simp: Append_def Record_def Let_def)

definition wal_example_op :: Operation where
  "wal_example_op = \<lparr>op_Type = OpSet, op_Key = ''k'', op_Value = ''v'', op_Timestamp = 0\<rparr>"

text \<open>
  C33. Reading the log back: after any run of appends to a new log, \<open>After\<close> returns exactly the
  entries that were appended after the given position (at most \<open>limit\<close> of them when a limit is
  given), unless the position lies before the base. It then reports the truncation, which never
  happens to a reader that is at most \<open>retain\<close> entries behind.
\<close>

theorem wal_After_exact:
  assumes "append_all ops (NewWAL retain) = (h, w)" and "0 \<le> sq"
  shows "After sq limit w =
      (if sq < w_base w then ([], False)
       else (if 0 < limit then take (nat limit) (drop (nat sq) h) else drop (nat sq) h, True)) \<and>
    (int (length h) - sq \<le> w_retain w \<longrightarrow> w_base w \<le> sq)"
proof -
  have "wal_holds ([] @ h) w \<and> w_retain w = w_retain (NewWAL retain) \<and>
      w_base w \<le> max 0 (w_currentSeq w - w_retain w)"
    by (rule append_all_holds [OF wal_holds_NewWAL _ assms(1)]) (simp add: NewWAL_def)
  then have h: "wal_holds h w" and base: "w_base w \<le> max 0 (w_currentSeq w - w_retain w)"
    by auto
  obtain es ok where af: "After sq limit w = (es, ok)" by (cases "After sq limit w")
  have "w_currentSeq w = int (length h)" using h by (rule wlog.holds_seqno)
  with base assms(2) have "int (length h) - sq \<le> w_retain w \<longrightarrow> w_base w \<le> sq" by linarith
  moreover have "\<not> ok \<Longrightarrow> es = []"
    using af by (auto simp: After_def Let_def split: if_splits)
  ultimately show ?thesis
    using af After_window [OF h assms(2) af] by (cases ok) auto
qed

theorem wal_After_exact_witness:
  "\<exists>h w. append_all [(9, wal_example_op), (9, wal_example_op), (9, wal_example_op), (9, wal_example_op)]
      (NewWAL 2) = (h, w) \<and> w_base w = 2 \<and> After 1 0 w = ([], False) \<and> After 2 0 w = (drop 2 h, True)"
proof -
  let ?ops = "[(9, wal_example_op), (9, wal_example_op), (9, wal_example_op), (9, wal_example_op)]"
  obtain h w where hw: "append_all ?ops (NewWAL 2) = (h, w)" by (cases "append_all ?ops (NewWAL 2)")
  have "w_base (snd (append_all ?ops (NewWAL 2))) = 2" by code_simp
  with hw have b: "w_base w = 2" by simp
  from wal_After_exact [OF hw, of 1 0] wal_After_exact [OF hw, of 2 0] b hw
  show ?thesis by simp
qed

end
