(* ===== verification/Replica.thy ===== *)
theory Replica
  imports Wal Lsm
begin

text \<open>
  \<open>src/internal/partition/partition.go\<close>: one replica of a partition on a node, an LSM store fed
  through a write-ahead log. All mutations run under one mutex, so each operation is one atomic
  function on the replica's state; a result type \<open>part_error + 'a\<close> has the errors the source
  returns. The clock reading of an operation is its argument \<open>now\<close>.
\<close>

section \<open>State\<close>

datatype part_error =
    ErrNotLeader
  | ErrNotFollower
  | ErrNotSynced
  | ErrSealed
  | ErrFrozen
  | ErrSequence int int \<comment> \<open>expected, found\<close>

record Options =
  opt_FlushSize :: int
  opt_MaxLevels :: int
  opt_WALRetain :: int

record freeze =
  fz_tag :: string
  fz_match :: "key \<Rightarrow> bool"
  fz_until :: go_time

record Replica =
  rp_ID :: int
  rp_Generation :: int
  rp_role :: NodeRole
  rp_epoch :: int
  rp_dataEpoch :: int
  rp_prevEpoch :: int
  rp_promotedSeq :: int
  rp_synced :: bool
  rp_sealed :: bool
  rp_keys :: int
  rp_freezes :: "freeze list"
  rp_store :: Store
  rp_wal :: WAL

section \<open>Operations\<close>

definition NewPartition :: "PartitionRef \<Rightarrow> Options \<Rightarrow> Replica" where
  "NewPartition ref opts =
     \<lparr>rp_ID = ref_ID ref, rp_Generation = ref_Generation ref, rp_role = NodeRoleFollower,
      rp_epoch = 0, rp_dataEpoch = 0, rp_prevEpoch = -1, rp_promotedSeq = 0, rp_synced = False,
      rp_sealed = False, rp_keys = 0, rp_freezes = [],
      rp_store = Store_New (opt_FlushSize opts) (opt_MaxLevels opts),
      rp_wal = NewWAL (opt_WALRetain opts)\<rparr>"

definition resetLocked :: "Replica \<Rightarrow> Replica" where
  "resetLocked p =
     p\<lparr>rp_store := Store_Reset (rp_store p), rp_wal := WAL_Reset 0 (rp_wal p), rp_keys := 0,
       rp_synced := False, rp_dataEpoch := 0, rp_freezes := []\<rparr>"

definition LeadFresh :: "int \<Rightarrow> Replica \<Rightarrow> Replica" where
  "LeadFresh epoch p =
     (resetLocked p)\<lparr>rp_role := NodeRoleLeader, rp_epoch := epoch, rp_dataEpoch := epoch,
       rp_prevEpoch := -1, rp_promotedSeq := 0, rp_synced := True\<rparr>"

definition Promote :: "int \<Rightarrow> Replica \<Rightarrow> Replica" where
  "Promote epoch p =
     p\<lparr>rp_prevEpoch := (if rp_synced p then rp_dataEpoch p else -1),
       rp_promotedSeq := w_currentSeq (rp_wal p), rp_role := NodeRoleLeader, rp_epoch := epoch,
       rp_dataEpoch := epoch, rp_synced := True, rp_sealed := False\<rparr>"

definition Follow :: "int \<Rightarrow> Replica \<Rightarrow> bool \<times> Replica" where
  "Follow epoch p =
     (let demoted = (rp_role p = NodeRoleLeader);
          p1 = (if demoted then resetLocked p else p)
      in (demoted, p1\<lparr>rp_role := NodeRoleFollower, rp_epoch := epoch, rp_sealed := False\<rparr>))"

definition Replica_Reset :: "Replica \<Rightarrow> Replica" where
  "Replica_Reset p = resetLocked p"

definition Seal :: "bool \<Rightarrow> Replica \<Rightarrow> Replica" where
  "Seal sealed p = p\<lparr>rp_sealed := sealed\<rparr>"

definition Replica_Get :: "key \<Rightarrow> Replica \<Rightarrow> string \<times> bool" where
  "Replica_Get k p = Store_Get (rp_store p) k"

definition applyLocked :: "Operation \<Rightarrow> int \<Rightarrow> Replica \<Rightarrow> Replica" where
  "applyLocked op sq p =
     (case op_Type op of
        OpSet \<Rightarrow>
          let p1 = (if \<not> snd (Store_Get (rp_store p) (op_Key op)) then p\<lparr>rp_keys := rp_keys p + 1\<rparr> else p)
          in p1\<lparr>rp_store := Store_Put (op_Key op) (op_Value op) (rp_store p1)\<rparr>
      | OpDelete \<Rightarrow>
          if snd (Store_Get (rp_store p) (op_Key op))
          then p\<lparr>rp_keys := rp_keys p - 1, rp_store := Store_Delete (op_Key op) (rp_store p)\<rparr>
          else p
      | OpCheckpoint \<Rightarrow> p\<lparr>rp_store := snd (snd (Store_Flush sq (rp_store p)))\<rparr>)"

text \<open>Log first, then apply, then freeze the memtable under a checkpoint once it is full.\<close>

definition appendLocked :: "go_time \<Rightarrow> Operation \<Rightarrow> Replica \<Rightarrow> LogEntry \<times> Replica" where
  "appendLocked now op p =
     (let op1 = op\<lparr>op_Timestamp := now\<rparr>;
          (e, w1) = Append now op1 (rp_wal p);
          p1 = applyLocked op1 (le_SequenceNumber e) (p\<lparr>rp_wal := w1\<rparr>)
      in if ShouldFlush (rp_store p1)
         then let (cp, w2) = WAL_Checkpoint now (rp_wal p1)
              in (e, p1\<lparr>rp_wal := w2,
                        rp_store := snd (snd (Store_Flush (le_SequenceNumber cp) (rp_store p1)))\<rparr>)
         else (e, p1))"

text \<open>Expired freezes are dropped on the way: \<open>now.After(f.until)\<close> is \<open>until < now\<close>.\<close>

definition frozenLocked :: "go_time \<Rightarrow> key \<Rightarrow> Replica \<Rightarrow> bool \<times> Replica" where
  "frozenLocked now k p =
     (if rp_freezes p = [] then (False, p)
      else let active = filter (\<lambda>f. \<not> fz_until f < now) (rp_freezes p)
           in (list_ex (\<lambda>f. fz_match f k) active, p\<lparr>rp_freezes := active\<rparr>))"

definition write_op :: "go_time \<Rightarrow> Operation \<Rightarrow> Replica \<Rightarrow> (part_error + LogEntry) \<times> Replica" where
  "write_op now op p =
     (if rp_role p \<noteq> NodeRoleLeader then (Inl ErrNotLeader, p)
      else if rp_sealed p then (Inl ErrSealed, p)
      else case frozenLocked now (op_Key op) p of
             (True, p1) \<Rightarrow> (Inl ErrFrozen, p1)
           | (False, p1) \<Rightarrow> (case appendLocked now op p1 of (e, p2) \<Rightarrow> (Inr e, p2)))"

definition Set_key :: "go_time \<Rightarrow> key \<Rightarrow> string \<Rightarrow> Replica \<Rightarrow> (part_error + LogEntry) \<times> Replica" where
  "Set_key now k v p = write_op now \<lparr>op_Type = OpSet, op_Key = k, op_Value = v, op_Timestamp = 0\<rparr> p"

definition Delete_key :: "go_time \<Rightarrow> key \<Rightarrow> Replica \<Rightarrow> (part_error + LogEntry) \<times> Replica" where
  "Delete_key now k p = write_op now \<lparr>op_Type = OpDelete, op_Key = k, op_Value = '''', op_Timestamp = 0\<rparr> p"

definition Import :: "go_time \<Rightarrow> Operation list \<Rightarrow> Replica \<Rightarrow> part_error option \<times> Replica" where
  "Import now ops p =
     (if rp_role p \<noteq> NodeRoleLeader then (Some ErrNotLeader, p)
      else (None, fold (\<lambda>op p. snd (appendLocked now op p)) ops p))"

text \<open>The loop of \<open>ApplyLogEntries\<close>; a gap in the numbering ends it with an error.\<close>

fun apply_entries :: "LogEntry list \<Rightarrow> Replica \<Rightarrow> part_error option \<times> Replica" where
  "apply_entries [] p = (None, p)"
| "apply_entries (e # es) p =
     (if le_SequenceNumber e \<le> w_currentSeq (rp_wal p) then apply_entries es p
      else case Record e (rp_wal p) of
             Inl (expected, found) \<Rightarrow> (Some (ErrSequence expected found), p)
           | Inr w1 \<Rightarrow>
               apply_entries es (applyLocked (le_Operation e) (le_SequenceNumber e) (p\<lparr>rp_wal := w1\<rparr>)))"

definition ApplyLogEntries :: "LogEntry list \<Rightarrow> int \<Rightarrow> Replica \<Rightarrow> part_error option \<times> Replica" where
  "ApplyLogEntries entries leaderEpoch p =
     (if rp_role p \<noteq> NodeRoleFollower then (Some ErrNotFollower, p)
      else if \<not> rp_synced p then (Some ErrNotSynced, p)
      else case apply_entries entries p of
             (Some err, p1) \<Rightarrow> (Some err, p1)
           | (None, p1) \<Rightarrow> (None, p1\<lparr>rp_dataEpoch := leaderEpoch\<rparr>))"

definition Take_Snapshot ::
  "go_time \<Rightarrow> (key \<Rightarrow> bool) option \<Rightarrow> Replica \<Rightarrow> (part_error + Snapshot) \<times> Replica" where
  "Take_Snapshot now filter_fn p =
     (if rp_role p \<noteq> NodeRoleLeader then (Inl ErrNotLeader, p)
      else
        let (cp, w1) = WAL_Checkpoint now (rp_wal p);
            (view, _, st1) = Store_Flush (le_SequenceNumber cp) (rp_store p)
        in (Inr \<lparr>sn_Generation = rp_Generation p, sn_PartitionID = rp_ID p, sn_Epoch = rp_epoch p,
                 sn_Seq = le_SequenceNumber cp, sn_Data = Materialize filter_fn view\<rparr>,
            p\<lparr>rp_wal := w1, rp_store := st1\<rparr>))"

definition LoadSnapshot :: "Snapshot \<Rightarrow> Replica \<Rightarrow> part_error option \<times> Replica" where
  "LoadSnapshot snap p =
     (if rp_role p \<noteq> NodeRoleFollower then (Some ErrNotFollower, p)
      else (None, p\<lparr>rp_store := Store_Load (sn_Data snap) (sn_Seq snap) (rp_store p),
                    rp_wal := WAL_Reset (sn_Seq snap) (rp_wal p),
                    rp_keys := int (length (sn_Data snap)), rp_dataEpoch := sn_Epoch snap,
                    rp_synced := True\<rparr>))"

definition CanServe :: "int \<Rightarrow> int \<Rightarrow> Replica \<Rightarrow> bool" where
  "CanServe dataEpoch after p \<longleftrightarrow>
     (if w_currentSeq (rp_wal p) < after then False
      else if dataEpoch = rp_epoch p then True
      else 0 \<le> rp_prevEpoch p \<and> dataEpoch = rp_prevEpoch p \<and> after \<le> rp_promotedSeq p)"

fun extend_freeze :: "string \<Rightarrow> go_time \<Rightarrow> freeze list \<Rightarrow> freeze list option" where
  "extend_freeze tag until [] = None"
| "extend_freeze tag until (f # fs) =
     (if fz_tag f = tag then Some (f\<lparr>fz_until := until\<rparr> # fs)
      else map_option (Cons f) (extend_freeze tag until fs))"

definition addFreezeLocked ::
  "go_time \<Rightarrow> string \<Rightarrow> (key \<Rightarrow> bool) \<Rightarrow> int \<Rightarrow> Replica \<Rightarrow> Replica" where
  "addFreezeLocked now tag match ttl p =
     (let until = now + ttl in
      case extend_freeze tag until (rp_freezes p) of
        Some fs \<Rightarrow> p\<lparr>rp_freezes := fs\<rparr>
      | None \<Rightarrow> p\<lparr>rp_freezes := rp_freezes p @ [\<lparr>fz_tag = tag, fz_match = match, fz_until = until\<rparr>]\<rparr>)"

definition export_entries :: "(key \<Rightarrow> bool) \<Rightarrow> LogEntry list \<Rightarrow> LogEntry list" where
  "export_entries match entries =
     filter (\<lambda>e. op_Type (le_Operation e) \<noteq> OpCheckpoint \<and> match (op_Key (le_Operation e))) entries"

definition export_snapshot ::
  "go_time \<Rightarrow> (key \<Rightarrow> bool) \<Rightarrow> Replica \<Rightarrow> (part_error + MigrationChunk) \<times> Replica" where
  "export_snapshot now match p =
     (case Take_Snapshot now (Some match) p of
        (Inl err, p1) \<Rightarrow> (Inl err, p1)
      | (Inr snap, p1) \<Rightarrow>
          (Inr \<lparr>mc_Mode = ModeSnapshot, mc_Epoch = sn_Epoch snap, mc_Seq = sn_Seq snap,
                mc_Data = sn_Data snap, mc_Entries = []\<rparr>, p1))"

definition Export ::
  "go_time \<Rightarrow> string \<Rightarrow> (key \<Rightarrow> bool) \<Rightarrow> bool \<Rightarrow> int \<Rightarrow> int \<Rightarrow> Replica \<Rightarrow>
     (part_error + MigrationChunk) \<times> Replica" where
  "Export now tag match freezeKeys after ttl p =
     (if freezeKeys then
        (if rp_role p \<noteq> NodeRoleLeader then (Inl ErrNotLeader, p)
         else
           let p1 = addFreezeLocked now tag match ttl p in
           case After after 0 (rp_wal p1) of
             (entries, True) \<Rightarrow>
               (Inr \<lparr>mc_Mode = ModeLogs, mc_Epoch = rp_epoch p1, mc_Seq = w_currentSeq (rp_wal p1),
                     mc_Data = [], mc_Entries = export_entries match entries\<rparr>, p1)
           | (_, False) \<Rightarrow> export_snapshot now match p1)
      else export_snapshot now match p)"

definition Replica_Status :: "Replica \<Rightarrow> PartitionStatus" where
  "Replica_Status p =
     (let (memtable, levels) = Store_Stats (rp_store p) in
      \<lparr>ps_Generation = rp_Generation p, ps_ID = rp_ID p, ps_Role = rp_role p, ps_Epoch = rp_epoch p,
       ps_DataEpoch = rp_dataEpoch p, ps_Seq = w_currentSeq (rp_wal p), ps_Synced = rp_synced p,
       ps_Sealed = rp_sealed p, ps_Keys = rp_keys p, ps_MemTable = memtable, ps_Levels = levels,
       ps_WAL = int (length (w_logs (rp_wal p)))\<rparr>)"

lemmas [replica_defs] =
  NewPartition_def resetLocked_def LeadFresh_def Promote_def Follow_def Replica_Reset_def Seal_def
  applyLocked_def appendLocked_def frozenLocked_def write_op_def Set_key_def Delete_key_def Import_def
  ApplyLogEntries_def Take_Snapshot_def LoadSnapshot_def CanServe_def addFreezeLocked_def
  export_snapshot_def Export_def Let_def

section \<open>Replaying a history\<close>

text \<open>The abstract effect of one logged operation on the data, and of a whole history.\<close>

fun op_spec :: "Operation \<Rightarrow> (key \<rightharpoonup> string) \<Rightarrow> (key \<rightharpoonup> string)" where
  "op_spec op m =
     (case op_Type op of
        OpSet \<Rightarrow> m(op_Key op \<mapsto> op_Value op)
      | OpDelete \<Rightarrow> m(op_Key op := None)
      | OpCheckpoint \<Rightarrow> m)"

definition replay :: "LogEntry list \<Rightarrow> key \<rightharpoonup> string" where
  "replay h = fold (\<lambda>e. op_spec (le_Operation e)) h Map.empty"

lemma replay_Nil [simp]: "replay [] = Map.empty"
  by (simp add: replay_def)

lemma replay_snoc [simp]: "replay (h @ [e]) = op_spec (le_Operation e) (replay h)"
  by (simp add: replay_def)

lemma op_spec_timestamp [simp]: "op_spec (op\<lparr>op_Timestamp := t\<rparr>) m = op_spec op m"
  by (simp split: OpType.splits)

lemma op_spec_checkpoint [simp]: "op_Type op = OpCheckpoint \<Longrightarrow> op_spec op m = m"
  by simp

declare op_spec.simps [simp del]

text \<open>
  The data part of a replica is well formed: the store's invariant, and the key counter is the
  number of keys a reader finds.
\<close>

definition data_ok :: "Replica \<Rightarrow> bool" where
  "data_ok p \<longleftrightarrow> store_ok (rp_store p) \<and> rp_keys p = int (card (dom (contents (rp_store p))))"

lemma snd_Store_Get: "snd (Store_Get s k) \<longleftrightarrow> contents s k \<noteq> None"
  by (simp add: contents_def split: prod.splits)

lemma applyLocked_wal [simp]: "rp_wal (applyLocked op sq p) = rp_wal p"
  by (simp add: applyLocked_def Let_def split: OpType.splits)

lemma data_ok_wal [simp]: "data_ok (p\<lparr>rp_wal := w\<rparr>) = data_ok p"
  by (simp add: data_ok_def)

lemma applyLocked_data:
  assumes "data_ok p"
  shows "data_ok (applyLocked op sq p)"
    and "contents (rp_store (applyLocked op sq p)) = op_spec op (contents (rp_store p))"
proof -
  have ok: "store_ok (rp_store p)" and keys: "rp_keys p = int (card (dom (contents (rp_store p))))"
    using assms by (auto simp: data_ok_def)
  note laws = lsm.contents_simps lsm.inv_intros lsm.card_put lsm.card_delete
  have "data_ok (applyLocked op sq p) \<and>
    contents (rp_store (applyLocked op sq p)) = op_spec op (contents (rp_store p))"
  proof (cases "op_Type op")
    case OpSet
    then show ?thesis
      using ok keys lsm.card_put [OF ok, of "op_Key op" "op_Value op"]
      by (auto simp: applyLocked_def data_ok_def op_spec.simps snd_Store_Get lsm.contents_put
          lsm.inv_put)
  next
    case OpDelete
    then show ?thesis
      using ok keys lsm.card_delete [OF ok, of "op_Key op"]
      by (auto simp: applyLocked_def data_ok_def op_spec.simps snd_Store_Get lsm.contents_delete
          lsm.inv_delete)
  next
    case OpCheckpoint
    then show ?thesis
      using ok keys
      by (simp add: applyLocked_def data_ok_def op_spec.simps lsm.contents_flush lsm.inv_flush)
  qed
  then show "data_ok (applyLocked op sq p)"
    and "contents (rp_store (applyLocked op sq p)) = op_spec op (contents (rp_store p))"
    by simp_all
qed

interpretation apply_ops: functional_refinement "\<lambda>e p. applyLocked (le_Operation e) (le_SequenceNumber e) p"
  data_ok "\<lambda>e. op_spec (le_Operation e)" "\<lambda>p. contents (rp_store p)"
  by unfold_locales (simp_all add: applyLocked_data)

section \<open>Tracking a history\<close>

text \<open>
  \<open>tracks h p\<close>: the replica's log is a window on \<open>h\<close> and its data is what replaying \<open>h\<close> from
  an empty store gives. It says nothing of how the replica came by its data: by writing, by
  replaying entries, or by loading a snapshot and replaying the rest.
\<close>

definition tracks :: "LogEntry list \<Rightarrow> Replica \<Rightarrow> bool" where
  "tracks h p \<longleftrightarrow> wal_holds h (rp_wal p) \<and> data_ok p \<and> contents (rp_store p) = replay h"

lemma tracks_seq: "tracks h p \<Longrightarrow> w_currentSeq (rp_wal p) = int (length h)"
  by (simp add: tracks_def wlog.holds_seqno)

lemma tracks_hist_ok: "tracks h p \<Longrightarrow> hist_ok h"
  by (simp add: tracks_def wal_holds_def)

text \<open>Fields outside the data do not matter.\<close>

lemma tracks_cong:
  assumes "rp_store p' = rp_store p" and "rp_wal p' = rp_wal p" and "rp_keys p' = rp_keys p"
  shows "tracks h p' = tracks h p"
  using assms by (simp add: tracks_def data_ok_def)

lemma tracks_NewPartition: "tracks [] (NewPartition ref opts)"
  by (simp add: tracks_def data_ok_def NewPartition_def wal_holds_NewWAL store_ok_New contents_New)

lemma tracks_resetLocked:
  assumes "tracks h p"
  shows "tracks [] (resetLocked p)"
  using assms wal_holds_Reset [of "rp_wal p" "[]"]
  by (auto simp: tracks_def data_ok_def resetLocked_def lsm.contents_reset lsm.inv_reset wal_holds_def)

text \<open>Logging an entry and applying it.\<close>

lemma tracks_log_apply:
  assumes "tracks h p" and "le_SequenceNumber e = int (length h) + 1" and "w = WAL_appendLocked e (rp_wal p)"
    and "le_Operation e = op"
  shows "tracks (h @ [e]) (applyLocked op (le_SequenceNumber e) (p\<lparr>rp_wal := w\<rparr>))"
  using assms wlog.holds_record [of h "rp_wal p" e]
    applyLocked_data [of "p\<lparr>rp_wal := w\<rparr>" op "le_SequenceNumber e"]
  by (simp add: tracks_def)

lemma Append_eq:
  assumes "Append now op w = (e, w')"
  shows "w' = WAL_appendLocked e w" and "le_SequenceNumber e = w_currentSeq w + 1"
    and "op_Timestamp op = now \<Longrightarrow> le_Operation e = op"
  using assms by (auto simp: Append_def Let_def)

lemma Checkpoint_eq:
  assumes "WAL_Checkpoint now w = (e, w')"
  shows "w' = WAL_appendLocked e w" and "le_SequenceNumber e = w_currentSeq w + 1"
    and "op_Type (le_Operation e) = OpCheckpoint"
  using assms by (auto simp: WAL_Checkpoint_def Append_def Let_def)

text \<open>A checkpoint with the memtable frozen under it.\<close>

lemma tracks_checkpoint:
  assumes "tracks h p" and "WAL_Checkpoint now (rp_wal p) = (cp, w)"
  shows "tracks (h @ [cp]) (p\<lparr>rp_wal := w, rp_store := snd (snd (Store_Flush (le_SequenceNumber cp) (rp_store p)))\<rparr>)"
proof -
  have "tracks (h @ [cp]) (applyLocked (le_Operation cp) (le_SequenceNumber cp) (p\<lparr>rp_wal := w\<rparr>))"
    using assms tracks_seq [OF assms(1)] by (intro tracks_log_apply) (simp_all add: Checkpoint_eq)
  then show ?thesis
    using Checkpoint_eq(3) [OF assms(2)] by (simp add: applyLocked_def)
qed

lemma tracks_appendLocked:
  assumes "tracks h p" and "appendLocked now op p = (e, p')"
  obtains cps where "tracks (h @ e # cps) p'" and "length cps \<le> 1"
    and "\<forall>c \<in> set cps. op_Type (le_Operation c) = OpCheckpoint"
    and "le_Operation e = op\<lparr>op_Timestamp := now\<rparr>" and "le_SequenceNumber e = int (length h) + 1"
proof -
  define op1 where "op1 = op\<lparr>op_Timestamp := now\<rparr>"
  obtain e1 w1 where app: "Append now op1 (rp_wal p) = (e1, w1)" by (cases "Append now op1 (rp_wal p)")
  define p1 where "p1 = applyLocked op1 (le_SequenceNumber e1) (p\<lparr>rp_wal := w1\<rparr>)"
  have e1: "le_Operation e1 = op1" "le_SequenceNumber e1 = int (length h) + 1"
    using Append_eq [OF app] tracks_seq [OF assms(1)] by (simp_all add: op1_def)
  have t1: "tracks (h @ [e1]) p1"
    unfolding p1_def using assms(1) Append_eq(1) [OF app] e1 by (intro tracks_log_apply) simp_all
  have "appendLocked now op p = (if ShouldFlush (rp_store p1)
      then let (cp, w2) = WAL_Checkpoint now (rp_wal p1)
           in (e1, p1\<lparr>rp_wal := w2, rp_store := snd (snd (Store_Flush (le_SequenceNumber cp) (rp_store p1)))\<rparr>)
      else (e1, p1))"
    using app by (simp add: appendLocked_def p1_def Let_def flip: op1_def)
  note res = this [unfolded assms(2)]
  show ?thesis
  proof (cases "ShouldFlush (rp_store p1)")
    case False
    with res t1 e1 show ?thesis by (intro that [of "[]"]) (simp_all add: op1_def)
  next
    case True
    obtain cp w2 where cp: "WAL_Checkpoint now (rp_wal p1) = (cp, w2)"
      by (cases "WAL_Checkpoint now (rp_wal p1)")
    with True res tracks_checkpoint [OF t1 cp] Checkpoint_eq(3) [OF cp] e1 show ?thesis
      by (intro that [of "[cp]"]) (simp_all add: op1_def)
  qed
qed


section \<open>Leader operations\<close>

lemma tracks_frozenLocked:
  assumes "frozenLocked now k p = (b, p')"
  shows "tracks h p' = tracks h p" and "rp_role p' = rp_role p" and "rp_epoch p' = rp_epoch p"
    and "rp_sealed p' = rp_sealed p" and "rp_wal p' = rp_wal p" and "rp_store p' = rp_store p"
  using assms by (auto simp: frozenLocked_def Let_def tracks_def data_ok_def split: if_splits)

lemma applyLocked_frame [simp]:
  "rp_role (applyLocked op sq p) = rp_role p" "rp_epoch (applyLocked op sq p) = rp_epoch p"
  "rp_dataEpoch (applyLocked op sq p) = rp_dataEpoch p" "rp_prevEpoch (applyLocked op sq p) = rp_prevEpoch p"
  "rp_promotedSeq (applyLocked op sq p) = rp_promotedSeq p" "rp_synced (applyLocked op sq p) = rp_synced p"
  "rp_sealed (applyLocked op sq p) = rp_sealed p" "rp_freezes (applyLocked op sq p) = rp_freezes p"
  by (simp_all add: applyLocked_def Let_def split: OpType.splits)

text \<open>What the operations on the data leave alone: role, epochs and flags.\<close>

definition same_status :: "Replica \<Rightarrow> Replica \<Rightarrow> bool" where
  "same_status p q \<longleftrightarrow> rp_role q = rp_role p \<and> rp_epoch q = rp_epoch p \<and>
     rp_dataEpoch q = rp_dataEpoch p \<and> rp_prevEpoch q = rp_prevEpoch p \<and>
     rp_promotedSeq q = rp_promotedSeq p \<and> rp_synced q = rp_synced p \<and> rp_sealed q = rp_sealed p"

lemma same_status_refl [simp]: "same_status p p"
  by (simp add: same_status_def)

lemma same_status_trans: "same_status p q \<Longrightarrow> same_status q r \<Longrightarrow> same_status p r"
  by (simp add: same_status_def)

interpretation st: evolution same_status
  by unfold_locales (auto intro: same_status_trans)

lemma same_status_appendLocked: "same_status p (snd (appendLocked now op p))"
  by (simp add: same_status_def appendLocked_def Let_def split: prod.splits)

lemma same_status_frozenLocked: "same_status p (snd (frozenLocked now k p))"
  by (simp add: same_status_def frozenLocked_def Let_def)

lemma same_status_write: "same_status p (snd (write_op now op p))"
proof -
  obtain b p1 where f: "frozenLocked now (op_Key op) p = (b, p1)" by (cases "frozenLocked now (op_Key op) p")
  have "same_status p p1" using same_status_frozenLocked [of p now "op_Key op"] f by simp
  then show ?thesis
    using f same_status_trans [OF _ same_status_appendLocked [of p1 now op]]
    by (auto simp: write_op_def split: bool.splits prod.splits)
qed

lemma tracks_write:
  assumes "tracks h p" and "write_op now op p = (Inr e, p')"
  obtains cps where "tracks (h @ e # cps) p'" and "\<forall>c \<in> set cps. op_Type (le_Operation c) = OpCheckpoint"
    and "le_Operation e = op\<lparr>op_Timestamp := now\<rparr>" and "le_SequenceNumber e = int (length h) + 1"
proof -
  obtain b p1 where f: "frozenLocked now (op_Key op) p = (b, p1)" by (cases "frozenLocked now (op_Key op) p")
  obtain e2 p2 where a: "appendLocked now op p1 = (e2, p2)" by (cases "appendLocked now op p1")
  have "e2 = e" "p2 = p'"
    using assms(2) f a by (auto simp: write_op_def split: if_splits bool.splits)
  moreover have "tracks h p1" using assms(1) tracks_frozenLocked(1) [OF f] by simp
  ultimately show ?thesis
    using a that by (metis tracks_appendLocked)
qed

lemma tracks_write_error:
  assumes "tracks h p" and "write_op now op p = (Inl err, p')"
  shows "tracks h p'" and "rp_wal p' = rp_wal p" and "rp_store p' = rp_store p"
proof -
  obtain b p1 where f: "frozenLocked now (op_Key op) p = (b, p1)" by (cases "frozenLocked now (op_Key op) p")
  have "p' = p \<or> p' = p1"
    using assms(2) f by (auto simp: write_op_def split: if_splits bool.splits prod.splits)
  with assms(1) tracks_frozenLocked [OF f] show "tracks h p'" "rp_wal p' = rp_wal p" "rp_store p' = rp_store p"
    by auto
qed

lemma tracks_Import_fold:
  assumes "tracks h p"
  shows "\<exists>g. tracks (h @ g) (fold (\<lambda>op p. snd (appendLocked now op p)) ops p) \<and>
    replay (h @ g) = fold op_spec ops (replay h)"
  using assms
proof (induction ops arbitrary: h p)
  case Nil
  then show ?case by (intro exI [of _ "[]"]) simp
next
  case (Cons op ops)
  obtain e p1 where a: "appendLocked now op p = (e, p1)" by (cases "appendLocked now op p")
  then obtain cps where t: "tracks (h @ e # cps) p1" and cps: "length cps \<le> 1"
      "\<forall>c \<in> set cps. op_Type (le_Operation c) = OpCheckpoint"
    and e: "le_Operation e = op\<lparr>op_Timestamp := now\<rparr>"
    using Cons.prems by (metis tracks_appendLocked)
  have "replay (h @ e # cps) = op_spec op (replay h)"
    using cps e by (cases cps) (auto simp: replay_def)
  with Cons.IH [OF t] a show ?case
    by (auto intro: exI [of _ "e # cps @ g" for g])
qed

section \<open>Snapshots\<close>

lemma tracks_Take_Snapshot:
  assumes "tracks h p" and "Take_Snapshot now f p = (Inr snap, p')"
  obtains cp where "tracks (h @ [cp]) p'" and "op_Type (le_Operation cp) = OpCheckpoint"
    and "sn_Seq snap = int (length h) + 1" and "sn_Epoch snap = rp_epoch p"
    and "gm_ok (sn_Data snap)"
    and "map_of (sn_Data snap) = replay h |` {k. case f of None \<Rightarrow> True | Some g \<Rightarrow> g k}"
    and "rp_role p = NodeRoleLeader" and "same_status p p'"
proof -
  obtain cp w where cp: "WAL_Checkpoint now (rp_wal p) = (cp, w)"
    by (cases "WAL_Checkpoint now (rp_wal p)")
  obtain v b st where fl: "Store_Flush (le_SequenceNumber cp) (rp_store p) = (v, b, st)"
    by (cases "Store_Flush (le_SequenceNumber cp) (rp_store p)")
  have role: "rp_role p = NodeRoleLeader"
    and p': "p' = p\<lparr>rp_wal := w, rp_store := st\<rparr>"
    and snap: "snap = \<lparr>sn_Generation = rp_Generation p, sn_PartitionID = rp_ID p, sn_Epoch = rp_epoch p,
      sn_Seq = le_SequenceNumber cp, sn_Data = Materialize f v\<rparr>"
    using assms(2) cp fl by (auto simp: Take_Snapshot_def split: if_splits)
  let ?f = "case f of None \<Rightarrow> \<lambda>_. True | Some g \<Rightarrow> g"
  have mat: "Materialize f v = Materialize (Some ?f) v"
    by (cases f) (simp_all add: Materialize_None)
  have "store_ok (rp_store p)" and con: "contents (rp_store p) = replay h"
    using assms(1) by (simp_all add: tracks_def data_ok_def)
  then have "map_of (sn_Data snap) = replay h |` {k. ?f k}"
    using lsm.map_of_export [of "rp_store p" ?f "le_SequenceNumber cp"] fl by (simp add: snap mat)
  moreover have "{k. ?f k} = {k. case f of None \<Rightarrow> True | Some g \<Rightarrow> g k}"
    by (cases f) simp_all
  moreover have "tracks (h @ [cp]) p'"
    using tracks_checkpoint [OF assms(1) cp] fl by (simp add: p')
  ultimately show ?thesis
    using role Checkpoint_eq [OF cp] tracks_seq [OF assms(1)]
    by (intro that [of cp]) (simp_all add: snap gm_ok_Materialize p' same_status_def)
qed

text \<open>Loading a complete snapshot of a history puts the replica exactly there.\<close>

lemma tracks_LoadSnapshot:
  assumes "tracks g p" and "rp_role p = NodeRoleFollower" and "hist_ok h"
    and "sn_Seq snap = int (length h)" and "gm_ok (sn_Data snap)" and "map_of (sn_Data snap) = replay h"
    and "LoadSnapshot snap p = (r, p')"
  shows "r = None" and "tracks h p'" and "rp_dataEpoch p' = sn_Epoch snap" and "rp_synced p'"
    and "rp_role p' = NodeRoleFollower" and "rp_epoch p' = rp_epoch p"
proof -
  have p': "p' = p\<lparr>rp_store := Store_Load (sn_Data snap) (sn_Seq snap) (rp_store p),
      rp_wal := WAL_Reset (sn_Seq snap) (rp_wal p), rp_keys := int (length (sn_Data snap)),
      rp_dataEpoch := sn_Epoch snap, rp_synced := True\<rparr>" and r: "r = None"
    using assms(2,7) by (auto simp: LoadSnapshot_def)
  have ok: "store_ok (rp_store p)" and w: "wal_ok (rp_wal p)"
    using assms(1) by (auto simp: tracks_def data_ok_def wal_holds_def)
  have "wal_holds h (WAL_Reset (sn_Seq snap) (rp_wal p))"
    using wal_holds_Reset [OF w assms(3)] assms(4) by simp
  then show "tracks h p'"
    using ok assms(5,6)
    by (simp add: p' tracks_def data_ok_def lsm.contents_load lsm.inv_load gm_len_card)
  show "r = None" "rp_dataEpoch p' = sn_Epoch snap" "rp_synced p'" "rp_role p' = NodeRoleFollower"
    "rp_epoch p' = rp_epoch p"
    using r assms(2) by (simp_all add: p')
qed

section \<open>Replaying a leader's entries\<close>

lemma apply_entries_extends:
  assumes "tracks g p" and "hist_ok h" and "prefix g h" and "s \<le> length g"
    and "es = take n (drop s h)"
  shows "\<exists>p'. apply_entries es p = (None, p') \<and> same_status p p' \<and>
    tracks (take (max (length g) (s + length es)) h) p'"
  using assms
proof (induction es arbitrary: g p s n)
  case Nil
  then show ?case by (auto simp: prefix_same_take max_def prefix_def)
next
  case (Cons e es)
  from Cons.prems(5) have n: "0 < n" and s: "s < length h"
    by (cases n; cases "s < length h"; simp)+
  then have e: "e = h ! s" and es: "es = take (n - 1) (drop (Suc s) h)"
    using Cons.prems(5) by (cases n; simp add: Cons_nth_drop_Suc [symmetric])+
  have seq: "le_SequenceNumber e = int s + 1" using Cons.prems(2) s by (simp add: e hist_ok_def)
  have cur: "w_currentSeq (rp_wal p) = int (length g)" using Cons.prems(1) by (rule tracks_seq)
  show ?case
  proof (cases "s < length g")
    case True
    then have "apply_entries (e # es) p = apply_entries es p" by (simp add: seq cur)
    moreover have "max (length g) (s + length (e # es)) = max (length g) (Suc s + length es)" by simp
    ultimately show ?thesis
      using Cons.IH [OF Cons.prems(1-3) _ es] True by (metis Suc_leI)
  next
    case False
    with Cons.prems(4) have sg: "s = length g" by simp
    let ?p1 = "applyLocked (le_Operation e) (le_SequenceNumber e) (p\<lparr>rp_wal := WAL_appendLocked e (rp_wal p)\<rparr>)"
    have step: "apply_entries (e # es) p = apply_entries es ?p1"
      by (simp add: seq cur sg Record_def)
    have t: "tracks (g @ [e]) ?p1"
      using Cons.prems(1) by (rule tracks_log_apply) (simp_all add: seq sg)
    have pre: "prefix (g @ [e]) h"
      using Cons.prems(3) s by (metis e prefix_same_take sg take_Suc_conv_app_nth take_is_prefix)
    obtain p' where "apply_entries es ?p1 = (None, p')" "same_status ?p1 p'"
      "tracks (take (max (length (g @ [e])) (Suc s + length es)) h) p'"
      using Cons.IH [OF t Cons.prems(2) pre _ es] sg by auto
    moreover have "same_status p ?p1" by (simp add: same_status_def)
    ultimately show ?thesis
      unfolding step by (intro exI [of _ p']) (auto simp: sg intro: same_status_trans)
  qed
qed

section \<open>Filtered exports\<close>

text \<open>Restricting the data to a key set commutes with replaying the entries on those keys.\<close>

lemma op_spec_restrict:
  "op_Type op = OpCheckpoint \<or> op_Key op \<notin> A \<Longrightarrow> op_spec op m |` A = m |` A"
  "op_Key op \<in> A \<Longrightarrow> op_spec op m |` A = op_spec op (m |` A)"
  by (auto simp: op_spec.simps restrict_map_def fun_eq_iff split: OpType.splits)

lemma fold_op_spec_restrict:
  "fold (\<lambda>e. op_spec (le_Operation e)) es m |` {k. match k} =
   fold (\<lambda>e. op_spec (le_Operation e)) (export_entries match es) (m |` {k. match k})"
proof (induction es arbitrary: m)
  case Nil
  then show ?case by (simp add: export_entries_def)
next
  case (Cons e es)
  then show ?case
    by (cases "match (op_Key (le_Operation e))")
      (auto simp: export_entries_def op_spec_restrict)
qed

lemma replay_append: "replay (g @ h) = fold (\<lambda>e. op_spec (le_Operation e)) h (replay g)"
  by (simp add: replay_def)

lemma tracks_export_snapshot:
  assumes "tracks h p" and "export_snapshot now match p = (Inr c, p')"
  obtains cp where "tracks (h @ [cp]) p'" and "op_Type (le_Operation cp) = OpCheckpoint"
    and "mc_Mode c = ModeSnapshot" and "mc_Seq c = int (length h) + 1" and "gm_ok (mc_Data c)"
    and "map_of (mc_Data c) = replay h |` {k. match k}" and "mc_Epoch c = rp_epoch p"
    and "rp_role p = NodeRoleLeader" and "same_status p p'" and "rp_freezes p' = rp_freezes p"
proof -
  obtain r q where s: "Take_Snapshot now (Some match) p = (r, q)"
    by (cases "Take_Snapshot now (Some match) p")
  then obtain snap where r: "r = Inr snap" and "q = p'"
    and c: "c = \<lparr>mc_Mode = ModeSnapshot, mc_Epoch = sn_Epoch snap, mc_Seq = sn_Seq snap,
      mc_Data = sn_Data snap, mc_Entries = []\<rparr>"
    using assms(2) by (auto simp: export_snapshot_def split: sum.splits)
  moreover have "rp_freezes q = rp_freezes p"
    using s by (auto simp: Take_Snapshot_def Let_def split: if_splits prod.splits)
  ultimately show ?thesis
    using tracks_Take_Snapshot [OF assms(1) s [unfolded r]] that by (simp add: c) metis
qed

lemma tracks_addFreezeLocked [simp]: "tracks h (addFreezeLocked now tag match ttl p) = tracks h p"
  by (simp add: addFreezeLocked_def Let_def tracks_def data_ok_def split: option.splits)

lemma addFreezeLocked_frame [simp]:
  "rp_wal (addFreezeLocked now tag match ttl p) = rp_wal p"
  "rp_role (addFreezeLocked now tag match ttl p) = rp_role p"
  "rp_epoch (addFreezeLocked now tag match ttl p) = rp_epoch p"
  "rp_sealed (addFreezeLocked now tag match ttl p) = rp_sealed p"
  by (simp_all add: addFreezeLocked_def Let_def split: option.splits)

section \<open>Freezes\<close>

text \<open>A freeze that covers \<open>match\<close> up to \<open>until\<close>.\<close>

definition frozen_until :: "(key \<Rightarrow> bool) \<Rightarrow> go_time \<Rightarrow> Replica \<Rightarrow> bool" where
  "frozen_until match until p \<longleftrightarrow> (\<exists>f \<in> set (rp_freezes p). fz_match f = match \<and> until \<le> fz_until f)"

lemma extend_freeze_Some:
  "extend_freeze tag until fs = Some fs' \<Longrightarrow> \<exists>f \<in> set fs. fz_tag f = tag \<and> f\<lparr>fz_until := until\<rparr> \<in> set fs'"
  by (induction fs arbitrary: fs') (auto split: if_splits)

lemma frozen_until_addFreeze:
  assumes "\<forall>f \<in> set (rp_freezes p). fz_tag f = tag \<longrightarrow> fz_match f = match"
  shows "frozen_until match (now + ttl) (addFreezeLocked now tag match ttl p)"
proof (cases "extend_freeze tag (now + ttl) (rp_freezes p)")
  case None
  then show ?thesis by (simp add: frozen_until_def addFreezeLocked_def)
next
  case (Some fs)
  then obtain f where f: "f \<in> set (rp_freezes p)" "fz_tag f = tag" "f\<lparr>fz_until := now + ttl\<rparr> \<in> set fs"
    using extend_freeze_Some by blast
  with assms have "fz_match (f\<lparr>fz_until := now + ttl\<rparr>) = match" by simp
  with f(3) Some show ?thesis
    by (auto simp: frozen_until_def addFreezeLocked_def intro: bexI [of _ "f\<lparr>fz_until := now + ttl\<rparr>"])
qed

lemma frozenLocked_frozen:
  assumes "frozen_until match until p" and "now \<le> until"
  shows "frozen_until match until (snd (frozenLocked now k p))"
    and "match k \<Longrightarrow> fst (frozenLocked now k p)"
  using assms by (force simp: frozen_until_def frozenLocked_def Let_def list_ex_iff)+

lemma appendLocked_freezes [simp]: "rp_freezes (snd (appendLocked now op p)) = rp_freezes p"
  by (simp add: appendLocked_def Let_def split: prod.splits)

text \<open>A sequence of client writes, each at its own time; refused ones leave the data alone.\<close>

definition run_writes :: "(go_time \<times> Operation) list \<Rightarrow> Replica \<Rightarrow> Replica" where
  "run_writes ws p = fold (\<lambda>(now, op) p. snd (write_op now op p)) ws p"

lemma write_frozen:
  assumes "frozen_until match until p" and "now \<le> until" and "tracks h p"
  shows "frozen_until match until (snd (write_op now op p))"
    and "\<exists>g. tracks (h @ g) (snd (write_op now op p)) \<and> replay (h @ g) |` {k. match k} = replay h |` {k. match k}"
proof -
  obtain b p1 where f: "frozenLocked now (op_Key op) p = (b, p1)" by (cases "frozenLocked now (op_Key op) p")
  obtain e p2 where a: "appendLocked now op p1 = (e, p2)" by (cases "appendLocked now op p1")
  have fr: "frozen_until match until p1"
    using frozenLocked_frozen(1) [OF assms(1,2), of "op_Key op"] f by simp
  moreover have "rp_freezes p2 = rp_freezes p1" using appendLocked_freezes [of now op p1] a by simp
  ultimately have "frozen_until match until p2" by (simp add: frozen_until_def)
  then show "frozen_until match until (snd (write_op now op p))"
    using fr assms(1) f a by (auto simp: write_op_def split: bool.splits)
  show "\<exists>g. tracks (h @ g) (snd (write_op now op p)) \<and> replay (h @ g) |` {k. match k} = replay h |` {k. match k}"
  proof (cases "fst (write_op now op p)")
    case (Inl err)
    then have "write_op now op p = (Inl err, snd (write_op now op p))"
      by (cases "write_op now op p") simp
    then have "tracks h (snd (write_op now op p))" using assms(3) tracks_write_error(1) by blast
    then show ?thesis by (intro exI [of _ "[]"]) simp
  next
    case (Inr e)
    then have w: "write_op now op p = (Inr e, snd (write_op now op p))"
      by (cases "write_op now op p") simp
    have "\<not> b" using Inr f by (auto simp: write_op_def split: if_splits bool.splits prod.splits)
    then have nm: "\<not> match (op_Key op)" using frozenLocked_frozen(2) [OF assms(1,2), of "op_Key op"] f by auto
    obtain cps where t: "tracks (h @ e # cps) (snd (write_op now op p))"
      and cps: "\<forall>c \<in> set cps. op_Type (le_Operation c) = OpCheckpoint"
      and e: "le_Operation e = op\<lparr>op_Timestamp := now\<rparr>" and "le_SequenceNumber e = int (length h) + 1"
      using assms(3) w by (rule tracks_write)
    have "export_entries match (e # cps) = []"
      using cps nm e by (auto simp: export_entries_def filter_empty_conv)
    then have "replay (h @ e # cps) |` {k. match k} = replay h |` {k. match k}"
      using fold_op_spec_restrict [of "e # cps" "replay h" match] by (simp add: replay_append)
    with t show ?thesis by blast
  qed
qed

lemma run_writes_frozen:
  assumes "frozen_until match until p" and "\<forall>(now, op) \<in> set ws. now \<le> until" and "tracks h p"
  shows "\<exists>g. tracks (h @ g) (run_writes ws p) \<and> replay (h @ g) |` {k. match k} = replay h |` {k. match k}"
  using assms
proof (induction ws arbitrary: p h)
  case Nil
  then show ?case by (intro exI [of _ "[]"]) (simp add: run_writes_def)
next
  case (Cons w ws)
  obtain now op where w: "w = (now, op)" by (cases w)
  let ?p1 = "snd (write_op now op p)"
  have now: "now \<le> until" using Cons.prems(2) w by simp
  obtain g where g: "tracks (h @ g) ?p1" "replay (h @ g) |` {k. match k} = replay h |` {k. match k}"
    using write_frozen(2) [OF Cons.prems(1) now Cons.prems(3)] by blast
  have "frozen_until match until ?p1" using Cons.prems(1) now Cons.prems(3) by (rule write_frozen(1))
  moreover have "\<forall>(now, op) \<in> set ws. now \<le> until" using Cons.prems(2) by simp
  ultimately obtain g' where "tracks ((h @ g) @ g') (run_writes ws ?p1)"
      "replay ((h @ g) @ g') |` {k. match k} = replay (h @ g) |` {k. match k}"
    using Cons.IH g(1) by blast
  with g(2) show ?case
    by (intro exI [of _ "g @ g'"]) (simp add: w run_writes_def)
qed

section \<open>Properties\<close>

lemma replay_write:
  assumes "\<forall>c \<in> set cps. op_Type (le_Operation c) = OpCheckpoint"
    and "le_Operation e = op\<lparr>op_Timestamp := now\<rparr>"
  shows "replay (h @ e # cps) = op_spec op (replay h)"
proof -
  have "fold (\<lambda>e. op_spec (le_Operation e)) cps m = m" for m
    using assms(1) by (induction cps arbitrary: m) auto
  then show ?thesis using assms(2) by (simp add: replay_append)
qed

lemma tracks_LeadFresh: "tracks h p \<Longrightarrow> tracks [] (LeadFresh epoch p)"
  using tracks_resetLocked by (auto simp: LeadFresh_def tracks_def data_ok_def)

lemma tracks_Promote [simp]: "tracks h (Promote epoch p) = tracks h p"
  by (simp add: Promote_def tracks_def data_ok_def)

lemma Take_Snapshot_leader:
  "rp_role p = NodeRoleLeader \<Longrightarrow> \<exists>snap p'. Take_Snapshot now f p = (Inr snap, p')"
  by (auto simp: Take_Snapshot_def Let_def split: prod.splits)

text \<open>An export on a leader never fails.\<close>

lemma Export_leader:
  assumes "rp_role p = NodeRoleLeader"
  shows "\<exists>chunk p'. Export now tag match freezeKeys after ttl p = (Inr chunk, p')"
proof -
  have snap: "\<exists>chunk p'. export_snapshot now match q = (Inr chunk, p')" if "rp_role q = NodeRoleLeader" for q
    using Take_Snapshot_leader [OF that, of now "Some match"] by (auto simp: export_snapshot_def)
  let ?q = "addFreezeLocked now tag match ttl p"
  obtain es ok where "After after 0 (rp_wal ?q) = (es, ok)" by (cases "After after 0 (rp_wal ?q)")
  with snap [of p] snap [of ?q] assms show ?thesis
    by (cases ok; cases freezeKeys) (simp_all add: Export_def Let_def)
qed

text \<open>A new leader and a new follower of the same partition.\<close>

definition example_opts :: Options where
  "example_opts = \<lparr>opt_FlushSize = 2, opt_MaxLevels = 2, opt_WALRetain = 10\<rparr>"

definition example_leader :: Replica where
  "example_leader = LeadFresh 1 (NewPartition (PartitionRef 1 0) example_opts)"

definition example_follower :: Replica where
  "example_follower = snd (Follow 1 (NewPartition (PartitionRef 1 0) example_opts))"

lemma tracks_example_leader: "tracks [] example_leader"
  unfolding example_leader_def by (rule tracks_LeadFresh [OF tracks_NewPartition])

lemma tracks_example_follower: "tracks [] example_follower"
  using tracks_NewPartition [of "PartitionRef 1 0" example_opts]
  by (simp add: example_follower_def Follow_def NewPartition_def tracks_def data_ok_def)

text \<open>
  C25. What a write does, on every branch. A refused write leaves the log and the data as they
  were, and the error says why (not the leader, sealed for a handoff, or the key range frozen,
  in this order). An accepted write gets the next sequence number, changes the data as the
  operation says, and keeps the key counter equal to the number of keys a reader finds; this
  includes the memtable freeze and the checkpoint a write may trigger.
\<close>

theorem write_outcome:
  assumes "tracks h p"
  shows "case write_op now op p of
      (Inl err, p') \<Rightarrow> rp_wal p' = rp_wal p \<and> rp_store p' = rp_store p \<and>
        err = (if rp_role p \<noteq> NodeRoleLeader then ErrNotLeader else if rp_sealed p then ErrSealed else ErrFrozen) \<and>
        (err = ErrFrozen \<longrightarrow> (\<exists>f \<in> set (rp_freezes p). now \<le> fz_until f \<and> fz_match f (op_Key op)))
    | (Inr e, p') \<Rightarrow> rp_role p = NodeRoleLeader \<and> \<not> rp_sealed p \<and>
        \<not> (\<exists>f \<in> set (rp_freezes p). now \<le> fz_until f \<and> fz_match f (op_Key op)) \<and>
        le_SequenceNumber e = w_currentSeq (rp_wal p) + 1 \<and>
        contents (rp_store p') = op_spec op (contents (rp_store p)) \<and>
        rp_keys p' = int (card (dom (contents (rp_store p'))))"
proof -
  obtain b p1 where f: "frozenLocked now (op_Key op) p = (b, p1)" by (cases "frozenLocked now (op_Key op) p")
  have b: "b \<longleftrightarrow> (\<exists>f \<in> set (rp_freezes p). now \<le> fz_until f \<and> fz_match f (op_Key op))"
    using f by (auto simp: frozenLocked_def Let_def list_ex_iff not_less split: if_splits)
  show ?thesis
  proof (cases "fst (write_op now op p)")
    case (Inl err)
    then have w: "write_op now op p = (Inl err, snd (write_op now op p))"
      by (cases "write_op now op p") simp
    have "err = (if rp_role p \<noteq> NodeRoleLeader then ErrNotLeader else if rp_sealed p then ErrSealed else ErrFrozen)"
      and "err = ErrFrozen \<Longrightarrow> b"
      using Inl f by (auto simp: write_op_def split: if_splits bool.splits prod.splits)
    then show ?thesis
      using tracks_write_error(2,3) [OF assms w] b by (subst w) auto
  next
    case (Inr e)
    then have w: "write_op now op p = (Inr e, snd (write_op now op p))"
      by (cases "write_op now op p") simp
    have gate: "rp_role p = NodeRoleLeader \<and> \<not> rp_sealed p \<and> \<not> b"
      using Inr f by (auto simp: write_op_def split: if_splits bool.splits prod.splits)
    obtain cps where t: "tracks (h @ e # cps) (snd (write_op now op p))"
      and cps: "\<forall>c \<in> set cps. op_Type (le_Operation c) = OpCheckpoint"
      and e: "le_Operation e = op\<lparr>op_Timestamp := now\<rparr>" and sq: "le_SequenceNumber e = int (length h) + 1"
      using assms w by (rule tracks_write)
    have "contents (rp_store (snd (write_op now op p))) = op_spec op (contents (rp_store p))"
      using t assms replay_write [OF cps e, of h] by (simp add: tracks_def)
    then show ?thesis
      using t gate b sq tracks_seq [OF assms] by (subst w) (auto simp: tracks_def data_ok_def)
  qed
qed

theorem write_outcome_witness:
  "\<exists>e p'. Set_key 5 ''k'' ''v'' example_leader = (Inr e, p') \<and> le_SequenceNumber e = 1 \<and>
    contents (rp_store p') = [''k'' \<mapsto> ''v'']"
proof -
  let ?op = "\<lparr>op_Type = OpSet, op_Key = ''k'', op_Value = ''v'', op_Timestamp = 0\<rparr>"
  have "rp_role example_leader = NodeRoleLeader" "\<not> rp_sealed example_leader" "rp_freezes example_leader = []"
    by (simp_all add: example_leader_def LeadFresh_def resetLocked_def NewPartition_def)
  then obtain e p' where w: "write_op 5 ?op example_leader = (Inr e, p')"
    by (cases "appendLocked 5 ?op example_leader") (simp add: write_op_def frozenLocked_def)
  have "contents (rp_store example_leader) = Map.empty"
    using tracks_example_leader by (simp add: tracks_def)
  with write_outcome [OF tracks_example_leader, of 5 ?op] w tracks_seq [OF tracks_example_leader]
  show ?thesis by (auto simp: Set_key_def op_spec.simps)
qed

text \<open>
  A snapshot is a round trip: a follower that loads the snapshot a leader has just produced
  answers every read as the leader does, counts as many keys, stands at the leader's sequence
  number and remembers the leader's epoch.
\<close>

lemma snapshot_roundtrip:
  assumes "tracks h leader" and "tracks g follower" and "rp_role follower = NodeRoleFollower"
    and "Take_Snapshot now None leader = (Inr snap, leader')"
  shows "\<exists>f'. LoadSnapshot snap follower = (None, f') \<and>
    contents (rp_store f') = contents (rp_store leader') \<and> rp_keys f' = rp_keys leader' \<and>
    w_currentSeq (rp_wal f') = w_currentSeq (rp_wal leader') \<and> rp_dataEpoch f' = rp_epoch leader \<and> rp_synced f'"
proof -
  obtain cp where t: "tracks (h @ [cp]) leader'" and cp: "op_Type (le_Operation cp) = OpCheckpoint"
    and sn: "sn_Seq snap = int (length h) + 1" "sn_Epoch snap = rp_epoch leader" "gm_ok (sn_Data snap)"
    and data: "map_of (sn_Data snap) = replay h |` {k. case None of None \<Rightarrow> True | Some g \<Rightarrow> g k}"
    and "rp_role leader = NodeRoleLeader" "same_status leader leader'"
    using assms(1,4) by (rule tracks_Take_Snapshot)
  obtain r f' where l: "LoadSnapshot snap follower = (r, f')" by (cases "LoadSnapshot snap follower")
  have "map_of (sn_Data snap) = replay (h @ [cp])" using data cp by simp
  note f' = tracks_LoadSnapshot [OF assms(2,3) tracks_hist_ok [OF t] _ sn(3) this l]
  have "tracks (h @ [cp]) f'" "r = None" "rp_dataEpoch f' = rp_epoch leader" "rp_synced f'"
    using f' sn by simp_all
  with t l tracks_seq [of "h @ [cp]"] show ?thesis by (simp add: tracks_def data_ok_def)
qed

text \<open>
  A synced follower whose data is a prefix of the leader's history and that applies what the
  leader's log returns after its position never fails, stays on the leader's history, and takes
  the leader's epoch as the epoch of its data. With an unlimited batch it then holds exactly the
  leader's data.
\<close>

lemma follower_catches_up:
  assumes "tracks h leader" and "tracks g follower" and "prefix g h"
    and "rp_role follower = NodeRoleFollower" and "rp_synced follower"
    and "After (w_currentSeq (rp_wal follower)) limit (rp_wal leader) = (es, True)"
  shows "\<exists>f'. ApplyLogEntries es e follower = (None, f') \<and> rp_dataEpoch f' = e \<and>
    (\<exists>g'. prefix g g' \<and> prefix g' h \<and> tracks g' f') \<and>
    (limit \<le> 0 \<longrightarrow> contents (rp_store f') = contents (rp_store leader) \<and> rp_keys f' = rp_keys leader)"
proof -
  have seq: "w_currentSeq (rp_wal follower) = int (length g)" using assms(2) by (rule tracks_seq)
  have wal: "wal_holds h (rp_wal leader)" using assms(1) by (simp add: tracks_def)
  have es: "es = (if 0 < limit then take (nat limit) (drop (length g) h) else drop (length g) h)"
    using wlog.after_entries [OF wal _ assms(6)] seq by simp
  then have "prefix es (drop (length g) h)" by (simp add: take_is_prefix)
  then have "es = take (length es) (drop (length g) h)" by (rule prefix_same_take)
  then obtain f1 where f1: "apply_entries es follower = (None, f1)" "same_status follower f1"
      "tracks (take (max (length g) (length g + length es)) h) f1"
    using apply_entries_extends [OF assms(2) tracks_hist_ok [OF assms(1)] assms(3) order_refl] by blast
  let ?f' = "f1\<lparr>rp_dataEpoch := e\<rparr>" and ?g' = "take (length g + length es) h"
  have app: "ApplyLogEntries es e follower = (None, ?f')"
    using assms(4,5) f1(1) by (simp add: ApplyLogEntries_def)
  have t: "tracks ?g' ?f'"
    using f1(3) by (simp add: tracks_def data_ok_def max_def)
  have "prefix (take (length g) h) ?g'" by (rule prefix_take_le) simp
  then have pre: "prefix g ?g'" and "prefix ?g' h"
    using prefix_same_take [OF assms(3)] by (simp_all add: take_is_prefix)
  moreover have "?g' = h" if "limit \<le> 0"
    using that es prefix_length_le [OF assms(3)] by simp
  ultimately show ?thesis
    using app t assms(1) by (auto simp: tracks_def data_ok_def)
qed

definition example_set :: Operation where
  "example_set = \<lparr>op_Type = OpSet, op_Key = ''k'', op_Value = ''v'', op_Timestamp = 0\<rparr>"

lemma export_two_phase:
  assumes "tracks h p" and "Export now tag match False 0 ttl p = (Inr chunk1, p1)"
    and "tracks (h @ cp # later) q" and "rp_role q = NodeRoleLeader"
    and "op_Type (le_Operation cp) = OpCheckpoint"
    and "Export now' tag match True (mc_Seq chunk1) ttl q = (Inr chunk2, q1)"
  shows "mc_Mode chunk1 = ModeSnapshot" and "gm_ok (mc_Data chunk1)"
    and "map_of (mc_Data chunk1) = replay h |` {k. match k}"
    and "mc_Mode chunk2 = ModeLogs \<Longrightarrow> mc_Entries chunk2 = export_entries match later"
    and "mc_Mode chunk2 = ModeSnapshot \<Longrightarrow>
      gm_ok (mc_Data chunk2) \<and> map_of (mc_Data chunk2) = replay (h @ cp # later) |` {k. match k}"
proof -
  let ?h' = "h @ cp # later" and ?q1 = "addFreezeLocked now' tag match ttl q"
  have e1: "export_snapshot now match p = (Inr chunk1, p1)" using assms(2) by (simp add: Export_def)
  obtain cp1 where c1: "mc_Mode chunk1 = ModeSnapshot" "mc_Seq chunk1 = int (length h) + 1"
    "map_of (mc_Data chunk1) = replay h |` {k. match k}" "gm_ok (mc_Data chunk1)"
    by (rule tracks_export_snapshot [OF assms(1) e1]) blast
  then show "mc_Mode chunk1 = ModeSnapshot" "gm_ok (mc_Data chunk1)"
    "map_of (mc_Data chunk1) = replay h |` {k. match k}" by simp_all
  have tq: "tracks ?h' ?q1" using assms(3) by simp
  obtain es ok where af: "After (mc_Seq chunk1) 0 (rp_wal ?q1) = (es, ok)"
    by (cases "After (mc_Seq chunk1) 0 (rp_wal ?q1)")
  have snap: "mc_Mode chunk2 = ModeSnapshot \<and> gm_ok (mc_Data chunk2) \<and> map_of (mc_Data chunk2) = replay ?h' |` {k. match k}"
    if "\<not> ok"
  proof -
    have "export_snapshot now' match ?q1 = (Inr chunk2, q1)"
      using that assms(4,6) af by (auto simp: Export_def Let_def)
    then show ?thesis by (rule tracks_export_snapshot [OF tq]) blast
  qed
  have logs: "mc_Mode chunk2 = ModeLogs \<and> mc_Entries chunk2 = export_entries match later" if ok
  proof -
    have "mc_Mode chunk2 = ModeLogs" "mc_Entries chunk2 = export_entries match es"
      using that assms(4,6) af by (auto simp: Export_def Let_def)
    moreover have "wal_holds ?h' (rp_wal ?q1)" using tq by (simp add: tracks_def)
    then have "es = drop (nat (mc_Seq chunk1)) ?h'"
      using wlog.after_entries [of ?h' "rp_wal ?q1" "mc_Seq chunk1" 0 es] af that c1(2) by simp
    then have "es = later" using c1(2) by (simp add: nat_add_distrib)
    ultimately show ?thesis by simp
  qed
  show "mc_Mode chunk2 = ModeLogs \<Longrightarrow> mc_Entries chunk2 = export_entries match later"
    using snap logs by (cases ok) auto
  show "mc_Mode chunk2 = ModeSnapshot \<Longrightarrow>
      gm_ok (mc_Data chunk2) \<and> map_of (mc_Data chunk2) = replay ?h' |` {k. match k}"
    using snap logs by (cases ok) auto
qed

text \<open>
  The two-phase hand-over of a key range (resharding) is exact. The first export returns a
  snapshot of the range while the source keeps taking writes. When the range is frozen later,
  the second export returns either the writes to the range since that snapshot, so that
  replaying them over the snapshot gives the range as it is now, or, if the log was truncated,
  the range as it is now.
\<close>

lemma export_two_phase_exact:
  assumes "tracks h p" and "Export now tag match False 0 ttl p = (Inr chunk1, p1)"
    and "tracks (h @ cp # later) q" and "rp_role q = NodeRoleLeader"
    and "op_Type (le_Operation cp) = OpCheckpoint"
    and "Export now' tag match True (mc_Seq chunk1) ttl q = (Inr chunk2, q1)"
  shows "mc_Mode chunk1 = ModeSnapshot \<and> map_of (mc_Data chunk1) = contents (rp_store p) |` {k. match k} \<and>
    (case mc_Mode chunk2 of
       ModeLogs \<Rightarrow> fold (\<lambda>e. op_spec (le_Operation e)) (mc_Entries chunk2) (map_of (mc_Data chunk1)) =
         contents (rp_store q) |` {k. match k}
     | ModeSnapshot \<Rightarrow> map_of (mc_Data chunk2) = contents (rp_store q) |` {k. match k})"
proof -
  have con: "contents (rp_store p) = replay h" "contents (rp_store q) = replay (h @ cp # later)"
    using assms(1,3) by (simp_all add: tracks_def)
  have "replay (h @ cp # later) = fold (\<lambda>e. op_spec (le_Operation e)) later (replay h)"
    using assms(5) by (simp add: replay_append)
  with export_two_phase [OF assms] con fold_op_spec_restrict [of later "replay h" match] show ?thesis
    by (cases "mc_Mode chunk2") simp_all
qed

text \<open>
  A frozen key range does not change: after an export has frozen it, no sequence of writes
  made up to the end of the freeze changes the data of the range, while the replica keeps
  taking other writes. (The tag of a freeze determines its range, as it does in the callers.)
\<close>

lemma frozen_range_stable:
  assumes "tracks h p" and "Export now tag match True after ttl p = (Inr chunk, p1)"
    and "\<forall>f \<in> set (rp_freezes p). fz_tag f = tag \<longrightarrow> fz_match f = match"
    and "\<forall>(t, op) \<in> set ws. t \<le> now + ttl"
  shows "contents (rp_store (run_writes ws p1)) |` {k. match k} = contents (rp_store p) |` {k. match k}"
proof -
  let ?q = "addFreezeLocked now tag match ttl p"
  have fr: "frozen_until match (now + ttl) ?q" using assms(3) by (rule frozen_until_addFreeze)
  have tq: "tracks h ?q" using assms(1) by simp
  obtain es ok where af: "After after 0 (rp_wal ?q) = (es, ok)" by (cases "After after 0 (rp_wal ?q)")
  have "\<exists>g. tracks (h @ g) p1 \<and> replay (h @ g) = replay h \<and> rp_freezes p1 = rp_freezes ?q"
  proof (cases ok)
    case True
    with assms(2) af have "p1 = ?q" by (auto simp: Export_def Let_def split: if_splits)
    with tq show ?thesis by (intro exI [of _ "[]"]) simp
  next
    case False
    with assms(2) af have "export_snapshot now match ?q = (Inr chunk, p1)"
      by (auto simp: Export_def Let_def split: if_splits)
    from tracks_export_snapshot [OF tq this] show ?thesis by (metis op_spec_checkpoint replay_snoc)
  qed
  then obtain g where g: "tracks (h @ g) p1" "replay (h @ g) = replay h" "rp_freezes p1 = rp_freezes ?q"
    by blast
  from fr g(3) have "frozen_until match (now + ttl) p1" by (simp add: frozen_until_def)
  from run_writes_frozen [OF this assms(4) g(1)] obtain g' where
    "tracks ((h @ g) @ g') (run_writes ws p1)"
    "replay ((h @ g) @ g') |` {k. match k} = replay (h @ g) |` {k. match k}" by blast
  with g(2) assms(1) show ?thesis by (simp add: tracks_def)
qed

end
