(* ===== verification/Planner.thy ===== *)
theory Planner
  imports Model
begin

text \<open>
  The planner of \<open>src/internal/controller/planner.go\<close>: a function from the layout and what the
  controller observed in a round to the next layout. The phases are the methods of
  \<open>planner\<close>; the pointer \<open>part\<close> they receive is an argument and a result, and the rest of the
  planner (\<open>load\<close>, \<open>events\<close>) is threaded. A message is a constructor of \<open>plan_event\<close> with the
  values it prints.
\<close>

section \<open>State\<close>

record planInput =
  pi_Config :: Config
  pi_Nodes :: "(node_id, Node) gomap"
  pi_Drained :: "(node_id, bool) gomap"
  pi_Status :: "(node_id, NodeStatus) gomap"
  pi_Now :: go_time \<comment> \<open>nanoseconds since 1970\<close>
  pi_AutoBalance :: bool

datatype handoff_reason =
    MovedOff node_id
  | RequestedFromPanel
  | BalancingLeaders node_id int node_id int

datatype plan_event =
    Initialized int int
  | Restarted node_id
  | LeftCluster node_id
  | Joined node_id string
  | FailedOver node_id PartitionRef int int
  | LostEveryReplica PartitionRef node_id int
  | AssignedLeader PartitionRef node_id
  | CaughtUp PartitionRef node_id int int
  | HandoffCancelled PartitionRef node_id
  | HandoffTimedOut PartitionRef node_id node_id
  | HandedOff PartitionRef node_id node_id int int
  | HandingOff PartitionRef node_id node_id handoff_reason
  | AddingReplica PartitionRef node_id
  | RemovedReplica PartitionRef node_id
  | RemovedSurplus PartitionRef node_id
  | CancelledJoining PartitionRef node_id
  | ReshardingStarted int int int int
  | MovingReplica PartitionRef node_id node_id

record planner =
  pl_l :: Layout
  pl_eligible :: "node_id list"
  pl_isEligible :: "(node_id, bool) gomap"
  pl_load :: "(node_id, int) gomap"
  pl_events :: "plan_event list"

definition handoffTimeout :: int where "handoffTimeout = 10 * 10 ^ 9"
definition joinLagThreshold :: int where "joinLagThreshold = 64"
definition maxMovesPerRound :: nat where "maxMovesPerRound = 2"

definition UnixMilli :: "go_time \<Rightarrow> int" where
  "UnixMilli t = t div 10 ^ 6"

definition time_UnixMilli :: "int \<Rightarrow> go_time" where
  "time_UnixMilli ms = ms * 10 ^ 6"

definition sortedKeys :: "(string, 'v) gomap \<Rightarrow> string list" where
  "sortedKeys m = sort (map fst m)"

definition logf :: "plan_event \<Rightarrow> planner \<Rightarrow> planner" where
  "logf e p = p\<lparr>pl_events := pl_events p @ [e]\<rparr>"

definition add_load :: "node_id \<Rightarrow> int \<Rightarrow> planner \<Rightarrow> planner" where
  "add_load n d p = p\<lparr>pl_load := gm_add n d (pl_load p)\<rparr>"

text \<open>
  \<open>Layout.Each\<close> with a callback that changes the partition it is given. No callback reads the
  partition lists through the layout, so the lists are written back at the end.
\<close>

type_synonym phase = "PartitionRef \<Rightarrow> Partition \<Rightarrow> planner \<Rightarrow> Partition \<times> planner"

fun each_list :: "phase \<Rightarrow> int \<Rightarrow> Partition list \<Rightarrow> planner \<Rightarrow> Partition list \<times> planner" where
  "each_list f g [] p = ([], p)"
| "each_list f g (part # parts) p =
     (let (part', p1) = f (PartitionRef g (p_ID part)) part p;
          (parts', p2) = each_list f g parts p1
      in (part' # parts', p2))"

definition each_part :: "phase \<Rightarrow> planner \<Rightarrow> planner" where
  "each_part f p =
     (let l = pl_l p; (ps, p1) = each_list f (l_Generation l) (l_Partitions l) p
      in case l_Resharding l of
           None \<Rightarrow> p1\<lparr>pl_l := l\<lparr>l_Partitions := ps\<rparr>\<rparr>
         | Some r \<Rightarrow>
             let (rs, p2) = each_list f (r_Generation r) (r_Partitions r) p1
             in p2\<lparr>pl_l := l\<lparr>l_Partitions := ps, l_Resharding := Some (r\<lparr>r_Partitions := rs\<rparr>)\<rparr>\<rparr>)"

section \<open>Membership and load\<close>

definition clearHandoff :: "Partition \<Rightarrow> Partition" where
  "clearHandoff part = part\<lparr>p_State := PartitionActive, p_HandoffTo := '''', p_HandoffAt := 0,
     p_HandoffVersion := 0\<rparr>"

definition new_Partition :: "int \<Rightarrow> int \<Rightarrow> Partition" where
  "new_Partition i e = \<lparr>p_ID = i, p_Epoch = e, p_Leader = '''', p_Followers = [], p_Joining = [],
     p_Evict = [], p_State = PartitionActive, p_HandoffTo = '''', p_HandoffAt = 0,
     p_HandoffVersion = 0, p_Pinned = False\<rparr>"

definition bootstrap :: "planInput \<Rightarrow> planner \<Rightarrow> planner" where
  "bootstrap inp p =
     (let l = pl_l p;
          l = (if l_Generation l = 0 then l\<lparr>l_Generation := 1\<rparr> else l);
          n = cfg_PartitionCount (pi_Config inp)
      in if l_PartitionCount l = 0 \<and> n > 0
         then logf (Initialized n (cfg_ReplicationFactor (pi_Config inp)))
                (p\<lparr>pl_l := l\<lparr>l_PartitionCount := n,
                              l_Partitions := map (\<lambda>i. new_Partition (int i) 0) [0..<nat n]\<rparr>\<rparr>)
         else p\<lparr>pl_l := l\<rparr>)"

definition drop_node :: "node_id \<Rightarrow> Partition \<Rightarrow> Partition" where
  "drop_node n part =
     (let part = (if p_Leader part = n then part\<lparr>p_Leader := ''''\<rparr> else part);
          part = part\<lparr>p_Followers := RemoveString (p_Followers part) n,
                      p_Joining := RemoveString (p_Joining part) n,
                      p_Evict := RemoveString (p_Evict part) n\<rparr>
      in if p_HandoffTo part = n then clearHandoff part else part)"

definition removeNode :: "node_id \<Rightarrow> planner \<Rightarrow> planner" where
  "removeNode n p = each_part (\<lambda>_ part p. (drop_node n part, p)) p"

definition membership_leave :: "planInput \<Rightarrow> planner \<Rightarrow> node_id \<Rightarrow> planner" where
  "membership_leave inp p n =
     (let node = map_of (pi_Nodes inp) n in
      if map_option n_Incarnation node = Some (gm_get 0 (l_Members (pl_l p)) n) then p
      else
        let p = removeNode n p;
            p = p\<lparr>pl_l := (pl_l p)\<lparr>l_Members := gm_del n (l_Members (pl_l p))\<rparr>\<rparr>
        in if node \<noteq> None then logf (Restarted n) p else logf (LeftCluster n) p)"

definition membership_join :: "planInput \<Rightarrow> planner \<Rightarrow> node_id \<Rightarrow> planner" where
  "membership_join inp p n =
     (case map_of (l_Members (pl_l p)) n of
        Some _ \<Rightarrow> p
      | None \<Rightarrow>
          (case map_of (pi_Nodes inp) n of
             None \<Rightarrow> p
           | Some nd \<Rightarrow>
               logf (Joined n (n_Address nd))
                 (p\<lparr>pl_l := (pl_l p)\<lparr>l_Members := gm_put n (n_Incarnation nd) (l_Members (pl_l p))\<rparr>\<rparr>)))"

definition membership :: "planInput \<Rightarrow> planner \<Rightarrow> planner" where
  "membership inp p =
     (let p = foldl (membership_leave inp) p (sortedKeys (l_Members (pl_l p)))
      in foldl (membership_join inp) p (sortedKeys (pi_Nodes inp)))"

definition evicted :: "planInput \<Rightarrow> node_id \<Rightarrow> Partition \<Rightarrow> bool" where
  "evicted inp n part \<longleftrightarrow> gm_get False (pi_Drained inp) n \<or> ContainsString (p_Evict part) n"

definition count_holder :: "planInput \<Rightarrow> Partition \<Rightarrow> planner \<Rightarrow> node_id \<Rightarrow> planner" where
  "count_holder inp part p h =
     (if gm_get False (pl_isEligible p) h \<and> \<not> evicted inp h part then add_load h 1 p else p)"

definition make_eligible :: "planInput \<Rightarrow> planner \<Rightarrow> node_id \<Rightarrow> planner" where
  "make_eligible inp p n =
     (if \<not> gm_get False (pi_Drained inp) n
      then p\<lparr>pl_eligible := pl_eligible p @ [n],
             pl_isEligible := gm_put n True (pl_isEligible p), pl_load := gm_put n 0 (pl_load p)\<rparr>
      else p)"

definition computeLoad :: "planInput \<Rightarrow> planner \<Rightarrow> planner" where
  "computeLoad inp p =
     (let p = p\<lparr>pl_isEligible := [], pl_load := []\<rparr>;
          p = foldl (make_eligible inp) p (sortedKeys (l_Members (pl_l p)))
      in each_part (\<lambda>_ part p. (part, foldl (count_holder inp part) p (Holders part))) p)"

definition status :: "planInput \<Rightarrow> node_id \<Rightarrow> PartitionRef \<Rightarrow> PartitionStatus \<times> bool" where
  "status inp n ref =
     (case map_of (pi_Status inp) n of
        None \<Rightarrow> (zero_status, False)
      | Some st \<Rightarrow> NodeStatus_Partition st ref)"

section \<open>Leaders\<close>

record best_state =
  bs_best :: node_id
  bs_found :: bool
  bs_eligible :: bool
  bs_st :: PartitionStatus

definition better_candidate :: "best_state \<Rightarrow> bool \<Rightarrow> PartitionStatus \<Rightarrow> bool" where
  "better_candidate b eligible st \<longleftrightarrow>
     \<not> bs_found b \<or> (eligible \<and> \<not> bs_eligible b) \<or>
     (eligible = bs_eligible b \<and>
       (ps_DataEpoch st > ps_DataEpoch (bs_st b) \<or>
        (ps_DataEpoch st = ps_DataEpoch (bs_st b) \<and> ps_Seq st > ps_Seq (bs_st b))))"

definition consider_candidate ::
  "planInput \<Rightarrow> planner \<Rightarrow> PartitionRef \<Rightarrow> bool \<Rightarrow> best_state \<Rightarrow> node_id \<Rightarrow> best_state" where
  "consider_candidate inp p ref requireSynced b c =
     (let (st, ok) = status inp c ref; eligible = gm_get False (pl_isEligible p) c in
      if requireSynced \<and> (\<not> ok \<or> \<not> ps_Synced st) then b
      else if better_candidate b eligible st
      then \<lparr>bs_best = c, bs_found = True, bs_eligible = eligible, bs_st = st\<rparr>
      else b)"

definition mostUpToDate ::
  "planInput \<Rightarrow> planner \<Rightarrow> PartitionRef \<Rightarrow> node_id list \<Rightarrow> bool \<Rightarrow> node_id \<times> int" where
  "mostUpToDate inp p ref candidates requireSynced =
     (let b = foldl (consider_candidate inp p ref requireSynced)
                \<lparr>bs_best = '''', bs_found = False, bs_eligible = False, bs_st = zero_status\<rparr> candidates
      in (bs_best b, ps_Seq (bs_st b)))"

definition lighter :: "Partition \<Rightarrow> planner \<Rightarrow> node_id \<Rightarrow> node_id \<Rightarrow> node_id" where
  "lighter part p best n =
     (if Has part n then best
      else if best = '''' \<or> gm_get 0 (pl_load p) n < gm_get 0 (pl_load p) best then n else best)"

definition leastLoaded :: "Partition \<Rightarrow> planner \<Rightarrow> node_id" where
  "leastLoaded part p = foldl (lighter part p) '''' (pl_eligible p)"

definition make_leader :: "node_id \<Rightarrow> Partition \<Rightarrow> Partition" where
  "make_leader c part =
     clearHandoff (part\<lparr>p_Followers := RemoveString (p_Followers part) c,
       p_Joining := RemoveString (p_Joining part) c, p_Leader := c, p_Epoch := p_Epoch part + 1\<rparr>)"

definition failover :: "planInput \<Rightarrow> phase" where
  "failover inp ref part p =
     (if p_Leader part \<noteq> '''' then (part, p)
      else
        let (c, seq) = mostUpToDate inp p ref (p_Followers part) False;
            (c, seq) = (if c = '''' then mostUpToDate inp p ref (p_Joining part) True else (c, seq))
        in if c \<noteq> '''' then (make_leader c part, logf (FailedOver c ref (p_Epoch part + 1) seq) p)
           else
             let c = leastLoaded part p in
             if c = '''' then (part, p)
             else (make_leader c part,
                   logf (if p_Epoch part > 0 then LostEveryReplica ref c (p_Epoch part + 1)
                         else AssignedLeader ref c) (add_load c 1 p)))"

definition promote_joiner ::
  "planInput \<Rightarrow> PartitionRef \<Rightarrow> PartitionStatus \<Rightarrow> Partition \<times> planner \<Rightarrow> node_id \<Rightarrow> Partition \<times> planner" where
  "promote_joiner inp ref leader = (\<lambda>(part, p) j.
     (let (st, ok) = status inp j ref in
      if \<not> ok \<or> \<not> ps_Synced st \<or> ps_Role st \<noteq> NodeRoleFollower \<or> ps_DataEpoch st \<noteq> p_Epoch part \<or>
         ps_Seq leader - ps_Seq st > joinLagThreshold
      then (part, p)
      else (part\<lparr>p_Joining := RemoveString (p_Joining part) j, p_Followers := p_Followers part @ [j]\<rparr>,
            logf (CaughtUp ref j (ps_Seq st) (ps_Seq leader)) p)))"

definition promoteJoiners :: "planInput \<Rightarrow> phase" where
  "promoteJoiners inp ref part p =
     (if p_Leader part = '''' \<or> p_Joining part = [] then (part, p)
      else
        let (leader, ok) = status inp (p_Leader part) ref in
        if \<not> ok \<or> ps_Role leader \<noteq> NodeRoleLeader \<or> ps_Epoch leader \<noteq> p_Epoch part then (part, p)
        else foldl (promote_joiner inp ref leader) (part, p) (p_Joining part))"

definition progressHandoff :: "planInput \<Rightarrow> phase" where
  "progressHandoff inp ref part p =
     (let target = p_HandoffTo part; old = p_Leader part in
      if p_State part \<noteq> PartitionHandoff then (part, p)
      else if old = '''' \<or> \<not> ContainsString (p_Followers part) target
      then (clearHandoff part, logf (HandoffCancelled ref target) p)
      else if pi_Now inp - time_UnixMilli (p_HandoffAt part) > handoffTimeout
      then (clearHandoff part, logf (HandoffTimedOut ref target old) p)
      else
        case map_of (pi_Status inp) old of
          None \<Rightarrow> (part, p)
        | Some leaderNode \<Rightarrow>
            if ns_LayoutVersion leaderNode < p_HandoffVersion part then (part, p)
            else
              let (ls, ok) = NodeStatus_Partition leaderNode ref in
              if \<not> ok \<or> \<not> ps_Sealed ls then (part, p)
              else
                let (ts, ok) = status inp target ref in
                if \<not> ok \<or> ps_DataEpoch ts \<noteq> p_Epoch part \<or> ps_Seq ts < ps_Seq ls then (part, p)
                else
                  let part1 = clearHandoff (part\<lparr>p_Followers := RemoveString (p_Followers part) target,
                                p_Leader := target, p_Epoch := p_Epoch part + 1\<rparr>);
                      part2 = (if evicted inp old part1
                               then part1\<lparr>p_Evict := RemoveString (p_Evict part1) old\<rparr>
                               else part1\<lparr>p_Joining := p_Joining part1 @ [old]\<rparr>)
                  in (part2, logf (HandedOff ref old target (ps_Seq ls) (p_Epoch part2)) p))"

definition startHandoff ::
  "planInput \<Rightarrow> PartitionRef \<Rightarrow> Partition \<Rightarrow> node_id \<Rightarrow> handoff_reason \<Rightarrow> planner \<Rightarrow> Partition \<times> planner" where
  "startHandoff inp ref part target reason p =
     (part\<lparr>p_State := PartitionHandoff, p_HandoffTo := target, p_HandoffAt := UnixMilli (pi_Now inp),
           p_HandoffVersion := l_Version (pl_l p)\<rparr>,
      logf (HandingOff ref (p_Leader part) target reason) p)"

definition handoffEvictedLeader :: "planInput \<Rightarrow> phase" where
  "handoffEvictedLeader inp ref part p =
     (if p_Leader part = '''' \<or> p_State part = PartitionHandoff \<or> \<not> evicted inp (p_Leader part) part
      then (part, p)
      else
        let candidates = filter (\<lambda>f. gm_get False (pl_isEligible p) f \<and> \<not> evicted inp f part) (p_Followers part);
            (target, _) = mostUpToDate inp p ref candidates True
        in if target \<noteq> '''' then startHandoff inp ref part target (MovedOff (p_Leader part)) p
           else (part, p))"

section \<open>Replicas\<close>

definition desiredCopies :: "planInput \<Rightarrow> planner \<Rightarrow> int" where
  "desiredCopies inp p =
     (let desired = cfg_ReplicationFactor (pi_Config inp);
          desired = (if desired < 1 then 1 else desired)
      in if desired > int (length (pl_eligible p)) then int (length (pl_eligible p)) else desired)"

definition keep :: "planInput \<Rightarrow> Partition \<Rightarrow> node_id \<Rightarrow> bool" where
  "keep inp part n \<longleftrightarrow> \<not> evicted inp n part"

definition count_keep :: "planInput \<Rightarrow> Partition \<Rightarrow> node_id list \<Rightarrow> int" where
  "count_keep inp part ns = int (length (filter (keep inp part) ns))"

function add_replicas :: "PartitionRef \<Rightarrow> int \<Rightarrow> int \<Rightarrow> Partition \<Rightarrow> planner \<Rightarrow> Partition \<times> planner" where
  "add_replicas ref desired copies part p =
     (if copies < desired
      then
        let n = leastLoaded part p in
        if n = '''' then (part, p)
        else add_replicas ref desired (copies + 1) (part\<lparr>p_Joining := p_Joining part @ [n]\<rparr>)
               (logf (AddingReplica ref n) (add_load n 1 p))
      else (part, p))"
  by auto
termination by (relation "measure (\<lambda>(_, desired, copies, _, _). nat (desired - copies))") auto

definition remove_evicted ::
  "planInput \<Rightarrow> PartitionRef \<Rightarrow> Partition \<times> planner \<Rightarrow> node_id \<Rightarrow> Partition \<times> planner" where
  "remove_evicted inp ref = (\<lambda>(part, p) n.
     (if keep inp part n \<or> n = p_HandoffTo part then (part, p)
      else (part\<lparr>p_Followers := RemoveString (p_Followers part) n,
                 p_Joining := RemoveString (p_Joining part) n\<rparr>,
            logf (RemovedReplica ref n) p)))"

definition heavier :: "planInput \<Rightarrow> Partition \<Rightarrow> planner \<Rightarrow> node_id \<Rightarrow> node_id \<Rightarrow> node_id" where
  "heavier inp part p victim f =
     (if keep inp part f \<and> f \<noteq> p_HandoffTo part \<and>
         (victim = '''' \<or> gm_get 0 (pl_load p) f \<ge> gm_get 0 (pl_load p) victim)
      then f else victim)"

definition surplus_victim :: "planInput \<Rightarrow> Partition \<Rightarrow> planner \<Rightarrow> node_id" where
  "surplus_victim inp part p = foldl (heavier inp part p) '''' (p_Followers part)"

function remove_surplus ::
  "planInput \<Rightarrow> PartitionRef \<Rightarrow> int \<Rightarrow> int \<Rightarrow> Partition \<Rightarrow> planner \<Rightarrow> Partition \<times> planner" where
  "remove_surplus inp ref desired inSync part p =
     (if inSync > desired
      then
        let victim = surplus_victim inp part p in
        if victim = '''' then (part, p)
        else remove_surplus inp ref desired (inSync - 1)
               (part\<lparr>p_Followers := RemoveString (p_Followers part) victim\<rparr>)
               (logf (RemovedSurplus ref victim) (add_load victim (- 1) p))
      else (part, p))"
  by auto
termination by (relation "measure (\<lambda>(_, _, desired, inSync, _, _). nat (inSync - desired))") auto

definition cancel_joining ::
  "planInput \<Rightarrow> PartitionRef \<Rightarrow> Partition \<times> planner \<Rightarrow> node_id \<Rightarrow> Partition \<times> planner" where
  "cancel_joining inp ref = (\<lambda>(part, p) j.
     (if keep inp part j
      then (part\<lparr>p_Joining := RemoveString (p_Joining part) j\<rparr>,
            logf (CancelledJoining ref j) (add_load j (- 1) p))
      else (part, p)))"

definition in_sync_kept :: "planInput \<Rightarrow> Partition \<Rightarrow> int" where
  "in_sync_kept inp part =
     (if keep inp part (p_Leader part) then 1 else 0) + count_keep inp part (p_Followers part)"

definition fixReplicaCount :: "planInput \<Rightarrow> phase" where
  "fixReplicaCount inp ref part p =
     (let desired = desiredCopies inp p in
      if p_Leader part = '''' \<or> desired = 0 then (part, p)
      else
        let inSync = in_sync_kept inp part;
            joining = count_keep inp part (p_Joining part);
            (part, p) = add_replicas ref desired (inSync + joining) part p;
            (part, p) =
              (if inSync \<ge> desired
               then
                 let (part, p) = foldl (remove_evicted inp ref) (part, p) (p_Followers part @ p_Joining part);
                     (part, p) = remove_surplus inp ref desired inSync part p
                 in foldl (cancel_joining inp ref) (part, p) (p_Joining part)
               else (part, p))
        in (part\<lparr>p_Evict := filter (Has part) (p_Evict part)\<rparr>, p))"

section \<open>Resharding and balancing\<close>

definition pick_leader ::
  "(node_id, int) gomap \<Rightarrow> (node_id, int) gomap \<Rightarrow> node_id \<Rightarrow> node_id \<Rightarrow> node_id" where
  "pick_leader leaders load best n =
     (if best = '''' \<or> gm_get 0 leaders n < gm_get 0 leaders best \<or>
         (gm_get 0 leaders n = gm_get 0 leaders best \<and> gm_get 0 load n < gm_get 0 load best)
      then n else best)"

function fill_joining :: "int \<Rightarrow> Partition \<Rightarrow> planner \<Rightarrow> Partition \<times> planner" where
  "fill_joining copies part p =
     (if int (length (p_Joining part)) + 1 < copies
      then
        let n = leastLoaded part p in
        if n = '''' then (part, p)
        else fill_joining copies (part\<lparr>p_Joining := p_Joining part @ [n]\<rparr>) (add_load n 1 p)
      else (part, p))"
  by auto
termination
  by (relation "measure (\<lambda>(copies, part, _). nat (copies - int (length (p_Joining part))))") auto

definition reshard_partition ::
  "int \<Rightarrow> Partition list \<times> (node_id, int) gomap \<times> planner \<Rightarrow> nat \<Rightarrow>
   Partition list \<times> (node_id, int) gomap \<times> planner" where
  "reshard_partition copies = (\<lambda>(parts, leaders, p) i.
     (let leader = foldl (pick_leader leaders (pl_load p)) '''' (pl_eligible p);
          (part, p) = fill_joining copies ((new_Partition (int i) 1)\<lparr>p_Leader := leader\<rparr>) (add_load leader 1 p)
      in (parts @ [part], gm_add leader 1 leaders, p)))"

definition startResharding :: "planInput \<Rightarrow> planner \<Rightarrow> planner" where
  "startResharding inp p =
     (let l = pl_l p; target = cfg_PartitionCount (pi_Config inp) in
      if l_Resharding l \<noteq> None \<or> target \<le> 0 \<or> target = l_PartitionCount l \<or> l_PartitionCount l = 0 \<or>
         pl_eligible p = [] \<or> \<not> list_all Writable (l_Partitions l)
      then p
      else
        let (parts, _, p) = foldl (reshard_partition (desiredCopies inp p)) ([], [], p) [0..<nat target];
            r = \<lparr>r_Generation = l_Generation l + 1, r_PartitionCount = target, r_Partitions = parts,
                 r_Status = replicate (nat target) MigrationPending\<rparr>
        in logf (ReshardingStarted (l_PartitionCount l) target (l_Generation l) (r_Generation r))
             (p\<lparr>pl_l := l\<lparr>l_Resharding := Some r\<rparr>\<rparr>))"

definition may_move :: "nat \<Rightarrow> node_id \<Rightarrow> node_id \<Rightarrow> Partition \<Rightarrow> bool" where
  "may_move pass from to part \<longleftrightarrow>
     \<not> (p_Pinned part \<or> p_State part \<noteq> PartitionActive \<or> p_Leader part = '''' \<or> p_Joining part \<noteq> [] \<or>
        p_Evict part \<noteq> [] \<or> Has part to) \<and>
     \<not> ((pass = 0 \<and> \<not> ContainsString (p_Followers part) from) \<or> (pass = 1 \<and> p_Leader part \<noteq> from))"

fun move_first ::
  "nat \<Rightarrow> node_id \<Rightarrow> node_id \<Rightarrow> Partition list \<Rightarrow> (Partition list \<times> int) option" where
  "move_first pass from to [] = None"
| "move_first pass from to (part # parts) =
     (if may_move pass from to part
      then Some (part\<lparr>p_Joining := p_Joining part @ [to], p_Evict := p_Evict part @ [from]\<rparr> # parts, p_ID part)
      else map_option (apfst ((#) part)) (move_first pass from to parts))"

definition moveReplica :: "node_id \<Rightarrow> node_id \<Rightarrow> planner \<Rightarrow> planner option" where
  "moveReplica from to p =
     (let l = pl_l p; ps = l_Partitions l in
      case (case move_first 0 from to ps of None \<Rightarrow> move_first 1 from to ps | Some x \<Rightarrow> Some x) of
        None \<Rightarrow> None
      | Some (ps', i) \<Rightarrow>
          Some (logf (MovingReplica (PartitionRef (l_Generation l) i) from to)
            (add_load from (- 1) (add_load to 1 (p\<lparr>pl_l := l\<lparr>l_Partitions := ps'\<rparr>\<rparr>)))))"

definition hi_lo :: "(node_id, int) gomap \<Rightarrow> node_id list \<Rightarrow> node_id \<times> node_id" where
  "hi_lo load ns =
     foldl (\<lambda>(hi, lo) n. (if gm_get 0 load n > gm_get 0 load hi then n else hi,
                          if gm_get 0 load n < gm_get 0 load lo then n else lo)) (hd ns, hd ns) ns"

fun balance_moves :: "nat \<Rightarrow> planner \<Rightarrow> planner" where
  "balance_moves 0 p = p"
| "balance_moves (Suc k) p =
     (let (hi, lo) = hi_lo (pl_load p) (pl_eligible p) in
      if gm_get 0 (pl_load p) hi - gm_get 0 (pl_load p) lo < 2 then p
      else (case moveReplica hi lo p of None \<Rightarrow> p | Some p' \<Rightarrow> balance_moves k p'))"

definition balanceReplicas :: "planner \<Rightarrow> planner" where
  "balanceReplicas p = (if length (pl_eligible p) < 2 then p else balance_moves maxMovesPerRound p)"

text \<open>Leaderships per eligible node, or \<open>None\<close> while some partition is in a handoff.\<close>

fun count_leaders :: "(node_id, int) gomap \<Rightarrow> Partition list \<Rightarrow> (node_id, int) gomap option" where
  "count_leaders leaders [] = Some leaders"
| "count_leaders leaders (part # parts) =
     (if p_State part = PartitionHandoff then None
      else count_leaders (if map_of leaders (p_Leader part) \<noteq> None then gm_add (p_Leader part) 1 leaders
                          else leaders) parts)"

fun pick_follower ::
  "planInput \<Rightarrow> (node_id, int) gomap \<Rightarrow> PartitionRef \<Rightarrow> Partition \<Rightarrow> int \<Rightarrow> PartitionStatus \<Rightarrow> node_id list \<Rightarrow>
   (node_id \<times> int) option" where
  "pick_follower inp leaders ref part current ls [] = None"
| "pick_follower inp leaders ref part current ls (f # fs) =
     (case map_of leaders f of
        None \<Rightarrow> pick_follower inp leaders ref part current ls fs
      | Some count \<Rightarrow>
          if current - count < 2 then pick_follower inp leaders ref part current ls fs
          else
            let (st, ok) = status inp f ref in
            if \<not> ok \<or> ps_DataEpoch st \<noteq> p_Epoch part \<or> ps_Seq ls - ps_Seq st > joinLagThreshold
            then pick_follower inp leaders ref part current ls fs
            else Some (f, count))"

definition leader_move ::
  "planInput \<Rightarrow> (node_id, int) gomap \<Rightarrow> PartitionRef \<Rightarrow> Partition \<Rightarrow> (node_id \<times> int \<times> int) option" where
  "leader_move inp leaders ref part =
     (case map_of leaders (p_Leader part) of
        None \<Rightarrow> None
      | Some current \<Rightarrow>
          if p_Pinned part \<or> p_State part \<noteq> PartitionActive \<or> p_Evict part \<noteq> [] then None
          else
            let (ls, ok) = status inp (p_Leader part) ref in
            if \<not> ok then None
            else map_option (\<lambda>(f, count). (f, current, count))
                   (pick_follower inp leaders ref part current ls (p_Followers part)))"

fun balance_first ::
  "planInput \<Rightarrow> (node_id, int) gomap \<Rightarrow> int \<Rightarrow> Partition list \<Rightarrow> planner \<Rightarrow> Partition list \<times> planner" where
  "balance_first inp leaders g [] p = ([], p)"
| "balance_first inp leaders g (part # parts) p =
     (let ref = PartitionRef g (p_ID part) in
      case leader_move inp leaders ref part of
        None \<Rightarrow> apfst ((#) part) (balance_first inp leaders g parts p)
      | Some (f, current, count) \<Rightarrow>
          apfst (\<lambda>part'. part' # parts)
            (startHandoff inp ref part f (BalancingLeaders (p_Leader part) current f count) p))"

definition balanceLeaders :: "planInput \<Rightarrow> planner \<Rightarrow> planner" where
  "balanceLeaders inp p =
     (let l = pl_l p in
      case count_leaders (map (\<lambda>n. (n, 0)) (pl_eligible p)) (l_Partitions l) of
        None \<Rightarrow> p
      | Some leaders \<Rightarrow>
          let (ps, p) = balance_first inp leaders (l_Generation l) (l_Partitions l) p
          in p\<lparr>pl_l := l\<lparr>l_Partitions := ps\<rparr>\<rparr>)"

section \<open>The round\<close>

definition plan :: "Layout \<Rightarrow> planInput \<Rightarrow> Layout \<times> plan_event list" where
  "plan l inp =
     (let p = \<lparr>pl_l = l, pl_eligible = [], pl_isEligible = [], pl_load = [], pl_events = []\<rparr>;
          p = computeLoad inp (membership inp (bootstrap inp p));
          p = each_part (failover inp) p;
          p = each_part (promoteJoiners inp) p;
          p = each_part (progressHandoff inp) p;
          p = each_part (handoffEvictedLeader inp) p;
          p = each_part (fixReplicaCount inp) p;
          p = startResharding inp p;
          p = (if pi_AutoBalance inp \<and> l_Resharding (pl_l p) = None
               then balanceLeaders inp (balanceReplicas p) else p)
      in (pl_l p, pl_events p))"

datatype unstable =
    NoLayout
  | ReshardingRuns int int int int
  | CountChangePending int
  | NoLeader PartitionRef
  | InHandoff PartitionRef
  | StillJoining PartitionRef
  | MovePending PartitionRef
  | WrongCopies PartitionRef int int
  | DrainedHolds node_id PartitionRef
  | RebalancingReplicas "(node_id, int) gomap"
  | RebalancingLeaders "(node_id, int) gomap"

definition spread :: "(node_id, int) gomap \<Rightarrow> int" where
  "spread counts =
     (let (lo, hi, first) =
        foldl (\<lambda>(lo, hi, first) (k, v).
          (if first \<or> v < lo then v else lo, if first \<or> v > hi then v else hi, False))
          (0, 0, True) counts
      in hi - lo)"

fun unstable_partition :: "(node_id, bool) gomap \<Rightarrow> int \<Rightarrow> int \<Rightarrow> Partition list \<Rightarrow> unstable option" where
  "unstable_partition drained g desired [] = None"
| "unstable_partition drained g desired (part # parts) =
     (let ref = PartitionRef g (p_ID part) in
      if p_Leader part = '''' then Some (NoLeader ref)
      else if p_State part = PartitionHandoff then Some (InHandoff ref)
      else if p_Joining part \<noteq> [] then Some (StillJoining ref)
      else if p_Evict part \<noteq> [] then Some (MovePending ref)
      else if 1 + int (length (p_Followers part)) \<noteq> desired
      then Some (WrongCopies ref (1 + int (length (p_Followers part))) desired)
      else
        case find (gm_get False drained) (Holders part) of
          Some h \<Rightarrow> Some (DrainedHolds h ref)
        | None \<Rightarrow> unstable_partition drained g desired parts)"

definition unstableReason ::
  "Layout option \<Rightarrow> Config \<Rightarrow> (node_id, bool) gomap \<Rightarrow> bool \<Rightarrow> unstable option" where
  "unstableReason lo cfg drained autoBalance =
     (case lo of
        None \<Rightarrow> Some NoLayout
      | Some l \<Rightarrow>
          if l_PartitionCount l = 0 then Some NoLayout
          else
            case l_Resharding l of
              Some r \<Rightarrow> Some (ReshardingRuns (l_PartitionCount l) (r_PartitionCount r)
                 (int (length (filter (\<lambda>s. s = MigrationDone) (r_Status r)))) (r_PartitionCount r))
            | None \<Rightarrow>
                if cfg_PartitionCount cfg > 0 \<and> cfg_PartitionCount cfg \<noteq> l_PartitionCount l
                then Some (CountChangePending (cfg_PartitionCount cfg))
                else
                  let members = filter (\<lambda>n. \<not> gm_get False drained n) (map fst (l_Members l));
                      eligible = int (length members);
                      desired = cfg_ReplicationFactor cfg;
                      desired = (if desired < 1 then 1 else desired);
                      desired = (if desired > eligible then eligible else desired)
                  in case unstable_partition drained (l_Generation l) desired (l_Partitions l) of
                       Some u \<Rightarrow> Some u
                     | None \<Rightarrow>
                         if autoBalance
                         then
                           let zero = map (\<lambda>n. (n, 0)) members;
                               replicas = foldl (\<lambda>m part. foldl (\<lambda>m h. gm_add h 1 m) m (Holders part))
                                            zero (l_Partitions l);
                               leaders = foldl (\<lambda>m part. gm_add (p_Leader part) 1 m) zero (l_Partitions l)
                           in if spread replicas \<ge> 2 then Some (RebalancingReplicas replicas)
                              else if spread leaders \<ge> 2 then Some (RebalancingLeaders leaders)
                              else None
                         else None)"

end
