(* ===== verification/PlanInv.thy ===== *)
theory PlanInv
  imports Planner
begin

text \<open>
  What a planning round keeps. A phase of the planner is described by one contract (the locale
  \<open>planner_phase\<close>): it leaves the layout pointer and the eligible nodes alone, keeps partitions
  well formed, draws new holders from the eligible nodes only, and changes a leader only together
  with the epoch. Each phase interprets it, and \<open>plan\<close> composes them.
\<close>

section \<open>Well-formed partitions and fencing\<close>

definition part_ok :: "Partition \<Rightarrow> bool" where
  "part_ok part \<longleftrightarrow> distinct (Holders part) \<and> '''' \<notin> set (p_Followers part) \<union> set (p_Joining part) \<and>
     (p_State part = PartitionActive \<longrightarrow> p_HandoffTo part = '''')"

definition handoff_ok :: "Partition \<Rightarrow> bool" where
  "handoff_ok part \<longleftrightarrow> (p_State part = PartitionHandoff \<longrightarrow>
     p_Leader part \<noteq> '''' \<and> p_HandoffTo part \<in> set (p_Followers part))"

text \<open>The identity of a partition is kept, and a new leader comes with a larger epoch.\<close>

definition fenced :: "Partition \<Rightarrow> Partition \<Rightarrow> bool" where
  "fenced a b \<longleftrightarrow> p_ID b = p_ID a \<and> p_Pinned b = p_Pinned a \<and> p_Epoch a \<le> p_Epoch b \<and>
     (p_Epoch b = p_Epoch a \<longrightarrow> p_Leader b = p_Leader a \<or> p_Leader b = '''')"

definition same_frame :: "planner \<Rightarrow> planner \<Rightarrow> bool" where
  "same_frame p q \<longleftrightarrow> pl_l q = pl_l p \<and> pl_eligible q = pl_eligible p \<and> pl_isEligible q = pl_isEligible p"

definition same_lead :: "Partition \<Rightarrow> Partition \<Rightarrow> bool" where
  "same_lead a b \<longleftrightarrow> p_ID b = p_ID a \<and> p_Pinned b = p_Pinned a \<and> p_Epoch b = p_Epoch a \<and>
     p_Leader b = p_Leader a \<and> p_State b = p_State a \<and> p_HandoffTo b = p_HandoffTo a \<and>
     p_Evict b = p_Evict a"

lemma fenced_refl [simp, intro]: "fenced a a"
  by (simp add: fenced_def)

lemma fenced_trans: "fenced a b \<Longrightarrow> fenced b c \<Longrightarrow> fenced a c"
  by (auto simp: fenced_def)

lemma same_frame_refl [simp, intro]: "same_frame p p"
  by (simp add: same_frame_def)

lemma same_frame_trans: "same_frame p q \<Longrightarrow> same_frame q r \<Longrightarrow> same_frame p r"
  by (simp add: same_frame_def)

lemma same_frame_logf [simp]: "same_frame p (logf e q) = same_frame p q"
  by (simp add: same_frame_def logf_def)

lemma same_frame_left [simp]:
  "same_frame (logf e p) q = same_frame p q" "same_frame (add_load n d p) q = same_frame p q"
  by (simp_all add: same_frame_def logf_def add_load_def)

lemma same_frame_add_load [simp]: "same_frame p (add_load n d q) = same_frame p q"
  by (simp add: same_frame_def add_load_def)

lemma logf_simps [simp]:
  "pl_l (logf e p) = pl_l p" "pl_eligible (logf e p) = pl_eligible p"
  "pl_isEligible (logf e p) = pl_isEligible p" "pl_load (logf e p) = pl_load p"
  "pl_events (logf e p) = pl_events p @ [e]"
  by (simp_all add: logf_def)

lemma add_load_simps [simp]:
  "pl_l (add_load n d p) = pl_l p" "pl_eligible (add_load n d p) = pl_eligible p"
  "pl_isEligible (add_load n d p) = pl_isEligible p" "pl_load (add_load n d p) = gm_add n d (pl_load p)"
  "pl_events (add_load n d p) = pl_events p"
  by (simp_all add: add_load_def)

lemma same_lead_refl [simp, intro]: "same_lead a a"
  by (simp add: same_lead_def)

lemma same_lead_trans: "same_lead a b \<Longrightarrow> same_lead b c \<Longrightarrow> same_lead a c"
  by (simp add: same_lead_def)

lemma same_lead_fenced: "same_lead a b \<Longrightarrow> fenced a b"
  by (simp add: same_lead_def fenced_def)

lemma keep_same_lead: "same_lead a b \<Longrightarrow> keep inp b n = keep inp a n"
  by (simp add: same_lead_def keep_def evicted_def)

lemma keep_update [simp]:
  "keep inp (part\<lparr>p_Followers := fs\<rparr>) = keep inp part" "keep inp (part\<lparr>p_Joining := js\<rparr>) = keep inp part"
  by (simp_all add: fun_eq_iff keep_def evicted_def)

lemma clearHandoff_simps [simp]:
  "p_ID (clearHandoff part) = p_ID part" "p_Epoch (clearHandoff part) = p_Epoch part"
  "p_Leader (clearHandoff part) = p_Leader part" "p_Followers (clearHandoff part) = p_Followers part"
  "p_Joining (clearHandoff part) = p_Joining part" "p_Evict (clearHandoff part) = p_Evict part"
  "p_State (clearHandoff part) = PartitionActive" "p_HandoffTo (clearHandoff part) = ''''"
  "p_Pinned (clearHandoff part) = p_Pinned part" "Holders (clearHandoff part) = Holders part"
  by (simp_all add: clearHandoff_def Holders_def)

lemma PartitionState_not_Active [simp]: "s \<noteq> PartitionActive \<longleftrightarrow> s = PartitionHandoff"
  by (cases s) auto

section \<open>The choices\<close>

text \<open>The node \<open>leastLoaded\<close> returns, and when it returns none.\<close>

lemma leastLoaded_spec:
  assumes "'''' \<notin> set (pl_eligible p)"
  shows "(leastLoaded part p = '''' \<longrightarrow> (\<forall>n \<in> set (pl_eligible p). Has part n)) \<and>
    (leastLoaded part p \<noteq> '''' \<longrightarrow> leastLoaded part p \<in> set (pl_eligible p) \<and> \<not> Has part (leastLoaded part p) \<and>
      (\<forall>n \<in> set (pl_eligible p). \<not> Has part n \<longrightarrow>
         gm_get 0 (pl_load p) (leastLoaded part p) \<le> gm_get 0 (pl_load p) n))"
proof -
  have "'''' \<notin> set ns \<Longrightarrow> (let b = foldl (lighter part p) '''' ns in
    (b = '''' \<longrightarrow> (\<forall>n \<in> set ns. Has part n)) \<and>
    (b \<noteq> '''' \<longrightarrow> b \<in> set ns \<and> \<not> Has part b \<and>
      (\<forall>n \<in> set ns. \<not> Has part n \<longrightarrow> gm_get 0 (pl_load p) b \<le> gm_get 0 (pl_load p) n)))" for ns
    by (induction ns rule: rev_induct) (auto simp: lighter_def Let_def)
  from this [OF assms] show ?thesis by (simp add: leastLoaded_def Let_def)
qed

lemmas leastLoaded_eligible = leastLoaded_spec [THEN conjunct2, rule_format, THEN conjunct1]
lemmas leastLoaded_fresh = leastLoaded_spec [THEN conjunct2, rule_format, THEN conjunct2, THEN conjunct1]

text \<open>Candidates \<open>mostUpToDate\<close> may pick, and what it compares.\<close>

definition admissible :: "planInput \<Rightarrow> PartitionRef \<Rightarrow> bool \<Rightarrow> node_id \<Rightarrow> bool" where
  "admissible inp ref rs c \<longleftrightarrow> (rs \<longrightarrow> snd (status inp c ref) \<and> ps_Synced (fst (status inp c ref)))"

definition at_least_as_good :: "planInput \<Rightarrow> planner \<Rightarrow> PartitionRef \<Rightarrow> node_id \<Rightarrow> node_id \<Rightarrow> bool" where
  "at_least_as_good inp p ref b c \<longleftrightarrow>
     (let eb = gm_get False (pl_isEligible p) b; ec = gm_get False (pl_isEligible p) c;
          sb = fst (status inp b ref); sc = fst (status inp c ref)
      in (eb \<and> \<not> ec) \<or> (eb = ec \<and> (ps_DataEpoch sc < ps_DataEpoch sb \<or>
           (ps_DataEpoch sc = ps_DataEpoch sb \<and> ps_Seq sc \<le> ps_Seq sb))))"

lemma at_least_as_good_trans:
  "at_least_as_good inp p ref a b \<Longrightarrow> at_least_as_good inp p ref b c \<Longrightarrow> at_least_as_good inp p ref a c"
  by (auto simp: at_least_as_good_def Let_def)

lemma consider_candidate_eq:
  "consider_candidate inp p ref rs b c =
    (let st = fst (status inp c ref); e = gm_get False (pl_isEligible p) c in
     if \<not> admissible inp ref rs c then b
     else if better_candidate b e st then \<lparr>bs_best = c, bs_found = True, bs_eligible = e, bs_st = st\<rparr>
     else b)"
  by (auto simp: consider_candidate_def admissible_def case_prod_beta Let_def)

definition best_inv :: "planInput \<Rightarrow> planner \<Rightarrow> PartitionRef \<Rightarrow> bool \<Rightarrow> node_id set \<Rightarrow> best_state \<Rightarrow> bool" where
  "best_inv inp p ref rs C b \<longleftrightarrow>
    (\<not> bs_found b \<longrightarrow> bs_best b = '''' \<and> (\<forall>c \<in> C. \<not> admissible inp ref rs c)) \<and>
    (bs_found b \<longrightarrow> bs_best b \<in> C \<and> admissible inp ref rs (bs_best b) \<and>
      bs_st b = fst (status inp (bs_best b) ref) \<and> bs_eligible b = gm_get False (pl_isEligible p) (bs_best b) \<and>
      (\<forall>c \<in> C. admissible inp ref rs c \<longrightarrow> at_least_as_good inp p ref (bs_best b) c))"

lemma best_inv_step:
  assumes "best_inv inp p ref rs C b"
  shows "best_inv inp p ref rs (insert c C) (consider_candidate inp p ref rs b c)"
proof -
  let ?st = "fst (status inp c ref)" and ?e = "gm_get False (pl_isEligible p) c"
  have refl: "at_least_as_good inp p ref c c"
    by (simp add: at_least_as_good_def)
  have cmp: "better_candidate b ?e ?st \<Longrightarrow> at_least_as_good inp p ref c (bs_best b)"
    "\<not> better_candidate b ?e ?st \<Longrightarrow> at_least_as_good inp p ref (bs_best b) c" if "bs_found b"
    using that assms by (auto simp: better_candidate_def at_least_as_good_def best_inv_def Let_def)
  have new: "\<not> bs_found b \<Longrightarrow> better_candidate b ?e ?st"
    by (simp add: better_candidate_def)
  show ?thesis
    using assms cmp refl new at_least_as_good_trans [of inp p ref c "bs_best b"]
    unfolding best_inv_def consider_candidate_eq Let_def
    by (cases "bs_found b"; cases "admissible inp ref rs c"; cases "better_candidate b ?e ?st") simp_all
qed

lemma best_inv_foldl:
  "best_inv inp p ref rs C b \<Longrightarrow>
   best_inv inp p ref rs (C \<union> set cs) (foldl (consider_candidate inp p ref rs) b cs)"
proof (induction cs arbitrary: b C)
  case (Cons c cs)
  from Cons.IH [OF best_inv_step [OF Cons.prems, of c]] show ?case by simp
qed simp

lemma mostUpToDate_inv:
  assumes "mostUpToDate inp p ref cs rs = (best, seq)"
  obtains b where "best_inv inp p ref rs (set cs) b" and "best = bs_best b" and "seq = ps_Seq (bs_st b)"
  using assms best_inv_foldl [of inp p ref rs "{}" "\<lparr>bs_best = '''', bs_found = False, bs_eligible = False,
      bs_st = zero_status\<rparr>" cs]
  by (auto simp: mostUpToDate_def Let_def best_inv_def)

lemma mostUpToDate_spec:
  assumes "'''' \<notin> set cs" and "mostUpToDate inp p ref cs rs = (b, seq)"
  shows "(b = '''' \<longrightarrow> (\<forall>c \<in> set cs. \<not> admissible inp ref rs c)) \<and>
    (b \<noteq> '''' \<longrightarrow> b \<in> set cs \<and> admissible inp ref rs b \<and> seq = ps_Seq (fst (status inp b ref)) \<and>
      (\<forall>c \<in> set cs. admissible inp ref rs c \<longrightarrow> at_least_as_good inp p ref b c))"
  using assms(1) by (rule_tac mostUpToDate_inv [OF assms(2)]) (auto simp: best_inv_def)

lemma mostUpToDate_in: "mostUpToDate inp p ref cs rs = (b, seq) \<Longrightarrow> b \<noteq> '''' \<Longrightarrow> b \<in> set cs"
  by (erule mostUpToDate_inv) (auto simp: best_inv_def)

section \<open>The contract of a phase\<close>

definition parts_of :: "Layout \<Rightarrow> Partition list" where
  "parts_of l = map snd (Each (Some l))"

lemma parts_of_eq:
  "parts_of l = l_Partitions l @ (case l_Resharding l of None \<Rightarrow> [] | Some r \<Rightarrow> r_Partitions r)"
  by (simp add: parts_of_def Each_def comp_def split: option.splits)

definition planner_ok :: "node_id set \<Rightarrow> (Partition \<Rightarrow> bool) \<Rightarrow> planner \<Rightarrow> bool" where
  "planner_ok M Q p \<longleftrightarrow>
     (\<forall>part \<in> set (parts_of (pl_l p)). part_ok part \<and> set (Holders part) \<subseteq> M \<and> Q part) \<and>
     set (pl_eligible p) \<subseteq> M \<and> '''' \<notin> M"

text \<open>A resharding that \<open>startResharding\<close> just set up, and how a round may change one that runs.\<close>

definition fresh_resharding :: "int \<Rightarrow> int \<Rightarrow> Resharding \<Rightarrow> bool" where
  "fresh_resharding tc g r \<longleftrightarrow> r_Generation r = g + 1 \<and> 0 < r_PartitionCount r \<and> r_PartitionCount r = tc \<and>
     r_Status r = replicate (nat (r_PartitionCount r)) MigrationPending \<and>
     map p_ID (r_Partitions r) = map int [0..<nat (r_PartitionCount r)] \<and>
     (\<forall>p \<in> set (r_Partitions r). 0 \<le> p_Epoch p)"

definition fenced_resharding :: "Resharding \<Rightarrow> Resharding \<Rightarrow> bool" where
  "fenced_resharding r r' \<longleftrightarrow> r_Generation r' = r_Generation r \<and> r_PartitionCount r' = r_PartitionCount r \<and>
     r_Status r' = r_Status r \<and> list_all2 fenced (r_Partitions r) (r_Partitions r')"

definition fenced_layout :: "int \<Rightarrow> Layout \<Rightarrow> Layout \<Rightarrow> bool" where
  "fenced_layout tc l l' \<longleftrightarrow> l_Version l' = l_Version l \<and> l_Generation l' = l_Generation l \<and>
     l_PartitionCount l' = l_PartitionCount l \<and> list_all2 fenced (l_Partitions l) (l_Partitions l') \<and>
     (case l_Resharding l of
        Some r \<Rightarrow> \<exists>r'. l_Resharding l' = Some r' \<and> fenced_resharding r r'
      | None \<Rightarrow> (case l_Resharding l' of None \<Rightarrow> True | Some r' \<Rightarrow> fresh_resharding tc (l_Generation l) r'))"

lemma list_all2_fenced_trans:
  "list_all2 fenced as bs \<Longrightarrow> list_all2 fenced bs cs \<Longrightarrow> list_all2 fenced as cs"
  by (rule list_all2_trans [of fenced fenced fenced]) (auto intro: fenced_trans)

lemma list_all2_fenced_refl [simp, intro]: "list_all2 fenced ps ps"
  by (simp add: list_all2_refl)

lemma fenced_map_ID: "list_all2 fenced ps qs \<Longrightarrow> map p_ID qs = map p_ID ps"
  by (induction rule: list_all2_induct) (simp_all add: fenced_def)

lemma fenced_epochs:
  "list_all2 fenced ps qs \<Longrightarrow> \<forall>p \<in> set ps. 0 \<le> p_Epoch p \<Longrightarrow> \<forall>q \<in> set qs. 0 \<le> p_Epoch q"
  by (induction rule: list_all2_induct) (auto simp: fenced_def)

lemma fenced_resharding_trans:
  "fenced_resharding a b \<Longrightarrow> fenced_resharding b c \<Longrightarrow> fenced_resharding a c"
  by (auto simp: fenced_resharding_def intro: list_all2_fenced_trans)

lemma fenced_layout_refl [simp, intro]: "fenced_layout tc l l"
  by (auto simp: fenced_layout_def fenced_resharding_def split: option.splits)

lemma fresh_resharding_fenced: "fresh_resharding tc g r \<Longrightarrow> fenced_resharding r r' \<Longrightarrow> fresh_resharding tc g r'"
  using fenced_map_ID [of "r_Partitions r" "r_Partitions r'"] fenced_epochs [of "r_Partitions r" "r_Partitions r'"]
  by (simp add: fresh_resharding_def fenced_resharding_def)

lemma fenced_layout_trans:
  assumes "fenced_layout tc a b" and "fenced_layout tc b c"
  shows "fenced_layout tc a c"
  using assms list_all2_fenced_trans [of "l_Partitions a" "l_Partitions b" "l_Partitions c"]
  by (auto simp: fenced_layout_def split: option.splits
      intro: fenced_resharding_trans fresh_resharding_fenced)

locale planner_phase =
  fixes f :: phase and pre post :: "Partition \<Rightarrow> bool"
  assumes frame: "same_frame p (snd (f ref part p))"
    and fences: "fenced part (fst (f ref part p))"
    and sound: "part_ok part \<Longrightarrow> '''' \<notin> set (pl_eligible p) \<Longrightarrow> pre part \<Longrightarrow>
      part_ok (fst (f ref part p)) \<and> post (fst (f ref part p)) \<and>
      set (Holders (fst (f ref part p))) \<subseteq> set (Holders part) \<union> set (pl_eligible p)"
begin

lemma each_list_frame: "same_frame p (snd (each_list f g ps p))"
proof (induction ps arbitrary: p)
  case (Cons part ps)
  from frame [of p "PartitionRef g (p_ID part)" part] Cons show ?case
    by (auto simp: case_prod_beta Let_def intro: same_frame_trans)
qed simp

lemma each_list_fenced: "list_all2 fenced ps (fst (each_list f g ps p))"
  by (induction ps arbitrary: p) (auto simp: case_prod_beta Let_def fences)

lemma each_list_sound:
  assumes "\<forall>part \<in> set ps. part_ok part \<and> set (Holders part) \<subseteq> M \<and> pre part"
    and "set (pl_eligible p) \<subseteq> M" and "'''' \<notin> M"
  shows "\<forall>part \<in> set (fst (each_list f g ps p)). part_ok part \<and> set (Holders part) \<subseteq> M \<and> post part"
  using assms
proof (induction ps arbitrary: p)
  case (Cons part ps)
  obtain part' p1 where f: "f (PartitionRef g (p_ID part)) part p = (part', p1)" by fastforce
  from frame [of p "PartitionRef g (p_ID part)" part] f have "pl_eligible p1 = pl_eligible p"
    by (simp add: same_frame_def)
  with Cons.IH [of p1] Cons.prems sound [of part p "PartitionRef g (p_ID part)"] f show ?case
    by (auto simp: case_prod_beta Let_def)
qed simp

lemma each_part_frame:
  "pl_eligible (each_part f p) = pl_eligible p \<and> pl_isEligible (each_part f p) = pl_isEligible p"
  using each_list_frame [of p] each_list_frame
  by (auto simp: each_part_def same_frame_def Let_def case_prod_beta split: option.splits)

lemma each_part_layout:
  "pl_l (each_part f p) = (pl_l p)\<lparr>l_Partitions := l_Partitions (pl_l (each_part f p)),
     l_Resharding := l_Resharding (pl_l (each_part f p))\<rparr>"
  by (auto simp: each_part_def Let_def case_prod_beta split: option.splits)

lemma each_part_fenced: "fenced_layout tc (pl_l p) (pl_l (each_part f p))"
  by (auto simp: each_part_def Let_def case_prod_beta fenced_layout_def fenced_resharding_def
      each_list_fenced split: option.splits)

lemma each_part_sound:
  assumes "planner_ok M pre p"
  shows "planner_ok M post (each_part f p)"
proof -
  let ?l = "pl_l p" and ?r = "each_list f (l_Generation (pl_l p)) (l_Partitions (pl_l p)) p"
  from assms have ok: "\<forall>part \<in> set (parts_of ?l). part_ok part \<and> set (Holders part) \<subseteq> M \<and> pre part"
    and e: "set (pl_eligible p) \<subseteq> M" "'''' \<notin> M" by (auto simp: planner_ok_def)
  have e1: "pl_eligible (snd ?r) = pl_eligible p" using each_list_frame [of p] by (simp add: same_frame_def)
  have "\<forall>part \<in> set (fst ?r). part_ok part \<and> set (Holders part) \<subseteq> M \<and> post part"
    using ok e by (intro each_list_sound) (auto simp: parts_of_eq)
  moreover have "\<forall>part \<in> set (fst (each_list f (r_Generation r) (r_Partitions r) (snd ?r))).
      part_ok part \<and> set (Holders part) \<subseteq> M \<and> post part" if "l_Resharding ?l = Some r" for r
    using ok e e1 that by (intro each_list_sound) (auto simp: parts_of_eq)
  ultimately show ?thesis
    using e each_part_frame [of p]
    by (auto simp: planner_ok_def each_part_def parts_of_eq Let_def case_prod_beta split: option.splits)
qed

end

section \<open>The phases\<close>

lemma part_ok_alt:
  "part_ok part \<longleftrightarrow> distinct (p_Followers part) \<and> distinct (p_Joining part) \<and>
     set (p_Followers part) \<inter> set (p_Joining part) = {} \<and>
     p_Leader part \<notin> set (p_Followers part) \<union> set (p_Joining part) \<and>
     '''' \<notin> set (p_Followers part) \<union> set (p_Joining part) \<and>
     (p_State part = PartitionActive \<longrightarrow> p_HandoffTo part = '''')"
  by (auto simp: part_ok_def Holders_def)

lemma make_leader_simps [simp]:
  "p_Leader (make_leader c part) = c" "p_Epoch (make_leader c part) = p_Epoch part + 1"
  "p_State (make_leader c part) = PartitionActive" "p_HandoffTo (make_leader c part) = ''''"
  "p_ID (make_leader c part) = p_ID part" "p_Pinned (make_leader c part) = p_Pinned part"
  "p_Followers (make_leader c part) = RemoveString (p_Followers part) c"
  "p_Joining (make_leader c part) = RemoveString (p_Joining part) c"
  by (simp_all add: make_leader_def)

lemma failover_cases:
  obtains "failover inp ref part p = (part, p)"
  | c e where "p_Leader part = ''''" and "c \<noteq> ''''" and "c \<in> set (p_Followers part) \<union> set (p_Joining part)"
      and "failover inp ref part p = (make_leader c part, logf e p)"
  | c e where "p_Leader part = ''''" and "c \<noteq> ''''" and "c = leastLoaded part p"
      and "failover inp ref part p = (make_leader c part, logf e (add_load c 1 p))"
  by (cases "failover inp ref part p = (part, p)"; cases "p_Leader part = ''''";
      cases "mostUpToDate inp p ref (p_Followers part) False";
      cases "mostUpToDate inp p ref (p_Joining part) True")
    (auto simp: failover_def Let_def dest: mostUpToDate_in split: if_splits)

interpretation failover_phase: planner_phase "failover inp" "\<lambda>_. True" "\<lambda>_. True"
proof
  fix ref part p
  show "same_frame p (snd (failover inp ref part p))"
    by (rule failover_cases [of inp ref part p]) simp_all
  show "fenced part (fst (failover inp ref part p))"
    by (rule failover_cases [of inp ref part p]) (simp_all add: fenced_def)
  assume "part_ok part" "'''' \<notin> set (pl_eligible p)"
  then show "part_ok (fst (failover inp ref part p)) \<and> True \<and>
      set (Holders (fst (failover inp ref part p))) \<subseteq> set (Holders part) \<union> set (pl_eligible p)"
    using leastLoaded_eligible [of p part]
    by (rule_tac failover_cases [of inp ref part p]) (auto simp: part_ok_alt set_Holders)
qed

lemma promote_joiners_loop:
  assumes "distinct js" and "set js \<subseteq> set (p_Joining part)" and "part_ok part"
    and "foldl (promote_joiner inp ref leader) (part, p) js = (part', p')"
  shows "part_ok part' \<and> same_lead part part' \<and> same_frame p p' \<and> set (Holders part') = set (Holders part) \<and>
    (\<exists>ks. p_Followers part' = p_Followers part @ ks)"
  using assms
proof (induction js arbitrary: part p)
  case (Cons j js)
  obtain part1 p1 where step: "promote_joiner inp ref leader (part, p) j = (part1, p1)" by fastforce
  with Cons.prems have 1: "part_ok part1" "same_lead part part1" "same_frame p p1"
    "set (Holders part1) = set (Holders part)" "\<exists>ks. p_Followers part1 = p_Followers part @ ks"
    and "set js \<subseteq> set (p_Joining part1)"
    by (auto simp: promote_joiner_def case_prod_beta Let_def same_lead_def part_ok_alt set_Holders
        split: if_splits)
  with Cons.IH [of part1 p1] Cons.prems step show ?case
    by (auto intro: same_lead_trans same_frame_trans)
qed auto

lemma promoteJoiners_cases:
  obtains "promoteJoiners inp ref part p = (part, p)"
  | leader where "promoteJoiners inp ref part p =
      foldl (promote_joiner inp ref leader) (part, p) (p_Joining part)"
proof -
  have "promoteJoiners inp ref part p = (part, p) \<or> (\<exists>leader. promoteJoiners inp ref part p =
      foldl (promote_joiner inp ref leader) (part, p) (p_Joining part))"
    by (simp add: promoteJoiners_def Let_def case_prod_beta) blast
  then show ?thesis using that by blast
qed

lemma promote_joiner_same_lead:
  "same_lead (fst a) (fst (foldl (promote_joiner inp ref leader) a js)) \<and>
   same_frame (snd a) (snd (foldl (promote_joiner inp ref leader) a js))"
  by (rule foldl_inv)
    (auto simp: promote_joiner_def case_prod_beta Let_def same_lead_def)

interpretation joiners_phase: planner_phase "promoteJoiners inp" "\<lambda>_. True" "\<lambda>_. True"
proof
  fix ref part p
  show "same_frame p (snd (promoteJoiners inp ref part p))"
    using promote_joiner_same_lead [of "(part, p)"]
    by (rule_tac promoteJoiners_cases [of inp ref part p]) simp_all
  show "fenced part (fst (promoteJoiners inp ref part p))"
    using promote_joiner_same_lead [of "(part, p)", THEN conjunct1, THEN same_lead_fenced]
    by (rule_tac promoteJoiners_cases [of inp ref part p]) simp_all
  assume "part_ok part"
  then show "part_ok (fst (promoteJoiners inp ref part p)) \<and> True \<and>
      set (Holders (fst (promoteJoiners inp ref part p))) \<subseteq> set (Holders part) \<union> set (pl_eligible p)"
  proof (cases rule: promoteJoiners_cases [of inp ref part p])
    case (2 leader)
    obtain part' p' where eq: "promoteJoiners inp ref part p = (part', p')" by fastforce
    from \<open>part_ok part\<close> have "distinct (p_Joining part)" by (simp add: part_ok_alt)
    from promote_joiners_loop [OF this subset_refl \<open>part_ok part\<close> 2 [symmetric, unfolded eq]] eq
    show ?thesis by simp
  qed auto
qed

text \<open>
  The three outcomes of \<open>progressHandoff\<close>: nothing yet, given up, or handed over. The last one
  needs a sealed leader that knows the handoff and a target that has everything it wrote.
\<close>

definition handoff_ready :: "planInput \<Rightarrow> PartitionRef \<Rightarrow> Partition \<Rightarrow> bool" where
  "handoff_ready inp ref part \<longleftrightarrow>
     (\<exists>node. map_of (pi_Status inp) (p_Leader part) = Some node \<and> p_HandoffVersion part \<le> ns_LayoutVersion node) \<and>
     snd (status inp (p_Leader part) ref) \<and> ps_Sealed (fst (status inp (p_Leader part) ref)) \<and>
     snd (status inp (p_HandoffTo part) ref) \<and>
     ps_DataEpoch (fst (status inp (p_HandoffTo part) ref)) = p_Epoch part \<and>
     ps_Seq (fst (status inp (p_Leader part) ref)) \<le> ps_Seq (fst (status inp (p_HandoffTo part) ref))"

definition handed_over :: "planInput \<Rightarrow> Partition \<Rightarrow> Partition" where
  "handed_over inp part =
     (let old = p_Leader part; target = p_HandoffTo part;
          moved = clearHandoff (part\<lparr>p_Followers := RemoveString (p_Followers part) target,
            p_Leader := target, p_Epoch := p_Epoch part + 1\<rparr>)
      in if evicted inp old part then moved\<lparr>p_Evict := RemoveString (p_Evict part) old\<rparr>
         else moved\<lparr>p_Joining := p_Joining part @ [old]\<rparr>)"

lemma progressHandoff_eq:
  "fst (progressHandoff inp ref part p) =
    (if p_State part \<noteq> PartitionHandoff then part
     else if p_Leader part = '''' \<or> p_HandoffTo part \<notin> set (p_Followers part) \<or>
       handoffTimeout < pi_Now inp - time_UnixMilli (p_HandoffAt part) then clearHandoff part
     else if handoff_ready inp ref part then handed_over inp part else part)"
proof (cases "map_of (pi_Status inp) (p_Leader part)")
  case None
  then show ?thesis by (auto simp: progressHandoff_def handoff_ready_def Let_def)
next
  case (Some node)
  then have "status inp (p_Leader part) ref = NodeStatus_Partition node ref"
    by (simp add: status_def)
  with Some show ?thesis
    by (auto simp: progressHandoff_def handoff_ready_def handed_over_def Let_def case_prod_beta
        evicted_def)
qed

lemma progressHandoff_frame: "same_frame p (snd (progressHandoff inp ref part p))"
  by (auto simp: progressHandoff_def Let_def case_prod_beta split: option.splits)

lemma handed_over_simps [simp]:
  "p_ID (handed_over inp part) = p_ID part" "p_Pinned (handed_over inp part) = p_Pinned part"
  "p_Leader (handed_over inp part) = p_HandoffTo part" "p_Epoch (handed_over inp part) = p_Epoch part + 1"
  "p_State (handed_over inp part) = PartitionActive" "p_HandoffTo (handed_over inp part) = ''''"
  "p_Followers (handed_over inp part) = RemoveString (p_Followers part) (p_HandoffTo part)"
  "p_Joining (handed_over inp part) =
     (if evicted inp (p_Leader part) part then p_Joining part else p_Joining part @ [p_Leader part])"
  by (simp_all add: handed_over_def Let_def)

interpretation handoff_phase: planner_phase "progressHandoff inp" "\<lambda>_. True" handoff_ok
proof
  fix ref part p
  show "same_frame p (snd (progressHandoff inp ref part p))" by (rule progressHandoff_frame)
  show "fenced part (fst (progressHandoff inp ref part p))"
    by (simp add: progressHandoff_eq fenced_def)
  assume "part_ok part"
  then show "part_ok (fst (progressHandoff inp ref part p)) \<and> handoff_ok (fst (progressHandoff inp ref part p)) \<and>
      set (Holders (fst (progressHandoff inp ref part p))) \<subseteq> set (Holders part) \<union> set (pl_eligible p)"
    unfolding progressHandoff_eq by (auto simp: part_ok_alt handoff_ok_def set_Holders)
qed

text \<open>Starting a handoff to a follower.\<close>

lemma startHandoff_simps [simp]:
  "fst (startHandoff inp ref part t reason p) = part\<lparr>p_State := PartitionHandoff, p_HandoffTo := t,
     p_HandoffAt := UnixMilli (pi_Now inp), p_HandoffVersion := l_Version (pl_l p)\<rparr>"
  "snd (startHandoff inp ref part t reason p) = logf (HandingOff ref (p_Leader part) t reason) p"
  by (simp_all add: startHandoff_def)

lemma startHandoff_sound:
  assumes "part_ok part" and "p_Leader part \<noteq> ''''" and "t \<in> set (p_Followers part)"
  shows "part_ok (fst (startHandoff inp ref part t reason p))"
    "handoff_ok (fst (startHandoff inp ref part t reason p))"
    "fenced part (fst (startHandoff inp ref part t reason p))"
    "Holders (fst (startHandoff inp ref part t reason p)) = Holders part"
  using assms by (auto simp: part_ok_alt handoff_ok_def fenced_def Holders_def)

lemma handoffEvictedLeader_cases:
  obtains "handoffEvictedLeader inp ref part p = (part, p)"
  | t where "p_Leader part \<noteq> ''''" and "t \<in> set (p_Followers part)" and "evicted inp (p_Leader part) part"
      and "gm_get False (pl_isEligible p) t" and "\<not> evicted inp t part" and "admissible inp ref True t"
      and "handoffEvictedLeader inp ref part p = startHandoff inp ref part t (MovedOff (p_Leader part)) p"
proof -
  let ?cs = "filter (\<lambda>f. gm_get False (pl_isEligible p) f \<and> \<not> evicted inp f part) (p_Followers part)"
  obtain t seq where m: "mostUpToDate inp p ref ?cs True = (t, seq)" by fastforce
  then have "t \<noteq> '''' \<Longrightarrow> t \<in> set ?cs \<and> admissible inp ref True t"
    by (rule mostUpToDate_inv) (auto simp: best_inv_def)
  moreover from m have "handoffEvictedLeader inp ref part p =
    (if p_Leader part = '''' \<or> p_State part = PartitionHandoff \<or> \<not> evicted inp (p_Leader part) part \<or> t = ''''
     then (part, p) else startHandoff inp ref part t (MovedOff (p_Leader part)) p)"
    by (simp add: handoffEvictedLeader_def)
  ultimately show ?thesis
    using that by (cases "p_Leader part = '''' \<or> p_State part = PartitionHandoff \<or>
        \<not> evicted inp (p_Leader part) part \<or> t = ''''") auto
qed

interpretation evict_phase: planner_phase "handoffEvictedLeader inp" handoff_ok handoff_ok
proof
  fix ref part p
  show "same_frame p (snd (handoffEvictedLeader inp ref part p))"
    by (rule handoffEvictedLeader_cases [of inp ref part p]) simp_all
  show "fenced part (fst (handoffEvictedLeader inp ref part p))"
    by (rule handoffEvictedLeader_cases [of inp ref part p]) (simp_all add: fenced_def)
  assume "part_ok part" and "handoff_ok part"
  then show "part_ok (fst (handoffEvictedLeader inp ref part p)) \<and> handoff_ok (fst (handoffEvictedLeader inp ref part p)) \<and>
      set (Holders (fst (handoffEvictedLeader inp ref part p))) \<subseteq> set (Holders part) \<union> set (pl_eligible p)"
    by (cases rule: handoffEvictedLeader_cases [of inp ref part p]) (simp_all add: startHandoff_sound del: startHandoff_simps)
qed

text \<open>Adding replicas: joining replicas are appended until there are enough copies.\<close>

declare add_replicas.simps [simp del] remove_surplus.simps [simp del] fill_joining.simps [simp del]

lemma add_replicas_spec:
  assumes "part_ok part" and "'''' \<notin> set (pl_eligible p)" and "p_Leader part \<noteq> ''''"
    and "add_replicas ref desired copies part p = (part', p')"
  shows "part_ok part' \<and> same_lead part part' \<and> same_frame p p' \<and> p_Followers part' = p_Followers part \<and>
    (\<exists>ns. p_Joining part' = p_Joining part @ ns \<and> set ns \<subseteq> set (pl_eligible p) \<and>
      (copies + int (length ns) = max copies desired \<or>
       copies + int (length ns) < desired \<and> (\<forall>n \<in> set (pl_eligible p). Has part' n)))"
  using assms
proof (induction ref desired copies part p rule: add_replicas.induct)
  case (1 ref desired copies part p)
  let ?n = "leastLoaded part p" and ?p = "logf (AddingReplica ref (leastLoaded part p)) (add_load (leastLoaded part p) 1 p)"
  let ?part = "part\<lparr>p_Joining := p_Joining part @ [leastLoaded part p]\<rparr>"
  note ll = leastLoaded_spec [OF "1.prems"(2), of part]
  show ?case
  proof (cases "copies < desired \<and> ?n \<noteq> ''''")
    case True
    with "1.prems" have rec: "add_replicas ref desired (copies + 1) ?part ?p = (part', p')"
      by (simp add: add_replicas.simps [of ref desired copies part p] Let_def)
    from True ll have n: "?n \<in> set (pl_eligible p)" "\<not> Has part ?n" by auto
    with "1.prems" have ok: "part_ok ?part" by (auto simp: part_ok_alt Has_def)
    have sl: "same_lead part ?part" by (simp add: same_lead_def)
    from "1.IH" [OF _ refl _ ok _ _ rec] True "1.prems"
    have IH: "part_ok part'" "same_lead ?part part'" "same_frame p p'" "p_Followers part' = p_Followers part"
      and "\<exists>ns. p_Joining part' = p_Joining ?part @ ns \<and> set ns \<subseteq> set (pl_eligible p) \<and>
        (copies + 1 + int (length ns) = max (copies + 1) desired \<or>
         copies + 1 + int (length ns) < desired \<and> (\<forall>n \<in> set (pl_eligible p). Has part' n))"
      by auto
    then obtain ns where ns: "p_Joining part' = p_Joining part @ ?n # ns" "set ns \<subseteq> set (pl_eligible p)"
      "copies + 1 + int (length ns) = max (copies + 1) desired \<or>
         copies + 1 + int (length ns) < desired \<and> (\<forall>n \<in> set (pl_eligible p). Has part' n)"
      by auto
    have "\<exists>ns. p_Joining part' = p_Joining part @ ns \<and> set ns \<subseteq> set (pl_eligible p) \<and>
      (copies + int (length ns) = max copies desired \<or>
       copies + int (length ns) < desired \<and> (\<forall>n \<in> set (pl_eligible p). Has part' n))"
      using ns n True by (intro exI [of _ "?n # ns"]) auto
    with IH sl show ?thesis by (auto intro: same_lead_trans)
  next
    case False
    with "1.prems"(4) have "part' = part" "p' = p"
      by (auto simp: add_replicas.simps [of ref desired copies part p] Let_def split: if_splits)
    with False ll "1.prems" show ?thesis by auto
  qed
qed

text \<open>Removing copies: three loops that only take nodes away and never touch the handoff target.\<close>

definition shrinks :: "Partition \<Rightarrow> Partition \<Rightarrow> bool" where
  "shrinks a b \<longleftrightarrow> same_lead a b \<and> (\<exists>P. p_Followers b = filter P (p_Followers a)) \<and>
     (\<exists>P. p_Joining b = filter P (p_Joining a)) \<and>
     (p_HandoffTo a \<in> set (p_Followers a) \<longrightarrow> p_HandoffTo a \<in> set (p_Followers b))"

lemma shrinks_refl [simp, intro]: "shrinks a a"
  by (auto simp: shrinks_def intro: exI [of _ "\<lambda>_. True"])

lemma shrinks_trans: "shrinks a b \<Longrightarrow> shrinks b c \<Longrightarrow> shrinks a c"
  by (auto simp: shrinks_def same_lead_def)

lemma shrinks_part_ok: "shrinks a b \<Longrightarrow> part_ok a \<Longrightarrow> part_ok b"
  by (auto simp: shrinks_def same_lead_def part_ok_alt)

lemma shrinks_Holders: "shrinks a b \<Longrightarrow> set (Holders b) \<subseteq> set (Holders a)"
  by (auto simp: shrinks_def same_lead_def set_Holders)

lemma shrinks_handoff_ok: "shrinks a b \<Longrightarrow> handoff_ok a \<Longrightarrow> handoff_ok b"
  by (auto simp: shrinks_def same_lead_def handoff_ok_def)

lemma shrinks_same_lead: "shrinks a b \<Longrightarrow> same_lead a b"
  by (simp add: shrinks_def)

lemma shrinks_remove_follower:
  "n \<noteq> p_HandoffTo part \<Longrightarrow> shrinks part (part\<lparr>p_Followers := RemoveString (p_Followers part) n\<rparr>)"
  by (auto simp: shrinks_def same_lead_def RemoveString_filter intro: exI [of _ "\<lambda>_. True"])

lemma shrinks_remove_joining: "shrinks part (part\<lparr>p_Joining := RemoveString (p_Joining part) n\<rparr>)"
  by (auto simp: shrinks_def same_lead_def RemoveString_filter intro: exI [of _ "\<lambda>_. True"])

lemma filter_RemoveString: "\<not> P n \<Longrightarrow> filter P (RemoveString xs n) = filter P xs"
  by (induction xs) auto

lemma remove_evicted_loop:
  assumes "foldl (remove_evicted inp ref) (part, p) ns = (part', p')"
  shows "shrinks part part' \<and> same_frame p p' \<and>
    filter (keep inp part) (p_Followers part') = filter (keep inp part) (p_Followers part) \<and>
    filter (keep inp part) (p_Joining part') = filter (keep inp part) (p_Joining part)"
  using assms
proof (induction ns arbitrary: part p)
  case (Cons n ns)
  obtain part1 p1 where step: "remove_evicted inp ref (part, p) n = (part1, p1)" by fastforce
  have sh: "shrinks part part1"
    using step shrinks_remove_follower [of n part]
      shrinks_remove_joining [of "part\<lparr>p_Followers := RemoveString (p_Followers part) n\<rparr>" n]
    by (auto simp: remove_evicted_def split: if_splits intro: shrinks_trans)
  have k: "keep inp part1 = keep inp part"
    using sh by (intro ext keep_same_lead shrinks_same_lead)
  have fr: "same_frame p p1" and
    "filter (keep inp part) (p_Followers part1) = filter (keep inp part) (p_Followers part)"
    "filter (keep inp part) (p_Joining part1) = filter (keep inp part) (p_Joining part)"
    using step by (auto simp: remove_evicted_def filter_RemoveString split: if_splits)
  with Cons.IH [of part1 p1] Cons.prems step sh k show ?case
    by (auto intro: shrinks_trans same_frame_trans)
qed auto

lemma cancel_joining_loop:
  assumes "foldl (cancel_joining inp ref) (part, p) ns = (part', p')"
  shows "shrinks part part' \<and> same_frame p p' \<and> p_Followers part' = p_Followers part"
  using assms
proof (induction ns arbitrary: part p)
  case (Cons n ns)
  obtain part1 p1 where step: "cancel_joining inp ref (part, p) n = (part1, p1)" by fastforce
  then have "shrinks part part1" "same_frame p p1" "p_Followers part1 = p_Followers part"
    using shrinks_remove_joining [of part n]
    by (auto simp: cancel_joining_def split: if_splits)
  with Cons.IH [of part1 p1] Cons.prems step show ?case
    by (auto intro: shrinks_trans same_frame_trans)
qed auto

lemma surplus_victim_in:
  assumes "surplus_victim inp part p \<noteq> ''''"
  shows "surplus_victim inp part p \<in> set (p_Followers part)" "keep inp part (surplus_victim inp part p)"
    "surplus_victim inp part p \<noteq> p_HandoffTo part"
proof -
  have "foldl (heavier inp part p) '''' fs = '''' \<or>
    foldl (heavier inp part p) '''' fs \<in> set fs \<and> keep inp part (foldl (heavier inp part p) '''' fs) \<and>
    foldl (heavier inp part p) '''' fs \<noteq> p_HandoffTo part" for fs
    by (induction fs rule: rev_induct) (auto simp: heavier_def)
  with assms show "surplus_victim inp part p \<in> set (p_Followers part)"
    "keep inp part (surplus_victim inp part p)" "surplus_victim inp part p \<noteq> p_HandoffTo part"
    by (auto simp: surplus_victim_def)
qed

lemma count_keep_RemoveString:
  assumes "distinct fs" and "v \<in> set fs" and "keep inp part v"
  shows "count_keep inp part (RemoveString fs v) = count_keep inp part fs - 1"
  using assms by (induction fs) (auto simp: count_keep_def)

text \<open>Enough kept copies remain, and surplus is left only where the handoff target is the last.\<close>

lemma remove_surplus_spec:
  assumes "part_ok part" and "remove_surplus inp ref desired (in_sync_kept inp part) part p = (part', p')"
  shows "shrinks part part' \<and> same_frame p p' \<and> p_Joining part' = p_Joining part \<and>
    in_sync_kept inp part' \<ge> min desired (in_sync_kept inp part) \<and>
    (in_sync_kept inp part' \<le> desired \<or> surplus_victim inp part' p' = '''')"
  using assms
proof (induction inp ref desired "in_sync_kept inp part" part p rule: remove_surplus.induct)
  case (1 inp ref desired part p)
  let ?v = "surplus_victim inp part p"
  let ?part = "part\<lparr>p_Followers := RemoveString (p_Followers part) ?v\<rparr>"
  let ?p = "logf (RemovedSurplus ref ?v) (add_load ?v (- 1) p)"
  show ?case
  proof (cases "desired < in_sync_kept inp part \<and> ?v \<noteq> ''''")
    case True
    note v = surplus_victim_in [of inp part p]
    have sh: "shrinks part ?part" using True v by (intro shrinks_remove_follower) simp
    from "1.prems" have "distinct (p_Followers part)" by (simp add: part_ok_alt)
    with True v have count: "in_sync_kept inp ?part = in_sync_kept inp part - 1"
      using count_keep_RemoveString [of "p_Followers part" ?v inp part]
      by (simp add: in_sync_kept_def count_keep_def)
    from True "1.prems" count have rec: "remove_surplus inp ref desired (in_sync_kept inp ?part) ?part ?p = (part', p')"
      by (simp add: remove_surplus.simps [of inp ref desired "in_sync_kept inp part"] Let_def)
    have "shrinks ?part part' \<and> same_frame ?p p' \<and> p_Joining part' = p_Joining ?part \<and>
      in_sync_kept inp part' \<ge> min desired (in_sync_kept inp ?part) \<and>
      (in_sync_kept inp part' \<le> desired \<or> surplus_victim inp part' p' = '''')"
      using True "1.prems" sh count rec by (intro "1.hyps") (auto intro: shrinks_part_ok)
    with sh count True show ?thesis by (auto intro: shrinks_trans simp: same_frame_def)
  next
    case False
    with "1.prems"(2) have "part' = part" "p' = p"
      by (auto simp: remove_surplus.simps [of inp ref desired "in_sync_kept inp part"] Let_def split: if_splits)
    with False show ?thesis by auto
  qed
qed

lemma in_sync_kept_cong:
  assumes "same_lead a b" and "filter (keep inp a) (p_Followers b) = filter (keep inp a) (p_Followers a)"
  shows "in_sync_kept inp b = in_sync_kept inp a"
proof -
  have "keep inp b = keep inp a" using assms(1) by (intro ext keep_same_lead)
  with assms show ?thesis by (simp add: in_sync_kept_def count_keep_def same_lead_def)
qed

lemma in_sync_kept_evict [simp]:
  "in_sync_kept inp (part\<lparr>p_Evict := filter (Has part) (p_Evict part)\<rparr>) = in_sync_kept inp part"
proof -
  have "filter (keep inp (part\<lparr>p_Evict := filter (Has part) (p_Evict part)\<rparr>)) (p_Followers part) =
    filter (keep inp part) (p_Followers part)"
    by (rule filter_cong) (auto simp: keep_def evicted_def Has_def)
  then show ?thesis
    by (simp add: in_sync_kept_def count_keep_def) (simp add: keep_def evicted_def Has_def)
qed

lemma fixReplicaCount_skip:
  "p_Leader part = '''' \<or> desiredCopies inp p = 0 \<Longrightarrow> fixReplicaCount inp ref part p = (part, p)"
  by (simp add: fixReplicaCount_def)

text \<open>The two ways through \<open>fixReplicaCount\<close>, as a chain of partitions.\<close>

lemma fixReplicaCount_chain:
  assumes "p_Leader part \<noteq> ''''" and "desiredCopies inp p \<noteq> 0" and "part_ok part" and "'''' \<notin> set (pl_eligible p)"
    and "fixReplicaCount inp ref part p = (part', p')"
  obtains part1 part2 ns where
    "same_lead part part1" and "part_ok part1" and "p_Followers part1 = p_Followers part"
    and "p_Joining part1 = p_Joining part @ ns" and "set ns \<subseteq> set (pl_eligible p)"
    and "in_sync_kept inp part + count_keep inp part (p_Joining part) + int (length ns) \<ge> desiredCopies inp p \<or>
      (\<forall>n \<in> set (pl_eligible p). Has part1 n)"
    and "same_frame p p'" and "part' = part2\<lparr>p_Evict := filter (Has part2) (p_Evict part2)\<rparr>"
    and "shrinks part1 part2"
    and "in_sync_kept inp part < desiredCopies inp p \<Longrightarrow> part2 = part1"
    and "in_sync_kept inp part \<ge> desiredCopies inp p \<Longrightarrow> in_sync_kept inp part2 \<ge> desiredCopies inp p"
proof -
  let ?d = "desiredCopies inp p" and ?s = "in_sync_kept inp part"
  let ?c = "?s + count_keep inp part (p_Joining part)"
  obtain part1 p1 where a: "add_replicas ref ?d ?c part p = (part1, p1)" by fastforce
  from add_replicas_spec [OF assms(3,4,1) a] obtain ns where
    1: "part_ok part1" "same_lead part part1" "same_frame p p1" "p_Followers part1 = p_Followers part"
    "p_Joining part1 = p_Joining part @ ns" "set ns \<subseteq> set (pl_eligible p)"
    and n: "?c + int (length ns) = max ?c ?d \<or> ?c + int (length ns) < ?d \<and> (\<forall>n \<in> set (pl_eligible p). Has part1 n)"
    by blast
  have n': "?c + int (length ns) \<ge> ?d \<or> (\<forall>n \<in> set (pl_eligible p). Has part1 n)" using n by linarith
  show ?thesis
  proof (cases "?s \<ge> ?d")
    case False
    with assms a have "part' = part1\<lparr>p_Evict := filter (Has part1) (p_Evict part1)\<rparr>" "p' = p1"
      by (auto simp: fixReplicaCount_def Let_def split: prod.splits)
    with 1 n' False show ?thesis by (intro that [of part1 ns part1]) auto
  next
    case True
    obtain part2 p2 where b: "foldl (remove_evicted inp ref) (part1, p1) (p_Followers part1 @ p_Joining part1) = (part2, p2)"
      by fastforce
    note 2 = remove_evicted_loop [OF b]
    obtain part3 p3 where c: "remove_surplus inp ref ?d ?s part2 p2 = (part3, p3)" by fastforce
    obtain part4 p4 where d: "foldl (cancel_joining inp ref) (part3, p3) (p_Joining part3) = (part4, p4)" by fastforce
    note 4 = cancel_joining_loop [OF d]
    have s1: "in_sync_kept inp part1 = ?s" using 1 by (intro in_sync_kept_cong) simp_all
    have s2: "in_sync_kept inp part2 = ?s"
      unfolding s1 [symmetric] using 2 by (intro in_sync_kept_cong) (simp_all add: shrinks_same_lead)
    have ok2: "part_ok part2" using 1 2 by (auto intro: shrinks_part_ok)
    note 3 = remove_surplus_spec [OF ok2, of inp ref ?d p2 part3 p3, unfolded s2, OF c]
    have s4: "in_sync_kept inp part4 = in_sync_kept inp part3"
      using 4 by (intro in_sync_kept_cong) (simp_all add: shrinks_same_lead)
    have "part' = part4\<lparr>p_Evict := filter (Has part4) (p_Evict part4)\<rparr>" "p' = p4"
      using assms a b c d True by (auto simp: fixReplicaCount_def Let_def split: prod.splits)
    moreover have "shrinks part1 part4" using 2 3 4 by (meson shrinks_trans)
    moreover have "same_frame p p4" using 1 2 3 4 by (meson same_frame_trans)
    ultimately show ?thesis using 1 n' True 3 s4
      by (intro that [of part1 ns part4]) auto
  qed
qed

lemma add_replicas_frame:
  "add_replicas ref desired copies part p = (part', p') \<Longrightarrow> same_lead part part' \<and> same_frame p p'"
proof (induction ref desired copies part p rule: add_replicas.induct)
  case (1 ref desired copies part p)
  have "same_lead part (part\<lparr>p_Joining := js\<rparr>)" for js by (simp add: same_lead_def)
  with 1 show ?case
    by (auto simp: add_replicas.simps [of ref desired copies part p] Let_def split: if_splits
        intro: same_lead_trans)
qed

lemma remove_surplus_frame:
  "remove_surplus inp ref desired inSync part p = (part', p') \<Longrightarrow> same_lead part part' \<and> same_frame p p'"
proof (induction inp ref desired inSync part p rule: remove_surplus.induct)
  case (1 inp ref desired inSync part p)
  have "same_lead part (part\<lparr>p_Followers := fs\<rparr>)" for fs by (simp add: same_lead_def)
  with 1 show ?case
    by (auto simp: remove_surplus.simps [of inp ref desired inSync part p] Let_def split: if_splits
        intro: same_lead_trans)
qed

lemma fixReplicaCount_frame:
  assumes "fixReplicaCount inp ref part p = (part', p')"
  shows "fenced part part'" "same_frame p p'"
proof -
  let ?d = "desiredCopies inp p" and ?s = "in_sync_kept inp part"
  obtain part1 p1 where a: "add_replicas ref ?d (?s + count_keep inp part (p_Joining part)) part p = (part1, p1)"
    by fastforce
  obtain part2 p2 where b: "foldl (remove_evicted inp ref) (part1, p1) (p_Followers part1 @ p_Joining part1) = (part2, p2)"
    by fastforce
  obtain part3 p3 where c: "remove_surplus inp ref ?d ?s part2 p2 = (part3, p3)" by fastforce
  obtain part4 p4 where d: "foldl (cancel_joining inp ref) (part3, p3) (p_Joining part3) = (part4, p4)" by fastforce
  note f = add_replicas_frame [OF a] remove_evicted_loop [OF b] remove_surplus_frame [OF c] cancel_joining_loop [OF d]
  have sl: "same_lead part part1" "same_lead part part4" "same_frame p p1" "same_frame p p4"
    using f unfolding shrinks_def same_lead_def same_frame_def by simp_all
  have upd: "fenced part (q\<lparr>p_Evict := es\<rparr>)" if "same_lead part q" for q es
    using that by (simp add: fenced_def same_lead_def)
  have "fixReplicaCount inp ref part p =
    (if p_Leader part = '''' \<or> ?d = 0 then (part, p)
     else if ?d \<le> ?s then (part4\<lparr>p_Evict := filter (Has part4) (p_Evict part4)\<rparr>, p4)
     else (part1\<lparr>p_Evict := filter (Has part1) (p_Evict part1)\<rparr>, p1))"
    by (simp add: fixReplicaCount_def Let_def a b c d del: foldl_append)
  with assms sl upd show "fenced part part'" "same_frame p p'"
    by (auto split: if_splits)
qed

lemma evict_update_ok [simp]:
  "part_ok (part\<lparr>p_Evict := es\<rparr>) = part_ok part" "handoff_ok (part\<lparr>p_Evict := es\<rparr>) = handoff_ok part"
  "Holders (part\<lparr>p_Evict := es\<rparr>) = Holders part"
  by (simp_all add: part_ok_alt handoff_ok_def Holders_def)

lemma fixReplicaCount_sound:
  assumes "part_ok part" and "'''' \<notin> set (pl_eligible p)" and "handoff_ok part"
    and "fixReplicaCount inp ref part p = (part', p')"
  shows "part_ok part' \<and> handoff_ok part' \<and> set (Holders part') \<subseteq> set (Holders part) \<union> set (pl_eligible p)"
proof (cases "p_Leader part = '''' \<or> desiredCopies inp p = 0")
  case True
  with assms show ?thesis by (auto simp: fixReplicaCount_skip)
next
  case False
  then have f: "p_Leader part \<noteq> ''''" "desiredCopies inp p \<noteq> 0" by auto
  obtain part1 part2 ns where 1: "same_lead part part1" "part_ok part1" "p_Followers part1 = p_Followers part"
    "p_Joining part1 = p_Joining part @ ns" "set ns \<subseteq> set (pl_eligible p)"
    and 2: "shrinks part1 part2" "part' = part2\<lparr>p_Evict := filter (Has part2) (p_Evict part2)\<rparr>"
    by (rule fixReplicaCount_chain [OF f assms(1,2,4)]) blast
  have "handoff_ok part1" using 1 assms by (auto simp: handoff_ok_def same_lead_def)
  moreover have "set (Holders part1) \<subseteq> set (Holders part) \<union> set (pl_eligible p)"
    using 1 by (auto simp: set_Holders same_lead_def)
  ultimately show ?thesis
    using 1 2 shrinks_Holders [OF 2(1)] by (auto intro: shrinks_part_ok shrinks_handoff_ok)
qed

interpretation count_phase: planner_phase "fixReplicaCount inp" handoff_ok handoff_ok
proof
  fix ref part p
  obtain part' p' where eq: "fixReplicaCount inp ref part p = (part', p')" by fastforce
  show "same_frame p (snd (fixReplicaCount inp ref part p))"
    "fenced part (fst (fixReplicaCount inp ref part p))"
    using fixReplicaCount_frame [OF eq] eq by simp_all
  assume "part_ok part" "'''' \<notin> set (pl_eligible p)" "handoff_ok part"
  from fixReplicaCount_sound [OF this eq] eq
  show "part_ok (fst (fixReplicaCount inp ref part p)) \<and> handoff_ok (fst (fixReplicaCount inp ref part p)) \<and>
      set (Holders (fst (fixReplicaCount inp ref part p))) \<subseteq> set (Holders part) \<union> set (pl_eligible p)"
    by simp
qed

end
