(* ===== verification/PlanRound.thy ===== *)
theory PlanRound
  imports PlanInv
begin

text \<open>
  A whole planning round: membership and load, then the phases of \<open>PlanInv\<close>, resharding and
  balancing. The theorems say what \<open>plan\<close> guarantees about the layout the controller writes.
\<close>

section \<open>Membership\<close>

lemma drop_node_simps [simp]:
  "p_ID (drop_node n part) = p_ID part" "p_Pinned (drop_node n part) = p_Pinned part"
  "p_Epoch (drop_node n part) = p_Epoch part"
  "p_Leader (drop_node n part) = (if p_Leader part = n then '''' else p_Leader part)"
  "p_Followers (drop_node n part) = RemoveString (p_Followers part) n"
  "p_Joining (drop_node n part) = RemoveString (p_Joining part) n"
  "p_State (drop_node n part) = (if p_HandoffTo part = n then PartitionActive else p_State part)"
  "p_HandoffTo (drop_node n part) = (if p_HandoffTo part = n then '''' else p_HandoffTo part)"
  by (simp_all add: drop_node_def Let_def)

interpretation drop_phase: planner_phase "\<lambda>_ part p. (drop_node n part, p)" "\<lambda>_. True" "\<lambda>part. n \<notin> set (Holders part)"
proof
  fix ref :: PartitionRef and part and p :: planner
  show "same_frame p (snd (drop_node n part, p))" by simp
  show "fenced part (fst (drop_node n part, p))" by (simp add: fenced_def)
  assume "part_ok part"
  then show "part_ok (fst (drop_node n part, p)) \<and> n \<notin> set (Holders (fst (drop_node n part, p))) \<and>
      set (Holders (fst (drop_node n part, p))) \<subseteq> set (Holders part) \<union> set (pl_eligible p)"
    by (auto simp: part_ok_alt set_Holders)
qed

definition members :: "planner \<Rightarrow> node_id \<Rightarrow> int option" where
  "members p = map_of (l_Members (pl_l p))"

definition members_ok :: "planner \<Rightarrow> bool" where
  "members_ok p \<longleftrightarrow> planner_ok (dom (members p)) (\<lambda>_. True) p \<and> gm_ok (l_Members (pl_l p)) \<and>
     pl_eligible p = []"

lemma parts_of_members [simp]: "parts_of (l\<lparr>l_Members := m\<rparr>) = parts_of l"
  by (simp add: parts_of_eq)

lemma fenced_layout_members [simp]: "fenced_layout tc l (l'\<lparr>l_Members := m\<rparr>) = fenced_layout tc l l'"
  by (auto simp: fenced_layout_def split: option.splits)

lemma removeNode_layout:
  "fenced_layout tc (pl_l p) (pl_l (removeNode n p)) \<and> l_Members (pl_l (removeNode n p)) = l_Members (pl_l p) \<and>
   pl_eligible (removeNode n p) = pl_eligible p"
  using drop_phase.each_part_fenced [of tc p n] drop_phase.each_part_frame [of n p]
  by (simp add: removeNode_def drop_phase.each_part_layout [of n p, THEN arg_cong [of _ _ l_Members]])

text \<open>The live members: those whose lease still has the incarnation the layout recorded.\<close>

definition live :: "planInput \<Rightarrow> node_id \<Rightarrow> int \<Rightarrow> bool" where
  "live inp n i \<longleftrightarrow> map_option n_Incarnation (map_of (pi_Nodes inp) n) = Some i"

lemma membership_leave_members:
  "members (membership_leave inp p n) k =
     (if k = n then (case members p n of None \<Rightarrow> None | Some i \<Rightarrow> if live inp n i then Some i else None)
      else members p k)"
  using removeNode_layout [of 0 p n]
  by (auto simp: membership_leave_def members_def Let_def gm_get_def live_def delete_conv' split: option.splits)

lemma membership_leave_fenced: "fenced_layout tc (pl_l p) (pl_l (membership_leave inp p n))"
  using removeNode_layout [of tc p n] by (simp add: membership_leave_def Let_def)

lemma membership_leave_eligible: "pl_eligible (membership_leave inp p n) = pl_eligible p"
  using removeNode_layout [of tc p n] by (simp add: membership_leave_def Let_def)

lemma membership_leave_ok:
  assumes "members_ok p"
  shows "members_ok (membership_leave inp p n)"
proof (cases "map_option n_Incarnation (map_of (pi_Nodes inp) n) = Some (gm_get 0 (l_Members (pl_l p)) n)")
  case True
  with assms show ?thesis by (simp add: membership_leave_def)
next
  case False
  let ?q = "removeNode n p"
  have q: "planner_ok (dom (members p)) (\<lambda>part. n \<notin> set (Holders part)) ?q"
    using assms drop_phase.each_part_sound [of "dom (members p)" p n] by (simp add: members_ok_def removeNode_def)
  have lay: "l_Members (pl_l ?q) = l_Members (pl_l p)" "pl_eligible ?q = pl_eligible p"
    using removeNode_layout by auto
  show ?thesis
    using False q lay assms
    by (auto simp: membership_leave_def members_ok_def members_def planner_ok_def Let_def delete_conv')
qed

lemma membership_leave_all:
  defines "leave inp \<equiv> foldl (membership_leave inp)"
  assumes "members_ok p"
  shows "members_ok (leave inp p ns) \<and> fenced_layout tc (pl_l p) (pl_l (leave inp p ns)) \<and>
    (\<forall>k. members (leave inp p ns) k =
       (if k \<in> set ns then (case members p k of None \<Rightarrow> None | Some i \<Rightarrow> if live inp k i then Some i else None)
        else members p k))"
  using assms(2)
proof (induction ns rule: rev_induct)
  case (snoc n ns)
  then show ?case
    using membership_leave_ok [of "leave inp p ns" inp n]
      fenced_layout_trans [OF _ membership_leave_fenced, of tc "pl_l p" "leave inp p ns" inp n]
    by (auto simp: leave_def membership_leave_members split: option.splits)
qed (simp add: leave_def)

lemma membership_join_members:
  "members (membership_join inp p n) k =
     (if k = n \<and> members p n = None then map_option n_Incarnation (map_of (pi_Nodes inp) n) else members p k)"
  by (auto simp: membership_join_def members_def update_conv' split: option.splits)

lemma membership_join_ok:
  assumes "members_ok p" and "'''' \<notin> dom (map_of (pi_Nodes inp))"
  shows "members_ok (membership_join inp p n) \<and> fenced_layout tc (pl_l p) (pl_l (membership_join inp p n))"
  using assms
  by (auto simp: membership_join_def members_ok_def members_def planner_ok_def update_conv' split: option.splits)

lemma membership_join_all:
  defines "join inp \<equiv> foldl (membership_join inp)"
  assumes "members_ok p" and "'''' \<notin> dom (map_of (pi_Nodes inp))"
  shows "members_ok (join inp p ns) \<and> fenced_layout tc (pl_l p) (pl_l (join inp p ns)) \<and>
    (\<forall>k. members (join inp p ns) k =
       (if k \<in> set ns \<and> members p k = None then map_option n_Incarnation (map_of (pi_Nodes inp) k)
        else members p k))"
  using assms(2)
proof (induction ns rule: rev_induct)
  case (snoc n ns)
  then show ?case
    using membership_join_ok [of "join inp p ns" inp n] assms(3)
      fenced_layout_trans [of tc "pl_l p" "pl_l (join inp p ns)" "pl_l (membership_join inp (join inp p ns) n)"]
    by (auto simp: join_def membership_join_members)
qed (simp add: join_def)

lemma set_sortedKeys [simp]: "set (sortedKeys m) = dom (map_of m)"
  by (simp add: sortedKeys_def dom_map_of_conv_image_fst)

lemma membership_spec:
  assumes "members_ok p" and "'''' \<notin> dom (map_of (pi_Nodes inp))"
  shows "members_ok (membership inp p)" "fenced_layout tc (pl_l p) (pl_l (membership inp p))"
    "members (membership inp p) = map_option n_Incarnation \<circ> map_of (pi_Nodes inp)"
    "\<exists>q. fenced_layout tc (pl_l p) q \<and> fenced_layout tc q (pl_l (membership inp p)) \<and>
      (\<forall>part \<in> set (parts_of q). \<forall>n \<in> set (Holders part). members (membership inp p) n = members p n)"
proof -
  let ?q = "foldl (membership_leave inp) p (sortedKeys (l_Members (pl_l p)))"
  let ?r = "foldl (membership_join inp) ?q (sortedKeys (pi_Nodes inp))"
  note q = membership_leave_all [OF assms(1), of inp "sortedKeys (l_Members (pl_l p))"]
  then have "members_ok ?q" by simp
  note r = membership_join_all [OF this assms(2), of "sortedKeys (pi_Nodes inp)"]
  have m: "membership inp p = ?r" by (simp add: membership_def Let_def)
  show "members_ok (membership inp p)" "fenced_layout tc (pl_l p) (pl_l (membership inp p))"
    unfolding m using q r by (auto intro: fenced_layout_trans)
  have "members ?r n = members p n" if "part \<in> set (parts_of (pl_l ?q))" "n \<in> set (Holders part)" for part n
  proof -
    from \<open>members_ok ?q\<close> that have "n \<in> dom (members ?q)" unfolding members_ok_def planner_ok_def by blast
    then obtain i where i: "members ?q n = Some i" by blast
    with q have "members p n = Some i" by (auto split: if_splits option.splits)
    with i r show ?thesis by simp
  qed
  with q r show "\<exists>q. fenced_layout tc (pl_l p) q \<and> fenced_layout tc q (pl_l (membership inp p)) \<and>
      (\<forall>part \<in> set (parts_of q). \<forall>n \<in> set (Holders part). members (membership inp p) n = members p n)"
    unfolding m by blast
  show "members (membership inp p) = map_option n_Incarnation \<circ> map_of (pi_Nodes inp)"
  proof
    fix k
    from q have "members ?q k = (case members p k of None \<Rightarrow> None | Some i \<Rightarrow> if live inp k i then Some i else None)"
      by (cases "members p k") (auto simp: members_def dom_def)
    moreover from r have "members ?r k = (if map_of (pi_Nodes inp) k \<noteq> None \<and> members ?q k = None
        then map_option n_Incarnation (map_of (pi_Nodes inp) k) else members ?q k)"
      by (auto simp: dom_def)
    ultimately show "members (membership inp p) k = (map_option n_Incarnation \<circ> map_of (pi_Nodes inp)) k"
      unfolding m by (auto simp: live_def split: option.splits if_splits)
  qed
qed

section \<open>Load\<close>

lemma make_eligible_simps [simp]:
  "pl_l (make_eligible inp p n) = pl_l p" "pl_events (make_eligible inp p n) = pl_events p"
  "pl_eligible (make_eligible inp p n) =
     pl_eligible p @ filter (\<lambda>n. \<not> gm_get False (pi_Drained inp) n) [n]"
  "gm_get False (pl_isEligible (make_eligible inp p n)) k =
     (gm_get False (pl_isEligible p) k \<or> k = n \<and> \<not> gm_get False (pi_Drained inp) n)"
  "gm_get 0 (pl_load p) k = 0 \<Longrightarrow> gm_get 0 (pl_load (make_eligible inp p n)) k = 0"
  by (simp_all add: make_eligible_def)

lemma make_eligible_all:
  "pl_l (foldl (make_eligible inp) p ns) = pl_l p"
  "pl_events (foldl (make_eligible inp) p ns) = pl_events p"
  "pl_eligible (foldl (make_eligible inp) p ns) =
     pl_eligible p @ filter (\<lambda>n. \<not> gm_get False (pi_Drained inp) n) ns"
  "gm_get False (pl_isEligible (foldl (make_eligible inp) p ns)) k =
     (gm_get False (pl_isEligible p) k \<or> k \<in> set ns \<and> \<not> gm_get False (pi_Drained inp) k)"
  "gm_get 0 (pl_load p) k = 0 \<Longrightarrow> gm_get 0 (pl_load (foldl (make_eligible inp) p ns)) k = 0"
  by (induction ns arbitrary: p) auto

lemma count_holder_simps [simp]:
  "same_frame p (count_holder inp part p h)" "pl_events (count_holder inp part p h) = pl_events p"
  by (simp_all add: count_holder_def)

lemma foldl_count_holder:
  "same_frame p (foldl (count_holder inp part) p hs)"
  by (induction hs arbitrary: p) (auto intro: same_frame_trans [OF count_holder_simps(1)])

text \<open>A phase that leaves every partition alone leaves the layout alone.\<close>

lemma each_list_same:
  assumes "\<And>part ref p. part \<in> set ps \<Longrightarrow> fst (f ref part p) = part"
  shows "fst (each_list f g ps p) = ps"
  using assms by (induction ps arbitrary: p) (simp_all add: case_prod_beta Let_def)

lemma each_part_same:
  assumes "\<And>part ref p. part \<in> set (parts_of (pl_l p0)) \<Longrightarrow> fst (f ref part p) = part"
  shows "pl_l (each_part f p0) = pl_l p0"
proof -
  have "fst (each_list f g (l_Partitions (pl_l p0)) p) = l_Partitions (pl_l p0)" for g p
    using assms by (intro each_list_same) (simp add: parts_of_eq)
  moreover have "fst (each_list f g (r_Partitions r) p) = r_Partitions r" if "l_Resharding (pl_l p0) = Some r" for r g p
    using assms that by (intro each_list_same) (simp add: parts_of_eq)
  ultimately show ?thesis
    by (simp add: each_part_def Let_def case_prod_beta split: option.split)
qed

interpretation load_phase: planner_phase
  "\<lambda>_ part p. (part, foldl (count_holder inp part) p (Holders part))" Q Q
proof
  fix ref :: PartitionRef and part and p :: planner
  show "same_frame p (snd (part, foldl (count_holder inp part) p (Holders part)))"
    by (simp add: foldl_count_holder)
qed auto

definition eligible_nodes :: "planInput \<Rightarrow> planner \<Rightarrow> node_id list" where
  "eligible_nodes inp p = filter (\<lambda>n. \<not> gm_get False (pi_Drained inp) n) (sortedKeys (l_Members (pl_l p)))"

lemma computeLoad_spec:
  assumes "pl_eligible p = []"
  shows "pl_l (computeLoad inp p) = pl_l p" "pl_eligible (computeLoad inp p) = eligible_nodes inp p"
    "gm_get False (pl_isEligible (computeLoad inp p)) n \<longleftrightarrow> n \<in> set (eligible_nodes inp p)"
proof -
  let ?p0 = "p\<lparr>pl_isEligible := [], pl_load := []\<rparr>"
  let ?q = "foldl (make_eligible inp) ?p0 (sortedKeys (l_Members (pl_l p)))"
  have q: "pl_l ?q = pl_l p" "pl_eligible ?q = eligible_nodes inp p"
    "gm_get False (pl_isEligible ?q) n \<longleftrightarrow> n \<in> set (eligible_nodes inp p)"
    using assms by (auto simp: make_eligible_all eligible_nodes_def gm_get_def [of False "[]"])
  have c: "computeLoad inp p = each_part (\<lambda>_ part p. (part, foldl (count_holder inp part) p (Holders part))) ?q"
    by (simp add: computeLoad_def Let_def)
  show "pl_l (computeLoad inp p) = pl_l p"
    unfolding c by (subst each_part_same) (simp_all add: q)
  show "pl_eligible (computeLoad inp p) = eligible_nodes inp p"
    "gm_get False (pl_isEligible (computeLoad inp p)) n \<longleftrightarrow> n \<in> set (eligible_nodes inp p)"
    unfolding c using load_phase.each_part_frame [of inp ?q] q by simp_all
qed

section \<open>Starting a resharding\<close>

lemma fill_joining_spec:
  assumes "part_ok part" and "'''' \<notin> set (pl_eligible p)" and "fill_joining copies part p = (part', p')"
  shows "part_ok part' \<and> same_lead part part' \<and> same_frame p p' \<and> p_Followers part' = p_Followers part \<and>
    (\<exists>ns. p_Joining part' = p_Joining part @ ns \<and> set ns \<subseteq> set (pl_eligible p)) \<and>
    (int (length (p_Joining part')) + 1 \<ge> copies \<or> (\<forall>n \<in> set (pl_eligible p). Has part' n)) \<and>
    (int (length (p_Joining part')) + 1 \<le> max copies (int (length (p_Joining part)) + 1))"
  using assms
proof (induction copies part p rule: fill_joining.induct)
  case (1 copies part p)
  let ?n = "leastLoaded part p"
  let ?part = "part\<lparr>p_Joining := p_Joining part @ [?n]\<rparr>"
  note ll = leastLoaded_spec [OF "1.prems"(2), of part]
  show ?case
  proof (cases "int (length (p_Joining part)) + 1 < copies \<and> ?n \<noteq> ''''")
    case True
    with "1.prems" have rec: "fill_joining copies ?part (add_load ?n 1 p) = (part', p')"
      by (simp add: fill_joining.simps [of copies part p] Let_def)
    from True ll have n: "?n \<in> set (pl_eligible p)" "\<not> Has part ?n" by auto
    with "1.prems" True have ok: "part_ok ?part" by (auto simp: part_ok_alt Has_def)
    have sl: "same_lead part ?part" by (simp add: same_lead_def)
    note IH = "1.IH" [OF _ refl _ ok _ rec]
    from IH True "1.prems" n sl show ?thesis by (auto intro: same_lead_trans)
  next
    case False
    with "1.prems"(3) have "part' = part" "p' = p"
      by (auto simp: fill_joining.simps [of copies part p] Let_def split: if_splits)
    with False ll "1.prems" show ?thesis by auto
  qed
qed

lemma pick_leader_in:
  "foldl (pick_leader leaders load) '''' ns \<in> set ns \<union> {''''} \<and>
   (ns \<noteq> [] \<and> '''' \<notin> set ns \<longrightarrow> foldl (pick_leader leaders load) '''' ns \<noteq> '''')"
  by (induction ns rule: rev_induct) (auto simp: pick_leader_def)

text \<open>A partition of the next generation: a leader and joining replicas, all eligible nodes.\<close>

definition new_ok :: "planner \<Rightarrow> int \<Rightarrow> Partition \<Rightarrow> bool" where
  "new_ok p copies part \<longleftrightarrow> part_ok part \<and> handoff_ok part \<and> set (Holders part) \<subseteq> set (pl_eligible p) \<and>
     p_Leader part \<noteq> '''' \<and> p_Epoch part = 1 \<and> p_Followers part = [] \<and> p_Evict part = [] \<and>
     (int (length (Holders part)) \<ge> copies \<or> (\<forall>n \<in> set (pl_eligible p). Has part n)) \<and>
     int (length (Holders part)) \<le> max copies 1"

lemma reshard_partition_step:
  assumes "pl_eligible p \<noteq> []" and "'''' \<notin> set (pl_eligible p)"
    and "reshard_partition copies (parts, leaders, p) i = (parts', leaders', p')"
  shows "same_frame p p' \<and> (\<exists>part. parts' = parts @ [part] \<and> p_ID part = int i \<and> new_ok p copies part)"
proof -
  let ?leader = "foldl (pick_leader leaders (pl_load p)) '''' (pl_eligible p)"
  let ?new = "(new_Partition (int i) 1)\<lparr>p_Leader := ?leader\<rparr>"
  obtain part q where f: "fill_joining copies ?new (add_load ?leader 1 p) = (part, q)" by fastforce
  have l: "?leader \<in> set (pl_eligible p)" "?leader \<noteq> ''''"
    using pick_leader_in [of leaders "pl_load p" "pl_eligible p"] assms by auto
  have "part_ok ?new" using l by (auto simp: part_ok_alt new_Partition_def)
  from fill_joining_spec [OF this _ f] assms(2) l have "same_frame p q \<and> new_ok p copies part \<and> p_ID part = int i"
    by (auto simp: new_ok_def new_Partition_def same_lead_def handoff_ok_def Holders_def)
  with f assms(3) show ?thesis by (auto simp: reshard_partition_def Let_def)
qed

lemma reshard_partitions:
  assumes "pl_eligible p \<noteq> []" and "'''' \<notin> set (pl_eligible p)"
    and "foldl (reshard_partition copies) ([], [], p) [0..<n] = (parts, leaders, p')"
  shows "same_frame p p' \<and> map p_ID parts = map int [0..<n] \<and> (\<forall>part \<in> set parts. new_ok p copies part)"
  using assms(3)
proof (induction n arbitrary: parts leaders p')
  case (Suc n)
  obtain ps ls q where q: "foldl (reshard_partition copies) ([], [], p) [0..<n] = (ps, ls, q)"
    by (metis prod_cases3)
  note IH = Suc.IH [OF q]
  then have e: "pl_eligible q = pl_eligible p" by (simp add: same_frame_def)
  from Suc.prems q have "reshard_partition copies (ps, ls, q) n = (parts, leaders, p')" by simp
  from reshard_partition_step [OF _ _ this] e assms(1,2)
  obtain part where "same_frame q p'" "parts = ps @ [part]" "p_ID part = int n" "new_ok q copies part"
    by auto
  with IH e show ?case by (auto simp: new_ok_def intro: same_frame_trans)
qed simp

lemma startResharding_spec:
  assumes "planner_ok M handoff_ok p"
  shows "planner_ok M handoff_ok (startResharding inp p)" "fenced_layout (cfg_PartitionCount (pi_Config inp)) (pl_l p) (pl_l (startResharding inp p))"
    "pl_eligible (startResharding inp p) = pl_eligible p" "l_Members (pl_l (startResharding inp p)) = l_Members (pl_l p)"
proof -
  let ?q = "startResharding inp p" and ?n = "nat (cfg_PartitionCount (pi_Config inp))"
  have "planner_ok M handoff_ok ?q \<and> fenced_layout (cfg_PartitionCount (pi_Config inp)) (pl_l p) (pl_l ?q) \<and> pl_eligible ?q = pl_eligible p \<and>
    l_Members (pl_l ?q) = l_Members (pl_l p)"
  proof (cases "?q = p")
    case True
    with assms show ?thesis by simp
  next
    case False
    then have g: "l_Resharding (pl_l p) = None" "0 < cfg_PartitionCount (pi_Config inp)" "pl_eligible p \<noteq> []"
      by (auto simp: startResharding_def Let_def split: if_splits)
    have e: "'''' \<notin> set (pl_eligible p)" using assms by (auto simp: planner_ok_def)
    obtain parts ls p' where f: "foldl (reshard_partition (desiredCopies inp p)) ([], [], p) [0..<?n] = (parts, ls, p')"
      by (metis prod_cases3)
    from reshard_partitions [OF g(3) e f] have p': "same_frame p p'" "map p_ID parts = map int [0..<?n]"
      "\<forall>part \<in> set parts. new_ok p (desiredCopies inp p) part" by auto
    have q: "pl_l ?q = (pl_l p)\<lparr>l_Resharding := Some \<lparr>r_Generation = l_Generation (pl_l p) + 1,
        r_PartitionCount = cfg_PartitionCount (pi_Config inp), r_Partitions = parts,
        r_Status = replicate ?n MigrationPending\<rparr>\<rparr>" "pl_eligible ?q = pl_eligible p"
      using False f p' by (auto simp: startResharding_def Let_def same_frame_def split: if_splits)
    have "fenced_layout (cfg_PartitionCount (pi_Config inp)) (pl_l p) (pl_l ?q)"
      using g p' by (simp add: q fenced_layout_def fresh_resharding_def new_ok_def)
    moreover have "\<forall>part \<in> set parts. part_ok part \<and> set (Holders part) \<subseteq> M \<and> handoff_ok part"
      using p'(3) assms unfolding new_ok_def planner_ok_def by (meson order_trans)
    then have "planner_ok M handoff_ok ?q"
      using assms g by (simp add: planner_ok_def q parts_of_eq ball_Un)
    ultimately show ?thesis using q by simp
  qed
  then show "planner_ok M handoff_ok ?q" "fenced_layout (cfg_PartitionCount (pi_Config inp)) (pl_l p) (pl_l ?q)" "pl_eligible ?q = pl_eligible p"
    "l_Members (pl_l ?q) = l_Members (pl_l p)" by auto
qed

section \<open>Balancing\<close>

text \<open>A list of partitions in which every one is sound and fenced against its old value.\<close>

definition parts_ok :: "node_id set \<Rightarrow> Partition list \<Rightarrow> bool" where
  "parts_ok M ps \<longleftrightarrow> list_all (\<lambda>part. part_ok part \<and> set (Holders part) \<subseteq> M \<and> handoff_ok part) ps"

lemma parts_ok_simps [simp]:
  "parts_ok M []"
  "parts_ok M (part # ps) \<longleftrightarrow> (part_ok part \<and> set (Holders part) \<subseteq> M \<and> handoff_ok part) \<and> parts_ok M ps"
  "parts_ok M (ps @ qs) \<longleftrightarrow> parts_ok M ps \<and> parts_ok M qs"
  by (simp_all add: parts_ok_def)

lemma planner_ok_parts:
  "planner_ok M handoff_ok p \<longleftrightarrow> parts_ok M (parts_of (pl_l p)) \<and> set (pl_eligible p) \<subseteq> M \<and> '''' \<notin> M"
  by (simp add: planner_ok_def parts_ok_def list_all_iff)

definition parts_step :: "node_id set \<Rightarrow> Partition list \<Rightarrow> Partition list \<Rightarrow> bool" where
  "parts_step M ps qs \<longleftrightarrow> list_all2 fenced ps qs \<and>
     (parts_ok M ps \<longrightarrow> parts_ok M qs)"

lemma parts_step_Cons: "parts_step M ps qs \<Longrightarrow> parts_step M (part # ps) (part # qs)"
  by (simp add: parts_step_def)

lemma parts_step_layout:
  assumes "planner_ok M handoff_ok p" and "parts_step M (l_Partitions (pl_l p)) ps"
    and "pl_l q = (pl_l p)\<lparr>l_Partitions := ps\<rparr>" and "pl_eligible q = pl_eligible p"
  shows "planner_ok M handoff_ok q \<and> fenced_layout tc (pl_l p) (pl_l q) \<and> l_Members (pl_l q) = l_Members (pl_l p)"
  using assms
  by (auto simp: planner_ok_parts parts_step_def parts_of_eq fenced_layout_def fenced_resharding_def split: option.splits)

lemma move_first_spec:
  assumes "move_first pass from to ps = Some (qs, i)" and "to \<noteq> ''''" and "to \<in> M"
  shows "parts_step M ps qs"
  using assms(1)
proof (induction ps arbitrary: qs)
  case (Cons part ps)
  let ?part = "part\<lparr>p_Joining := p_Joining part @ [to], p_Evict := p_Evict part @ [from]\<rparr>"
  show ?case
  proof (cases "may_move pass from to part")
    case True
    have "fenced part ?part" by (simp add: fenced_def)
    moreover have "part_ok part \<and> set (Holders part) \<subseteq> M \<and> handoff_ok part \<longrightarrow>
        part_ok ?part \<and> set (Holders ?part) \<subseteq> M \<and> handoff_ok ?part"
      using True assms(2,3) by (auto simp: part_ok_alt may_move_def Has_def handoff_ok_def set_Holders)
    moreover from Cons.prems True have qs: "qs = ?part # ps" by simp
    ultimately show ?thesis unfolding qs by (simp add: parts_step_def)
  next
    case False
    with Cons.prems obtain rs where "qs = part # rs" "move_first pass from to ps = Some (rs, i)"
      by (auto simp: apfst_def)
    with Cons.IH show ?thesis by (simp add: parts_step_Cons)
  qed
qed simp

lemma moveReplica_spec:
  assumes "moveReplica from to p = Some q" and "planner_ok M handoff_ok p" and "to \<in> set (pl_eligible p)"
  shows "planner_ok M handoff_ok q \<and> fenced_layout tc (pl_l p) (pl_l q) \<and> pl_eligible q = pl_eligible p \<and>
    l_Members (pl_l q) = l_Members (pl_l p)"
proof -
  from assms(2,3) have to: "to \<noteq> ''''" "to \<in> M" by (auto simp: planner_ok_def)
  from assms(1) obtain pass ps i where m: "move_first pass from to (l_Partitions (pl_l p)) = Some (ps, i)"
    and q: "pl_l q = (pl_l p)\<lparr>l_Partitions := ps\<rparr>" "pl_eligible q = pl_eligible p"
    by (auto simp: moveReplica_def Let_def split: option.splits)
  from parts_step_layout [OF assms(2) move_first_spec [OF m to] q] q(2) show ?thesis by simp
qed

lemma hi_lo_in:
  assumes "hi_lo load ns = (hi, lo)" and "ns \<noteq> []"
  shows "hi \<in> set ns" "lo \<in> set ns"
    "\<forall>n \<in> set ns. gm_get 0 load lo \<le> gm_get 0 load n \<and> gm_get 0 load n \<le> gm_get 0 load hi"
proof -
  let ?f = "\<lambda>(hi, lo) n. (if gm_get 0 load n > gm_get 0 load hi then n else hi,
    if gm_get 0 load n < gm_get 0 load lo then n else lo)"
  have "case foldl ?f (h, h) xs of (hi, lo) \<Rightarrow> hi \<in> insert h (set xs) \<and> lo \<in> insert h (set xs) \<and>
    (\<forall>n \<in> insert h (set xs). gm_get 0 load lo \<le> gm_get 0 load n \<and> gm_get 0 load n \<le> gm_get 0 load hi)" for h xs
    by (induction xs rule: rev_induct) (auto split: prod.splits)
  from this [of "hd ns" ns] assms show "hi \<in> set ns" "lo \<in> set ns"
    "\<forall>n \<in> set ns. gm_get 0 load lo \<le> gm_get 0 load n \<and> gm_get 0 load n \<le> gm_get 0 load hi"
    by (auto simp: hi_lo_def insert_absorb)
qed

lemma balance_moves_spec:
  assumes "planner_ok M handoff_ok p" and "pl_eligible p \<noteq> []"
  shows "planner_ok M handoff_ok (balance_moves k p) \<and> fenced_layout tc (pl_l p) (pl_l (balance_moves k p)) \<and>
    pl_eligible (balance_moves k p) = pl_eligible p \<and> l_Members (pl_l (balance_moves k p)) = l_Members (pl_l p)"
  using assms
proof (induction k arbitrary: p)
  case (Suc k)
  obtain hi lo where hl: "hi_lo (pl_load p) (pl_eligible p) = (hi, lo)" by fastforce
  show ?case
  proof (cases "moveReplica hi lo p")
    case (Some q)
    from moveReplica_spec [OF Some Suc.prems(1)] hi_lo_in [OF hl] Suc.prems
    have "planner_ok M handoff_ok q \<and> fenced_layout tc (pl_l p) (pl_l q) \<and> pl_eligible q = pl_eligible p \<and>
      l_Members (pl_l q) = l_Members (pl_l p)" by simp
    with Suc.IH [of q] Suc.prems Some hl show ?thesis by (auto intro: fenced_layout_trans)
  qed (use Suc.prems hl in auto)
qed simp

lemma balanceReplicas_spec:
  assumes "planner_ok M handoff_ok p"
  shows "planner_ok M handoff_ok (balanceReplicas p) \<and> fenced_layout tc (pl_l p) (pl_l (balanceReplicas p)) \<and>
    pl_eligible (balanceReplicas p) = pl_eligible p \<and> l_Members (pl_l (balanceReplicas p)) = l_Members (pl_l p)"
  using balance_moves_spec [OF assms, of maxMovesPerRound] assms
  by (cases "pl_eligible p") (auto simp: balanceReplicas_def)

lemma pick_follower_in:
  "pick_follower inp leaders ref part current ls fs = Some (f, count) \<Longrightarrow> f \<in> set fs"
  by (induction fs) (auto simp: case_prod_beta Let_def split: if_splits option.splits)

lemma count_leaders_dom:
  "count_leaders leaders ps = Some leaders' \<Longrightarrow> dom (map_of leaders') = dom (map_of leaders)"
  by (induction leaders ps rule: count_leaders.induct)
    (auto simp: gm_add_def update_conv' split: if_splits)

lemma balance_first_spec:
  assumes "'''' \<notin> dom (map_of leaders)" and "balance_first inp leaders g ps p = (qs, q)"
  shows "parts_step M ps qs \<and> same_frame p q"
  using assms(2)
proof (induction ps arbitrary: qs)
  case Nil
  then show ?case by (simp add: parts_step_def)
next
  case (Cons part ps)
  let ?ref = "PartitionRef g (p_ID part)"
  show ?case
  proof (cases "leader_move inp leaders ?ref part")
    case None
    with Cons.prems obtain rs where "qs = part # rs" "balance_first inp leaders g ps p = (rs, q)"
      by (cases "balance_first inp leaders g ps p") auto
    with Cons.IH [of rs] show ?thesis by (simp add: parts_step_Cons)
  next
    case (Some m)
    obtain f current count where m: "m = (f, current, count)" by (cases m)
    with Some assms(1) have f: "f \<in> set (p_Followers part)" "p_Leader part \<noteq> ''''"
      by (auto simp: leader_move_def case_prod_beta Let_def dest!: pick_follower_in split: option.splits if_splits)
    let ?s = "startHandoff inp ?ref part f (BalancingLeaders (p_Leader part) current f count) p"
    from Cons.prems Some m have "qs = fst ?s # ps" "q = snd ?s"
      by (auto simp: Let_def apfst_def map_prod_def case_prod_beta)
    with f show ?thesis
      using startHandoff_sound [of part f inp ?ref "BalancingLeaders (p_Leader part) current f count" p]
      by (simp add: parts_step_def fenced_def)
  qed
qed

lemma balanceLeaders_spec:
  assumes "planner_ok M handoff_ok p"
  shows "planner_ok M handoff_ok (balanceLeaders inp p) \<and> fenced_layout tc (pl_l p) (pl_l (balanceLeaders inp p)) \<and>
    pl_eligible (balanceLeaders inp p) = pl_eligible p \<and> l_Members (pl_l (balanceLeaders inp p)) = l_Members (pl_l p)"
proof (cases "count_leaders (map (\<lambda>n. (n, 0)) (pl_eligible p)) (l_Partitions (pl_l p))")
  case None
  with assms show ?thesis by (simp add: balanceLeaders_def)
next
  case (Some leaders)
  obtain ps q where b: "balance_first inp leaders (l_Generation (pl_l p)) (l_Partitions (pl_l p)) p = (ps, q)" by fastforce
  have "dom (map_of leaders) = set (pl_eligible p)"
    using count_leaders_dom [OF Some] by (simp add: dom_map_of_conv_image_fst image_image)
  with assms have "'''' \<notin> dom (map_of leaders)"
    unfolding planner_ok_def by blast
  note bf = balance_first_spec [OF this b, of M]
  have eq: "balanceLeaders inp p = q\<lparr>pl_l := (pl_l p)\<lparr>l_Partitions := ps\<rparr>\<rparr>"
    using Some b by (simp add: balanceLeaders_def)
  from bf have "pl_eligible (balanceLeaders inp p) = pl_eligible p" by (simp add: eq same_frame_def)
  with parts_step_layout [OF assms bf [THEN conjunct1], of "balanceLeaders inp p"] eq show ?thesis by simp
qed

section \<open>The round\<close>

definition cluster_ok :: "Layout \<Rightarrow> bool" where
  "cluster_ok l \<longleftrightarrow>
     (\<forall>part \<in> set (parts_of l). part_ok part \<and> set (Holders part) \<subseteq> dom (map_of (l_Members l))) \<and>
     gm_ok (l_Members l) \<and> '''' \<notin> dom (map_of (l_Members l))"

definition start_planner :: "Layout \<Rightarrow> planner" where
  "start_planner l = \<lparr>pl_l = l, pl_eligible = [], pl_isEligible = [], pl_load = [], pl_events = []\<rparr>"

text \<open>The planner after \<open>bootstrap\<close>, \<open>membership\<close> and \<open>computeLoad\<close>, and after the five phases.\<close>

definition plan_members :: "planInput \<Rightarrow> Layout \<Rightarrow> planner" where
  "plan_members inp l = membership inp (bootstrap inp (start_planner l))"

definition plan_phases :: "planInput \<Rightarrow> planner \<Rightarrow> planner" where
  "plan_phases inp p = each_part (fixReplicaCount inp) (each_part (handoffEvictedLeader inp)
     (each_part (progressHandoff inp) (each_part (promoteJoiners inp) (each_part (failover inp) p))))"

definition plan_balance :: "planInput \<Rightarrow> planner \<Rightarrow> planner" where
  "plan_balance inp p = (if pi_AutoBalance inp \<and> l_Resharding (pl_l p) = None
     then balanceLeaders inp (balanceReplicas p) else p)"

lemma plan_eq:
  "plan l inp = (let p = plan_balance inp (startResharding inp (plan_phases inp (computeLoad inp (plan_members inp l))))
     in (pl_l p, pl_events p))"
  by (simp add: plan_def plan_members_def plan_phases_def plan_balance_def start_planner_def Let_def)

lemma bootstrap_initialised:
  "l_PartitionCount l \<noteq> 0 \<Longrightarrow> l_Generation l \<noteq> 0 \<Longrightarrow> bootstrap inp (start_planner l) = start_planner l"
  by (simp add: bootstrap_def start_planner_def Let_def)

lemma bootstrap_ok:
  assumes "cluster_ok l"
  shows "members_ok (bootstrap inp (start_planner l))"
proof -
  have "part_ok (new_Partition i 0) \<and> Holders (new_Partition i 0) = []" for i
    by (simp add: part_ok_alt new_Partition_def Holders_def)
  with assms show ?thesis
    by (auto simp: bootstrap_def start_planner_def cluster_ok_def members_ok_def members_def planner_ok_def
        parts_of_eq Let_def)
qed

lemma plan_members_spec:
  assumes "cluster_ok l" and "'''' \<notin> dom (map_of (pi_Nodes inp))"
  shows "members_ok (plan_members inp l)"
    "members (plan_members inp l) = map_option n_Incarnation \<circ> map_of (pi_Nodes inp)"
    "fenced_layout tc (pl_l (bootstrap inp (start_planner l))) (pl_l (plan_members inp l))"
    "\<exists>q. fenced_layout tc (pl_l (bootstrap inp (start_planner l))) q \<and> fenced_layout tc q (pl_l (plan_members inp l)) \<and>
      (\<forall>part \<in> set (parts_of q). \<forall>n \<in> set (Holders part). members (plan_members inp l) n = map_of (l_Members l) n)"
proof -
  have "members (bootstrap inp (start_planner l)) = map_of (l_Members l)"
    by (auto simp: members_def bootstrap_def start_planner_def Let_def)
  then show "\<exists>q. fenced_layout tc (pl_l (bootstrap inp (start_planner l))) q \<and> fenced_layout tc q (pl_l (plan_members inp l)) \<and>
      (\<forall>part \<in> set (parts_of q). \<forall>n \<in> set (Holders part). members (plan_members inp l) n = map_of (l_Members l) n)"
    using membership_spec(4) [OF bootstrap_ok [OF assms(1), of inp] assms(2), of tc] by (simp add: plan_members_def)
qed (use membership_spec(1-3) [OF bootstrap_ok [OF assms(1)] assms(2)] in \<open>simp_all add: plan_members_def\<close>)

lemma plan_phases_spec:
  assumes "planner_ok M (\<lambda>_. True) p"
  shows "planner_ok M handoff_ok (plan_phases inp p)" "fenced_layout tc (pl_l p) (pl_l (plan_phases inp p))"
    "pl_eligible (plan_phases inp p) = pl_eligible p" "l_Members (pl_l (plan_phases inp p)) = l_Members (pl_l p)"
proof -
  show "planner_ok M handoff_ok (plan_phases inp p)"
    unfolding plan_phases_def
    by (intro count_phase.each_part_sound evict_phase.each_part_sound handoff_phase.each_part_sound
        joiners_phase.each_part_sound failover_phase.each_part_sound assms)
  show "fenced_layout tc (pl_l p) (pl_l (plan_phases inp p))"
    unfolding plan_phases_def
    by (meson fenced_layout_trans count_phase.each_part_fenced evict_phase.each_part_fenced
        handoff_phase.each_part_fenced joiners_phase.each_part_fenced failover_phase.each_part_fenced)
  show "pl_eligible (plan_phases inp p) = pl_eligible p"
    by (simp add: plan_phases_def count_phase.each_part_frame evict_phase.each_part_frame
        handoff_phase.each_part_frame joiners_phase.each_part_frame failover_phase.each_part_frame)
  show "l_Members (pl_l (plan_phases inp p)) = l_Members (pl_l p)"
    by (simp add: plan_phases_def count_phase.each_part_layout [THEN arg_cong [of _ _ l_Members]]
        evict_phase.each_part_layout [THEN arg_cong [of _ _ l_Members]]
        handoff_phase.each_part_layout [THEN arg_cong [of _ _ l_Members]]
        joiners_phase.each_part_layout [THEN arg_cong [of _ _ l_Members]]
        failover_phase.each_part_layout [THEN arg_cong [of _ _ l_Members]])
qed

lemma plan_balance_spec:
  assumes "planner_ok M handoff_ok p"
  shows "planner_ok M handoff_ok (plan_balance inp p) \<and> fenced_layout tc (pl_l p) (pl_l (plan_balance inp p)) \<and>
    l_Members (pl_l (plan_balance inp p)) = l_Members (pl_l p)"
  using balanceReplicas_spec [OF assms, of tc] balanceLeaders_spec [of M "balanceReplicas p" inp tc] assms
  by (auto simp: plan_balance_def intro: fenced_layout_trans)

lemma plan_spec:
  assumes "cluster_ok l" and "'''' \<notin> dom (map_of (pi_Nodes inp))" and "plan l inp = (l', ev)"
  shows "(\<forall>part \<in> set (parts_of l'). part_ok part \<and> handoff_ok part \<and> set (Holders part) \<subseteq> dom (map_of (pi_Nodes inp)))"
    "map_of (l_Members l') = map_option n_Incarnation \<circ> map_of (pi_Nodes inp)" "gm_ok (l_Members l')"
    "l_PartitionCount l \<noteq> 0 \<Longrightarrow> l_Generation l \<noteq> 0 \<Longrightarrow>
      fenced_layout (cfg_PartitionCount (pi_Config inp)) l l'"
    "fenced_layout (cfg_PartitionCount (pi_Config inp)) (pl_l (bootstrap inp (start_planner l))) l'"
    "\<exists>q. fenced_layout (cfg_PartitionCount (pi_Config inp)) (pl_l (bootstrap inp (start_planner l))) q \<and>
      fenced_layout (cfg_PartitionCount (pi_Config inp)) q l' \<and>
      (\<forall>part \<in> set (parts_of q). \<forall>n \<in> set (Holders part). map_of (l_Members l') n = map_of (l_Members l) n)"
proof -
  let ?tc = "cfg_PartitionCount (pi_Config inp)" and ?M = "dom (map_of (pi_Nodes inp))"
  define m where "m = plan_members inp l"
  define p where "p = computeLoad inp m"
  define q where "q = plan_phases inp p"
  define r where "r = startResharding inp q"
  define s where "s = plan_balance inp r"
  have l': "l' = pl_l s" using assms(3) by (simp add: plan_eq m_def p_def q_def r_def s_def Let_def)
  note m = plan_members_spec [OF assms(1,2), folded m_def]
  then have me: "pl_eligible m = []" and md: "dom (members m) = ?M" by (auto simp: members_ok_def dom_def)
  note c = computeLoad_spec [OF me, of inp, folded p_def]
  have "set (eligible_nodes inp m) \<subseteq> ?M"
    using md by (auto simp: eligible_nodes_def members_def)
  with m(1) md c have p: "planner_ok ?M (\<lambda>_. True) p"
    by (simp add: members_ok_def planner_ok_def)
  note q = plan_phases_spec [OF p, where inp = inp, folded q_def]
  note r = startResharding_spec [OF q(1), of inp, folded r_def]
  note s = plan_balance_spec [OF r(1), of inp ?tc, folded s_def]
  show "\<forall>part \<in> set (parts_of l'). part_ok part \<and> handoff_ok part \<and> set (Holders part) \<subseteq> ?M"
    using s by (auto simp: l' planner_ok_def)
  have mem: "l_Members l' = l_Members (pl_l m)" using q r s c by (simp add: l')
  then show "map_of (l_Members l') = map_option n_Incarnation \<circ> map_of (pi_Nodes inp)" "gm_ok (l_Members l')"
    using m by (simp_all add: members_def members_ok_def)
  have rest: "fenced_layout ?tc (pl_l m) l'"
    using c(1) q(2) [of ?tc] r(2) s unfolding l' by (metis fenced_layout_trans)
  with m(4) [of ?tc] mem show "\<exists>q. fenced_layout ?tc (pl_l (bootstrap inp (start_planner l))) q \<and> fenced_layout ?tc q l' \<and>
      (\<forall>part \<in> set (parts_of q). \<forall>n \<in> set (Holders part). map_of (l_Members l') n = map_of (l_Members l) n)"
    by (auto simp: members_def intro: fenced_layout_trans)
  from m(3) [of ?tc] rest
  show boot: "fenced_layout ?tc (pl_l (bootstrap inp (start_planner l))) l'" by (rule fenced_layout_trans)
  assume "l_PartitionCount l \<noteq> 0" "l_Generation l \<noteq> 0"
  with boot show "fenced_layout ?tc l l'"
    by (simp add: bootstrap_initialised) (simp add: start_planner_def)
qed

end
