(* ===== verification/PlanSafety.thy ===== *)
theory PlanSafety
  imports PlanRound
begin

text \<open>
  The guarantees of a planning round (well-formed clusters, fenced leaders, stable ownership),
  of its phases on every branch, and that a converged cluster is a fixed point; with concrete
  rounds as instances.
\<close>

section \<open>Properties\<close>

lemma fenced_layout_ok:
  assumes "fenced_layout tc l l'" and "layout_ok l" and "tc < 2 ^ 32"
  shows "layout_ok l'"
proof -
  have table: "table_ok n qs" if "table_ok n ps" "list_all2 fenced ps qs" for n ps qs
    using that fenced_map_ID [of ps qs] list_all2_lengthD [of fenced ps qs]
    by (auto simp: table_ok_def dest: map_eq_imp_length_eq) (metis nth_map)
  have fresh: "table_ok (r_PartitionCount r) (r_Partitions r) \<and> int (length (r_Status r)) = r_PartitionCount r"
    if "fresh_resharding tc g r" for g r
  proof -
    from that have len: "length (r_Partitions r) = nat (r_PartitionCount r)"
      by (metis fresh_resharding_def length_map length_upt minus_nat.diff_0)
    have "p_ID (r_Partitions r ! i) = int i" if i: "i < length (r_Partitions r)" for i
    proof -
      from \<open>fresh_resharding tc g r\<close> have "map p_ID (r_Partitions r) ! i = map int [0..<nat (r_PartitionCount r)] ! i"
        by (simp add: fresh_resharding_def)
      with i len show ?thesis by simp
    qed
    with that len assms(3) show ?thesis by (auto simp: table_ok_def fresh_resharding_def)
  qed
  show ?thesis
    using assms(1,2) table fresh
    by (cases "l_Resharding l"; cases "l_Resharding l'")
      (auto simp: fenced_layout_def layout_ok_def fenced_resharding_def, auto simp: fresh_resharding_def)
qed

text \<open>The owner of a key depends on generations, counts and migration states only.\<close>

lemma fenced_layout_route:
  assumes "fenced_layout tc l l'" and "layout_ok l" and "layout_ok l'"
  shows "map_option fst (Route (Some l') k) = map_option fst (Route (Some l) k)"
proof -
  have cur: "map_option fst (route_current l' (Sum k)) = map_option fst (route_current l (Sum k))"
    using assms(1) by (simp add: fenced_layout_def route_current_def split: option.split)
  show ?thesis
  proof (cases "l_Resharding l")
    case (Some r)
    with assms(1) obtain r' where r': "l_Resharding l' = Some r'" "fenced_resharding r r'"
      by (auto simp: fenced_layout_def)
    obtain i where i: "mod_u32 (Sum k) (r_PartitionCount r) = Some i" "Route (Some l) k =
      (if r_Status r ! nat i = MigrationDone then Some (PartitionRef (r_Generation r) i, Some (r_Partitions r ! nat i))
       else route_current l (Sum k))"
      by (rule Route_resharding [OF assms(2) Some, of k]) blast
    obtain j where j: "mod_u32 (Sum k) (r_PartitionCount r') = Some j" "Route (Some l') k =
      (if r_Status r' ! nat j = MigrationDone then Some (PartitionRef (r_Generation r') j, Some (r_Partitions r' ! nat j))
       else route_current l' (Sum k))"
      by (rule Route_resharding [OF assms(3) r'(1), of k]) blast
    from i j r'(2) cur show ?thesis by (auto simp: fenced_resharding_def)
  next
    case None
    note l = Route_stable [OF assms(2) None, of k]
    show ?thesis
    proof (cases "l_Resharding l'")
      case None
      with l cur Route_stable [OF assms(3) None, of k] show ?thesis by simp
    next
      case (Some r')
      with assms(1) None have fr: "fresh_resharding tc (l_Generation l) r'" by (simp add: fenced_layout_def)
      obtain j where j: "mod_u32 (Sum k) (r_PartitionCount r') = Some j" "0 \<le> j" "j < int (length (r_Partitions r'))"
        "Route (Some l') k =
        (if r_Status r' ! nat j = MigrationDone then Some (PartitionRef (r_Generation r') j, Some (r_Partitions r' ! nat j))
         else route_current l' (Sum k))"
        by (rule Route_resharding [OF assms(3) Some, of k])
      from assms(3) Some have "nat j < nat (r_PartitionCount r')"
        using j by (auto simp: layout_ok_def table_ok_def)
      with fr have "r_Status r' ! nat j = MigrationPending" by (simp add: fresh_resharding_def)
      with j l cur show ?thesis by simp
    qed
  qed
qed

lemma fenced_layout_Find:
  assumes "fenced_layout tc l l'" and "Find (Some l) ref = Some a"
  shows "\<exists>b. Find (Some l') ref = Some b \<and> fenced a b"
proof (cases "ref_Generation ref = l_Generation l \<and> 0 \<le> ref_ID ref \<and> ref_ID ref < int (length (l_Partitions l))")
  case True
  from assms(1) have "list_all2 fenced (l_Partitions l) (l_Partitions l')" "l_Generation l' = l_Generation l"
    by (simp_all add: fenced_layout_def)
  moreover from True assms(2) have "a = l_Partitions l ! nat (ref_ID ref)" by (simp add: Find_def)
  moreover from True have "nat (ref_ID ref) < length (l_Partitions l)" by linarith
  ultimately show ?thesis
    using True by (simp add: Find_def list_all2_conv_all_nth)
next
  case False
  with assms(2) obtain r where r: "l_Resharding l = Some r" "ref_Generation ref = r_Generation r"
    "0 \<le> ref_ID ref" "ref_ID ref < int (length (r_Partitions r))" "a = r_Partitions r ! nat (ref_ID ref)"
    by (auto simp: Find_def split: option.splits if_splits)
  with assms(1) obtain r' where r': "l_Resharding l' = Some r'" "fenced_resharding r r'"
    by (auto simp: fenced_layout_def)
  from assms(1) have "list_all2 fenced (l_Partitions l) (l_Partitions l')" "l_Generation l' = l_Generation l"
    by (simp_all add: fenced_layout_def)
  then have "\<not> (ref_Generation ref = l_Generation l' \<and> 0 \<le> ref_ID ref \<and> ref_ID ref < int (length (l_Partitions l')))"
    using False by (simp add: list_all2_lengthD)
  moreover from r have "nat (ref_ID ref) < length (r_Partitions r)" by linarith
  ultimately show ?thesis
    using r r' by (auto simp: Find_def fenced_resharding_def list_all2_conv_all_nth)
qed

lemma plan_invariant_facts:
  assumes "cluster_ok l" and "'''' \<notin> dom (map_of (pi_Nodes inp))"
  shows "cluster_ok (fst (plan l inp))"
    and "\<forall>part \<in> set (parts_of (fst (plan l inp))). handoff_ok part"
    and "map_of (l_Members (fst (plan l inp))) = map_option n_Incarnation \<circ> map_of (pi_Nodes inp)"
proof -
  obtain l' ev where eq: "plan l inp = (l', ev)" by fastforce
  note spec = plan_spec [OF assms eq]
  have "dom (map_of (l_Members l')) = dom (map_of (pi_Nodes inp))" using spec(2) by (auto simp: dom_def)
  with spec assms(2) show "cluster_ok (fst (plan l inp))" by (simp add: eq cluster_ok_def)
  from spec show "\<forall>part \<in> set (parts_of (fst (plan l inp))). handoff_ok part"
    "map_of (l_Members (fst (plan l inp))) = map_option n_Incarnation \<circ> map_of (pi_Nodes inp)"
    by (simp_all add: eq)
qed

text \<open>
  C11. A planning round leaves a well-formed cluster: whatever the nodes reported, every partition
  of the new layout (the next generation included) has distinct holders, all of them live
  members; a handoff only targets an in-sync follower of a partition that has a leader; and the
  member list is exactly the live nodes with their current incarnations, so a node that left or
  restarted holds nothing.
\<close>

theorem plan_invariant:
  assumes "cluster_ok l" and "'''' \<notin> dom (map_of (pi_Nodes inp))"
  shows "(cluster_ok (fst (plan l inp))) \<and>
    (\<forall>part \<in> set (parts_of (fst (plan l inp))). handoff_ok part) \<and>
    (map_of (l_Members (fst (plan l inp))) = map_option n_Incarnation \<circ> map_of (pi_Nodes inp))"
  using plan_invariant_facts [OF assms(1-2)] by (intro conjI)

text \<open>
  Leaders are fenced by epochs: a planning round keeps the partitions of an initialised layout
  in place, never lowers an epoch, and gives a partition a leader other than the one it had only
  with a larger epoch. So at most one node is ever leader of a partition at an epoch, which is what
  replicas and migrations check.
\<close>

lemma plan_fences_leaders:
  assumes "cluster_ok l" and "'''' \<notin> dom (map_of (pi_Nodes inp))"
    and "l_PartitionCount l \<noteq> 0" and "l_Generation l \<noteq> 0" and "Find (Some l) ref = Some a"
  shows "\<exists>b. Find (Some (fst (plan l inp))) ref = Some b \<and> p_ID b = p_ID a \<and> p_Epoch a \<le> p_Epoch b \<and>
    (p_Leader b \<noteq> p_Leader a \<longrightarrow> p_Leader b \<noteq> '''' \<longrightarrow> p_Epoch a < p_Epoch b)"
proof -
  obtain l' ev where eq: "plan l inp = (l', ev)" by fastforce
  from fenced_layout_Find [OF plan_spec(4) [OF assms(1,2) eq assms(3,4)] assms(5)]
  obtain b where "Find (Some l') ref = Some b" "fenced a b" by blast
  then show ?thesis by (auto simp: eq fenced_def)
qed

text \<open>
  A planning round keeps the layout well formed and changes the owner of no key. In
  particular starting a resharding moves nothing by itself: the new partitions are all pending.
\<close>

lemma plan_keeps_owners:
  assumes "layout_ok l" and "cluster_ok l" and "'''' \<notin> dom (map_of (pi_Nodes inp))"
    and "l_Generation l \<noteq> 0" and "cfg_PartitionCount (pi_Config inp) < 2 ^ 32"
  shows "layout_ok (fst (plan l inp)) \<and>
    map_option fst (Route (Some (fst (plan l inp))) k) = map_option fst (Route (Some l) k)"
proof -
  obtain l' ev where eq: "plan l inp = (l', ev)" by fastforce
  from assms(1) have "l_PartitionCount l \<noteq> 0" by (auto simp: layout_ok_def table_ok_def)
  from plan_spec(4) [OF assms(2,3) eq this assms(4)] assms(1,5) show ?thesis
    using fenced_layout_ok fenced_layout_route by (auto simp: eq)
qed

lemma failover_choice_facts:
  assumes "part_ok part" and "p_Leader part = ''''" and "'''' \<notin> set (pl_eligible p)"
    and "failover inp ref part p = (part', p')"
  defines "synced \<equiv> {j \<in> set (p_Joining part). admissible inp ref True j}"
  shows "p_Followers part \<noteq> [] \<longrightarrow> p_Leader part' \<in> set (p_Followers part) \<and>
      (\<forall>c \<in> set (p_Followers part). at_least_as_good inp p ref (p_Leader part') c)"
    and "p_Followers part = [] \<and> synced \<noteq> {} \<longrightarrow> p_Leader part' \<in> synced \<and>
      (\<forall>c \<in> synced. at_least_as_good inp p ref (p_Leader part') c)"
    and "p_Followers part = [] \<and> synced = {} \<longrightarrow>
      (if \<forall>n \<in> set (pl_eligible p). n \<in> set (p_Joining part) then part' = part
       else p_Leader part' \<in> set (pl_eligible p) - set (p_Joining part) \<and>
         (\<forall>n \<in> set (pl_eligible p) - set (p_Joining part).
            gm_get 0 (pl_load p) (p_Leader part') \<le> gm_get 0 (pl_load p) n))"
    and "part' = part \<or> p_Leader part' \<noteq> '''' \<and> p_Epoch part' = p_Epoch part + 1 \<and> p_State part' = PartitionActive \<and>
      set (Holders part') = insert (p_Leader part') (set (Holders part))"
proof -
  obtain c1 s1 where m1: "mostUpToDate inp p ref (p_Followers part) False = (c1, s1)" by fastforce
  obtain c2 s2 where m2: "mostUpToDate inp p ref (p_Joining part) True = (c2, s2)" by fastforce
  from assms(1) have ne: "'''' \<notin> set (p_Followers part)" "'''' \<notin> set (p_Joining part)" by (auto simp: part_ok_alt)
  note 1 = mostUpToDate_spec [OF ne(1) m1] and 2 = mostUpToDate_spec [OF ne(2) m2]
  have adm: "admissible inp ref False c" for c by (simp add: admissible_def)
  have f: "c1 = '''' \<longleftrightarrow> p_Followers part = []"
    using 1 adm ne(1) by (cases "p_Followers part") auto
  have j: "c2 = '''' \<longleftrightarrow> synced = {}" using 2 ne(2) by (auto simp: synced_def)
  have has: "Has part n \<longleftrightarrow> n \<in> set (p_Joining part)" if "p_Followers part = []" "n \<in> set (pl_eligible p)" for n
    using that assms(2,3) by (auto simp: Has_def)
  let ?c3 = "leastLoaded part p"
  note 3 = leastLoaded_spec [OF assms(3), of part]
  have part': "part' = (if c1 \<noteq> '''' then make_leader c1 part else if c2 \<noteq> '''' then make_leader c2 part
      else if ?c3 \<noteq> '''' then make_leader ?c3 part else part)"
    using assms(2,4) m1 m2 by (auto simp: failover_def Let_def split: if_splits)
  show "p_Followers part \<noteq> [] \<longrightarrow> p_Leader part' \<in> set (p_Followers part) \<and>
      (\<forall>c \<in> set (p_Followers part). at_least_as_good inp p ref (p_Leader part') c)"
    using f 1 adm by (simp add: part')
  show "p_Followers part = [] \<and> synced \<noteq> {} \<longrightarrow> p_Leader part' \<in> synced \<and>
      (\<forall>c \<in> synced. at_least_as_good inp p ref (p_Leader part') c)"
    using f j 2 by (simp add: part' synced_def)
  show "p_Followers part = [] \<and> synced = {} \<longrightarrow>
      (if \<forall>n \<in> set (pl_eligible p). n \<in> set (p_Joining part) then part' = part
       else p_Leader part' \<in> set (pl_eligible p) - set (p_Joining part) \<and>
         (\<forall>n \<in> set (pl_eligible p) - set (p_Joining part).
            gm_get 0 (pl_load p) (p_Leader part') \<le> gm_get 0 (pl_load p) n))"
    using f j 3 has by (auto simp: part')
  show "part' = part \<or> p_Leader part' \<noteq> '''' \<and> p_Epoch part' = p_Epoch part + 1 \<and> p_State part' = PartitionActive \<and>
      set (Holders part') = insert (p_Leader part') (set (Holders part))"
    using assms(2) by (auto simp: part' set_Holders)
qed


lemma handoff_completes_iff_facts:
  assumes "part_ok part" and "progressHandoff inp ref part p = (part', p')"
  shows "p_Leader part' \<noteq> p_Leader part \<longleftrightarrow> p_State part = PartitionHandoff \<and> p_Leader part \<noteq> '''' \<and>
      p_HandoffTo part \<in> set (p_Followers part) \<and>
      pi_Now inp - time_UnixMilli (p_HandoffAt part) \<le> handoffTimeout \<and> handoff_ready inp ref part"
    and "p_Leader part' \<noteq> p_Leader part \<longrightarrow> p_Leader part' = p_HandoffTo part \<and> p_Epoch part' = p_Epoch part + 1 \<and>
      p_State part' = PartitionActive \<and> p_Leader part \<notin> set (p_Followers part') \<and>
      (p_Leader part \<in> set (p_Joining part') \<longleftrightarrow> \<not> evicted inp (p_Leader part) part)"
    and "p_Leader part' = p_Leader part \<longrightarrow> p_Epoch part' = p_Epoch part \<and> p_Followers part' = p_Followers part \<and>
      p_Joining part' = p_Joining part"
  using assms(1) arg_cong [OF assms(2), of fst]
  by (auto simp: progressHandoff_eq part_ok_alt split: if_splits)

text \<open>
  C24. A handoff moves the leadership exactly when the target is still an in-sync follower, the
  timeout has not passed, the old leader has reported (under a layout that knows the handoff) that
  it sealed the partition, and the target reports the current data epoch and at least the sealed
  sequence number. It then leads with the next epoch, and the old leader drops its copy: it becomes
  a joining replica, or none if it was being moved off. In every other case the copies, the
  leader and the epoch stay as they are.
\<close>

theorem handoff_completes_iff:
  assumes "part_ok part" and "progressHandoff inp ref part p = (part', p')"
  shows "(p_Leader part' \<noteq> p_Leader part \<longleftrightarrow> p_State part = PartitionHandoff \<and> p_Leader part \<noteq> '''' \<and>
      p_HandoffTo part \<in> set (p_Followers part) \<and>
      pi_Now inp - time_UnixMilli (p_HandoffAt part) \<le> handoffTimeout \<and> handoff_ready inp ref part) \<and>
    (p_Leader part' \<noteq> p_Leader part \<longrightarrow> p_Leader part' = p_HandoffTo part \<and> p_Epoch part' = p_Epoch part + 1 \<and>
      p_State part' = PartitionActive \<and> p_Leader part \<notin> set (p_Followers part') \<and>
      (p_Leader part \<in> set (p_Joining part') \<longleftrightarrow> \<not> evicted inp (p_Leader part) part)) \<and>
    (p_Leader part' = p_Leader part \<longrightarrow> p_Epoch part' = p_Epoch part \<and> p_Followers part' = p_Followers part \<and>
      p_Joining part' = p_Joining part)"
  using handoff_completes_iff_facts [OF assms(1-2)] by (intro conjI)

lemma fixReplicaCount_safe_facts:
  assumes "part_ok part" and "p_Leader part \<noteq> ''''" and "'''' \<notin> set (pl_eligible p)" and "desiredCopies inp p \<noteq> 0"
    and "fixReplicaCount inp ref part p = (part', p')"
  shows "in_sync_kept inp part < desiredCopies inp p \<longrightarrow> p_Followers part' = p_Followers part \<and>
      prefix (p_Joining part) (p_Joining part')"
    and "in_sync_kept inp part \<ge> desiredCopies inp p \<longrightarrow> in_sync_kept inp part' \<ge> desiredCopies inp p"
    and "in_sync_kept inp part < desiredCopies inp p \<longrightarrow> in_sync_kept inp part + count_keep inp part (p_Joining part) +
        int (length (p_Joining part') - length (p_Joining part)) \<ge> desiredCopies inp p \<or>
      (\<forall>n \<in> set (pl_eligible p). Has part' n)"
    and "p_Leader part' = p_Leader part \<and> p_Epoch part' = p_Epoch part \<and> p_State part' = p_State part \<and>
      p_HandoffTo part' = p_HandoffTo part"
proof -
  obtain part1 part2 ns where 1: "same_lead part part1" "p_Followers part1 = p_Followers part"
    "p_Joining part1 = p_Joining part @ ns" "set ns \<subseteq> set (pl_eligible p)"
    and n: "in_sync_kept inp part + count_keep inp part (p_Joining part) + int (length ns) \<ge> desiredCopies inp p \<or>
      (\<forall>n \<in> set (pl_eligible p). Has part1 n)"
    and 2: "part' = part2\<lparr>p_Evict := filter (Has part2) (p_Evict part2)\<rparr>" "shrinks part1 part2"
    "in_sync_kept inp part < desiredCopies inp p \<Longrightarrow> part2 = part1"
    "in_sync_kept inp part \<ge> desiredCopies inp p \<Longrightarrow> in_sync_kept inp part2 \<ge> desiredCopies inp p"
    by (rule fixReplicaCount_chain [OF assms(2,4,1,3,5)]) blast
  show "in_sync_kept inp part < desiredCopies inp p \<longrightarrow> p_Followers part' = p_Followers part \<and>
      prefix (p_Joining part) (p_Joining part')"
    using 1 2 by simp
  show enough: "in_sync_kept inp part \<ge> desiredCopies inp p \<longrightarrow> in_sync_kept inp part' \<ge> desiredCopies inp p"
    using 2 by simp
  show "p_Leader part' = p_Leader part \<and> p_Epoch part' = p_Epoch part \<and> p_State part' = p_State part \<and>
      p_HandoffTo part' = p_HandoffTo part"
    using 1 2 by (simp add: shrinks_def same_lead_def)
  show "in_sync_kept inp part < desiredCopies inp p \<longrightarrow> in_sync_kept inp part + count_keep inp part (p_Joining part) +
        int (length (p_Joining part') - length (p_Joining part)) \<ge> desiredCopies inp p \<or>
      (\<forall>n \<in> set (pl_eligible p). Has part' n)"
    using 1 2 n by (auto simp: Has_def)
qed

text \<open>
  C27. Adjusting the number of copies is safe. While fewer than the desired number of copies that
  may stay are in sync, no in-sync copy is removed (not even one being moved off); otherwise at
  least the desired number of them remain. New copies are joining replicas, added until the
  desired number is reached or no eligible node is left. Leader, epoch and handoff are untouched.
\<close>

theorem fixReplicaCount_safe:
  assumes "part_ok part" and "p_Leader part \<noteq> ''''" and "'''' \<notin> set (pl_eligible p)" and "desiredCopies inp p \<noteq> 0"
    and "fixReplicaCount inp ref part p = (part', p')"
  shows "(in_sync_kept inp part < desiredCopies inp p \<longrightarrow> p_Followers part' = p_Followers part \<and>
      prefix (p_Joining part) (p_Joining part')) \<and>
    (in_sync_kept inp part \<ge> desiredCopies inp p \<longrightarrow> in_sync_kept inp part' \<ge> desiredCopies inp p) \<and>
    (in_sync_kept inp part < desiredCopies inp p \<longrightarrow> in_sync_kept inp part + count_keep inp part (p_Joining part) +
        int (length (p_Joining part') - length (p_Joining part)) \<ge> desiredCopies inp p \<or>
      (\<forall>n \<in> set (pl_eligible p). Has part' n)) \<and>
    (p_Leader part' = p_Leader part \<and> p_Epoch part' = p_Epoch part \<and> p_State part' = p_State part \<and>
      p_HandoffTo part' = p_HandoffTo part)"
  using fixReplicaCount_safe_facts [OF assms(1-5)] by fast

section \<open>Convergence\<close>

text \<open>What \<open>unstableReason\<close> checks of one partition.\<close>

definition settled :: "(node_id, bool) gomap \<Rightarrow> int \<Rightarrow> Partition \<Rightarrow> bool" where
  "settled drained desired part \<longleftrightarrow> p_Leader part \<noteq> '''' \<and> p_State part = PartitionActive \<and>
     p_Joining part = [] \<and> p_Evict part = [] \<and> 1 + int (length (p_Followers part)) = desired \<and>
     (\<forall>h \<in> set (Holders part). \<not> gm_get False drained h)"

lemma unstable_partition_None:
  "unstable_partition drained g desired ps = None \<longleftrightarrow> list_all (settled drained desired) ps"
proof (induction ps)
  case (Cons part ps)
  have "p_State part \<noteq> PartitionHandoff \<longleftrightarrow> p_State part = PartitionActive" by (cases "p_State part") auto
  moreover have "find (gm_get False drained) (Holders part) = None \<longleftrightarrow>
      (\<forall>h \<in> set (Holders part). \<not> gm_get False drained h)" by (auto simp: find_None_iff)
  ultimately show ?case
    using Cons by (cases "find (gm_get False drained) (Holders part)") (auto simp: settled_def Let_def)
qed simp

lemma gm_get_count:
  "gm_get 0 (foldl (\<lambda>m h. gm_add h 1 m) m hs) n = gm_get 0 m n + int (count_list hs n)"
  by (induction hs arbitrary: m) auto

lemma foldl_concat: "foldl (\<lambda>m x. foldl f m (g x)) m xs = foldl f m (concat (map g xs))"
  by (induction xs arbitrary: m) auto

lemma spread_bound:
  assumes "map_of m a = Some va" and "map_of m b = Some vb"
  shows "va - vb \<le> spread m"
proof -
  let ?f = "\<lambda>(lo, hi, first) (k, v). (if first \<or> v < lo then v else lo, if first \<or> v > hi then v else hi, False)"
  have inv: "\<exists>lo hi. foldl ?f (0, 0, True) m = (lo, hi, m = []) \<and> (\<forall>k v. (k, v) \<in> set m \<longrightarrow> lo \<le> v \<and> v \<le> hi)"
    for m :: "(node_id, int) gomap"
  proof (induction m rule: rev_induct)
    case (snoc kv m)
    obtain k v where kv: "kv = (k, v)" by (cases kv)
    from snoc obtain lo hi where IH: "foldl ?f (0, 0, True) m = (lo, hi, m = [])"
      "\<forall>k v. (k, v) \<in> set m \<longrightarrow> lo \<le> v \<and> v \<le> hi" by blast
    show ?case
      by (rule exI [of _ "if m = [] \<or> v < lo then v else lo"], rule exI [of _ "if m = [] \<or> v > hi then v else hi"])
        (use IH in \<open>fastforce simp: kv\<close>)
  qed simp
  obtain lo hi where "foldl ?f (0, 0, True) m = (lo, hi, m = [])"
    and b: "\<forall>k v. (k, v) \<in> set m \<longrightarrow> lo \<le> v \<and> v \<le> hi" using inv [of m] by blast
  then have "spread m = hi - lo" by (simp add: spread_def)
  moreover from b assms [THEN map_of_SomeD] have "va \<le> hi" "lo \<le> vb" by blast+
  ultimately show ?thesis by simp
qed

text \<open>Phases that do nothing to a settled partition.\<close>

lemma each_part_noop:
  assumes "\<And>part ref. part \<in> set (parts_of (pl_l p)) \<Longrightarrow> f ref part p = (part, p)"
  shows "each_part f p = p"
proof -
  have l: "each_list f g ps p = (ps, p)" if "set ps \<subseteq> set (parts_of (pl_l p))" for g ps
    using that assms by (induction ps) simp_all
  have "each_list f g (l_Partitions (pl_l p)) p = (l_Partitions (pl_l p), p)" for g
    by (rule l) (simp add: parts_of_eq)
  moreover have "each_list f g (r_Partitions r) p = (r_Partitions r, p)" if "l_Resharding (pl_l p) = Some r" for r g
    using that by (intro l) (simp add: parts_of_eq)
  ultimately show ?thesis
    by (cases "l_Resharding (pl_l p)") (simp_all add: each_part_def Let_def)
qed

lemma settled_keep: "settled (pi_Drained inp) d part \<Longrightarrow> h \<in> set (Holders part) \<Longrightarrow> keep inp part h"
  by (simp add: settled_def keep_def evicted_def)

lemma settled_noop:
  assumes "settled (pi_Drained inp) d part"
  shows "failover inp ref part p = (part, p)" "promoteJoiners inp ref part p = (part, p)"
    "progressHandoff inp ref part p = (part, p)" "handoffEvictedLeader inp ref part p = (part, p)"
  using assms settled_keep [OF assms, of "p_Leader part"]
  by (simp_all add: settled_def failover_def promoteJoiners_def progressHandoff_def handoffEvictedLeader_def
      keep_def Holders_def)

lemma settled_fix_noop:
  assumes "settled (pi_Drained inp) (desiredCopies inp p) part"
  shows "fixReplicaCount inp ref part p = (part, p)"
proof -
  let ?d = "desiredCopies inp p"
  from assms have s: "p_Leader part \<noteq> ''''" "p_Joining part = []" "p_Evict part = []"
    "1 + int (length (p_Followers part)) = ?d" by (auto simp: settled_def)
  have k: "keep inp part (p_Leader part)" "\<And>f. f \<in> set (p_Followers part) \<Longrightarrow> keep inp part f"
    using s by (auto intro!: settled_keep [OF assms] simp: Holders_def)
  have c: "in_sync_kept inp part = ?d" using s k by (simp add: in_sync_kept_def count_keep_def)
  have r: "foldl (remove_evicted inp ref) (part, p) fs = (part, p)" if "set fs \<subseteq> set (p_Followers part)" for fs
    using that k by (induction fs) (simp_all add: remove_evicted_def)
  have "part\<lparr>p_Evict := []\<rparr> = part" using s by simp
  with s c r show ?thesis
    by (simp add: fixReplicaCount_def Let_def count_keep_def add_replicas.simps remove_surplus.simps)
qed

lemma foldl_noop: "(\<And>x. x \<in> set xs \<Longrightarrow> f a x = a) \<Longrightarrow> foldl f a xs = a"
  by (induction xs) auto

lemma membership_noop:
  assumes "map_of (l_Members (pl_l p)) = map_option n_Incarnation \<circ> map_of (pi_Nodes inp)"
  shows "membership inp p = p"
proof -
  have "membership_leave inp p n = p" if "n \<in> set (sortedKeys (l_Members (pl_l p)))" for n
    using that assms by (auto simp: membership_leave_def gm_get_def dom_def)
  then have "foldl (membership_leave inp) p (sortedKeys (l_Members (pl_l p))) = p" by (rule foldl_noop)
  moreover have "membership_join inp p n = p" if "n \<in> set (sortedKeys (pi_Nodes inp))" for n
    using that assms by (auto simp: membership_join_def dom_def)
  then have "foldl (membership_join inp) p (sortedKeys (pi_Nodes inp)) = p" by (rule foldl_noop)
  ultimately show ?thesis by (simp add: membership_def Let_def)
qed

text \<open>The load \<open>computeLoad\<close> counts, when every holder is eligible and none is moved away.\<close>

definition all_eligible :: "planInput \<Rightarrow> planner \<Rightarrow> Partition \<Rightarrow> bool" where
  "all_eligible inp p part \<longleftrightarrow>
     (\<forall>h \<in> set (Holders part). gm_get False (pl_isEligible p) h \<and> \<not> evicted inp h part)"

lemma count_holders_load:
  assumes "\<forall>h \<in> set hs. gm_get False (pl_isEligible p) h \<and> \<not> evicted inp h part"
  shows "foldl (count_holder inp part) p hs = p\<lparr>pl_load := foldl (\<lambda>m h. gm_add h 1 m) (pl_load p) hs\<rparr>"
  using assms by (induction hs arbitrary: p) (auto simp: count_holder_def add_load_def)

lemma each_list_load:
  assumes "list_all (all_eligible inp p) ps"
  shows "each_list (\<lambda>_ part p. (part, foldl (count_holder inp part) p (Holders part))) g ps p =
    (ps, p\<lparr>pl_load := foldl (\<lambda>m h. gm_add h 1 m) (pl_load p) (concat (map Holders ps))\<rparr>)"
  using assms
proof (induction ps arbitrary: p)
  case (Cons part ps)
  let ?q = "p\<lparr>pl_load := foldl (\<lambda>m h. gm_add h 1 m) (pl_load p) (Holders part)\<rparr>"
  have "foldl (count_holder inp part) p (Holders part) = ?q"
    using Cons.prems by (intro count_holders_load) (simp add: all_eligible_def)
  moreover have "list_all (all_eligible inp ?q) ps"
    using Cons.prems by (simp add: list_all_iff all_eligible_def)
  ultimately show ?case using Cons.IH [of ?q] by simp
qed simp

lemma computeLoad_settled:
  assumes "pl_eligible p = []" and "l_Resharding (pl_l p) = None"
    and "\<And>part h. part \<in> set (l_Partitions (pl_l p)) \<Longrightarrow> h \<in> set (Holders part) \<Longrightarrow>
      h \<in> set (eligible_nodes inp p) \<and> \<not> evicted inp h part"
  shows "pl_events (computeLoad inp p) = pl_events p"
    "gm_get 0 (pl_load (computeLoad inp p)) n = int (count_list (concat (map Holders (l_Partitions (pl_l p)))) n)"
proof -
  let ?p0 = "p\<lparr>pl_isEligible := [], pl_load := []\<rparr>"
  let ?q = "foldl (make_eligible inp) ?p0 (sortedKeys (l_Members (pl_l p)))"
  have q: "pl_l ?q = pl_l p" "pl_events ?q = pl_events p" "\<And>n. gm_get 0 (pl_load ?q) n = 0"
    "\<And>n. gm_get False (pl_isEligible ?q) n \<longleftrightarrow> n \<in> set (eligible_nodes inp p)"
    using assms(1) by (auto simp: make_eligible_all eligible_nodes_def gm_get_def [of _ "[]"])
  have "list_all (all_eligible inp ?q) (l_Partitions (pl_l p))"
    using assms(3) q(4) by (auto simp: list_all_iff all_eligible_def)
  from each_list_load [OF this, of "l_Generation (pl_l p)"]
  have "computeLoad inp p = ?q\<lparr>pl_load := foldl (\<lambda>m h. gm_add h 1 m) (pl_load ?q) (concat (map Holders (l_Partitions (pl_l p)))),
      pl_l := (pl_l p)\<lparr>l_Partitions := l_Partitions (pl_l p)\<rparr>\<rparr>"
    using q assms(2) by (simp add: computeLoad_def each_part_def Let_def)
  then show "pl_events (computeLoad inp p) = pl_events p"
    "gm_get 0 (pl_load (computeLoad inp p)) n = int (count_list (concat (map Holders (l_Partitions (pl_l p)))) n)"
    using q by (simp_all add: gm_get_count)
qed

text \<open>Balanced loads: nothing to move.\<close>

lemma balanceReplicas_noop:
  assumes "\<And>a b. a \<in> set (pl_eligible p) \<Longrightarrow> b \<in> set (pl_eligible p) \<Longrightarrow>
    gm_get 0 (pl_load p) a - gm_get 0 (pl_load p) b < 2"
  shows "balanceReplicas p = p"
proof (cases "length (pl_eligible p) < 2")
  case False
  obtain hi lo where hl: "hi_lo (pl_load p) (pl_eligible p) = (hi, lo)" by fastforce
  from False have "pl_eligible p \<noteq> []" by auto
  with hi_lo_in [OF hl] assms have "gm_get 0 (pl_load p) hi - gm_get 0 (pl_load p) lo < 2" by blast
  with hl show ?thesis by (simp add: balanceReplicas_def maxMovesPerRound_def numeral_2_eq_2)
qed (simp add: balanceReplicas_def)

lemma count_leaders_settled:
  assumes "list_all (\<lambda>part. p_State part = PartitionActive \<and> map_of leaders (p_Leader part) \<noteq> None) ps"
  shows "count_leaders leaders ps = Some (foldl (\<lambda>m h. gm_add h 1 m) leaders (map p_Leader ps))"
  using assms
proof (induction ps arbitrary: leaders)
  case (Cons part ps)
  let ?m = "gm_add (p_Leader part) 1 leaders"
  have "list_all (\<lambda>part. p_State part = PartitionActive \<and> map_of ?m (p_Leader part) \<noteq> None) ps"
    using Cons.prems by (auto simp: list_all_iff gm_add_def update_conv')
  from Cons.IH [OF this] Cons.prems show ?case by simp
qed simp

lemma pick_follower_balanced:
  assumes "\<And>f count. map_of leaders f = Some count \<Longrightarrow> current - count < 2"
  shows "pick_follower inp leaders ref part current ls fs = None"
  using assms by (induction fs) (auto split: option.splits)

lemma balance_first_noop:
  assumes "\<And>a b va vb. map_of leaders a = Some va \<Longrightarrow> map_of leaders b = Some vb \<Longrightarrow> va - vb < 2"
  shows "balance_first inp leaders g ps p = (ps, p)"
proof (induction ps)
  case (Cons part ps)
  have "leader_move inp leaders (PartitionRef g (p_ID part)) part = None"
    using assms by (auto simp: leader_move_def case_prod_beta Let_def split: option.split
        intro!: pick_follower_balanced)
  with Cons show ?case by simp
qed simp

definition desired_copies :: "Config \<Rightarrow> int \<Rightarrow> int" where
  "desired_copies cfg eligible = min (max 1 (cfg_ReplicationFactor cfg)) eligible"

lemma desiredCopies_eq: "desiredCopies inp p = desired_copies (pi_Config inp) (int (length (pl_eligible p)))"
  by (auto simp: desiredCopies_def desired_copies_def Let_def min_def max_def Suc_le_eq)

text \<open>The conditions under which \<open>unstableReason\<close> finds nothing.\<close>

definition undrained :: "(node_id, bool) gomap \<Rightarrow> Layout \<Rightarrow> node_id list" where
  "undrained drained l = filter (\<lambda>n. \<not> gm_get False drained n) (map fst (l_Members l))"

definition tally :: "node_id list \<Rightarrow> node_id list \<Rightarrow> (node_id, int) gomap" where
  "tally ns hs = foldl (\<lambda>m h. gm_add h 1 m) (map (\<lambda>n. (n, 0)) ns) hs"

lemma unstableReason_None:
  "unstableReason (Some l) cfg drained auto = None \<longleftrightarrow>
     l_PartitionCount l \<noteq> 0 \<and> l_Resharding l = None \<and>
     (cfg_PartitionCount cfg \<le> 0 \<or> cfg_PartitionCount cfg = l_PartitionCount l) \<and>
     list_all (settled drained (desired_copies cfg (int (length (undrained drained l))))) (l_Partitions l) \<and>
     (auto \<longrightarrow> spread (tally (undrained drained l) (concat (map Holders (l_Partitions l)))) < 2 \<and>
       spread (tally (undrained drained l) (map p_Leader (l_Partitions l))) < 2)"
proof -
  let ?d = "desired_copies cfg (int (length (undrained drained l)))"
  have up: "unstable_partition drained (l_Generation l) ?d (l_Partitions l) = None \<longleftrightarrow>
    list_all (settled drained ?d) (l_Partitions l)" by (rule unstable_partition_None)
  have d: "(let e = int (length (undrained drained l)); d = cfg_ReplicationFactor cfg; d = (if d < 1 then 1 else d)
      in if d > e then e else d) = ?d" by (auto simp: desired_copies_def Let_def min_def max_def Suc_le_eq)
  have leaders: "foldl (\<lambda>m part. gm_add (p_Leader part) 1 m) z ps = foldl (\<lambda>m h. gm_add h 1 m) z (map p_Leader ps)"
    for z ps by (induction ps arbitrary: z) simp_all
  show ?thesis
    using up d unfolding unstableReason_def tally_def Let_def foldl_concat leaders undrained_def [symmetric]
    by (cases "l_Resharding l"; cases "unstable_partition drained (l_Generation l) ?d (l_Partitions l)")
      (auto simp: not_le)
qed

lemma gm_get_tally [simp]: "gm_get 0 (tally ns hs) n = int (count_list hs n)"
proof -
  have "gm_get 0 (map (\<lambda>n. (n, 0)) ns) n = (0 :: int)" by (auto simp: gm_get_def map_of_eq_None_iff split: option.split dest!: map_of_SomeD)
  then show ?thesis by (simp add: tally_def gm_get_count)
qed

lemma map_of_gm_get: "map_of m k = Some v \<Longrightarrow> gm_get d m k = v"
  by (simp add: gm_get_def)

lemma dom_tally: "dom (map_of (tally ns hs)) = set ns \<union> set hs"
proof -
  have "dom (map_of (foldl (\<lambda>m h. gm_add h 1 m) m hs)) = dom (map_of m) \<union> set hs" for m :: "(node_id, int) gomap"
    by (induction hs arbitrary: m) (auto simp: gm_add_def update_conv')
  then show ?thesis by (simp add: tally_def dom_map_of_conv_image_fst image_image)
qed

lemma tally_spread:
  assumes "spread (tally ns hs) < 2" and "a \<in> set ns" and "b \<in> set ns"
  shows "int (count_list hs a) - int (count_list hs b) < 2"
proof -
  from assms have "a \<in> dom (map_of (tally ns hs))" "b \<in> dom (map_of (tally ns hs))" by (auto simp: dom_tally)
  then obtain va vb where v: "map_of (tally ns hs) a = Some va" "map_of (tally ns hs) b = Some vb" by blast
  from spread_bound [OF v] assms(1) v [THEN map_of_gm_get, of 0] show ?thesis by simp
qed

lemma balanceLeaders_noop:
  assumes "list_all (\<lambda>part. p_State part = PartitionActive \<and> p_Leader part \<in> set (pl_eligible p)) (l_Partitions (pl_l p))"
    and "\<And>a b. a \<in> set (pl_eligible p) \<Longrightarrow> b \<in> set (pl_eligible p) \<Longrightarrow>
      int (count_list (map p_Leader (l_Partitions (pl_l p))) a) - int (count_list (map p_Leader (l_Partitions (pl_l p))) b) < 2"
  shows "balanceLeaders inp p = p"
proof -
  let ?hs = "map p_Leader (l_Partitions (pl_l p))" and ?z = "map (\<lambda>n. (n, 0)) (pl_eligible p)"
  have dz: "map_of ?z n \<noteq> None \<longleftrightarrow> n \<in> set (pl_eligible p)" for n :: node_id
    by (simp add: map_of_eq_None_iff image_image)
  have c: "count_leaders ?z (l_Partitions (pl_l p)) = Some (tally (pl_eligible p) ?hs)"
    unfolding tally_def using assms(1) by (intro count_leaders_settled) (simp add: list_all_iff dz del: not_None_eq)
  have dom: "dom (map_of (tally (pl_eligible p) ?hs)) = set (pl_eligible p)"
    using assms(1) by (auto simp: dom_tally list_all_iff)
  have "balance_first inp (tally (pl_eligible p) ?hs) (l_Generation (pl_l p)) (l_Partitions (pl_l p)) p = (l_Partitions (pl_l p), p)"
  proof (rule balance_first_noop)
    fix a b va vb
    assume v: "map_of (tally (pl_eligible p) ?hs) a = Some va" "map_of (tally (pl_eligible p) ?hs) b = Some vb"
    then have "a \<in> set (pl_eligible p)" "b \<in> set (pl_eligible p)" unfolding dom [symmetric] by blast+
    from assms(2) [OF this] v [THEN map_of_gm_get, of 0] show "va - vb < 2" by simp
  qed
  with c show ?thesis by (simp add: balanceLeaders_def)
qed

text \<open>
  C28. Convergence is a fixed point: once \<open>unstableReason\<close> finds nothing and the member list matches
  the live nodes, a planning round changes nothing and logs nothing, so the controller stops
  writing layouts and no balancing step oscillates.
\<close>

theorem plan_settled:
  assumes "cluster_ok l" and "l_Generation l \<noteq> 0"
    and live: "map_of (l_Members l) = map_option n_Incarnation \<circ> map_of (pi_Nodes inp)"
    and stable: "unstableReason (Some l) (pi_Config inp) (pi_Drained inp) (pi_AutoBalance inp) = None"
  shows "plan l inp = (l, [])"
proof -
  let ?p0 = "start_planner l" and ?hs = "concat (map Holders (l_Partitions l))"
  define p where "p = computeLoad inp ?p0"
  from stable have u: "l_PartitionCount l \<noteq> 0" "l_Resharding l = None"
    "cfg_PartitionCount (pi_Config inp) \<le> 0 \<or> cfg_PartitionCount (pi_Config inp) = l_PartitionCount l"
    "list_all (settled (pi_Drained inp) (desired_copies (pi_Config inp) (int (length (undrained (pi_Drained inp) l)))))
      (l_Partitions l)"
    and b: "pi_AutoBalance inp \<Longrightarrow> spread (tally (undrained (pi_Drained inp) l) ?hs) < 2 \<and>
      spread (tally (undrained (pi_Drained inp) l) (map p_Leader (l_Partitions l))) < 2"
    by (simp_all add: unstableReason_None)
  have pm: "plan_members inp l = ?p0"
    using live by (simp add: plan_members_def bootstrap_initialised u assms(2)) (simp add: membership_noop start_planner_def)
  have p0: "pl_l ?p0 = l" "pl_eligible ?p0 = []" "pl_events ?p0 = []" by (simp_all add: start_planner_def)
  have el: "set (eligible_nodes inp ?p0) = set (undrained (pi_Drained inp) l)"
    "length (eligible_nodes inp ?p0) = length (undrained (pi_Drained inp) l)"
    by (auto simp: eligible_nodes_def undrained_def sortedKeys_def p0 filter_sort)
  have hold: "h \<in> set (eligible_nodes inp ?p0) \<and> \<not> evicted inp h part"
    if "part \<in> set (l_Partitions l)" "h \<in> set (Holders part)" for part h
    using that u(4) assms(1)
    by (auto simp: el undrained_def settled_def list_all_iff evicted_def cluster_ok_def parts_of_eq
        dom_map_of_conv_image_fst)
  note c = computeLoad_spec [OF p0(2), of inp, folded p_def, unfolded p0]
  note c' = computeLoad_settled [OF p0(2), of inp, folded p_def, unfolded p0, OF u(2) hold]
  have par: "parts_of (pl_l p) = l_Partitions l" by (simp add: c parts_of_eq u)
  have settled: "settled (pi_Drained inp) (desiredCopies inp p) part" if "part \<in> set (l_Partitions l)" for part
    using u(4) that by (simp add: list_all_iff desiredCopies_eq c el)
  have noop: "each_part f p = p" if "\<And>part ref. part \<in> set (l_Partitions l) \<Longrightarrow> f ref part p = (part, p)" for f
    using that by (intro each_part_noop) (simp add: par)
  have ph: "plan_phases inp p = p"
    by (simp add: plan_phases_def noop settled_noop [OF settled] settled_fix_noop [OF settled])
  have rs: "startResharding inp p = p" using u by (auto simp: startResharding_def Let_def c)
  have "balanceReplicas p = p \<and> balanceLeaders inp p = p" if auto: "pi_AutoBalance inp"
  proof
    show "balanceReplicas p = p"
      using b [OF auto] by (intro balanceReplicas_noop) (auto simp: c c' el intro: tally_spread)
    have "p_State part = PartitionActive \<and> p_Leader part \<in> set (pl_eligible p)" if "part \<in> set (l_Partitions l)" for part
      using settled [OF that] hold [OF that, of "p_Leader part"] by (auto simp: settled_def c Holders_def)
    then show "balanceLeaders inp p = p"
      using b [OF auto] by (intro balanceLeaders_noop) (auto simp: c el list_all_iff intro: tally_spread)
  qed
  then have "plan_balance inp p = p" by (auto simp: plan_balance_def)
  with pm ph rs c c' show ?thesis by (simp add: plan_eq p_def [symmetric] Let_def)
qed

section \<open>Concrete rounds\<close>

definition example_node :: "node_id \<Rightarrow> int \<Rightarrow> Node" where
  "example_node n i = \<lparr>n_ID = n, n_Address = n @ '':9000'', n_Incarnation = i\<rparr>"

definition example_report :: "node_id \<Rightarrow> int \<Rightarrow> NodeRole \<Rightarrow> int \<Rightarrow> bool \<Rightarrow> NodeStatus" where
  "example_report n i role seq sealed = \<lparr>ns_Node = example_node n i, ns_LayoutVersion = 7, ns_Partitions =
     [zero_status\<lparr>ps_Generation := 1, ps_ID := 0, ps_Role := role, ps_Epoch := 1, ps_DataEpoch := 1,
        ps_Seq := seq, ps_Synced := True, ps_Sealed := sealed\<rparr>], ns_Ops = []\<rparr>"

text \<open>A round in which the leader \<open>node1\<close> has left, and one in which both nodes are alive.\<close>

definition example_lost :: planInput where
  "example_lost = \<lparr>pi_Config = \<lparr>cfg_PartitionCount = 2, cfg_ReplicationFactor = 2\<rparr>,
     pi_Nodes = [(''node2'', example_node ''node2'' 12), (''node3'', example_node ''node3'' 13)], pi_Drained = [],
     pi_Status = [(''node2'', example_report ''node2'' 12 NodeRoleFollower 5 False)],
     pi_Now = 1000, pi_AutoBalance = True\<rparr>"

definition example_alive :: planInput where
  "example_alive = \<lparr>pi_Config = \<lparr>cfg_PartitionCount = 2, cfg_ReplicationFactor = 2\<rparr>,
     pi_Nodes = [(''node2'', example_node ''node2'' 12), (''node1'', example_node ''node1'' 11)], pi_Drained = [],
     pi_Status = [(''node1'', example_report ''node1'' 11 NodeRoleLeader 5 True),
                  (''node2'', example_report ''node2'' 12 NodeRoleFollower 5 False)],
     pi_Now = 1000, pi_AutoBalance = True\<rparr>"

definition example_settled :: Layout where
  "example_settled = \<lparr>l_Version = 7, l_Generation = 1, l_PartitionCount = 2,
     l_Partitions = [example_partition 0,
       (example_partition 1)\<lparr>p_Leader := ''node2'', p_Followers := [''node1'']\<rparr>],
     l_Resharding = None, l_Members = [(''node1'', 11), (''node2'', 12)]\<rparr>"

definition example_planner :: planner where
  "example_planner = computeLoad example_alive (start_planner example_settled)"

lemmas example_defs = example_lost_def example_alive_def example_settled_def example_layout_def
  example_partition_def example_node_def example_report_def

lemma example_cluster_ok: "cluster_ok example_layout" "cluster_ok example_settled"
  by (simp_all add: cluster_ok_def parts_of_eq part_ok_alt Holders_def gm_ok_def example_layout_def
      example_settled_def example_partition_def)

lemma example_nodes: "'''' \<notin> dom (map_of (pi_Nodes example_lost))"
  by (simp add: example_lost_def)

theorem plan_invariant_witness:
  "cluster_ok (fst (plan example_layout example_lost)) \<and>
   list_all handoff_ok (parts_of (fst (plan example_layout example_lost))) \<and>
   map_of (l_Members (fst (plan example_layout example_lost))) = map_option n_Incarnation \<circ> map_of (pi_Nodes example_lost)"
  using plan_invariant [OF example_cluster_ok(1) example_nodes] unfolding list_all_iff by blast

text \<open>Partition 0 without its leader, in a handoff, and with a surplus to fix.\<close>

definition example_leaderless :: Partition where
  "example_leaderless = (example_partition 0)\<lparr>p_Leader := ''''\<rparr>"

definition example_handoff :: Partition where
  "example_handoff = (example_partition 0)\<lparr>p_State := PartitionHandoff, p_HandoffTo := ''node2'', p_HandoffVersion := 6\<rparr>"

lemma example_parts_ok:
  "part_ok example_leaderless" "part_ok example_handoff" "part_ok (example_partition 0)"
  by (simp_all add: part_ok_alt example_leaderless_def example_handoff_def example_partition_def)

lemma example_eligible: "pl_eligible example_planner = [''node1'', ''node2'']"
  by code_simp


theorem handoff_completes_iff_witness:
  "p_Leader (fst (progressHandoff example_alive (PartitionRef 1 0) example_handoff example_planner)) = ''node2'' \<and>
   p_Epoch (fst (progressHandoff example_alive (PartitionRef 1 0) example_handoff example_planner)) = 2"
proof -
  obtain part' p' where f: "progressHandoff example_alive (PartitionRef 1 0) example_handoff example_planner = (part', p')"
    by fastforce
  have "handoff_ready example_alive (PartitionRef 1 0) example_handoff"
    by (simp add: handoff_ready_def example_handoff_def example_defs status_def NodeStatus_Partition_def ps_Ref_def)
  moreover have "pi_Now example_alive - time_UnixMilli (p_HandoffAt example_handoff) \<le> handoffTimeout"
    by (simp add: example_alive_def example_handoff_def example_partition_def time_UnixMilli_def handoffTimeout_def)
  ultimately show ?thesis
    using handoff_completes_iff [OF example_parts_ok(2) f]
    unfolding f by (simp add: example_handoff_def example_partition_def)
qed

theorem fixReplicaCount_safe_witness:
  "desiredCopies example_alive example_planner
    \<le> in_sync_kept example_alive (fst (fixReplicaCount example_alive (PartitionRef 1 0) (example_partition 0) example_planner))"
proof -
  obtain part' p' where f: "fixReplicaCount example_alive (PartitionRef 1 0) (example_partition 0) example_planner = (part', p')"
    by fastforce
  have d: "desiredCopies example_alive example_planner = 2"
    by (simp add: desiredCopies_def example_eligible example_alive_def)
  have "in_sync_kept example_alive (example_partition 0) = 2" by code_simp
  with d fixReplicaCount_safe [OF example_parts_ok(3) _ _ _ f] show ?thesis
    unfolding f by (simp add: example_eligible example_partition_def)
qed

theorem plan_settled_witness: "plan example_settled example_alive = (example_settled, [])"
proof (rule plan_settled [OF example_cluster_ok(2)])
  show "unstableReason (Some example_settled) (pi_Config example_alive) (pi_Drained example_alive)
      (pi_AutoBalance example_alive) = None" by code_simp
  show "map_of (l_Members example_settled) = map_option n_Incarnation \<circ> map_of (pi_Nodes example_alive)"
    by (auto simp: fun_eq_iff example_settled_def example_alive_def example_node_def)
qed (simp add: example_settled_def)

end
