(* ===== verification/Balancer.thy ===== *)
theory Balancer
  imports Model "HOL-Library.Multiset"
begin

text \<open>
  \<open>src/internal/loadbalancer/loadbalancer.go\<close> and \<open>src/pkg/client/client.go\<close>: routing of requests
  to replicas with retries, and the client's retry loop over several balancers. The network, the
  watched layout and node table, and cancellation are inputs of every attempt: an environment says
  what the balancer sees in attempt \<open>a\<close>. Durations are 64-bit words read as signed numbers.
\<close>

section \<open>Balancer\<close>

definition StrategyLeader :: string where "StrategyLeader = ''leader''"
definition StrategyRoundRobin :: string where "StrategyRoundRobin = ''round-robin''"
definition StrategyFollowers :: string where "StrategyFollowers = ''followers''"

record lb_Options =
  lo_ReadStrategy :: string
  lo_MaxAttempts :: int
  lo_Timeout :: int

record LoadBalancer =
  lb_opts :: lb_Options
  lb_rr :: "64 word"
  lb_ops :: "(string, int) gomap"

definition LB_New :: "lb_Options \<Rightarrow> string + LoadBalancer" where
  "LB_New opts =
     (let opts = (if lo_MaxAttempts opts \<le> 0 then opts\<lparr>lo_MaxAttempts := 8\<rparr> else opts);
          opts = (if lo_Timeout opts \<le> 0 then opts\<lparr>lo_Timeout := 3 * 10 ^ 9\<rparr> else opts)
      in if lo_ReadStrategy opts \<in> {StrategyLeader, StrategyRoundRobin, StrategyFollowers}
         then Inr \<lparr>lb_opts = opts, lb_rr = 0, lb_ops = []\<rparr>
         else Inl (lo_ReadStrategy opts))"

definition ops_Inc :: "string \<Rightarrow> LoadBalancer \<Rightarrow> LoadBalancer" where
  "ops_Inc name lb = lb\<lparr>lb_ops := gm_add name 1 (lb_ops lb)\<rparr>"

text \<open>A duration of \<open>25ms << attempt\<close> wraps around; the comparison is signed.\<close>

definition backoff :: "nat \<Rightarrow> 64 word" where
  "backoff attempt =
     (let d = push_bit attempt (25 * 10 ^ 6 :: 64 word)
      in if sint d > sint (800 * 10 ^ 6 :: 64 word) then 800 * 10 ^ 6 else d)"

definition retryable :: "int \<Rightarrow> bool" where
  "retryable code \<longleftrightarrow> code = 421 \<or> code = 409 \<or> code \<ge> 500"

definition rotate_list :: "string list \<Rightarrow> 64 word \<Rightarrow> string list" where
  "rotate_list xs n =
     (let start = unat n mod length xs in drop start xs @ take start xs)"

definition readCandidates :: "Partition \<Rightarrow> LoadBalancer \<Rightarrow> node_id list \<times> LoadBalancer" where
  "readCandidates p lb =
     (let replicas = ReadReplicas p; strategy = lo_ReadStrategy (lb_opts lb); rr = lb_rr lb + 1 in
      if length replicas \<le> 1 \<or> strategy = StrategyLeader \<or> p_Leader p = '''' then (replicas, lb)
      else if strategy = StrategyFollowers
      then (rotate_list (p_Followers p) rr @ [p_Leader p], lb\<lparr>lb_rr := rr\<rparr>)
      else (rotate_list replicas rr, lb\<lparr>lb_rr := rr\<rparr>))"

datatype http_result =
    HttpFailed string                       \<comment> \<open>no response\<close>
  | HttpResponse int string "string option" \<comment> \<open>status, body, error while reading the body\<close>

record http_request =
  hq_method :: string
  hq_address :: string
  hq_path :: string
  hq_ref :: PartitionRef
  hq_key :: key
  hq_payload :: "string option"

text \<open>What the balancer sees in one attempt.\<close>

record attempt_env =
  ae_alive :: bool \<comment> \<open>the request was not cancelled during the pause before it\<close>
  ae_layout :: "Layout option"
  ae_nodes :: "(node_id, Node) gomap"
  ae_http :: "http_request \<Rightarrow> http_result"

datatype forward_error = NotRegistered node_id | SendFailed node_id string | BodyFailed string

datatype last_error =
    NoAttempt
  | NoRoutingTable
  | NoWritableLeader PartitionRef
  | NoReadableReplica PartitionRef
  | ForwardFailed forward_error
  | NodeAnswered node_id int string

datatype lb_response =
    Answer int string
  | Unavailable last_error \<comment> \<open>503\<close>
  | Cancelled
  | Panicked

definition forward ::
  "attempt_env \<Rightarrow> string \<Rightarrow> string \<Rightarrow> node_id \<Rightarrow> PartitionRef \<Rightarrow> key \<Rightarrow> string option \<Rightarrow> LoadBalancer \<Rightarrow>
   (forward_error + int \<times> string) \<times> LoadBalancer" where
  "forward env method path n ref k payload lb =
     (case map_of (ae_nodes env) n of
        None \<Rightarrow> (Inl (NotRegistered n), lb)
      | Some node \<Rightarrow>
          let lb = ops_Inc (''node.'' @ n) lb in
          case ae_http env \<lparr>hq_method = method, hq_address = n_Address node, hq_path = path, hq_ref = ref,
                            hq_key = k, hq_payload = payload\<rparr> of
            HttpFailed e \<Rightarrow> (Inl (SendFailed n e), ops_Inc (''node.'' @ n @ ''.error'') lb)
          | HttpResponse code body (Some e) \<Rightarrow> (Inl (BodyFailed e), lb)
          | HttpResponse code body None \<Rightarrow> (Inr (code, body), lb))"

definition finish :: "string \<Rightarrow> int \<Rightarrow> string \<Rightarrow> LoadBalancer \<Rightarrow> lb_response \<times> LoadBalancer" where
  "finish op code body lb =
     (Answer code body,
      ops_Inc (op @ (if code = 200 then ''.ok'' else if code = 404 then ''.notfound'' else ''.error'')) lb)"

text \<open>The counters and the pause at the start of an attempt; \<open>None\<close> when it was cancelled.\<close>

definition begin_attempt :: "(nat \<Rightarrow> attempt_env) \<Rightarrow> string \<Rightarrow> nat \<Rightarrow> LoadBalancer \<Rightarrow> bool \<times> LoadBalancer" where
  "begin_attempt env op a lb =
     (if a > 0 then (ae_alive (env a), ops_Inc (op @ ''.retry'') lb) else (True, lb))"

fun write_loop ::
  "(nat \<Rightarrow> attempt_env) \<Rightarrow> string \<Rightarrow> string \<Rightarrow> key \<Rightarrow> string \<Rightarrow> nat \<Rightarrow> nat \<Rightarrow> last_error \<Rightarrow> LoadBalancer \<Rightarrow>
   lb_response \<times> LoadBalancer" where
  "write_loop env op method k payload 0 a lastErr lb = (Unavailable lastErr, ops_Inc (op @ ''.failed'') lb)"
| "write_loop env op method k payload (Suc n) a lastErr lb =
     (case begin_attempt env op a lb of
        (False, lb) \<Rightarrow> (Cancelled, lb)
      | (True, lb) \<Rightarrow>
          (case Route (ae_layout (env a)) k of
             None \<Rightarrow> (Panicked, lb)
           | Some (ref, None) \<Rightarrow> write_loop env op method k payload n (a + 1) NoRoutingTable lb
           | Some (ref, Some p) \<Rightarrow>
               if \<not> Writable p then write_loop env op method k payload n (a + 1) (NoWritableLeader ref) lb
               else
                 (case forward (env a) method (''/'' @ op) (p_Leader p) ref k (Some payload) lb of
                    (Inl e, lb) \<Rightarrow> write_loop env op method k payload n (a + 1) (ForwardFailed e) lb
                  | (Inr (code, body), lb) \<Rightarrow>
                      if retryable code
                      then write_loop env op method k payload n (a + 1) (NodeAnswered (p_Leader p) code body) lb
                      else finish op code body lb)))"

definition lb_write ::
  "(nat \<Rightarrow> attempt_env) \<Rightarrow> string \<Rightarrow> string \<Rightarrow> key \<Rightarrow> string \<Rightarrow> LoadBalancer \<Rightarrow> lb_response \<times> LoadBalancer" where
  "lb_write env op method k payload lb =
     write_loop env op method k payload (nat (lo_MaxAttempts (lb_opts lb))) 0 NoAttempt lb"

fun try_candidates ::
  "attempt_env \<Rightarrow> PartitionRef \<Rightarrow> key \<Rightarrow> node_id list \<Rightarrow> last_error \<Rightarrow> LoadBalancer \<Rightarrow>
   (last_error + int \<times> string) \<times> LoadBalancer" where
  "try_candidates env ref k [] lastErr lb = (Inl lastErr, lb)"
| "try_candidates env ref k (n # ns) lastErr lb =
     (case forward env ''GET'' ''/get'' n ref k None lb of
        (Inl e, lb) \<Rightarrow> try_candidates env ref k ns (ForwardFailed e) lb
      | (Inr (code, body), lb) \<Rightarrow>
          if retryable code then try_candidates env ref k ns (NodeAnswered n code body) lb
          else (Inr (code, body), lb))"

fun get_loop ::
  "(nat \<Rightarrow> attempt_env) \<Rightarrow> key \<Rightarrow> nat \<Rightarrow> nat \<Rightarrow> last_error \<Rightarrow> LoadBalancer \<Rightarrow> lb_response \<times> LoadBalancer" where
  "get_loop env k 0 a lastErr lb = (Unavailable lastErr, ops_Inc ''get.failed'' lb)"
| "get_loop env k (Suc n) a lastErr lb =
     (case begin_attempt env ''get'' a lb of
        (False, lb) \<Rightarrow> (Cancelled, lb)
      | (True, lb) \<Rightarrow>
          (case Route (ae_layout (env a)) k of
             None \<Rightarrow> (Panicked, lb)
           | Some (ref, None) \<Rightarrow> get_loop env k n (a + 1) NoRoutingTable lb
           | Some (ref, Some p) \<Rightarrow>
               (case readCandidates p lb of
                  (cs, lb) \<Rightarrow>
                    if cs = [] then get_loop env k n (a + 1) (NoReadableReplica ref) lb
                    else
                      (case try_candidates (env a) ref k cs lastErr lb of
                         (Inl e, lb) \<Rightarrow> get_loop env k n (a + 1) e lb
                       | (Inr (code, body), lb) \<Rightarrow> finish ''get'' code body lb))))"

text \<open>The handlers: method and body checks, then the loops. \<open>None\<close> is a body that does not decode.\<close>

definition lb_handleSet ::
  "(nat \<Rightarrow> attempt_env) \<Rightarrow> string \<Rightarrow> (key \<times> string) option \<Rightarrow> string \<Rightarrow> LoadBalancer \<Rightarrow> lb_response \<times> LoadBalancer" where
  "lb_handleSet env method data payload lb =
     (if method \<noteq> ''POST'' then (Answer 405 ''Method not allowed'', lb)
      else case data of
             None \<Rightarrow> (Answer 400 ''bad body'', lb)
           | Some (k, v) \<Rightarrow> if k = '''' then (Answer 400 ''bad body'', lb)
                             else lb_write env ''set'' ''POST'' k payload lb)"

definition lb_handleDelete ::
  "(nat \<Rightarrow> attempt_env) \<Rightarrow> string \<Rightarrow> key option \<Rightarrow> string \<Rightarrow> LoadBalancer \<Rightarrow> lb_response \<times> LoadBalancer" where
  "lb_handleDelete env method data payload lb =
     (if method \<noteq> ''DELETE'' then (Answer 405 ''Method not allowed'', lb)
      else case data of
             None \<Rightarrow> (Answer 400 ''bad body'', lb)
           | Some k \<Rightarrow> if k = '''' then (Answer 400 ''bad body'', lb)
                        else lb_write env ''delete'' ''DELETE'' k payload lb)"

definition lb_handleGet ::
  "(nat \<Rightarrow> attempt_env) \<Rightarrow> string \<Rightarrow> key \<Rightarrow> LoadBalancer \<Rightarrow> lb_response \<times> LoadBalancer" where
  "lb_handleGet env method k lb =
     (if method \<noteq> ''GET'' then (Answer 405 ''Method not allowed'', lb)
      else if k = '''' then (Answer 400 ''Key parameter required'', lb)
      else get_loop env k (nat (lo_MaxAttempts (lb_opts lb))) 0 NoAttempt lb)"

section \<open>Client\<close>

record Client =
  c_endpoints :: "string list"
  c_next :: "64 word"
  c_retries :: int
  c_MaxRetries :: int
  c_BaseBackoff :: "64 word"
  c_MaxBackoff :: "64 word"

text \<open>\<open>New\<close> trims the endpoints (white space of ASCII), drops empty ones and adds a scheme.\<close>

definition is_space :: "char \<Rightarrow> bool" where
  "is_space c \<longleftrightarrow> of_char c \<in> {9, 10, 11, 12, 13, 32 :: nat}"

definition TrimSpace :: "string \<Rightarrow> string" where
  "TrimSpace s = rev (dropWhile is_space (rev (dropWhile is_space s)))"

definition TrimRight :: "string \<Rightarrow> char \<Rightarrow> string" where
  "TrimRight s c = rev (dropWhile (\<lambda>x. x = c) (rev s))"

fun Contains :: "string \<Rightarrow> string \<Rightarrow> bool" where
  "Contains [] t = (t = [])"
| "Contains (c # s) t = (prefix t (c # s) \<or> Contains s t)"

definition clean_endpoint :: "string \<Rightarrow> string list" where
  "clean_endpoint e0 =
     (let e = TrimRight (TrimSpace e0) CHR ''/'' in
      if e = '''' then [] else [if Contains e ''://'' then e else ''http://'' @ e])"

definition client_New :: "string list \<Rightarrow> Client" where
  "client_New endpoints =
     \<lparr>c_endpoints = concat (map clean_endpoint endpoints), c_next = 0, c_retries = 0, c_MaxRetries = 8,
      c_BaseBackoff = 100 * 10 ^ 6, c_MaxBackoff = 2 * 10 ^ 9\<rparr>"

datatype once_result =
    OnceOk
  | OnceHttp int       \<comment> \<open>\<open>httpError\<close> with its code\<close>
  | OnceFailed string  \<comment> \<open>connection or decoding error\<close>

datatype client_error =
    NoEndpoints
  | ErrNotFound
  | ClientHttp int
  | ContextDone
  | GivingUp nat once_result

text \<open>
  The environment of the loop: the result of \<open>once\<close> for an attempt at an endpoint, and whether the
  context is done after the call and after the pause of an attempt.
\<close>

record client_env =
  ce_once :: "nat \<Rightarrow> string \<Rightarrow> once_result"
  ce_done_call :: "nat \<Rightarrow> bool"
  ce_done_pause :: "nat \<Rightarrow> bool"

definition client_delay :: "nat \<Rightarrow> Client \<Rightarrow> 64 word" where
  "client_delay attempt c =
     (let delay = push_bit attempt (c_BaseBackoff c)
      in if sint delay > sint (c_MaxBackoff c) \<or> sint delay \<le> 0 then c_MaxBackoff c else delay)"

definition client_endpoint :: "64 word \<Rightarrow> nat \<Rightarrow> Client \<Rightarrow> string" where
  "client_endpoint start attempt c =
     c_endpoints c ! unat ((start + of_nat attempt) mod of_nat (length (c_endpoints c)))"

function client_loop ::
  "client_env \<Rightarrow> 64 word \<Rightarrow> nat \<Rightarrow> Client \<Rightarrow> client_error option \<times> Client" where
  "client_loop env start a c =
     (let lastErr = ce_once env a (client_endpoint start a c) in
      if lastErr = OnceOk then (None, c)
      else if lastErr = OnceHttp 404 then (Some ErrNotFound, c)
      else if (case lastErr of OnceHttp code \<Rightarrow> code < 500 | _ \<Rightarrow> False)
      then (Some (ClientHttp (case lastErr of OnceHttp code \<Rightarrow> code | _ \<Rightarrow> 0)), c)
      else if ce_done_call env a then (Some ContextDone, c)
      else if int a \<ge> c_MaxRetries c then (Some (GivingUp (a + 1) lastErr), c)
      else let c = c\<lparr>c_retries := c_retries c + 1\<rparr> in
        if ce_done_pause env a then (Some ContextDone, c)
        else client_loop env start (a + 1) c)"
  by pat_completeness auto
termination by (relation "measure (\<lambda>(_, _, a, c). nat (c_MaxRetries c - int a))") auto

declare client_loop.simps [simp del]

definition client_do :: "client_env \<Rightarrow> Client \<Rightarrow> client_error option \<times> Client" where
  "client_do env c =
     (if c_endpoints c = [] then (Some NoEndpoints, c)
      else let start = c_next c + 1 in client_loop env start 0 (c\<lparr>c_next := start\<rparr>))"

section \<open>Reads\<close>

lemma mset_rotate_list [simp]: "mset (rotate_list xs n) = mset xs"
  by (metis append_take_drop_id mset_append rotate_list_def union_commute)

lemma set_rotate_list [simp]: "set (rotate_list xs n) = set xs"
  by (metis mset_rotate_list set_mset_mset)

lemma length_rotate_list [simp]: "length (rotate_list xs n) = length xs"
  by (metis mset_rotate_list size_mset)

lemma hd_rotate_list: "xs \<noteq> [] \<Longrightarrow> hd (rotate_list xs n) = xs ! (unat n mod length xs)"
proof -
  assume "xs \<noteq> []"
  then have "unat n mod length xs < length xs" by simp
  then show ?thesis by (simp add: rotate_list_def Let_def hd_append hd_drop_conv_nth)
qed

lemma readCandidates_mset: "mset (fst (readCandidates p lb)) = mset (ReadReplicas p)"
  by (simp add: readCandidates_def ReadReplicas_def Let_def)

text \<open>
  Every strategy tries each readable replica (the leader and the in-sync followers) exactly
  once; it only chooses the order. With a leader, the \<open>leader\<close> strategy starts with it and the
  \<open>followers\<close> strategy ends with it. The rotation never divides by zero.
\<close>

theorem readCandidates_complete:
  "mset (fst (readCandidates p lb)) = mset (ReadReplicas p) \<and>
   (p_Leader p \<noteq> '''' \<and> lo_ReadStrategy (lb_opts lb) = StrategyLeader \<longrightarrow>
      hd (fst (readCandidates p lb)) = p_Leader p) \<and>
   (p_Leader p \<noteq> '''' \<and> lo_ReadStrategy (lb_opts lb) = StrategyFollowers \<longrightarrow>
      last (fst (readCandidates p lb)) = p_Leader p) \<and>
   (snd (readCandidates p lb) \<noteq> lb \<longrightarrow> p_Followers p \<noteq> [] \<and> ReadReplicas p \<noteq> [])"
  by (simp add: readCandidates_mset)
    (auto simp: readCandidates_def ReadReplicas_def Let_def StrategyFollowers_def StrategyLeader_def)

lemma inj_on_add_mod: "inj_on (\<lambda>i. (k + i) mod n) {..<n :: nat}"
proof (rule linorder_inj_onI)
  fix i j :: nat assume "i < j" "i \<in> {..<n}" "j \<in> {..<n}"
  then have "\<not> n dvd (k + j) - (k + i)" by (simp add: nat_dvd_not_less)
  then show "(k + i) mod n \<noteq> (k + j) mod n"
    using \<open>i < j\<close> by (metis add_le_mono le_refl less_imp_le mod_eq_dvd_iff_nat)
qed auto

text \<open>
  Round-robin is fair: over as many consecutive reads as there are replicas, each of them is
  tried first exactly once (as long as the 64-bit counter does not wrap in between).
\<close>

theorem round_robin_fair:
  assumes "distinct xs" and "x \<in> set xs" and "unat c + length xs < 2 ^ 64"
  shows "\<exists>!i. i < length xs \<and> hd (rotate_list xs (c + of_nat (Suc i))) = x"
proof -
  let ?n = "length xs"
  from assms(2) have ne: "xs \<noteq> []" by auto
  from assms(2) obtain j where j: "j < ?n" "xs ! j = x" by (auto simp: in_set_conv_nth)
  have u: "unat (c + of_nat (Suc i)) = unat c + Suc i" if "i < ?n" for i
  proof -
    have "unat (of_nat (Suc i) :: 64 word) = Suc i"
      using that assms(3) by (simp add: unat_of_nat del: of_nat_Suc)
    then show ?thesis using that assms(3) by (simp add: unat_word_ariths del: of_nat_Suc)
  qed
  have hd: "hd (rotate_list xs (c + of_nat (Suc i))) = x \<longleftrightarrow> (unat c + Suc i) mod ?n = j" if "i < ?n" for i
    unfolding hd_rotate_list [OF ne] u [OF that]
    using j assms(1) ne by (metis length_greater_0_conv mod_less_divisor nth_eq_iff_index_eq)
  let ?f = "\<lambda>i. (unat c + Suc i) mod ?n"
  have inj: "inj_on ?f {..<?n}" using inj_on_add_mod [of "Suc (unat c)" ?n] by simp
  moreover have "?f ` {..<?n} \<subseteq> {..<?n}" using ne by auto
  ultimately have "?f ` {..<?n} = {..<?n}" by (rule endo_inj_surj [OF finite_lessThan, rotated])
  with j(1) have "j \<in> ?f ` {..<?n}" by simp
  then obtain i where i: "i < ?n" "?f i = j" by auto
  show ?thesis
  proof (rule ex1I [of _ i])
    show "i < ?n \<and> hd (rotate_list xs (c + of_nat (Suc i))) = x" using i hd by simp
    fix i' assume "i' < ?n \<and> hd (rotate_list xs (c + of_nat (Suc i'))) = x"
    with i hd [of i'] inj show "i' = i" by (auto dest: inj_onD)
  qed
qed

section \<open>Pauses\<close>

lemma sint_push_bit_small:
  assumes "w * 2 ^ a < 2 ^ 63" and "0 \<le> w"
  shows "sint (push_bit a (of_int w :: 64 word)) = w * 2 ^ a"
proof -
  have "push_bit a (of_int w :: 64 word) = of_int (w * 2 ^ a)" by (simp add: push_bit_eq_mult)
  then have "sint (push_bit a (of_int w :: 64 word)) = signed_take_bit 63 (w * 2 ^ a)"
    by (simp add: sint_sbintrunc' del: of_int_mult of_int_power)
  also have "\<dots> = w * 2 ^ a"
    using assms by (intro signed_take_bit_int_eq_self) (auto intro: order_trans [of _ 0])
  finally show ?thesis .
qed

lemma sint_push_bit_dvd:
  assumes "n \<le> a" and "n \<le> 64"
  shows "2 ^ n dvd sint (push_bit a w :: 64 word)"
proof -
  have "take_bit n (sint (push_bit a w)) = 0"
    using assms by (intro bit_eqI) (auto simp: bit_take_bit_iff bit_sint_iff bit_push_bit_iff)
  then show ?thesis by (simp add: take_bit_eq_0_iff)
qed

text \<open>
  The pause before a retry is positive and at most 800 ms for every attempt up to 38, so for the
  default of 8 attempts. From attempt 39 on (\<open>-attempts\<close> is a free parameter) the shift overflows 64
  bits: at 39 the pause is negative, which a timer treats as none, and from 58 on it is zero.
\<close>

lemma backoff_bounds:
  "(\<forall>a \<le> 38. 0 < sint (backoff a) \<and> sint (backoff a) \<le> 800 * 10 ^ 6) \<and>
   sint (backoff 39) < 0 \<and> (\<forall>a \<ge> 58. backoff a = 0)"
proof -
  have "0 < sint (backoff a) \<and> sint (backoff a) \<le> 800 * 10 ^ 6" if "a \<le> 38" for a
  proof -
    have "(2 :: int) ^ a \<le> 2 ^ 38" using that by (intro power_increasing) auto
    then have lt: "25 * 10 ^ 6 * 2 ^ a < (2 :: int) ^ 63" by simp
    then have "sint (push_bit a (25 * 10 ^ 6 :: 64 word)) = 25 * 10 ^ 6 * 2 ^ a"
      using sint_push_bit_small [of "25 * 10 ^ 6" a] by simp
    moreover have "sint (800 * 10 ^ 6 :: 64 word) = 800 * 10 ^ 6" by code_simp
    ultimately show ?thesis by (auto simp: backoff_def Let_def)
  qed
  moreover have "sint (backoff 39) < 0" by code_simp
  moreover have "backoff a = 0" if "58 \<le> a" for a
  proof -
    from that obtain b where "a = 58 + b" using le_Suc_ex by blast
    then have "push_bit a (25 * 10 ^ 6 :: 64 word) = push_bit b (push_bit 58 (25 * 10 ^ 6))"
      by (simp only: push_bit_push_bit add.commute)
    also have "push_bit 58 (25 * 10 ^ 6 :: 64 word) = 0" by code_simp
    finally show ?thesis by (simp add: backoff_def Let_def)
  qed
  ultimately show ?thesis by blast
qed

text \<open>
  The client pauses exactly \<open>min (100 ms * 2^a) 2 s\<close> before attempt \<open>a + 1\<close>, for every \<open>a\<close>: where
  the shift overflows 64 bits the result is negative, zero or far above the limit, never a short pause.
\<close>

theorem client_delay_exact:
  "sint (client_delay a (client_New es)) = (if a < 5 then 100 * 10 ^ 6 * 2 ^ a else 2 * 10 ^ 9)"
proof -
  let ?s = "sint (push_bit a (100 * 10 ^ 6 :: 64 word))"
  have max: "sint (2 * 10 ^ 9 :: 64 word) = 2 * 10 ^ 9" by code_simp
  have pos: "?s = 100 * 10 ^ 6 * 2 ^ a" if "a < 31"
  proof -
    have "(2 :: int) ^ a \<le> 2 ^ 30" using that by (intro power_increasing) auto
    then show ?thesis using sint_push_bit_small [of "100 * 10 ^ 6" a] by simp
  qed
  have "(100 * 10 ^ 6 * 2 ^ a > (2 * 10 ^ 9 :: int)) = (5 \<le> a)"
  proof
    assume "5 \<le> a" then have "(2 :: int) ^ 5 \<le> 2 ^ a" by (intro power_increasing) auto
    then show "100 * 10 ^ 6 * 2 ^ a > (2 * 10 ^ 9 :: int)" by simp
  next
    assume l: "100 * 10 ^ 6 * 2 ^ a > (2 * 10 ^ 9 :: int)"
    have "(2 :: int) ^ a \<le> 2 ^ 4" if "a < 5" using that by (intro power_increasing) auto
    with l show "5 \<le> a" by (cases "a < 5") auto
  qed
  moreover have "?s > 2 * 10 ^ 9 \<or> ?s \<le> 0" if "31 \<le> a"
  proof -
    have "2 ^ 31 dvd ?s" using that by (intro sint_push_bit_dvd) simp_all
    then have "2 ^ 31 \<le> ?s" if "0 < ?s" using that by (rule zdvd_imp_le)
    then show ?thesis by fastforce
  qed
  ultimately show ?thesis
    using pos max by (cases "a < 31") (auto simp: client_delay_def client_New_def Let_def)
qed
text \<open>Every endpoint the client keeps has a scheme and no trailing slash.\<close>

lemma Contains_iff: "Contains s t \<longleftrightarrow> sublist t s"
  by (induction s) (auto simp: sublist_Cons_right)

lemma TrimRight_last: "TrimRight s c \<noteq> [] \<Longrightarrow> last (TrimRight s c) \<noteq> c"
  unfolding TrimRight_def by (metis (full_types) hd_dropWhile last_rev rev_is_Nil_conv)

lemma client_New_endpoints:
  assumes "e \<in> set (c_endpoints (client_New es))"
  shows "Contains e ''://'' \<and> last e \<noteq> CHR ''/''"
  using assms TrimRight_last
  by (auto simp: client_New_def clean_endpoint_def Contains_iff Let_def sublist_Cons_right split: if_splits)

section \<open>Retry loops\<close>

text \<open>What a node answers, and what one attempt of a write yields, whatever the counters.\<close>

definition node_answer ::
  "attempt_env \<Rightarrow> string \<Rightarrow> string \<Rightarrow> node_id \<Rightarrow> PartitionRef \<Rightarrow> key \<Rightarrow> string option \<Rightarrow> forward_error + int \<times> string" where
  "node_answer env method path n ref k payload =
     (case map_of (ae_nodes env) n of
        None \<Rightarrow> Inl (NotRegistered n)
      | Some node \<Rightarrow>
          (case ae_http env \<lparr>hq_method = method, hq_address = n_Address node, hq_path = path, hq_ref = ref,
                             hq_key = k, hq_payload = payload\<rparr> of
             HttpFailed e \<Rightarrow> Inl (SendFailed n e)
           | HttpResponse code body (Some e) \<Rightarrow> Inl (BodyFailed e)
           | HttpResponse code body None \<Rightarrow> Inr (code, body)))"

lemma forward_answer:
  obtains lb' where "forward env method path n ref k payload lb = (node_answer env method path n ref k payload, lb')"
proof -
  have "fst (forward env method path n ref k payload lb) = node_answer env method path n ref k payload"
    by (simp add: forward_def node_answer_def Let_def split: option.split http_result.split)
  then show ?thesis by (metis prod.collapse that)
qed

definition write_attempt :: "attempt_env \<Rightarrow> string \<Rightarrow> string \<Rightarrow> key \<Rightarrow> string \<Rightarrow> last_error + int \<times> string" where
  "write_attempt env op method k payload =
     (case Route (ae_layout env) k of
        Some (ref, Some p) \<Rightarrow>
          if \<not> Writable p then Inl (NoWritableLeader ref)
          else (case node_answer env method (''/'' @ op) (p_Leader p) ref k (Some payload) of
                  Inl e \<Rightarrow> Inl (ForwardFailed e)
                | Inr (code, body) \<Rightarrow>
                    if retryable code then Inl (NodeAnswered (p_Leader p) code body) else Inr (code, body))
      | _ \<Rightarrow> Inl NoRoutingTable)"

text \<open>The loop without its counters: the first attempt that yields an answer decides.\<close>

fun first_answer :: "(nat \<Rightarrow> last_error + int \<times> string) \<Rightarrow> nat \<Rightarrow> nat \<Rightarrow> last_error \<Rightarrow> lb_response" where
  "first_answer f 0 a e = Unavailable e"
| "first_answer f (Suc n) a e =
     (case f a of Inl e' \<Rightarrow> first_answer f n (a + 1) e' | Inr (code, body) \<Rightarrow> Answer code body)"

lemma first_answer_Answer:
  "first_answer f n a e = Answer code body \<longleftrightarrow>
   (\<exists>b. a \<le> b \<and> b < a + n \<and> f b = Inr (code, body) \<and> (\<forall>c. a \<le> c \<and> c < b \<longrightarrow> isl (f c)))"
proof (induction n arbitrary: a e)
  case (Suc n)
  show ?case
  proof (cases "f a")
    case (Inl e')
    have "(\<exists>b. a \<le> b \<and> b < a + Suc n \<and> f b = Inr (code, body) \<and> (\<forall>c. a \<le> c \<and> c < b \<longrightarrow> isl (f c))) \<longleftrightarrow>
      (\<exists>b. a + 1 \<le> b \<and> b < a + 1 + n \<and> f b = Inr (code, body) \<and> (\<forall>c. a + 1 \<le> c \<and> c < b \<longrightarrow> isl (f c)))"
      (is "?L \<longleftrightarrow> ?R")
    proof
      assume ?L
      then obtain b where b: "a \<le> b" "b < a + Suc n" "f b = Inr (code, body)" "\<forall>c. a \<le> c \<and> c < b \<longrightarrow> isl (f c)" by blast
      moreover from b Inl have "a \<noteq> b" by auto
      ultimately show ?R by (intro exI [of _ b]) auto
    next
      assume ?R
      then obtain b where b: "a + 1 \<le> b" "b < a + 1 + n" "f b = Inr (code, body)"
        "\<forall>c. a + 1 \<le> c \<and> c < b \<longrightarrow> isl (f c)" by blast
      have "isl (f c)" if "a \<le> c" "c < b" for c
        using that b(4) Inl by (cases "c = a") auto
      with b show ?L by (intro exI [of _ b]) auto
    qed
    with Inl Suc.IH [of "a + 1" e'] show ?thesis by simp
  next
    case (Inr cb)
    have "(\<exists>b. a \<le> b \<and> b < a + Suc n \<and> f b = Inr (code, body) \<and> (\<forall>c. a \<le> c \<and> c < b \<longrightarrow> isl (f c))) \<longleftrightarrow> cb = (code, body)"
    proof
      assume "\<exists>b. a \<le> b \<and> b < a + Suc n \<and> f b = Inr (code, body) \<and> (\<forall>c. a \<le> c \<and> c < b \<longrightarrow> isl (f c))"
      then obtain b where b: "a \<le> b" "f b = Inr (code, body)" "\<forall>c. a \<le> c \<and> c < b \<longrightarrow> isl (f c)" by blast
      have "\<not> a < b" using b(3) Inr by auto
      with b(1) have "a = b" by simp
      with b Inr show "cb = (code, body)" by simp
    qed (use Inr in auto)
    with Inr show ?thesis by (cases cb) simp
  qed
qed auto

lemma first_answer_Unavailable:
  assumes "\<forall>b. a \<le> b \<and> b < a + n \<longrightarrow> isl (f b)" and "0 < n"
  shows "first_answer f n a e = Unavailable (projl (f (a + n - 1)))"
  using assms
proof (induction n arbitrary: a e)
  case (Suc n)
  then have "isl (f a)" by simp
  then obtain e' where "f a = Inl e'" by (auto simp: isl_def)
  with Suc show ?case by (cases n) auto
qed simp

lemma begin_attempt_alive:
  assumes "0 < a \<longrightarrow> ae_alive (env a)"
  obtains lb' where "begin_attempt env op a lb = (True, lb')"
  using assms by (cases "0 < a") (auto simp: begin_attempt_def)

lemma write_loop_first:
  assumes "\<forall>b. a \<le> b \<and> b < a + n \<longrightarrow> Route (ae_layout (env b)) k \<noteq> None \<and> (0 < b \<longrightarrow> ae_alive (env b))"
  shows "fst (write_loop env op method k payload n a lastErr lb) =
    first_answer (\<lambda>b. write_attempt (env b) op method k payload) n a lastErr"
  using assms
proof (induction n arbitrary: a lastErr lb)
  case (Suc n)
  then obtain lb1 where b: "begin_attempt env op a lb = (True, lb1)"
    by (rule_tac begin_attempt_alive [of a env op lb]) auto
  from Suc.prems obtain ref po where r: "Route (ae_layout (env a)) k = Some (ref, po)" by fastforce
  have IH: "fst (write_loop env op method k payload n (a + 1) e lb') =
    first_answer (\<lambda>b. write_attempt (env b) op method k payload) n (a + 1) e" for e lb'
    using Suc by simp
  show ?case
  proof (cases po)
    case None
    with b r IH show ?thesis by (simp add: write_attempt_def)
  next
    case (Some p)
    obtain lb2 where f: "forward (env a) method (''/'' @ op) (p_Leader p) ref k (Some payload) lb1 =
      (node_answer (env a) method (''/'' @ op) (p_Leader p) ref k (Some payload), lb2)"
      by (rule forward_answer)
    from b r Some f IH show ?thesis
      by (simp add: write_attempt_def finish_def split: sum.split)
  qed
qed simp

text \<open>
  C34. A write is answered by the first attempt that gets a definite answer from the leader of a
  writable partition, as the layout of that attempt routes the key; every earlier attempt found no
  route, no writable leader, an unreachable node or a retryable status. If no attempt gets one, the
  client is told 503 with the last reason. (The request is not cancelled, and routing does not panic.)
\<close>

theorem lb_write_outcome:
  assumes "\<forall>b < n. Route (ae_layout (env b)) k \<noteq> None \<and> (0 < b \<longrightarrow> ae_alive (env b))"
    and "n = nat (lo_MaxAttempts (lb_opts lb))" and "0 < n"
  shows "(fst (lb_write env op method k payload lb) = Answer code body \<longleftrightarrow>
      (\<exists>a < n. write_attempt (env a) op method k payload = Inr (code, body) \<and>
        (\<forall>b < a. isl (write_attempt (env b) op method k payload)))) \<and>
    ((\<forall>a < n. isl (write_attempt (env a) op method k payload)) \<longrightarrow>
      fst (lb_write env op method k payload lb) =
        Unavailable (projl (write_attempt (env (n - 1)) op method k payload)))"
proof -
  let ?f = "\<lambda>b. write_attempt (env b) op method k payload"
  have "fst (lb_write env op method k payload lb) = first_answer ?f n 0 NoAttempt"
    unfolding lb_write_def assms(2) [symmetric] using assms(1) by (intro write_loop_first) simp
  then show ?thesis
    using first_answer_Answer [of ?f n 0 NoAttempt code body] first_answer_Unavailable [of 0 n ?f NoAttempt] assms(3)
    by simp
qed

lemma try_candidates_spec:
  "case fst (try_candidates env ref k cs e lb) of
     Inl e' \<Rightarrow> \<forall>n \<in> set cs. case node_answer env ''GET'' ''/get'' n ref k None of Inl _ \<Rightarrow> True | Inr (code, _) \<Rightarrow> retryable code
   | Inr (code, body) \<Rightarrow> \<not> retryable code \<and> (\<exists>n \<in> set cs. node_answer env ''GET'' ''/get'' n ref k None = Inr (code, body))"
proof (induction cs arbitrary: e lb)
  case (Cons n cs)
  obtain lb1 where f: "forward env ''GET'' ''/get'' n ref k None lb = (node_answer env ''GET'' ''/get'' n ref k None, lb1)"
    by (rule forward_answer)
  show ?case
  proof (cases "node_answer env ''GET'' ''/get'' n ref k None")
    case (Inl e')
    with f Cons [of "ForwardFailed e'" lb1] show ?thesis by (auto split: sum.splits)
  next
    case (Inr cb)
    obtain code body where cb: "cb = (code, body)" by (cases cb)
    show ?thesis
    proof (cases "retryable code")
      case True
      with f Inr cb Cons [of "NodeAnswered n code body" lb1] show ?thesis by (auto split: sum.splits)
    next
      case False
      with f Inr cb show ?thesis by auto
    qed
  qed
qed simp

text \<open>
  C35. Reads stay available: if the layout the balancer has routes the key to a partition and any of its
  readable replicas gives a definite answer, the read is answered in the first attempt, with the
  answer of one of these replicas, whatever the strategy and however many others fail.
\<close>

theorem lb_read_available:
  assumes "k \<noteq> ''''" and "0 < lo_MaxAttempts (lb_opts lb)"
    and "Route (ae_layout (env 0)) k = Some (ref, Some p)" and "n \<in> set (ReadReplicas p)"
    and "node_answer (env 0) ''GET'' ''/get'' n ref k None = Inr (code, body)" and "\<not> retryable code"
  shows "\<exists>m \<in> set (ReadReplicas p). \<exists>code' body'.
    node_answer (env 0) ''GET'' ''/get'' m ref k None = Inr (code', body') \<and> \<not> retryable code' \<and>
    fst (lb_handleGet env ''GET'' k lb) = Answer code' body'"
proof -
  obtain cs lb1 where c: "readCandidates p lb = (cs, lb1)" by fastforce
  have set: "set cs = set (ReadReplicas p)"
    using readCandidates_mset [of p lb] c by (metis fst_conv set_mset_mset)
  obtain r lb2 where t: "try_candidates (env 0) ref k cs NoAttempt lb1 = (r, lb2)" by fastforce
  note spec = try_candidates_spec [where env = "env 0" and ref = ref and k = k and cs = cs and e = NoAttempt and lb = lb1, unfolded t, simplified]
  have "\<not> isl r" using spec assms(4,5,6) set by (auto split: sum.splits)
  then obtain code' body' where r: "r = Inr (code', body')" by (cases r) auto
  with spec obtain m where "m \<in> set cs" "node_answer (env 0) ''GET'' ''/get'' m ref k None = Inr (code', body')"
    "\<not> retryable code'" by auto
  moreover obtain j where "nat (lo_MaxAttempts (lb_opts lb)) = Suc j" using assms(2) by (metis not0_implies_Suc zero_less_nat_eq less_numeral_extra(3))
  then have "fst (lb_handleGet env ''GET'' k lb) = Answer code' body'"
    using assms(1,3,4) c t r set by (auto simp: lb_handleGet_def begin_attempt_def finish_def)
  ultimately show ?thesis using set by blast
qed

section \<open>The client's loop\<close>

definition transient :: "once_result \<Rightarrow> bool" where
  "transient r \<longleftrightarrow> (case r of OnceOk \<Rightarrow> False | OnceHttp code \<Rightarrow> code \<ge> 500 | OnceFailed _ \<Rightarrow> True)"

definition client_attempt :: "client_env \<Rightarrow> 64 word \<Rightarrow> Client \<Rightarrow> nat \<Rightarrow> once_result" where
  "client_attempt env start c a = ce_once env a (client_endpoint start a c)"

lemma client_attempt_frame [simp]: "client_attempt env start (c\<lparr>c_retries := r\<rparr>) = client_attempt env start c"
  by (simp add: fun_eq_iff client_attempt_def client_endpoint_def)

lemma client_loop_step:
  assumes "\<forall>a. \<not> ce_done_call env a \<and> \<not> ce_done_pause env a"
  shows "client_loop env start a c =
    (if transient (client_attempt env start c a) \<and> int a < c_MaxRetries c
     then client_loop env start (a + 1) (c\<lparr>c_retries := c_retries c + 1\<rparr>)
     else (case client_attempt env start c a of
             OnceOk \<Rightarrow> None
           | OnceHttp code \<Rightarrow> Some (if code = 404 then ErrNotFound else if code < 500 then ClientHttp code
                               else GivingUp (a + 1) (OnceHttp code))
           | OnceFailed s \<Rightarrow> Some (GivingUp (a + 1) (OnceFailed s)), c))"
  using assms by (auto simp: client_loop.simps [of env start a c] transient_def client_attempt_def Let_def split: once_result.splits)

lemma client_loop_None:
  assumes "\<forall>a. \<not> ce_done_call env a \<and> \<not> ce_done_pause env a"
  shows "fst (client_loop env start a c) = None \<longleftrightarrow>
    (\<exists>b \<ge> a. (b = a \<or> int b \<le> c_MaxRetries c) \<and> client_attempt env start c b = OnceOk \<and>
      (\<forall>d. a \<le> d \<and> d < b \<longrightarrow> transient (client_attempt env start c d)))"
proof (induction "nat (c_MaxRetries c - int a)" arbitrary: a c)
  case 0
  then have lt: "\<not> int a < c_MaxRetries c" by simp
  have last: "b = a" if "a \<le> b" "int b \<le> c_MaxRetries c" for b using that lt by linarith
  show ?case
    using lt by (subst client_loop_step [OF assms]) (auto split: once_result.splits dest: last)
next
  case (Suc m)
  let ?c = "c\<lparr>c_retries := c_retries c + 1\<rparr>"
  from Suc.hyps(2) have lt: "int a < c_MaxRetries c" by simp
  show ?case
  proof (cases "transient (client_attempt env start c a)")
    case True
    have "m = nat (c_MaxRetries ?c - int (a + 1))" using Suc.hyps(2) by simp
    from Suc.hyps(1) [OF this] True lt
    have "fst (client_loop env start a c) = None \<longleftrightarrow>
      (\<exists>b \<ge> a + 1. (b = a + 1 \<or> int b \<le> c_MaxRetries c) \<and> client_attempt env start c b = OnceOk \<and>
        (\<forall>d. a + 1 \<le> d \<and> d < b \<longrightarrow> transient (client_attempt env start c d)))"
      by (simp add: client_loop_step [OF assms, of start a c])
    also have "\<dots> \<longleftrightarrow> (\<exists>b \<ge> a. (b = a \<or> int b \<le> c_MaxRetries c) \<and> client_attempt env start c b = OnceOk \<and>
      (\<forall>d. a \<le> d \<and> d < b \<longrightarrow> transient (client_attempt env start c d)))" (is "?L \<longleftrightarrow> ?R")
    proof
      assume ?L
      then obtain b where b: "a + 1 \<le> b" "b = a + 1 \<or> int b \<le> c_MaxRetries c" "client_attempt env start c b = OnceOk"
        "\<forall>d. a + 1 \<le> d \<and> d < b \<longrightarrow> transient (client_attempt env start c d)" by blast
      have "transient (client_attempt env start c d)" if "a \<le> d" "d < b" for d
        using that b(4) True by (cases "d = a") auto
      with b lt show ?R by (intro exI [of _ b]) auto
    next
      assume ?R
      then obtain b where b: "a \<le> b" "b = a \<or> int b \<le> c_MaxRetries c" "client_attempt env start c b = OnceOk"
        "\<forall>d. a \<le> d \<and> d < b \<longrightarrow> transient (client_attempt env start c d)" by blast
      from b(3) True have "b \<noteq> a" by (auto simp: transient_def)
      with b show ?L by (intro exI [of _ b]) auto
    qed
    finally show ?thesis .
  next
    case False
    have last: "b = a" if "a \<le> b" "\<forall>d < b. a \<le> d \<longrightarrow> transient (client_attempt env start c d)" for b
      using that False by (metis le_neq_implies_less order_refl)
    from False show ?thesis
      by (subst client_loop_step [OF assms]) (auto split: once_result.splits dest: last)
  qed
qed

lemma client_loop_retries:
  assumes "\<forall>a. \<not> ce_done_call env a \<and> \<not> ce_done_pause env a"
  shows "c_retries c \<le> c_retries (snd (client_loop env start a c)) \<and>
    c_retries (snd (client_loop env start a c)) \<le> c_retries c + max 0 (c_MaxRetries c - int a)"
proof (induction "nat (c_MaxRetries c - int a)" arbitrary: a c)
  case 0
  then show ?case by (subst (1 2) client_loop_step [OF assms]) simp
next
  case (Suc m)
  let ?c = "c\<lparr>c_retries := c_retries c + 1\<rparr>"
  have "m = nat (c_MaxRetries ?c - int (a + 1))" using Suc.hyps(2) by simp
  from Suc.hyps(1) [OF this] Suc.hyps(2) show ?case
    by (subst (1 2) client_loop_step [OF assms]) simp
qed

text \<open>
  C36. Without cancellation, a client operation succeeds exactly when some attempt within
  \<open>MaxRetries\<close> succeeds after nothing but transient failures (connection errors and 5xx), trying the
  balancers in turn; it makes at most \<open>MaxRetries\<close> retries, so it always returns.
\<close>

theorem client_do_outcome:
  assumes "c_endpoints c \<noteq> []" and "\<forall>a. \<not> ce_done_call env a \<and> \<not> ce_done_pause env a"
  shows "(fst (client_do env c) = None \<longleftrightarrow>
      (\<exists>b. (b = 0 \<or> int b \<le> c_MaxRetries c) \<and> client_attempt env (c_next c + 1) c b = OnceOk \<and>
        (\<forall>d < b. transient (client_attempt env (c_next c + 1) c d)))) \<and>
    c_retries (snd (client_do env c)) \<le> c_retries c + max 0 (c_MaxRetries c)"
proof -
  let ?c = "c\<lparr>c_next := c_next c + 1\<rparr>"
  have "client_attempt env (c_next c + 1) ?c = client_attempt env (c_next c + 1) c"
    by (simp add: fun_eq_iff client_attempt_def client_endpoint_def)
  then show ?thesis
    using assms client_loop_None [OF assms(2), of "c_next c + 1" 0 ?c]
      client_loop_retries [OF assms(2), of ?c "c_next c + 1" 0]
    by (simp add: client_do_def Let_def)
qed

section \<open>Concrete requests\<close>

definition example_lb :: LoadBalancer where
  "example_lb = \<lparr>lb_opts = \<lparr>lo_ReadStrategy = StrategyFollowers, lo_MaxAttempts = 2, lo_Timeout = 3\<rparr>, lb_rr = 0, lb_ops = []\<rparr>"

text \<open>\<open>node1\<close> is down, \<open>node2\<close> answers reads; in the second attempt \<open>node1\<close> is back.\<close>

definition example_env :: "nat \<Rightarrow> attempt_env" where
  "example_env a = \<lparr>ae_alive = True,
     ae_layout = Some \<lparr>l_Version = 7, l_Generation = 1, l_PartitionCount = 1, l_Partitions = [example_partition 0],
       l_Resharding = None, l_Members = []\<rparr>,
     ae_nodes = [(''node1'', \<lparr>n_ID = ''node1'', n_Address = ''a1'', n_Incarnation = 1\<rparr>),
                 (''node2'', \<lparr>n_ID = ''node2'', n_Address = ''a2'', n_Incarnation = 1\<rparr>)],
     ae_http = (\<lambda>r. if hq_address r = ''a1'' \<and> a = 0 then HttpFailed ''down'' else HttpResponse 200 ''ok'' None)\<rparr>"

lemma example_route: "Route (ae_layout (example_env a)) k = Some (PartitionRef 1 0, Some (example_partition 0))"
proof -
  have "mod_u32 h 1 = Some 0" for h
    using mod_u32_bounds [of 1 h] by auto
  then show ?thesis by (simp add: Route_def example_env_def route_current_def)
qed

theorem readCandidates_complete_witness:
  "mset (fst (readCandidates (example_partition 0) example_lb)) = mset (ReadReplicas (example_partition 0)) \<and>
   last (fst (readCandidates (example_partition 0) example_lb)) = ''node1''"
  using readCandidates_complete [of "example_partition 0" example_lb]
  by (simp add: example_partition_def example_lb_def)

theorem round_robin_fair_witness:
  "\<exists>!i. i < 3 \<and> hd (rotate_list [''a'', ''b'', ''c''] (7 + of_nat (Suc i))) = ''b''"
  using round_robin_fair [of "[''a'', ''b'', ''c'']" "''b''" 7] by (simp add: numeral_3_eq_3 del: of_nat_Suc)

definition example_client :: Client where
  "example_client = client_New [''http://lb1'', ''lb2/'']"

definition example_client_env :: client_env where
  "example_client_env = \<lparr>ce_once = (\<lambda>a e. if e = ''http://lb1'' then OnceOk else OnceFailed ''refused''),
     ce_done_call = (\<lambda>_. False), ce_done_pause = (\<lambda>_. False)\<rparr>"

theorem lb_write_outcome_witness:
  "fst (lb_write example_env ''set'' ''POST'' ''k'' ''{}'' example_lb) = Answer 200 ''ok''"
proof -
  have w: "write_attempt (example_env a) ''set'' ''POST'' ''k'' ''{}'' =
    (if a = 0 then Inl (ForwardFailed (SendFailed ''node1'' ''down'')) else Inr (200, ''ok''))" for a
    unfolding write_attempt_def example_route
    by (simp add: node_answer_def example_env_def example_partition_def Writable_def retryable_def)
  have "\<forall>b < 2. Route (ae_layout (example_env b)) ''k'' \<noteq> None \<and> (0 < b \<longrightarrow> ae_alive (example_env b))"
    by (simp add: example_route) (simp add: example_env_def)
  from lb_write_outcome [OF this, of example_lb "''set''" "''POST''" "''{}''" 200 "''ok''"]
  have "(\<exists>a < 2. write_attempt (example_env a) ''set'' ''POST'' ''k'' ''{}'' = Inr (200, ''ok'') \<and>
      (\<forall>b < a. isl (write_attempt (example_env b) ''set'' ''POST'' ''k'' ''{}''))) \<longrightarrow> ?thesis"
    by (simp add: example_lb_def)
  moreover have "\<exists>a < 2. write_attempt (example_env a) ''set'' ''POST'' ''k'' ''{}'' = Inr (200, ''ok'') \<and>
      (\<forall>b < a. isl (write_attempt (example_env b) ''set'' ''POST'' ''k'' ''{}''))"
    by (rule exI [of _ 1]) (simp add: w)
  ultimately show ?thesis by blast
qed

theorem lb_read_available_witness:
  "\<exists>m \<in> {''node1'', ''node2''}. \<exists>code' body'.
    node_answer (example_env 0) ''GET'' ''/get'' m (PartitionRef 1 0) ''k'' None = Inr (code', body') \<and>
    \<not> retryable code' \<and> fst (lb_handleGet example_env ''GET'' ''k'' example_lb) = Answer code' body'"
proof -
  have "node_answer (example_env 0) ''GET'' ''/get'' ''node2'' (PartitionRef 1 0) ''k'' None = Inr (200, ''ok'')"
    by (simp add: node_answer_def example_env_def)
  from lb_read_available [where env = example_env, OF _ _ example_route _ this, of example_lb] show ?thesis
    by (simp add: example_lb_def retryable_def ReadReplicas_def example_partition_def)
qed

lemma example_client:
  "c_endpoints example_client = [''http://lb1'', ''http://lb2'']" "c_next example_client = 0" "c_MaxRetries example_client = 8"
  by code_simp+

theorem client_do_outcome_witness: "fst (client_do example_client_env example_client) = None"
proof -
  have "client_attempt example_client_env (c_next example_client + 1) example_client 0 = OnceFailed ''refused''"
    "client_attempt example_client_env (c_next example_client + 1) example_client 1 = OnceOk"
    by (simp_all add: client_attempt_def client_endpoint_def example_client example_client_env_def)
  moreover have "c_endpoints example_client \<noteq> []"
    "\<forall>a. \<not> ce_done_call example_client_env a \<and> \<not> ce_done_pause example_client_env a"
    by (simp_all add: example_client example_client_env_def)
  ultimately show ?thesis
    using client_do_outcome [of example_client example_client_env]
    by (auto simp: transient_def example_client intro!: exI [of _ 1])
qed

end
