(* ===== verification/DataNode.thy ===== *)
theory DataNode
  imports Replica
begin

text \<open>
  \<open>src/internal/node/node.go\<close>: the node's reconciliation of its replicas with a layout, the checks
  of a request against the node's own layout, the HTTP handlers and the migration pull. A response
  is a status or a value; a request is what the handler reads from it after decoding. The network
  (the client of \<open>pull\<close>) is a parameter. A handler runs atomically here, apart from the long poll,
  whose wait gives the replica's later state as an input.
\<close>

section \<open>State\<close>

text \<open>A replica with, for followers, whether its replication loop runs (\<open>cancel != nil\<close>).\<close>

record held =
  hr_part :: Replica
  hr_following :: bool

record NodeServer =
  nd_ID :: node_id
  nd_Advertise :: string
  nd_incarnation :: int
  nd_opts :: Options
  nd_layout :: "Layout option"
  nd_nodes :: "(node_id, Node) gomap"
  nd_observed :: int
  nd_replicas :: "(PartitionRef, held) gomap"
  nd_ops :: "(string, int) gomap"

definition replicationBatch :: int where "replicationBatch = 2000"
definition freezeTTL :: int where "freezeTTL = 30 * 10 ^ 9"

definition NewNode :: "node_id \<Rightarrow> string \<Rightarrow> Options \<Rightarrow> go_time \<Rightarrow> NodeServer" where
  "NewNode n addr opts now =
     \<lparr>nd_ID = n, nd_Advertise = addr, nd_incarnation = now, nd_opts = opts, nd_layout = None, nd_nodes = [],
      nd_observed = 0, nd_replicas = [], nd_ops = []\<rparr>"

definition node_Inc :: "string \<Rightarrow> NodeServer \<Rightarrow> NodeServer" where
  "node_Inc name n = n\<lparr>nd_ops := gm_add name 1 (nd_ops n)\<rparr>"

definition self :: "NodeServer \<Rightarrow> Node" where
  "self n = \<lparr>n_ID = nd_ID n, n_Address = nd_Advertise n, n_Incarnation = nd_incarnation n\<rparr>"

section \<open>Reconciliation\<close>

definition desired_replicas :: "NodeServer \<Rightarrow> Layout option \<Rightarrow> (PartitionRef, Partition) gomap" where
  "desired_replicas n lo =
     (case lo of
        None \<Rightarrow> []
      | Some l \<Rightarrow>
          if gm_get 0 (l_Members l) (nd_ID n) = nd_incarnation n
          then foldl (\<lambda>m (ref, p). if Has p (nd_ID n) then gm_put ref p m else m) [] (Each (Some l))
          else [])"

definition lead :: "bool \<Rightarrow> Partition \<Rightarrow> Replica \<Rightarrow> Replica" where
  "lead existed p part =
     Seal (p_State p = PartitionHandoff)
       (if \<not> existed then LeadFresh (p_Epoch p) part
        else if rp_role part \<noteq> NodeRoleLeader \<or> rp_epoch part \<noteq> p_Epoch p then Promote (p_Epoch p) part
        else part)"

definition reconcile_one ::
  "NodeServer \<Rightarrow> (PartitionRef, held) gomap \<Rightarrow> PartitionRef \<times> Partition \<Rightarrow> (PartitionRef, held) gomap" where
  "reconcile_one n rs = (\<lambda>(ref, p).
     (let existed = (map_of rs ref \<noteq> None);
          r = (case map_of rs ref of
                 Some r \<Rightarrow> r
               | None \<Rightarrow> \<lparr>hr_part = NewPartition ref (nd_opts n), hr_following = False\<rparr>)
      in if p_Leader p = nd_ID n
         then gm_put ref \<lparr>hr_part = lead existed p (hr_part r), hr_following = False\<rparr> rs
         else gm_put ref \<lparr>hr_part = snd (Follow (p_Epoch p) (hr_part r)), hr_following = True\<rparr> rs))"

definition reconcile :: "Layout option \<Rightarrow> NodeServer \<Rightarrow> NodeServer" where
  "reconcile lo n =
     (let desired = desired_replicas n lo;
          kept = filter (\<lambda>(ref, r). map_of desired ref \<noteq> None) (nd_replicas n)
      in n\<lparr>nd_replicas := foldl (reconcile_one n) kept desired,
           nd_observed := (case lo of None \<Rightarrow> nd_observed n | Some l \<Rightarrow> l_Version l)\<rparr>)"

text \<open>What \<open>keepMembership\<close> does once the lease is lost.\<close>

definition rejoin :: "go_time \<Rightarrow> NodeServer \<Rightarrow> NodeServer" where
  "rejoin now n = (let n = n\<lparr>nd_incarnation := now\<rparr> in reconcile (nd_layout n) n)"

definition leaderOf :: "PartitionRef \<Rightarrow> NodeServer \<Rightarrow> (node_id \<times> string) option" where
  "leaderOf ref n =
     (case Find (nd_layout n) ref of
        None \<Rightarrow> None
      | Some p \<Rightarrow>
          if p_Leader p = '''' \<or> p_Leader p = nd_ID n then None
          else map_option (\<lambda>nd. (n_ID nd, n_Address nd)) (map_of (nd_nodes n) (p_Leader p)))"

definition lookup :: "PartitionRef \<Rightarrow> NodeServer \<Rightarrow> Replica option" where
  "lookup ref n = map_option hr_part (map_of (nd_replicas n) ref)"

definition put_part :: "PartitionRef \<Rightarrow> Replica \<Rightarrow> NodeServer \<Rightarrow> NodeServer" where
  "put_part ref part n =
     (case map_of (nd_replicas n) ref of
        None \<Rightarrow> n
      | Some r \<Rightarrow> n\<lparr>nd_replicas := gm_put ref (r\<lparr>hr_part := part\<rparr>) (nd_replicas n)\<rparr>)"

section \<open>Requests\<close>

text \<open>Decimal printing (\<open>strconv.FormatInt\<close>), and the tag \<open>"%d/%d"\<close> of a migration.\<close>

fun show_nat :: "nat \<Rightarrow> string" where
  "show_nat n = (if n < 10 then [char_of (48 + n)] else show_nat (n div 10) @ [char_of (48 + n mod 10)])"

declare show_nat.simps [simp del]

definition show_int :: "int \<Rightarrow> string" where
  "show_int i = (if i < 0 then ''-'' @ show_nat (nat (- i)) else show_nat (nat i))"

definition migration_tag :: "int \<Rightarrow> int \<Rightarrow> string" where
  "migration_tag cnt i = show_int cnt @ ''/'' @ show_int i"

datatype node_response =
    NError int
  | NSeq int
  | NValue string
  | NSnapshot Snapshot
  | NEntries ReplicateResponse
  | NChunk MigrationChunk
  | NPulled MigrationResult
  | NClosed  \<comment> \<open>the client went away\<close>
  | NPanic

fun fail :: "part_error \<Rightarrow> int" where
  "fail ErrNotLeader = 421"
| "fail ErrNotFollower = 421"
| "fail ErrSealed = 503"
| "fail ErrFrozen = 503"
| "fail ErrNotSynced = 503"
| "fail (ErrSequence _ _) = 500"

text \<open>The checked target of a data request; \<open>None\<close> is a run-time panic in \<open>Route\<close>.\<close>

definition target ::
  "PartitionRef option \<Rightarrow> key \<Rightarrow> bool \<Rightarrow> NodeServer \<Rightarrow> (int + PartitionRef \<times> Replica) option" where
  "target qref k writing n =
     (if nd_layout n = None then Some (Inl 503)
      else
        case (case qref of Some ref \<Rightarrow> Some ref | None \<Rightarrow> map_option fst (Route (nd_layout n) k)) of
          None \<Rightarrow> None
        | Some ref \<Rightarrow>
            (case Owns (nd_layout n) ref k of
               None \<Rightarrow> None
             | Some False \<Rightarrow> Some (Inl 421)
             | Some True \<Rightarrow>
                 (case lookup ref n of
                    None \<Rightarrow> Some (Inl 421)
                  | Some part \<Rightarrow>
                      if writing
                      then (case Find (nd_layout n) ref of
                              None \<Rightarrow> Some (Inl 421)
                            | Some p \<Rightarrow> if p_Leader p \<noteq> nd_ID n then Some (Inl 421) else Some (Inr (ref, part)))
                      else if rp_role part \<noteq> NodeRoleLeader \<and> \<not> rp_synced part then Some (Inl 503)
                      else Some (Inr (ref, part)))))"

definition node_write ::
  "string \<Rightarrow> (Replica \<Rightarrow> (part_error + LogEntry) \<times> Replica) \<Rightarrow> PartitionRef option \<Rightarrow> key \<Rightarrow> NodeServer \<Rightarrow>
   node_response \<times> NodeServer" where
  "node_write op write qref k n =
     (case target qref k True n of
        None \<Rightarrow> (NPanic, n)
      | Some (Inl code) \<Rightarrow> (NError code, node_Inc (op @ ''.rejected'') n)
      | Some (Inr (ref, part)) \<Rightarrow>
          (case write part of
             (Inl err, part1) \<Rightarrow> (NError (fail err), node_Inc (op @ ''.rejected'') (put_part ref part1 n))
           | (Inr e, part1) \<Rightarrow> (NSeq (le_SequenceNumber e), node_Inc op (put_part ref part1 n))))"

definition handleSet ::
  "go_time \<Rightarrow> string \<Rightarrow> PartitionRef option \<Rightarrow> (key \<times> string) option \<Rightarrow> NodeServer \<Rightarrow> node_response \<times> NodeServer" where
  "handleSet now method qref data n =
     (if method \<noteq> ''POST'' then (NError 405, n)
      else case data of
             None \<Rightarrow> (NError 400, n)
           | Some (k, v) \<Rightarrow> if k = '''' then (NError 400, n) else node_write ''set'' (Set_key now k v) qref k n)"

definition handleDelete ::
  "go_time \<Rightarrow> string \<Rightarrow> PartitionRef option \<Rightarrow> key option \<Rightarrow> NodeServer \<Rightarrow> node_response \<times> NodeServer" where
  "handleDelete now method qref data n =
     (if method \<noteq> ''DELETE'' then (NError 405, n)
      else case data of
             None \<Rightarrow> (NError 400, n)
           | Some k \<Rightarrow> if k = '''' then (NError 400, n) else node_write ''delete'' (Delete_key now k) qref k n)"

definition handleGet ::
  "string \<Rightarrow> PartitionRef option \<Rightarrow> key \<Rightarrow> NodeServer \<Rightarrow> node_response \<times> NodeServer" where
  "handleGet method qref k n =
     (if method \<noteq> ''GET'' then (NError 405, n)
      else if k = '''' then (NError 400, n)
      else case target qref k False n of
             None \<Rightarrow> (NPanic, n)
           | Some (Inl code) \<Rightarrow> (NError code, node_Inc ''get.rejected'' n)
           | Some (Inr (ref, part)) \<Rightarrow>
               (case Replica_Get k part of
                  (v, False) \<Rightarrow> (NError 404, node_Inc ''get'' n)
                | (v, True) \<Rightarrow> (NValue v, node_Inc ''get'' n)))"

definition node_status :: "NodeServer \<Rightarrow> NodeStatus" where
  "node_status n =
     \<lparr>ns_Node = self n, ns_LayoutVersion = nd_observed n,
      ns_Partitions = sort_key ps_Ref (map (\<lambda>(ref, r). Replica_Status (hr_part r)) (nd_replicas n)),
      ns_Ops = nd_ops n\<rparr>"

section \<open>Replication\<close>

record replicate_query =
  rq_ref :: "PartitionRef option"
  rq_epoch :: "int option"
  rq_dataEpoch :: "int option"
  rq_after :: "int option"
  rq_wait :: int

definition Replica_GetLogsAfter :: "int \<Rightarrow> int \<Rightarrow> Replica \<Rightarrow> LogEntry list \<times> bool" where
  "Replica_GetLogsAfter sq limit part = After sq limit (rp_wal part)"

text \<open>
  The handler on the replica it found: the answer, or \<open>None\<close> when it waits for the log to change.
  The second definition is what it does once woken, on the replica as it is then.
\<close>

definition replicate_begin :: "int \<Rightarrow> int \<Rightarrow> int \<Rightarrow> int \<Rightarrow> Replica \<Rightarrow> node_response option" where
  "replicate_begin epoch dataEpoch after waitMs part =
     (if rp_role part \<noteq> NodeRoleLeader \<or> rp_epoch part \<noteq> epoch then Some (NError 409)
      else if \<not> CanServe dataEpoch after part then Some (NError 410)
      else
        (case Replica_GetLogsAfter after replicationBatch part of
           (_, False) \<Rightarrow> Some (NError 410)
         | (entries, True) \<Rightarrow>
             if entries = [] \<and> waitMs > 0 then None
             else Some (NEntries \<lparr>rr_Epoch = epoch, rr_LeaderSeq = w_currentSeq (rp_wal part), rr_Entries = entries\<rparr>)))"

definition replicate_wake :: "int \<Rightarrow> int \<Rightarrow> Replica \<Rightarrow> node_response" where
  "replicate_wake epoch after part =
     (if rp_role part \<noteq> NodeRoleLeader \<or> rp_epoch part \<noteq> epoch then NError 409
      else
        (case Replica_GetLogsAfter after replicationBatch part of
           (_, False) \<Rightarrow> NError 410
         | (entries, True) \<Rightarrow>
             NEntries \<lparr>rr_Epoch = epoch, rr_LeaderSeq = w_currentSeq (rp_wal part), rr_Entries = entries\<rparr>))"

text \<open>\<open>woken\<close> is the replica when the long poll ends, \<open>None\<close> if the client went away.\<close>

definition handleReplicate :: "replicate_query \<Rightarrow> Replica option \<Rightarrow> NodeServer \<Rightarrow> node_response" where
  "handleReplicate q woken n =
     (case (rq_ref q, rq_epoch q, rq_dataEpoch q, rq_after q) of
        (Some ref, Some epoch, Some dataEpoch, Some after) \<Rightarrow>
          (case lookup ref n of
             None \<Rightarrow> NError 404
           | Some part \<Rightarrow>
               (case replicate_begin epoch dataEpoch after (rq_wait q) part of
                  Some resp \<Rightarrow> resp
                | None \<Rightarrow> (case woken of None \<Rightarrow> NClosed | Some part1 \<Rightarrow> replicate_wake epoch after part1)))
      | _ \<Rightarrow> NError 400)"

text \<open>The part of the handler after the lookup; \<open>e\<close> is the \<open>epoch\<close> parameter of the query, empty if absent.\<close>

definition snapshot_part :: "go_time \<Rightarrow> string \<Rightarrow> Replica \<Rightarrow> node_response \<times> Replica" where
  "snapshot_part now e part =
     (if e \<noteq> '''' \<and> e \<noteq> show_int (rp_epoch part) then (NError 409, part)
      else
        (case Take_Snapshot now None part of
           (Inl err, part1) \<Rightarrow> (NError (fail err), part1)
         | (Inr snap, part1) \<Rightarrow> (NSnapshot snap, part1)))"

definition handleSnapshot ::
  "go_time \<Rightarrow> PartitionRef option \<Rightarrow> string \<Rightarrow> NodeServer \<Rightarrow> node_response \<times> NodeServer" where
  "handleSnapshot now qref e n =
     (case qref of
        None \<Rightarrow> (NError 400, n)
      | Some ref \<Rightarrow>
          (case lookup ref n of
             None \<Rightarrow> (NError 404, n)
           | Some part \<Rightarrow>
               (case snapshot_part now e part of
                  (NSnapshot snap, part1) \<Rightarrow> (NSnapshot snap, node_Inc ''snapshots_served'' (put_part ref part1 n))
                | (resp, part1) \<Rightarrow> (resp, put_part ref part1 n))))"

text \<open>
  One round of a follower's loop: what it asks of which address, what it does with the answer
  (the replica and, once applied, the number of entries to count), and the round as a whole with
  the network as a parameter.
\<close>

datatype follow_request =
    AskSnapshot string PartitionRef int  \<comment> \<open>address, partition, epoch\<close>
  | AskEntries string replicate_query

definition replicationWait :: int where "replicationWait = 1000"

definition follow_ask :: "PartitionRef \<Rightarrow> string \<Rightarrow> Replica \<Rightarrow> follow_request" where
  "follow_ask ref addr part =
     (if \<not> rp_synced part then AskSnapshot addr ref (rp_epoch part)
      else AskEntries addr
        \<lparr>rq_ref = Some ref, rq_epoch = Some (rp_epoch part), rq_dataEpoch = Some (rp_dataEpoch part),
         rq_after = Some (w_currentSeq (rp_wal part)), rq_wait = replicationWait\<rparr>)"

definition follow_answer :: "follow_request \<Rightarrow> node_response \<Rightarrow> Replica \<Rightarrow> Replica \<times> int option" where
  "follow_answer req resp part =
     (case req of
        AskSnapshot _ _ _ \<Rightarrow>
          (case resp of NSnapshot snap \<Rightarrow> (snd (LoadSnapshot snap part), None) | _ \<Rightarrow> (part, None))
      | AskEntries _ _ \<Rightarrow>
          (case resp of
             NEntries rr \<Rightarrow>
               (case ApplyLogEntries (rr_Entries rr) (rr_Epoch rr) part of
                  (Some err, part1) \<Rightarrow> (Replica_Reset part1, None)
                | (None, part1) \<Rightarrow> (part1, Some (int (length (rr_Entries rr)))))
           | NError code \<Rightarrow> if code = 410 then (Replica_Reset part, None) else (part, None)
           | _ \<Rightarrow> (part, None)))"

definition follow_round :: "(follow_request \<Rightarrow> node_response) \<Rightarrow> PartitionRef \<Rightarrow> NodeServer \<Rightarrow> NodeServer" where
  "follow_round net ref n =
     (case (map_of (nd_replicas n) ref, leaderOf ref n) of
        (Some r, Some (_, addr)) \<Rightarrow>
          if \<not> hr_following r then n
          else
            let req = follow_ask ref addr (hr_part r);
                (part1, replicated) = follow_answer req (net req) (hr_part r);
                n1 = put_part ref part1 n
            in (case replicated of None \<Rightarrow> n1 | Some k \<Rightarrow> n1\<lparr>nd_ops := gm_add ''replicated'' k (nd_ops n1)\<rparr>)
      | _ \<Rightarrow> n)"

section \<open>Migration\<close>

definition handleMigrateExport ::
  "go_time \<Rightarrow> PartitionRef option \<Rightarrow> int option \<Rightarrow> int option \<Rightarrow> int \<Rightarrow> bool \<Rightarrow> NodeServer \<Rightarrow> node_response \<times> NodeServer" where
  "handleMigrateExport now qref targetCount targetID after freezeKeys n =
     (case (qref, targetCount, targetID) of
        (Some ref, Some cnt, Some i) \<Rightarrow>
          if cnt \<le> 0 then (NError 400, n)
          else
            (case lookup ref n of
               None \<Rightarrow> (NError 404, n)
             | Some part \<Rightarrow>
                 (case Export now (migration_tag cnt i) (\<lambda>k. GetPartitionID k cnt = Some i) freezeKeys after freezeTTL part of
                    (Inl err, part1) \<Rightarrow> (NError (fail err), put_part ref part1 n)
                  | (Inr chunk, part1) \<Rightarrow> (NChunk chunk, put_part ref part1 n)))
      | _ \<Rightarrow> (NError 400, n))"

datatype pull_error =
    PullSource int string         \<comment> \<open>a source did not answer\<close>
  | PullEpoch int int int         \<comment> \<open>source, its epoch, the expected one\<close>
  | PullPart part_error

record pull_state =
  pu_part :: Replica
  pu_imported :: int
  pu_seen :: "(key, bool) gomap"
  pu_perSource :: "(int, (key, bool) gomap) gomap"
  pu_seqs :: "(int, int) gomap"

text \<open>A source's answer to an export, with the check of its epoch.\<close>

definition fetch :: "(MigrationSource \<Rightarrow> bool \<Rightarrow> int \<Rightarrow> string + MigrationChunk) \<Rightarrow> MigrationSource \<Rightarrow> bool \<Rightarrow> int \<Rightarrow>
   pull_error + MigrationChunk" where
  "fetch net src freezing after =
     (case net src freezing after of
        Inl e \<Rightarrow> Inl (PullSource (ms_PartitionID src) e)
      | Inr chunk \<Rightarrow>
          if mc_Epoch chunk \<noteq> ms_Epoch src then Inl (PullEpoch (ms_PartitionID src) (mc_Epoch chunk) (ms_Epoch src))
          else Inr chunk)"

function importOps :: "go_time \<Rightarrow> Operation list \<Rightarrow> pull_state \<Rightarrow> part_error option \<times> pull_state" where
  "importOps now ops st =
     (if ops = [] then (None, st)
      else
        let batch = (if length ops > 1000 then take 1000 ops else ops) in
        case Import now batch (pu_part st) of
          (Some err, part) \<Rightarrow> (Some err, st\<lparr>pu_part := part\<rparr>)
        | (None, part) \<Rightarrow>
            importOps now (drop (length batch) ops)
              (st\<lparr>pu_part := part, pu_imported := pu_imported st + int (length batch)\<rparr>))"
  by pat_completeness auto
termination by (relation "measure (\<lambda>(_, ops, _). length ops)") auto

declare importOps.simps [simp del]

definition setOps :: "(key, string) gomap \<Rightarrow> Operation list" where
  "setOps data = map (\<lambda>(k, v). \<lparr>op_Type = OpSet, op_Key = k, op_Value = v, op_Timestamp = 0\<rparr>) data"

definition delOp :: "key \<Rightarrow> Operation" where
  "delOp k = \<lparr>op_Type = OpDelete, op_Key = k, op_Value = '''', op_Timestamp = 0\<rparr>"

fun pull_copy ::
  "(MigrationSource \<Rightarrow> bool \<Rightarrow> int \<Rightarrow> string + MigrationChunk) \<Rightarrow> go_time \<Rightarrow> MigrationSource list \<Rightarrow> pull_state \<Rightarrow>
   pull_error option \<times> pull_state" where
  "pull_copy net now [] st = (None, st)"
| "pull_copy net now (src # srcs) st =
     (case fetch net src False 0 of
        Inl e \<Rightarrow> (Some e, st)
      | Inr chunk \<Rightarrow>
          let ks = map fst (mc_Data chunk);
              st = st\<lparr>pu_seen := foldl (\<lambda>m k. gm_put k True m) (pu_seen st) ks,
                      pu_perSource := gm_put (ms_PartitionID src) (foldl (\<lambda>m k. gm_put k True m) [] ks) (pu_perSource st),
                      pu_seqs := gm_put (ms_PartitionID src) (mc_Seq chunk) (pu_seqs st)\<rparr>
          in case importOps now (setOps (mc_Data chunk)) st of
               (Some err, st) \<Rightarrow> (Some (PullPart err), st)
             | (None, st) \<Rightarrow> pull_copy net now srcs st)"

definition catch_up_ops :: "(key, bool) gomap \<Rightarrow> MigrationChunk \<Rightarrow> Operation list" where
  "catch_up_ops copied chunk =
     (if mc_Mode chunk = ModeLogs then map le_Operation (mc_Entries chunk)
      else setOps (mc_Data chunk) @ map delOp (filter (\<lambda>k. map_of (mc_Data chunk) k = None) (map fst copied)))"

fun pull_catch_up ::
  "(MigrationSource \<Rightarrow> bool \<Rightarrow> int \<Rightarrow> string + MigrationChunk) \<Rightarrow> go_time \<Rightarrow> MigrationSource list \<Rightarrow> pull_state \<Rightarrow>
   pull_error option \<times> pull_state" where
  "pull_catch_up net now [] st = (None, st)"
| "pull_catch_up net now (src # srcs) st =
     (case fetch net src True (gm_get 0 (pu_seqs st) (ms_PartitionID src)) of
        Inl e \<Rightarrow> (Some e, st)
      | Inr chunk \<Rightarrow>
          (case importOps now (catch_up_ops (gm_get [] (pu_perSource st) (ms_PartitionID src)) chunk) st of
             (Some err, st) \<Rightarrow> (Some (PullPart err), st)
           | (None, st) \<Rightarrow> pull_catch_up net now srcs st))"

definition pull ::
  "(MigrationSource \<Rightarrow> bool \<Rightarrow> int \<Rightarrow> string + MigrationChunk) \<Rightarrow> go_time \<Rightarrow> MigrationRequest \<Rightarrow> Replica \<Rightarrow>
   (pull_error + MigrationResult) \<times> Replica" where
  "pull net now req part =
     (case Take_Snapshot now None part of
        (Inl err, part) \<Rightarrow> (Inl (PullPart err), part)
      | (Inr existing, part) \<Rightarrow>
          let st = \<lparr>pu_part = part, pu_imported = 0, pu_seen = [], pu_perSource = [], pu_seqs = []\<rparr> in
          case pull_copy net now (mr_Sources req) st of
            (Some e, st) \<Rightarrow> (Inl e, pu_part st)
          | (None, st) \<Rightarrow>
              let stale = map delOp (filter (\<lambda>k. \<not> gm_get False (pu_seen st) k) (map fst (sn_Data existing))) in
              case importOps now stale st of
                (Some err, st) \<Rightarrow> (Inl (PullPart err), pu_part st)
              | (None, st) \<Rightarrow>
                  (case pull_catch_up net now (mr_Sources req) st of
                     (Some e, st) \<Rightarrow> (Inl e, pu_part st)
                   | (None, st) \<Rightarrow>
                       (Inr \<lparr>mres_Keys = rp_keys (pu_part st), mres_Imported = pu_imported st\<rparr>, pu_part st)))"

definition handleMigratePull ::
  "(MigrationSource \<Rightarrow> bool \<Rightarrow> int \<Rightarrow> string + MigrationChunk) \<Rightarrow> go_time \<Rightarrow> string \<Rightarrow> MigrationRequest option \<Rightarrow> NodeServer \<Rightarrow>
   node_response \<times> NodeServer" where
  "handleMigratePull net now method body n =
     (if method \<noteq> ''POST'' then (NError 405, n)
      else case body of
             None \<Rightarrow> (NError 400, n)
           | Some req \<Rightarrow>
               (case lookup (mr_Target req) n of
                  None \<Rightarrow> (NError 409, n)
                | Some part \<Rightarrow>
                    if rp_role part \<noteq> NodeRoleLeader \<or> rp_epoch part \<noteq> mr_TargetEpoch req then (NError 409, n)
                    else
                      (case pull net now req part of
                         (Inl e, part1) \<Rightarrow> (NError 502, put_part (mr_Target req) part1 n)
                       | (Inr res, part1) \<Rightarrow> (NPulled res, put_part (mr_Target req) part1 n))))"

end
