(* ===== verification/Migration.thy ===== *)
theory Migration
  imports DataNode
begin

text \<open>
  The migration of a key range into a partition of the next generation: what \<open>pull\<close> leaves in the
  target when its sources answer with their exports, in terms of the sources' data at the moment
  each of them froze the range.
\<close>

section \<open>Operations on maps\<close>

lemma fold_op_spec_local:
  assumes "m k = m' k"
  shows "fold op_spec ops m k = fold op_spec ops m' k"
  using assms
proof (induction ops arbitrary: m m')
  case (Cons op ops)
  have "op_spec op m k = op_spec op m' k"
    using Cons.prems by (simp add: op_spec.simps split: OpType.split)
  with Cons.IH [of "op_spec op m" "op_spec op m'"] show ?case by simp
qed simp

lemma fold_op_spec_untouched:
  assumes "\<forall>op \<in> set ops. op_Type op = OpCheckpoint \<or> op_Key op \<noteq> k"
  shows "fold op_spec ops m k = m k"
  using assms
proof (induction ops arbitrary: m)
  case (Cons op ops)
  have "op_spec op m k = m k" using Cons.prems by (auto simp: op_spec.simps split: OpType.split)
  with Cons show ?case by simp
qed simp

lemma fold_setOps:
  assumes "gm_ok data"
  shows "fold op_spec (setOps data) m = m ++ map_of data"
  using assms
proof (induction data arbitrary: m)
  case (Cons kv data)
  obtain k v where kv: "kv = (k, v)" by (cases kv)
  with Cons.prems have k: "map_of data k = None" "gm_ok data" by (auto simp: gm_ok_Cons)
  have "op_spec \<lparr>op_Type = OpSet, op_Key = k, op_Value = v, op_Timestamp = 0\<rparr> m = m(k \<mapsto> v)"
    by (simp add: op_spec.simps)
  then have "fold op_spec (setOps (kv # data)) m = fold op_spec (setOps data) (m(k \<mapsto> v))"
    by (simp only: setOps_def kv list.map fold.simps o_apply prod.case)
  also have "\<dots> = m(k \<mapsto> v) ++ map_of data" by (rule Cons.IH [OF k(2)])
  also have "\<dots> = m ++ map_of (kv # data)"
    using k(1) by (auto simp: kv map_add_def fun_eq_iff split: option.split)
  finally show ?case .
qed (simp add: setOps_def)

lemma fold_delOps: "fold op_spec (map delOp ks) m k = (if k \<in> set ks then None else m k)"
  by (induction ks arbitrary: m) (auto simp: delOp_def op_spec.simps)

lemma gm_get_marks: "gm_get False (foldl (\<lambda>m k. gm_put k True m) m ks) k \<longleftrightarrow> k \<in> set ks \<or> gm_get False m k"
  by (induction ks arbitrary: m) auto

lemma dom_marks: "dom (map_of (foldl (\<lambda>m k. gm_put k True m) m ks)) = set ks \<union> dom (map_of m)"
  by (induction ks arbitrary: m) (auto simp: update_conv')

section \<open>Imports\<close>

text \<open>A leader with consistent data, and its data.\<close>

definition leading :: "Replica \<Rightarrow> bool" where
  "leading p \<longleftrightarrow> rp_role p = NodeRoleLeader \<and> (\<exists>h. tracks h p)"

lemma leading_keys: "leading p \<Longrightarrow> rp_keys p = int (card (dom (contents (rp_store p))))"
  by (auto simp: leading_def tracks_def data_ok_def)

lemma fold_append_status: "same_status p (fold (\<lambda>op p. snd (appendLocked now op p)) ops p)"
  by (rule st.fold_evolves) (rule same_status_appendLocked)

lemma leading_Import:
  assumes "leading p"
  obtains q where "Import now ops p = (None, q)" and "leading q"
    and "contents (rp_store q) = fold op_spec ops (contents (rp_store p))"
proof -
  let ?q = "fold (\<lambda>op p. snd (appendLocked now op p)) ops p"
  from assms obtain h where h: "rp_role p = NodeRoleLeader" "tracks h p" by (auto simp: leading_def)
  from tracks_Import_fold [OF h(2), of now ops] obtain g where
    g: "tracks (h @ g) ?q" "replay (h @ g) = fold op_spec ops (replay h)" by blast
  have "rp_role ?q = NodeRoleLeader"
    using fold_append_status [of p now ops] h(1) by (simp add: same_status_def)
  with g h show ?thesis
    by (intro that [of ?q]) (auto simp: Import_def leading_def tracks_def)
qed

lemma importOps_leading:
  assumes "leading (pu_part st)"
  shows "\<exists>q. importOps now ops st =
      (None, st\<lparr>pu_part := q, pu_imported := pu_imported st + int (length ops)\<rparr>) \<and> leading q \<and>
    contents (rp_store q) = fold op_spec ops (contents (rp_store (pu_part st)))"
  using assms
proof (induction ops arbitrary: st rule: length_induct)
  case (1 ops)
  show ?case
  proof (cases "ops = []")
    case True
    with 1 show ?thesis by (intro exI [of _ "pu_part st"]) (simp add: importOps.simps)
  next
    case False
    define b where "b = (if length ops > 1000 then take 1000 ops else ops)"
    define r where "r = drop (length b) ops"
    have br: "ops = b @ r" by (simp add: b_def r_def)
    obtain q where q: "Import now b (pu_part st) = (None, q)" "leading q"
      "contents (rp_store q) = fold op_spec b (contents (rp_store (pu_part st)))"
      by (rule leading_Import [OF "1.prems"])
    define st' where "st' = st\<lparr>pu_part := q, pu_imported := pu_imported st + int (length b)\<rparr>"
    have "b \<noteq> []" using False by (auto simp: b_def)
    then have "length r < length ops" by (simp add: br)
    moreover have "leading (pu_part st')" using q by (simp add: st'_def)
    ultimately obtain q' where q': "importOps now r st' =
        (None, st'\<lparr>pu_part := q', pu_imported := pu_imported st' + int (length r)\<rparr>)" "leading q'"
      "contents (rp_store q') = fold op_spec r (contents (rp_store (pu_part st')))"
      using "1.IH" by blast
    have "importOps now ops st = importOps now r st'"
      using False q by (simp add: importOps.simps [of now ops st] Let_def r_def st'_def flip: b_def)
    with q q' show ?thesis by (intro exI [of _ q']) (simp add: st'_def br)
  qed
qed

section \<open>Sources\<close>

text \<open>
  A source answered both requests with exports of its leader: first a snapshot of the range, then,
  with the range frozen, what happened since. Its history only holds keys it owns; \<open>m\<close> is its
  data at the freeze.
\<close>

definition source_served ::
  "(MigrationSource \<Rightarrow> bool \<Rightarrow> int \<Rightarrow> string + MigrationChunk) \<Rightarrow> (key \<Rightarrow> int) \<Rightarrow> (key \<Rightarrow> bool) \<Rightarrow> MigrationSource \<Rightarrow>
   (key \<rightharpoonup> string) \<Rightarrow> bool" where
  "source_served net owner match src m \<longleftrightarrow>
     (\<exists>h p p1 cp later q q1 now now' tag ttl c1 c2.
        tracks h p \<and> Export now tag match False 0 ttl p = (Inr c1, p1) \<and> net src False 0 = Inr c1 \<and>
        mc_Epoch c1 = ms_Epoch src \<and>
        tracks (h @ cp # later) q \<and> rp_role q = NodeRoleLeader \<and> op_Type (le_Operation cp) = OpCheckpoint \<and>
        Export now' tag match True (mc_Seq c1) ttl q = (Inr c2, q1) \<and> net src True (mc_Seq c1) = Inr c2 \<and>
        mc_Epoch c2 = ms_Epoch src \<and> contents (rp_store q) = m \<and>
        (\<forall>e \<in> set (h @ cp # later). op_Type (le_Operation e) \<noteq> OpCheckpoint \<longrightarrow>
           owner (op_Key (le_Operation e)) = ms_PartitionID src))"

text \<open>What the target needs of a source: \<open>chunk1\<close>, then operations that lead from it to \<open>m\<close>.\<close>

definition source_ok :: "(key \<Rightarrow> int) \<Rightarrow> MigrationSource \<Rightarrow> (key \<rightharpoonup> string) \<Rightarrow> MigrationChunk \<Rightarrow> MigrationChunk \<Rightarrow> bool" where
  "source_ok owner src m c1 c2 \<longleftrightarrow> gm_ok (mc_Data c1) \<and>
     (\<forall>k. owner k \<noteq> ms_PartitionID src \<longrightarrow> map_of (mc_Data c1) k = None) \<and>
     (\<forall>copied base k. dom (map_of copied) = dom (map_of (mc_Data c1)) \<longrightarrow>
        (owner k = ms_PartitionID src \<and> base k = map_of (mc_Data c1) k \<longrightarrow>
           fold op_spec (catch_up_ops copied c2) base k = m k) \<and>
        (owner k \<noteq> ms_PartitionID src \<longrightarrow> fold op_spec (catch_up_ops copied c2) base k = base k))"

lemma replay_owned:
  assumes "\<forall>e \<in> set h. op_Type (le_Operation e) \<noteq> OpCheckpoint \<longrightarrow> owner (op_Key (le_Operation e)) = i"
    and "owner k \<noteq> i"
  shows "replay h k = None"
proof -
  have "replay h k = fold op_spec (map le_Operation h) Map.empty k"
    by (simp add: replay_def fold_map comp_def)
  also have "\<dots> = None" using assms by (subst fold_op_spec_untouched) auto
  finally show ?thesis .
qed

lemma source_served_ok:
  assumes "source_served net owner match src m"
  obtains c1 c2 where "net src False 0 = Inr c1" and "net src True (mc_Seq c1) = Inr c2"
    and "mc_Epoch c1 = ms_Epoch src" and "mc_Epoch c2 = ms_Epoch src"
    and "source_ok owner src (m |` {k. match k}) c1 c2"
proof -
  from assms obtain h p p1 cp later q q1 now now' tag ttl c1 c2 where
    t: "tracks h p" "Export now tag match False 0 ttl p = (Inr c1, p1)" "tracks (h @ cp # later) q"
      "rp_role q = NodeRoleLeader" "op_Type (le_Operation cp) = OpCheckpoint"
      "Export now' tag match True (mc_Seq c1) ttl q = (Inr c2, q1)"
    and net: "net src False 0 = Inr c1" "net src True (mc_Seq c1) = Inr c2"
      "mc_Epoch c1 = ms_Epoch src" "mc_Epoch c2 = ms_Epoch src"
    and m: "contents (rp_store q) = m"
    and own: "\<forall>e \<in> set (h @ cp # later). op_Type (le_Operation e) \<noteq> OpCheckpoint \<longrightarrow>
      owner (op_Key (le_Operation e)) = ms_PartitionID src"
    unfolding source_served_def by blast
  note two = export_two_phase [OF t]
  have rm: "replay (h @ cp # later) = m" using t(3) m by (simp add: tracks_def)
  have seen: "map_of (mc_Data c1) k = None" if "owner k \<noteq> ms_PartitionID src" for k
    using two(3) replay_owned [of h owner "ms_PartitionID src" k] own that by (simp add: restrict_map_def)
  have mown: "m k = None" if "owner k \<noteq> ms_PartitionID src" for k
    using replay_owned [OF own that] rm by simp
  have "fold op_spec (catch_up_ops copied c2) base k = (m |` {k. match k}) k"
    if "dom (map_of copied) = dom (map_of (mc_Data c1))" "owner k = ms_PartitionID src" "base k = map_of (mc_Data c1) k"
    for copied base k
  proof (cases "mc_Mode c2")
    case ModeLogs
    have "m |` {k. match k} = fold op_spec (map le_Operation (export_entries match later)) (map_of (mc_Data c1))"
      using fold_op_spec_restrict [of later "replay h" match] t(5) two(3)
      by (simp add: rm [symmetric] replay_append fold_map comp_def)
    with ModeLogs two(4) that(3) fold_op_spec_local [of base k "map_of (mc_Data c1)"] show ?thesis
      by (simp add: catch_up_ops_def)
  next
    case ModeSnapshot
    with two(5) rm have d: "gm_ok (mc_Data c2)" "map_of (mc_Data c2) = m |` {k. match k}" by auto
    have "k \<in> fst ` set copied \<longleftrightarrow> map_of (mc_Data c1) k \<noteq> None"
      using that(1) by (metis domIff dom_map_of_conv_image_fst)
    with ModeSnapshot d that(3) show ?thesis
      by (auto simp: catch_up_ops_def fold_setOps fold_delOps map_add_def split: option.splits)
  qed
  moreover have "fold op_spec (catch_up_ops copied c2) base k = base k"
    if "dom (map_of copied) = dom (map_of (mc_Data c1))" "owner k \<noteq> ms_PartitionID src" for copied base k
  proof (cases "mc_Mode c2")
    case ModeLogs
    with two(4) own that(2) show ?thesis
      by (auto simp: catch_up_ops_def export_entries_def intro!: fold_op_spec_untouched)
  next
    case ModeSnapshot
    with two(5) rm have d: "gm_ok (mc_Data c2)" "map_of (mc_Data c2) = m |` {k. match k}" by auto
    have "k \<notin> fst ` set copied"
      using that seen [of k] by (metis domIff dom_map_of_conv_image_fst)
    with ModeSnapshot d mown [OF that(2)] show ?thesis
      by (auto simp: catch_up_ops_def fold_setOps fold_delOps map_add_def restrict_map_def split: option.splits)
  qed
  ultimately have "source_ok owner src (m |` {k. match k}) c1 c2"
    unfolding source_ok_def using two(2) seen by simp
  with net show ?thesis by (rule that)
qed

section \<open>The phases of a pull\<close>

text \<open>Each key's value from the source that owns it.\<close>

definition by_owner :: "(key \<Rightarrow> int) \<Rightarrow> (int \<Rightarrow> key \<rightharpoonup> string) \<Rightarrow> int set \<Rightarrow> key \<rightharpoonup> string" where
  "by_owner owner f ids k = (if owner k \<in> ids then f (owner k) k else None)"

text \<open>After the sources \<open>ids\<close> were copied: the target has their data \<open>d1\<close>, and the notes are right.\<close>

definition copied_ok ::
  "(key \<Rightarrow> int) \<Rightarrow> (int \<Rightarrow> key \<rightharpoonup> string) \<Rightarrow> (int \<Rightarrow> int) \<Rightarrow> int set \<Rightarrow> (key \<rightharpoonup> string) \<Rightarrow> pull_state \<Rightarrow> bool" where
  "copied_ok owner d1 s1 ids m0 st \<longleftrightarrow> leading (pu_part st) \<and>
     (\<forall>k. gm_get False (pu_seen st) k \<longleftrightarrow> by_owner owner d1 ids k \<noteq> None) \<and>
     (\<forall>i \<in> ids. dom (map_of (gm_get [] (pu_perSource st) i)) = dom (d1 i) \<and> gm_get 0 (pu_seqs st) i = s1 i) \<and>
     contents (rp_store (pu_part st)) = m0 ++ by_owner owner d1 ids"

lemma by_owner_insert:
  assumes "\<forall>k. owner k \<noteq> i \<longrightarrow> d1 i k = None"
  shows "(m0 ++ by_owner owner d1 ids) ++ d1 i = m0 ++ by_owner owner d1 (insert i ids)"
    and "d1 i k \<noteq> None \<or> by_owner owner d1 ids k \<noteq> None \<longleftrightarrow> by_owner owner d1 (insert i ids) k \<noteq> None"
proof -
  show "(m0 ++ by_owner owner d1 ids) ++ d1 i = m0 ++ by_owner owner d1 (insert i ids)"
  proof
    fix k
    show "((m0 ++ by_owner owner d1 ids) ++ d1 i) k = (m0 ++ by_owner owner d1 (insert i ids)) k"
      using assms by (cases "owner k = i") (auto simp: map_add_def by_owner_def split: option.splits)
  qed
  show "d1 i k \<noteq> None \<or> by_owner owner d1 ids k \<noteq> None \<longleftrightarrow> by_owner owner d1 (insert i ids) k \<noteq> None"
    using assms by (cases "owner k = i") (auto simp: by_owner_def)
qed

lemma pull_copy_step:
  assumes "copied_ok owner d1 s1 ids m0 st" and "gm_ok (mc_Data c)" and "map_of (mc_Data c) = d1 i"
    and "mc_Seq c = s1 i" and "\<forall>k. owner k \<noteq> i \<longrightarrow> d1 i k = None"
  defines "ks \<equiv> map fst (mc_Data c)"
  defines "st1 \<equiv> st\<lparr>pu_seen := foldl (\<lambda>m k. gm_put k True m) (pu_seen st) ks,
    pu_perSource := gm_put i (foldl (\<lambda>m k. gm_put k True m) [] ks) (pu_perSource st),
    pu_seqs := gm_put i (mc_Seq c) (pu_seqs st)\<rparr>"
  shows "\<exists>st'. importOps now (setOps (mc_Data c)) st1 = (None, st') \<and> copied_ok owner d1 s1 (insert i ids) m0 st'"
proof -
  have ks: "k \<in> set ks \<longleftrightarrow> d1 i k \<noteq> None" for k
    unfolding ks_def assms(3) [symmetric] by (metis dom_map_of_conv_image_fst domIff set_map)
  have "leading (pu_part st1)" using assms(1) by (simp add: copied_ok_def st1_def)
  from importOps_leading [OF this, of now "setOps (mc_Data c)"] obtain q where
    q: "importOps now (setOps (mc_Data c)) st1 =
      (None, st1\<lparr>pu_part := q, pu_imported := pu_imported st1 + int (length (setOps (mc_Data c)))\<rparr>)" "leading q"
      "contents (rp_store q) = fold op_spec (setOps (mc_Data c)) (contents (rp_store (pu_part st1)))" by blast
  let ?st' = "st1\<lparr>pu_part := q, pu_imported := pu_imported st1 + int (length (setOps (mc_Data c)))\<rparr>"
  have "contents (rp_store q) = m0 ++ by_owner owner d1 (insert i ids)"
    using q(3) assms(1) fold_setOps [OF assms(2)] by_owner_insert(1) [of owner i d1, OF assms(5)]
    by (simp add: st1_def copied_ok_def assms(3))
  moreover have "gm_get False (pu_seen ?st') k \<longleftrightarrow> by_owner owner d1 (insert i ids) k \<noteq> None" for k
    using assms(1) by_owner_insert(2) [of owner i d1, OF assms(5), where k = k and ids = ids]
    by (simp add: st1_def gm_get_marks ks copied_ok_def)
  moreover have "dom (map_of (foldl (\<lambda>m k. gm_put k True m) [] ks)) = dom (d1 i)"
    using ks by (auto simp: dom_marks)
  ultimately have "copied_ok owner d1 s1 (insert i ids) m0 ?st'"
    using assms(1,4) q(2) by (simp add: copied_ok_def st1_def)
  with q(1) show ?thesis by blast
qed

lemma pull_copy_ok:
  assumes "copied_ok owner d1 s1 ids m0 st"
    and "\<forall>src \<in> set srcs. \<exists>c. net src False 0 = Inr c \<and> mc_Epoch c = ms_Epoch src \<and> gm_ok (mc_Data c) \<and>
      map_of (mc_Data c) = d1 (ms_PartitionID src) \<and> mc_Seq c = s1 (ms_PartitionID src) \<and>
      (\<forall>k. owner k \<noteq> ms_PartitionID src \<longrightarrow> d1 (ms_PartitionID src) k = None)"
  shows "\<exists>st'. pull_copy net now srcs st = (None, st') \<and>
    copied_ok owner d1 s1 (ids \<union> ms_PartitionID ` set srcs) m0 st'"
  using assms
proof (induction srcs arbitrary: ids st)
  case (Cons src srcs)
  let ?i = "ms_PartitionID src"
  from Cons.prems(2) obtain c where c: "net src False 0 = Inr c" "mc_Epoch c = ms_Epoch src" "gm_ok (mc_Data c)"
    "map_of (mc_Data c) = d1 ?i" "mc_Seq c = s1 ?i" "\<forall>k. owner k \<noteq> ?i \<longrightarrow> d1 ?i k = None" by auto
  from pull_copy_step [OF Cons.prems(1) c(3-6), of now] obtain st1 where
    st1: "importOps now (setOps (mc_Data c)) (st\<lparr>pu_seen := foldl (\<lambda>m k. gm_put k True m) (pu_seen st) (map fst (mc_Data c)),
      pu_perSource := gm_put ?i (foldl (\<lambda>m k. gm_put k True m) [] (map fst (mc_Data c))) (pu_perSource st),
      pu_seqs := gm_put ?i (mc_Seq c) (pu_seqs st)\<rparr>) = (None, st1)" "copied_ok owner d1 s1 (insert ?i ids) m0 st1"
    by blast
  from Cons.IH [OF st1(2)] Cons.prems(2) obtain st' where "pull_copy net now srcs st1 = (None, st')"
    "copied_ok owner d1 s1 (insert ?i ids \<union> ms_PartitionID ` set srcs) m0 st'" by auto
  with c st1 show ?case by (simp add: fetch_def Let_def)
qed simp

text \<open>Leftovers of an earlier attempt are gone after the copy.\<close>

lemma pull_stale_ok:
  assumes "copied_ok owner d1 s1 ids (map_of old) st"
  shows "\<exists>st'. importOps now (map delOp (filter (\<lambda>k. \<not> gm_get False (pu_seen st) k) (map fst old))) st = (None, st') \<and>
    copied_ok owner d1 s1 ids Map.empty st'"
proof -
  let ?ops = "map delOp (filter (\<lambda>k. \<not> gm_get False (pu_seen st) k) (map fst old))"
  from assms have l: "leading (pu_part st)" by (simp add: copied_ok_def)
  from importOps_leading [OF l, of now ?ops] obtain q where
    q: "importOps now ?ops st = (None, st\<lparr>pu_part := q, pu_imported := pu_imported st + int (length ?ops)\<rparr>)" "leading q"
      "contents (rp_store q) = fold op_spec ?ops (contents (rp_store (pu_part st)))" by blast
  have "contents (rp_store q) = Map.empty ++ by_owner owner d1 ids"
  proof
    fix k
    have "k \<in> fst ` set old \<longleftrightarrow> map_of old k \<noteq> None" by (metis dom_map_of_conv_image_fst domIff)
    then show "contents (rp_store q) k = (Map.empty ++ by_owner owner d1 ids) k"
      using assms by (auto simp: q(3) fold_delOps copied_ok_def map_add_def split: option.splits)
  qed
  then have "copied_ok owner d1 s1 ids Map.empty (st\<lparr>pu_part := q, pu_imported := pu_imported st + int (length ?ops)\<rparr>)"
    using assms q(2) unfolding copied_ok_def by (simp del: length_map)
  with q(1) show ?thesis by blast
qed

text \<open>
  While the frozen rests are replayed: the sources in \<open>done\<close> have their final data, the others
  what was copied.
\<close>

definition caught_up ::
  "(key \<Rightarrow> int) \<Rightarrow> (int \<Rightarrow> key \<rightharpoonup> string) \<Rightarrow> (int \<Rightarrow> key \<rightharpoonup> string) \<Rightarrow> int set \<Rightarrow> int set \<Rightarrow> Replica \<Rightarrow> bool" where
  "caught_up owner d1 fin ids finished p \<longleftrightarrow> leading p \<and>
     (\<forall>k. contents (rp_store p) k = by_owner owner (\<lambda>i. if i \<in> finished then fin i else d1 i) ids k)"

definition notes_ok :: "(int \<Rightarrow> key \<rightharpoonup> string) \<Rightarrow> (int \<Rightarrow> int) \<Rightarrow> int set \<Rightarrow> pull_state \<Rightarrow> bool" where
  "notes_ok d1 s1 ids st \<longleftrightarrow>
     (\<forall>i \<in> ids. dom (map_of (gm_get [] (pu_perSource st) i)) = dom (d1 i) \<and> gm_get 0 (pu_seqs st) i = s1 i)"

lemma catch_up_step:
  assumes "caught_up owner d1 fin ids finished (pu_part st)" and "notes_ok d1 s1 ids st"
    and "i \<in> ids" and "i \<notin> finished" and "source_ok owner src (fin i) c1 c2" and "ms_PartitionID src = i"
    and "map_of (mc_Data c1) = d1 i"
  shows "\<exists>st'. importOps now (catch_up_ops (gm_get [] (pu_perSource st) i) c2) st = (None, st') \<and>
    caught_up owner d1 fin ids (insert i finished) (pu_part st') \<and> notes_ok d1 s1 ids st'"
proof -
  let ?ops = "catch_up_ops (gm_get [] (pu_perSource st) i) c2"
  from assms(1) have l: "leading (pu_part st)" by (simp add: caught_up_def)
  from importOps_leading [OF l, of now ?ops] obtain q where
    q: "importOps now ?ops st = (None, st\<lparr>pu_part := q, pu_imported := pu_imported st + int (length ?ops)\<rparr>)" "leading q"
      "contents (rp_store q) = fold op_spec ?ops (contents (rp_store (pu_part st)))" by blast
  have dom: "dom (map_of (gm_get [] (pu_perSource st) i)) = dom (map_of (mc_Data c1))"
    using assms(2,3,7) by (simp add: notes_ok_def)
  have "contents (rp_store q) k = by_owner owner (\<lambda>j. if j \<in> insert i finished then fin j else d1 j) ids k" for k
  proof (cases "owner k = i")
    case True
    have "contents (rp_store (pu_part st)) k = map_of (mc_Data c1) k"
      using assms(1,3,4,7) True by (simp add: caught_up_def by_owner_def)
    with assms(5,6) dom True have "fold op_spec ?ops (contents (rp_store (pu_part st))) k = fin i k"
      by (simp add: source_ok_def)
    with True assms(3) show ?thesis by (simp add: q(3) by_owner_def)
  next
    case False
    with assms(5,6) dom have "fold op_spec ?ops (contents (rp_store (pu_part st))) k = contents (rp_store (pu_part st)) k"
      by (simp add: source_ok_def)
    with False assms(1) show ?thesis by (simp add: q(3) caught_up_def by_owner_def)
  qed
  with q(2) assms(2) have "caught_up owner d1 fin ids (insert i finished) q"
    "notes_ok d1 s1 ids (st\<lparr>pu_part := q, pu_imported := pu_imported st + int (length ?ops)\<rparr>)"
    by (simp_all add: caught_up_def notes_ok_def)
  with q(1) show ?thesis by auto
qed

lemma pull_catch_up_ok:
  assumes "caught_up owner d1 fin ids finished (pu_part st)" and "notes_ok d1 s1 ids st"
    and "distinct (map ms_PartitionID srcs)" and "ms_PartitionID ` set srcs \<subseteq> ids - finished"
    and "\<forall>src \<in> set srcs. \<exists>c1 c2. net src True (s1 (ms_PartitionID src)) = Inr c2 \<and> mc_Epoch c2 = ms_Epoch src \<and>
      map_of (mc_Data c1) = d1 (ms_PartitionID src) \<and> source_ok owner src (fin (ms_PartitionID src)) c1 c2"
  shows "\<exists>st'. pull_catch_up net now srcs st = (None, st') \<and>
    caught_up owner d1 fin ids (finished \<union> ms_PartitionID ` set srcs) (pu_part st')"
  using assms
proof (induction srcs arbitrary: finished st)
  case (Cons src srcs)
  let ?i = "ms_PartitionID src"
  from Cons.prems(5) obtain c1 c2 where c: "net src True (s1 ?i) = Inr c2" "mc_Epoch c2 = ms_Epoch src"
    "map_of (mc_Data c1) = d1 ?i" "source_ok owner src (fin ?i) c1 c2" by auto
  have i: "?i \<in> ids" "?i \<notin> finished" "gm_get 0 (pu_seqs st) ?i = s1 ?i"
    using Cons.prems(2,4) by (auto simp: notes_ok_def)
  from catch_up_step [OF Cons.prems(1,2) i(1,2) c(4) refl c(3), of now] obtain st1 where
    st1: "importOps now (catch_up_ops (gm_get [] (pu_perSource st) ?i) c2) st = (None, st1)"
      "caught_up owner d1 fin ids (insert ?i finished) (pu_part st1)" "notes_ok d1 s1 ids st1" by blast
  have dist: "?i \<notin> ms_PartitionID ` set srcs" "distinct (map ms_PartitionID srcs)" using Cons.prems(3) by simp_all
  have sub: "ms_PartitionID ` set srcs \<subseteq> ids - insert ?i finished"
    using Cons.prems(4) dist(1) by (simp add: subset_Diff_insert)
  from Cons.IH [OF st1(2,3) dist(2) sub] Cons.prems(5) obtain st' where "pull_catch_up net now srcs st1 = (None, st')"
    "caught_up owner d1 fin ids (insert ?i finished \<union> ms_PartitionID ` set srcs) (pu_part st')" by auto
  with c st1 i show ?case by (simp add: fetch_def)
qed simp

lemma pull_ok:
  assumes "leading part" and "distinct (map ms_PartitionID (mr_Sources req))"
    and "\<forall>src \<in> set (mr_Sources req). source_served net owner match src (fin (ms_PartitionID src))"
  obtains res part' where "pull net now req part = (Inr res, part')" and "leading part'"
    and "contents (rp_store part') =
      by_owner owner (\<lambda>i. fin i |` {k. match k}) (ms_PartitionID ` set (mr_Sources req))"
    and "mres_Keys res = rp_keys part'"
proof -
  let ?srcs = "mr_Sources req" and ?ids = "ms_PartitionID ` set (mr_Sources req)"
  let ?fin = "\<lambda>i. fin i |` {k. match k}"
  define pick where "pick = (\<lambda>i. the (find (\<lambda>src. ms_PartitionID src = i) ?srcs))"
  have pick: "pick (ms_PartitionID src) = src" if "src \<in> set ?srcs" for src
  proof -
    have "find (\<lambda>s. ms_PartitionID s = ms_PartitionID src) ?srcs \<noteq> None"
      using that by (auto simp: find_None_iff)
    then obtain src' where f: "find (\<lambda>s. ms_PartitionID s = ms_PartitionID src) ?srcs = Some src'" by blast
    then have "src' \<in> set ?srcs" "ms_PartitionID src' = ms_PartitionID src"
      by (auto simp: find_Some_iff)
    with assms(2) that have "src' = src" by (auto simp: distinct_map dest: inj_onD)
    with f show ?thesis by (simp add: pick_def)
  qed
  define c1 where "c1 = (\<lambda>src. projr (net src False 0))"
  define d1 where "d1 = (\<lambda>i. map_of (mc_Data (c1 (pick i))))"
  define s1 where "s1 = (\<lambda>i. mc_Seq (c1 (pick i)))"
  have src: "\<exists>c2. net src False 0 = Inr (c1 src) \<and> net src True (mc_Seq (c1 src)) = Inr c2 \<and> mc_Epoch (c1 src) = ms_Epoch src \<and>
      mc_Epoch c2 = ms_Epoch src \<and> source_ok owner src (?fin (ms_PartitionID src)) (c1 src) c2"
    if "src \<in> set ?srcs" for src
    using source_served_ok [of net owner match src "fin (ms_PartitionID src)"] assms(3) that
    by (metis c1_def sum.sel(2))
  from assms(1) obtain h where h: "tracks h part" "rp_role part = NodeRoleLeader" by (auto simp: leading_def)
  obtain existing part0 where snap: "Take_Snapshot now None part = (Inr existing, part0)"
    using Take_Snapshot_leader [OF h(2)] by blast
  obtain cp where "tracks (h @ [cp]) part0" "op_Type (le_Operation cp) = OpCheckpoint"
    "map_of (sn_Data existing) = replay h |` {k. case None of None \<Rightarrow> True | Some g \<Rightarrow> g k}" "same_status part part0"
    by (rule tracks_Take_Snapshot [OF h(1) snap]) blast
  then have p0: "leading part0" "contents (rp_store part0) = map_of (sn_Data existing)"
    using h(2) by (auto simp: leading_def same_status_def tracks_def)
  let ?st0 = "\<lparr>pu_part = part0, pu_imported = 0, pu_seen = [], pu_perSource = [], pu_seqs = []\<rparr>"
  have "copied_ok owner d1 s1 {} (map_of (sn_Data existing)) ?st0"
    using p0 by (simp add: copied_ok_def by_owner_def gm_get_def map_add_def fun_eq_iff)
  moreover have "\<forall>src \<in> set ?srcs. \<exists>c. net src False 0 = Inr c \<and> mc_Epoch c = ms_Epoch src \<and> gm_ok (mc_Data c) \<and>
      map_of (mc_Data c) = d1 (ms_PartitionID src) \<and> mc_Seq c = s1 (ms_PartitionID src) \<and>
      (\<forall>k. owner k \<noteq> ms_PartitionID src \<longrightarrow> d1 (ms_PartitionID src) k = None)"
    using src by (fastforce simp: d1_def s1_def pick source_ok_def)
  ultimately obtain st1 where st1: "pull_copy net now ?srcs ?st0 = (None, st1)"
    "copied_ok owner d1 s1 ({} \<union> ?ids) (map_of (sn_Data existing)) st1" using pull_copy_ok by blast
  from pull_stale_ok [OF this(2), of now] obtain st2 where
    st2: "importOps now (map delOp (filter (\<lambda>k. \<not> gm_get False (pu_seen st1) k) (map fst (sn_Data existing)))) st1 = (None, st2)"
    "copied_ok owner d1 s1 ({} \<union> ?ids) Map.empty st2" by blast
  then have "caught_up owner d1 ?fin ?ids {} (pu_part st2)" "notes_ok d1 s1 ?ids st2"
    by (simp_all add: copied_ok_def caught_up_def notes_ok_def)
  moreover have "\<forall>src \<in> set ?srcs. \<exists>c1 c2. net src True (s1 (ms_PartitionID src)) = Inr c2 \<and> mc_Epoch c2 = ms_Epoch src \<and>
      map_of (mc_Data c1) = d1 (ms_PartitionID src) \<and> source_ok owner src (?fin (ms_PartitionID src)) c1 c2"
    using src by (fastforce simp: d1_def s1_def pick)
  ultimately obtain st3 where st3: "pull_catch_up net now ?srcs st2 = (None, st3)"
    "caught_up owner d1 ?fin ?ids ({} \<union> ?ids) (pu_part st3)"
    using pull_catch_up_ok [of owner d1 ?fin ?ids "{}" st2 s1 ?srcs net now] assms(2) by auto
  have eq: "pull net now req part = (Inr \<lparr>mres_Keys = rp_keys (pu_part st3), mres_Imported = pu_imported st3\<rparr>, pu_part st3)"
    using snap st1(1) st2(1) st3(1) by (simp add: pull_def Let_def)
  have con: "contents (rp_store (pu_part st3)) = by_owner owner ?fin ?ids"
    using st3(2) by (auto simp: caught_up_def by_owner_def fun_eq_iff)
  have "leading (pu_part st3)" using st3(2) by (simp add: caught_up_def)
  from that [OF eq this con] show ?thesis by simp
qed

section \<open>Properties\<close>

lemma pull_exact_facts:
  assumes "leading part" and "0 \<le> newID" and "newID < newCount" and "0 < oldCount" and "oldCount < 2 ^ 32" and "newCount < 2 ^ 32"
    and "map ms_PartitionID (mr_Sources req) = SourcePartitions newID oldCount newCount"
    and "\<forall>src \<in> set (mr_Sources req).
      source_served net (\<lambda>k. the (GetPartitionID k oldCount)) (\<lambda>k. GetPartitionID k newCount = Some newID) src
        (fin (ms_PartitionID src))"
  shows "\<exists>res part'. pull net now req part = (Inr res, part') \<and>
    contents (rp_store part') =
      (\<lambda>k. if GetPartitionID k newCount = Some newID then fin (the (GetPartitionID k oldCount)) k else None) \<and>
    mres_Keys res = int (card (dom (contents (rp_store part'))))"
proof -
  have dist: "distinct (map ms_PartitionID (mr_Sources req))" using assms(7) by (simp add: distinct_SourcePartitions)
  obtain res part' where p: "pull net now req part = (Inr res, part')" "leading part'"
    "contents (rp_store part') = by_owner (\<lambda>k. the (GetPartitionID k oldCount))
      (\<lambda>i. fin i |` {k. GetPartitionID k newCount = Some newID}) (ms_PartitionID ` set (mr_Sources req))"
    "mres_Keys res = rp_keys part'"
    by (rule pull_ok [OF assms(1) dist assms(8)])
  have ids: "ms_PartitionID ` set (mr_Sources req) = set (SourcePartitions newID oldCount newCount)"
    unfolding assms(7) [symmetric] by simp
  have "contents (rp_store part') =
      (\<lambda>k. if GetPartitionID k newCount = Some newID then fin (the (GetPartitionID k oldCount)) k else None)"
  proof
    fix k
    have "the (GetPartitionID k oldCount) \<in> set (SourcePartitions newID oldCount newCount)"
      if "GetPartitionID k newCount = Some newID"
      using key_in_SourcePartitions [OF assms(4,5) _ assms(6) that] assms(2,3) by auto
    then show "contents (rp_store part') k =
        (if GetPartitionID k newCount = Some newID then fin (the (GetPartitionID k oldCount)) k else None)"
      by (auto simp: p(3) ids by_owner_def restrict_map_def)
  qed
  with p leading_keys [OF p(2)] show ?thesis by auto
qed

text \<open>
  C8. A migration moves exactly the right data. Let the target lead its new partition, whatever an
  earlier attempt left in it, and let every source answer the two requests of the pull with exports
  of its leader, the second one under a freeze of the range. Then the pull succeeds, and the target
  holds exactly the keys that hash to it, each with the value its old partition had at its freeze;
  nothing is lost, left over or taken from the wrong source, in log mode and in snapshot mode.
\<close>

theorem pull_exact:
  assumes "leading part" and "0 \<le> newID" and "newID < newCount" and "0 < oldCount" and "oldCount < 2 ^ 32" and "newCount < 2 ^ 32"
    and "map ms_PartitionID (mr_Sources req) = SourcePartitions newID oldCount newCount"
    and "\<forall>src \<in> set (mr_Sources req).
      source_served net (\<lambda>k. the (GetPartitionID k oldCount)) (\<lambda>k. GetPartitionID k newCount = Some newID) src
        (fin (ms_PartitionID src))"
  shows "\<exists>res part'. pull net now req part = (Inr res, part') \<and>
    contents (rp_store part') =
      (\<lambda>k. if GetPartitionID k newCount = Some newID then fin (the (GetPartitionID k oldCount)) k else None) \<and>
    mres_Keys res = int (card (dom (contents (rp_store part'))))"
  using assms by (rule pull_exact_facts)

text \<open>A split of one partition into two, with a write between the two exports.\<close>

definition example_match :: "key \<Rightarrow> bool" where
  "example_match k \<longleftrightarrow> GetPartitionID k 2 = Some 0"

definition example_copied :: Replica where
  "example_copied = snd (Export 4 (migration_tag 2 0) example_match False 0 freezeTTL example_leader)"

definition example_written :: Replica where
  "example_written = snd (write_op 5 example_set example_copied)"

definition example_chunk :: "bool \<Rightarrow> int \<Rightarrow> MigrationChunk" where
  "example_chunk freezing after = projr (fst
     (if freezing then Export 6 (migration_tag 2 0) example_match True after freezeTTL example_written
      else Export 4 (migration_tag 2 0) example_match False 0 freezeTTL example_leader))"

definition example_source :: MigrationSource where
  "example_source = \<lparr>ms_PartitionID = 0, ms_Epoch = 1, ms_Address = ''node1''\<rparr>"

definition example_request :: MigrationRequest where
  "example_request = \<lparr>mr_Target = PartitionRef 2 0, mr_TargetEpoch = 1, mr_TargetCount = 2, mr_SourceGeneration = 1,
     mr_Sources = [example_source]\<rparr>"

lemma Export_epoch:
  assumes "rp_role p = NodeRoleLeader" and "Export now tag match freezing after ttl p = (Inr c, p')"
  shows "mc_Epoch c = rp_epoch p"
  using assms
  by (auto simp: Export_def export_snapshot_def Take_Snapshot_def Let_def split: if_splits prod.splits bool.splits)

lemma example_source_served:
  "source_served (\<lambda>src freezing after. Inr (example_chunk freezing after)) (\<lambda>k. the (GetPartitionID k 1)) example_match
     example_source (contents (rp_store example_written))"
proof -
  have lead: "rp_role example_leader = NodeRoleLeader" "\<not> rp_sealed example_leader" "rp_freezes example_leader = []"
    "rp_epoch example_leader = 1"
    by (simp_all add: example_leader_def LeadFresh_def resetLocked_def NewPartition_def)
  obtain c1 p1 where x1: "Export 4 (migration_tag 2 0) example_match False 0 freezeTTL example_leader = (Inr c1, p1)"
    using Export_leader [OF lead(1)] by blast
  then have e1: "export_snapshot 4 example_match example_leader = (Inr c1, p1)" and p1: "example_copied = p1"
    and c1: "example_chunk False 0 = c1"
    by (simp_all add: Export_def example_copied_def example_chunk_def)
  obtain cp where cp: "tracks ([] @ [cp]) p1" "op_Type (le_Operation cp) = OpCheckpoint"
    "same_status example_leader p1" "rp_freezes p1 = rp_freezes example_leader"
    by (rule tracks_export_snapshot [OF tracks_example_leader e1]) blast
  have st: "rp_role p1 = NodeRoleLeader" "\<not> rp_sealed p1" "rp_freezes p1 = []" "rp_epoch p1 = 1"
    using cp(3,4) lead by (simp_all add: same_status_def)
  obtain e q where a: "appendLocked 5 example_set p1 = (e, q)" by fastforce
  with st have w: "write_op 5 example_set p1 = (Inr e, q)" by (simp add: write_op_def frozenLocked_def)
  have q: "example_written = q" by (simp add: example_written_def p1 w)
  have rq: "rp_role q = NodeRoleLeader" "rp_epoch q = 1"
    using same_status_appendLocked [of p1 5 example_set] a st by (simp_all add: same_status_def)
  obtain cps where tq: "tracks (([] @ [cp]) @ e # cps) q" using cp(1) w by (rule tracks_write)
  obtain c2 q1 where x2: "Export 6 (migration_tag 2 0) example_match True (mc_Seq c1) freezeTTL q = (Inr c2, q1)"
    using Export_leader [OF rq(1)] by blast
  then have c2: "example_chunk True (mc_Seq c1) = c2" by (simp add: example_chunk_def q)
  have own: "the (GetPartitionID k 1) = 0" for k
    using mod_u32_bounds [of 1 "Sum k"] by (auto simp: GetPartitionID_def)
  show ?thesis
    unfolding source_served_def
    apply (rule exI [of _ "[]"], rule exI [of _ example_leader], rule exI [of _ p1], rule exI [of _ cp],
        rule exI [of _ "e # cps"], rule exI [of _ q], rule exI [of _ q1], rule exI [of _ 4], rule exI [of _ 6],
        rule exI [of _ "migration_tag 2 0"], rule exI [of _ freezeTTL], rule exI [of _ c1], rule exI [of _ c2])
    using tracks_example_leader x1 c1 tq rq cp(2) x2 c2 q own Export_epoch [OF lead(1) x1] Export_epoch [OF rq(1) x2] lead(4)
    by (simp add: example_source_def)
qed

theorem pull_exact_witness:
  "\<exists>res part'. pull (\<lambda>src freezing after. Inr (example_chunk freezing after)) 9 example_request example_leader = (Inr res, part') \<and>
    contents (rp_store part') =
      (\<lambda>k. if GetPartitionID k 2 = Some 0 then contents (rp_store example_written) k else None) \<and>
    mres_Keys res = int (card (dom (contents (rp_store part'))))"
proof -
  have "leading example_leader"
    using tracks_example_leader by (auto simp: leading_def example_leader_def LeadFresh_def)
  moreover have "map ms_PartitionID (mr_Sources example_request) = SourcePartitions 0 1 2"
    by (simp add: example_request_def example_source_def) code_simp
  ultimately show ?thesis
    using pull_exact [where fin = "\<lambda>_. contents (rp_store example_written)" and oldCount = 1 and newCount = 2 and newID = 0
        and net = "\<lambda>src freezing after. Inr (example_chunk freezing after)" and part = example_leader and req = example_request
        and now = 9] example_source_served
    by (simp add: example_request_def example_match_def [abs_def])
qed

end
