(* ===== verification/Reconcile.thy ===== *)
theory Reconcile
  imports DataNode
begin

text \<open>
  What \<open>reconcile\<close> (\<open>src/internal/node/node.go\<close>) establishes: the node's replicas as a function of the
  layout and of the replicas it had.
\<close>

section \<open>What reconciliation establishes\<close>

lemma map_of_Each:
  assumes "layout_ok l"
  shows "map_of (Each (Some l)) ref = Find (Some l) ref" and "distinct (map fst (Each (Some l)))"
proof -
  let ?tab = "\<lambda>g ps. map (\<lambda>p. (PartitionRef g (p_ID p), p)) ps"
  have tab: "map_of (?tab g ps) (PartitionRef g' i) =
      (if g' = g \<and> 0 \<le> i \<and> i < int (length ps) then Some (ps ! nat i) else None)"
    and dist: "distinct (map fst (?tab g ps))" if "table_ok n ps" for g g' i n ps
  proof -
    have ids: "map p_ID ps = map int [0..<length ps]"
      using that by (intro nth_equalityI) (auto simp: table_ok_def)
    have "distinct (map p_ID ps)" unfolding ids by (simp add: distinct_map)
    then show d: "distinct (map fst (?tab g ps))"
      by (auto simp: distinct_map inj_on_def comp_def)
    show "map_of (?tab g ps) (PartitionRef g' i) =
      (if g' = g \<and> 0 \<le> i \<and> i < int (length ps) then Some (ps ! nat i) else None)"
    proof (cases "g' = g \<and> 0 \<le> i \<and> i < int (length ps)")
      case True
      then have "nat i < length ps" by linarith
      with True that have "(PartitionRef g i, ps ! nat i) \<in> set (?tab g ps)"
        by (force simp: table_ok_def intro!: image_eqI [of _ _ "ps ! nat i"])
      with d True show ?thesis by simp
    next
      case False
      have "PartitionRef g' i \<notin> fst ` set (?tab g ps)"
        using False that by (auto simp: table_ok_def in_set_conv_nth)
      then have "map_of (?tab g ps) (PartitionRef g' i) = None" by (simp add: map_of_eq_None_iff)
      with False show ?thesis by presburger
    qed
  qed
  obtain g i where ref: "ref = PartitionRef g i" by (cases ref)
  from assms have c: "table_ok (l_PartitionCount l) (l_Partitions l)" by (simp add: layout_ok_def)
  show "map_of (Each (Some l)) ref = Find (Some l) ref"
  proof (cases "l_Resharding l")
    case None
    then show ?thesis by (simp add: Each_def Find_def ref tab [OF c])
  next
    case (Some r)
    with assms have t: "table_ok (r_PartitionCount r) (r_Partitions r)" "r_Generation r \<noteq> l_Generation l"
      by (auto simp: layout_ok_def)
    from Some show ?thesis
      using t by (auto simp: Each_def Find_def ref tab [OF c] tab [OF t(1)] map_add_def)
  qed
  show "distinct (map fst (Each (Some l)))"
  proof (cases "l_Resharding l")
    case None
    then show ?thesis using dist [OF c] by (simp add: Each_def)
  next
    case (Some r)
    with assms have t: "table_ok (r_PartitionCount r) (r_Partitions r)" "r_Generation r \<noteq> l_Generation l"
      by (auto simp: layout_ok_def)
    have "set (map fst (?tab (l_Generation l) (l_Partitions l))) \<inter> set (map fst (?tab (r_Generation r) (r_Partitions r))) = {}"
      using t(2) by auto
    with Some dist [OF c] dist [OF t(1)] show ?thesis by (simp add: Each_def)
  qed
qed

lemma map_of_select:
  assumes "distinct (map fst xs)"
  shows "map_of (foldl (\<lambda>m (ref, p). if P p then gm_put ref p m else m) m xs) ref =
    (case map_of xs ref of Some p \<Rightarrow> if P p then Some p else map_of m ref | None \<Rightarrow> map_of m ref)"
  using assms
proof (induction xs arbitrary: m)
  case (Cons x xs)
  obtain r p where x: "x = (r, p)" by (cases x)
  with Cons.prems have "map_of xs r = None" by (simp add: map_of_eq_None_iff)
  with Cons x show ?case by (auto simp: update_conv' split: option.splits)
qed simp

definition is_member :: "NodeServer \<Rightarrow> Layout \<Rightarrow> bool" where
  "is_member n l \<longleftrightarrow> gm_get 0 (l_Members l) (nd_ID n) = nd_incarnation n"

lemma map_of_desired:
  assumes "layout_ok l"
  shows "map_of (desired_replicas n (Some l)) ref =
      (if is_member n l then (case Find (Some l) ref of Some p \<Rightarrow> if Has p (nd_ID n) then Some p else None | None \<Rightarrow> None)
       else None)"
    and "gm_ok (desired_replicas n (Some l))"
proof -
  show "map_of (desired_replicas n (Some l)) ref =
      (if is_member n l then (case Find (Some l) ref of Some p \<Rightarrow> if Has p (nd_ID n) then Some p else None | None \<Rightarrow> None)
       else None)"
    using map_of_select [OF map_of_Each(2) [OF assms], of "\<lambda>p. Has p (nd_ID n)" "[]" ref] map_of_Each(1) [OF assms]
    by (simp add: desired_replicas_def is_member_def split: option.splits)
  have "gm_ok (foldl (\<lambda>m (ref, p). if Has p (nd_ID n) then gm_put ref p m else m) [] (Each (Some l)))"
    by (rule gm_ok_range_loop) (auto split: prod.splits)
  then show "gm_ok (desired_replicas n (Some l))"
    by (simp add: desired_replicas_def)
qed

text \<open>What happens to one replica.\<close>

definition reconciled :: "NodeServer \<Rightarrow> PartitionRef \<Rightarrow> Partition \<Rightarrow> held option \<Rightarrow> held" where
  "reconciled n ref p old =
     (let part = (case old of Some r \<Rightarrow> hr_part r | None \<Rightarrow> NewPartition ref (nd_opts n)) in
      if p_Leader p = nd_ID n then \<lparr>hr_part = lead (old \<noteq> None) p part, hr_following = False\<rparr>
      else \<lparr>hr_part = snd (Follow (p_Epoch p) part), hr_following = True\<rparr>)"

lemma map_of_reconcile:
  assumes "layout_ok l" and "gm_ok (nd_replicas n)"
  shows "map_of (nd_replicas (reconcile (Some l) n)) ref =
    (if is_member n l
     then (case Find (Some l) ref of
             Some p \<Rightarrow> if Has p (nd_ID n) then Some (reconciled n ref p (map_of (nd_replicas n) ref)) else None
           | None \<Rightarrow> None)
     else None)"
proof -
  let ?d = "desired_replicas n (Some l)"
  let ?kept = "filter (\<lambda>(ref, r). map_of ?d ref \<noteq> None) (nd_replicas n)"
  have kept: "map_of ?kept ref = (if map_of ?d ref \<noteq> None then map_of (nd_replicas n) ref else None)"
  proof -
    have "?kept = filter (\<lambda>x. map_of ?d (fst x) \<noteq> None) (nd_replicas n)" by (rule filter_cong) auto
    moreover have "map_of (filter (\<lambda>x. map_of ?d (fst x) \<noteq> None) m) ref = (if map_of ?d ref \<noteq> None then map_of m ref else None)" for m
      by (induction m) auto
    ultimately show ?thesis by (simp only:)
  qed
  have body: "map_of (reconcile_one n acc (k, p)) = (map_of acc)(k := Some (reconciled n k p (map_of acc k)))" for acc k p
    by (auto simp: reconcile_one_def reconciled_def Let_def update_conv' split: option.splits)
  have "map_of (nd_replicas (reconcile (Some l) n)) ref =
      (case map_of ?d ref of None \<Rightarrow> map_of ?kept ref | Some p \<Rightarrow> Some (reconciled n ref p (map_of ?kept ref)))"
    unfolding reconcile_def Let_def
    using map_of_range_loop [where g = "reconcile_one n" and h = "\<lambda>k p old. Some (reconciled n k p old)" and acc = ?kept,
        OF map_of_desired(2) [OF assms(1)] body] by simp
  then show ?thesis
    using kept map_of_desired(1) [OF assms(1), of n ref] by (simp split: option.splits if_splits)
qed


lemma gm_ok_reconcile:
  assumes "gm_ok (nd_replicas n)"
  shows "gm_ok (nd_replicas (reconcile lo n))"
proof -
  have "gm_ok (filter (\<lambda>(ref, r). map_of (desired_replicas n lo) ref \<noteq> None) (nd_replicas n))"
    using assms by (auto simp: gm_ok_def distinct_map inj_on_filter_key_eq intro: inj_on_subset)
  then have "gm_ok (foldl (reconcile_one n) (filter (\<lambda>(ref, r). map_of (desired_replicas n lo) ref \<noteq> None) (nd_replicas n)) xs)" for xs
    by (induction xs rule: rev_induct) (auto simp: reconcile_one_def Let_def)
  then show ?thesis by (simp add: reconcile_def Let_def)
qed

lemma reconcile_fields [simp]:
  "nd_ID (reconcile lo n) = nd_ID n" "nd_incarnation (reconcile lo n) = nd_incarnation n" "nd_opts (reconcile lo n) = nd_opts n"
  "nd_layout (reconcile lo n) = nd_layout n" "nd_observed (reconcile (Some l) n) = l_Version l"
  by (simp_all add: reconcile_def Let_def)

lemma lookup_reconcile:
  assumes "layout_ok l" and "gm_ok (nd_replicas n)"
  shows "lookup ref (reconcile (Some l) n) =
    (if is_member n l
     then (case Find (Some l) ref of
             Some p \<Rightarrow> if Has p (nd_ID n) then Some (hr_part (reconciled n ref p (map_of (nd_replicas n) ref))) else None
           | None \<Rightarrow> None)
     else None)"
  by (simp add: lookup_def map_of_reconcile [OF assms] split: option.splits)

text \<open>A replica after reconciliation, from the one before it (if any) and its entry in the layout.\<close>

lemma reconciled_part:
  "hr_part (reconciled n ref p old) =
     (case map_option hr_part old of
        None \<Rightarrow> if p_Leader p = nd_ID n then lead False p (NewPartition ref (nd_opts n))
                 else snd (Follow (p_Epoch p) (NewPartition ref (nd_opts n)))
      | Some part \<Rightarrow> if p_Leader p = nd_ID n then lead True p part else snd (Follow (p_Epoch p) part))"
  by (simp add: reconciled_def split: option.splits)

lemma reconciled_idem: "reconciled n ref p (Some (reconciled n ref p old)) = reconciled n ref p old"
  by (simp add: reconciled_def lead_def Seal_def Follow_def LeadFresh_def Promote_def Let_def resetLocked_def split: option.splits)


section \<open>A concrete node\<close>

definition example_server :: NodeServer where
  "example_server = reconcile (Some example_layout)
     ((NewNode ''node1'' ''node1:7000'' example_opts 11)\<lparr>nd_layout := Some example_layout\<rparr>)"

lemma example_Find:
  assumes "Find (Some example_layout) ref = Some p"
  shows "p_Leader p = ''node1''" and "p_Epoch p = 1" and "p_State p = PartitionActive"
proof -
  have "p = example_partition 0 \<or> p = example_partition 1 \<or> p = example_partition 2"
    using assms by (auto simp: Find_def example_layout_def nth_Cons split: if_splits nat.splits)
  then show "p_Leader p = ''node1''" "p_Epoch p = 1" "p_State p = PartitionActive"
    by (auto simp: example_partition_def)
qed

lemma example_server_lookup:
  assumes "Find (Some example_layout) ref = Some p"
  shows "lookup ref example_server = Some (LeadFresh 1 (NewPartition ref example_opts))"
  using example_Find [OF assms] assms
  by (simp add: example_server_def lookup_reconcile [OF example_layout_ok] reconciled_def NewNode_def gm_ok_def is_member_def
      Has_def lead_def Seal_def) (simp add: example_layout_def gm_get_def LeadFresh_def resetLocked_def NewPartition_def)


end
