(* ===== verification/NodeInv.thy ===== *)
theory NodeInv
  imports Reconcile
begin

text \<open>
  The invariant of a database node (\<open>src/internal/node/node.go\<close>) over everything that changes its
  state, as a step relation. Operations on a replica's data are handled once, by a relation
  between replicas that all of them keep.
\<close>

section \<open>What data operations keep of a replica\<close>

text \<open>Every freeze a node sets has the tag of its range.\<close>

definition range_of :: "int \<Rightarrow> int \<Rightarrow> key \<Rightarrow> bool" where
  "range_of cnt i = (\<lambda>k. GetPartitionID k cnt = Some i)"

definition freezes_ok :: "Replica \<Rightarrow> bool" where
  "freezes_ok p \<longleftrightarrow> (\<forall>f \<in> set (rp_freezes p). \<exists>c i. fz_tag f = migration_tag c i \<and> fz_match f = range_of c i)"

lemma freezes_ok_frame [simp]:
  "freezes_ok (p\<lparr>rp_role := a\<rparr>) = freezes_ok p" "freezes_ok (p\<lparr>rp_epoch := b\<rparr>) = freezes_ok p"
  "freezes_ok (p\<lparr>rp_dataEpoch := b\<rparr>) = freezes_ok p" "freezes_ok (p\<lparr>rp_prevEpoch := b\<rparr>) = freezes_ok p"
  "freezes_ok (p\<lparr>rp_promotedSeq := b\<rparr>) = freezes_ok p" "freezes_ok (p\<lparr>rp_synced := c\<rparr>) = freezes_ok p"
  "freezes_ok (p\<lparr>rp_sealed := c\<rparr>) = freezes_ok p" "freezes_ok (p\<lparr>rp_keys := b\<rparr>) = freezes_ok p"
  "freezes_ok (p\<lparr>rp_store := d\<rparr>) = freezes_ok p" "freezes_ok (p\<lparr>rp_wal := e\<rparr>) = freezes_ok p"
  "freezes_ok (p\<lparr>rp_freezes := []\<rparr>)" "freezes_ok (NewPartition ref opts)"
  by (simp_all add: freezes_ok_def NewPartition_def)

text \<open>
  One replica may become another by operations on its data: identity, role, epochs and flags stay,
  and so does the well-formedness of log and store.
\<close>

definition evolves :: "Replica \<Rightarrow> Replica \<Rightarrow> bool" where
  "evolves p q \<longleftrightarrow> same_status p q \<and> rp_ID q = rp_ID p \<and> rp_Generation q = rp_Generation p \<and>
     (wal_ok (rp_wal p) \<longrightarrow> wal_ok (rp_wal q)) \<and> (data_ok p \<longrightarrow> data_ok q) \<and> (freezes_ok p \<longrightarrow> freezes_ok q)"

interpretation ev: evolution evolves
  by unfold_locales (auto simp: evolves_def intro: same_status_trans)

lemma applyLocked_id [simp]:
  "rp_ID (applyLocked op sq p) = rp_ID p" "rp_Generation (applyLocked op sq p) = rp_Generation p"
  by (simp_all add: applyLocked_def Let_def split: OpType.splits)

lemma evolves_append: "evolves p (snd (appendLocked now op p))"
proof -
  have wal: "wal_ok (WAL_appendLocked e w)" if "wal_ok w" "le_SequenceNumber e = w_currentSeq w + 1" for e w
    using appendLocked_ok(1) [OF that] .
  have flush: "data_ok (q\<lparr>rp_wal := w, rp_store := snd (snd (Store_Flush c (rp_store q)))\<rparr>)" if "data_ok q" for q w c
    using that by (simp add: data_ok_def lsm.contents_flush lsm.inv_flush)
  have "wal_ok (rp_wal (snd (appendLocked now op p)))" if "wal_ok (rp_wal p)"
    using that by (auto simp: appendLocked_def Append_def WAL_Checkpoint_def Let_def wal)
  moreover have "data_ok (snd (appendLocked now op p))" if "data_ok p"
    using that by (auto simp: appendLocked_def Append_def WAL_Checkpoint_def Let_def applyLocked_data(1) flush)
  moreover have "rp_ID (snd (appendLocked now op p)) = rp_ID p" "rp_Generation (snd (appendLocked now op p)) = rp_Generation p"
    by (simp_all add: appendLocked_def Let_def split: prod.splits)
  ultimately show ?thesis by (simp add: evolves_def same_status_appendLocked freezes_ok_def)
qed

lemma evolves_frozen: "evolves p (snd (frozenLocked now k p))"
  by (simp add: evolves_def same_status_frozenLocked) (simp add: frozenLocked_def data_ok_def freezes_ok_def Let_def)

lemma evolves_write: "evolves p (snd (write_op now op p))"
proof -
  obtain b p1 where f: "frozenLocked now (op_Key op) p = (b, p1)" by fastforce
  then have "evolves p p1" using evolves_frozen [of p now "op_Key op"] by simp
  then show ?thesis
    using f ev.trans [OF _ evolves_append] by (cases b) (auto simp: write_op_def ev.refl split_beta)
qed

lemma evolves_Import: "evolves p (snd (Import now ops p))"
  by (auto simp: Import_def ev.refl intro: ev.fold_evolves evolves_append)

lemma evolves_Snapshot: "evolves p (snd (Take_Snapshot now f p))"
  by (auto simp: evolves_def Take_Snapshot_def WAL_Checkpoint_def Append_def Let_def same_status_def appendLocked_ok(1)
      freezes_ok_def data_ok_def lsm.contents_flush lsm.inv_flush split_beta)

lemma extend_freeze_origin:
  "extend_freeze tag until fs = Some fs' \<Longrightarrow> f' \<in> set fs' \<Longrightarrow> \<exists>f \<in> set fs. fz_tag f' = fz_tag f \<and> fz_match f' = fz_match f"
  by (induction fs arbitrary: fs') (auto split: if_splits)

lemma evolves_addFreeze: "evolves p (addFreezeLocked now (migration_tag c i) (range_of c i) ttl p)"
  using extend_freeze_origin
  by (fastforce simp: evolves_def same_status_def addFreezeLocked_def data_ok_def freezes_ok_def Let_def split: option.splits)

lemma evolves_Export: "evolves p (snd (Export now (migration_tag c i) (range_of c i) freezeKeys after ttl p))"
proof -
  have snap: "evolves q (snd (export_snapshot now (range_of c i) q))" for q
    using evolves_Snapshot [of q now "Some (range_of c i)"] by (auto simp: export_snapshot_def split: prod.splits sum.splits)
  show ?thesis
    using snap evolves_addFreeze ev.trans [OF evolves_addFreeze snap]
    by (auto simp: Export_def Let_def ev.refl split: prod.splits bool.splits)
qed

section \<open>What requests do to a node\<close>

text \<open>
  A request changes the data of replicas and counters, and nothing else of the node. \<open>R\<close> is any
  relation on replicas that the operations on data keep; the handlers are followed once for all of them.
\<close>

definition served :: "(Replica \<Rightarrow> Replica \<Rightarrow> bool) \<Rightarrow> NodeServer \<Rightarrow> NodeServer \<Rightarrow> bool" where
  "served R n n' \<longleftrightarrow> n' = n\<lparr>nd_replicas := nd_replicas n', nd_ops := nd_ops n'\<rparr> \<and>
     (gm_ok (nd_replicas n) \<longrightarrow> gm_ok (nd_replicas n')) \<and>
     (\<forall>ref. rel_option (\<lambda>r r'. hr_following r' = hr_following r \<and> R (hr_part r) (hr_part r'))
        (map_of (nd_replicas n) ref) (map_of (nd_replicas n') ref))"

lemma target_found:
  assumes "target qref k w n = Some (Inr (ref, part))"
  shows "lookup ref n = Some part"
  using assms by (auto simp: target_def split: if_splits option.splits bool.splits)

lemma served_Inc: "served R n n' \<Longrightarrow> served R n (node_Inc name n')"
  by (cases n; cases n') (simp add: served_def node_Inc_def)

locale serving = evolution R for R :: "Replica \<Rightarrow> Replica \<Rightarrow> bool" +
  assumes write_data: "R p (snd (write_op now op p))"
    and import_data: "R p (snd (Import now ops p))"
    and snapshot_data: "R p (snd (Take_Snapshot now f p))"
    and export_data: "R p (snd (Export now (migration_tag c i) (range_of c i) frz after freezeTTL p))"
begin

lemma importOps_data: "R (pu_part st) (pu_part (snd (importOps now ops st)))"
proof (induction now ops st rule: importOps.induct)
  case (1 now ops st)
  define batch where "batch = (if length ops > 1000 then take 1000 ops else ops)"
  obtain r part where i: "Import now batch (pu_part st) = (r, part)" by fastforce
  have ev: "R (pu_part st) part" using import_data [of "pu_part st" now batch] i by simp
  show ?case
  proof (cases "ops = []")
    case True
    then show ?thesis by (simp add: importOps.simps refl)
  next
    case False
    from 1 [OF False batch_def i [symmetric]] i ev show ?thesis
      by (subst importOps.simps) (auto simp: False Let_def simp flip: batch_def split: option.splits intro: trans)
  qed
qed

lemma copy_data: "R (pu_part st) (pu_part (snd (pull_copy net now srcs st)))"
proof (induction srcs arbitrary: st)
  case (Cons src srcs)
  show ?case
  proof (cases "fetch net src False 0")
    case (Inr chunk)
    define st1 where "st1 = st\<lparr>pu_seen := foldl (\<lambda>m k. gm_put k True m) (pu_seen st) (map fst (mc_Data chunk)),
      pu_perSource := gm_put (ms_PartitionID src) (foldl (\<lambda>m k. gm_put k True m) [] (map fst (mc_Data chunk))) (pu_perSource st),
      pu_seqs := gm_put (ms_PartitionID src) (mc_Seq chunk) (pu_seqs st)\<rparr>"
    obtain r st2 where i: "importOps now (setOps (mc_Data chunk)) st1 = (r, st2)" by fastforce
    have "R (pu_part st) (pu_part st2)"
      using importOps_data [of st1 now "setOps (mc_Data chunk)"] i by (simp add: st1_def)
    then show ?thesis
      using i trans [OF _ Cons] by (auto simp: Inr Let_def simp flip: st1_def split: option.splits)
  qed (simp add: refl)
qed (simp add: refl)

lemma catch_up_data: "R (pu_part st) (pu_part (snd (pull_catch_up net now srcs st)))"
proof (induction srcs arbitrary: st)
  case (Cons src srcs)
  show ?case
  proof (cases "fetch net src True (gm_get 0 (pu_seqs st) (ms_PartitionID src))")
    case (Inr chunk)
    define ops where "ops = catch_up_ops (gm_get [] (pu_perSource st) (ms_PartitionID src)) chunk"
    obtain r st2 where i: "importOps now ops st = (r, st2)" by fastforce
    have "R (pu_part st) (pu_part st2)" using importOps_data [of st now ops] i by simp
    then show ?thesis
      using i trans [OF _ Cons] by (auto simp: Inr simp flip: ops_def split: option.splits)
  qed (simp add: refl)
qed (simp add: refl)

lemma pull_data: "R p (snd (pull net now req p))"
proof -
  obtain r p1 where s: "Take_Snapshot now None p = (r, p1)" by fastforce
  have e1: "R p p1" using snapshot_data [of p now None] s by simp
  show ?thesis
  proof (cases r)
    case (Inl err)
    with s e1 show ?thesis by (simp add: pull_def)
  next
    case (Inr existing)
    define st0 where "st0 = \<lparr>pu_part = p1, pu_imported = 0, pu_seen = [], pu_perSource = [], pu_seqs = []\<rparr>"
    obtain r1 st1 where c: "pull_copy net now (mr_Sources req) st0 = (r1, st1)" by fastforce
    define stale where "stale = map delOp (filter (\<lambda>k. \<not> gm_get False (pu_seen st1) k) (map fst (sn_Data existing)))"
    obtain r2 st2 where i: "importOps now stale st1 = (r2, st2)" by fastforce
    obtain r3 st3 where u: "pull_catch_up net now (mr_Sources req) st2 = (r3, st3)" by fastforce
    have "R p (pu_part st1)" "R (pu_part st1) (pu_part st2)" "R (pu_part st2) (pu_part st3)"
      using trans [OF e1] copy_data [of st0 net now "mr_Sources req"] importOps_data [of st1 now stale]
        catch_up_data [of st2 net now "mr_Sources req"] c i u by (simp_all add: st0_def)
    then have "R p (pu_part st1)" "R p (pu_part st2)" "R p (pu_part st3)"
      by (blast intro: trans)+
    then show ?thesis
      using s c i u by (simp add: pull_def Inr Let_def flip: st0_def stale_def split: option.splits)
  qed
qed

lemma served_refl: "served R n n"
  by (simp add: served_def refl option.rel_refl)

lemma served_put:
  assumes "lookup ref n = Some part" and "R part part1"
  shows "served R n (put_part ref part1 n)"
proof -
  from assms(1) obtain r where r: "map_of (nd_replicas n) ref = Some r" "part = hr_part r" by (auto simp: lookup_def)
  have "rel_option (\<lambda>r r'. hr_following r' = hr_following r \<and> R (hr_part r) (hr_part r'))
      (map_of (nd_replicas n) k) (map_of (gm_put ref (r\<lparr>hr_part := part1\<rparr>) (nd_replicas n)) k)" for k
    using r assms(2) by (auto simp: gomap_simps refl option.rel_refl)
  then show ?thesis
    using r by (simp add: served_def put_part_def)
qed

lemma served_write:
  assumes "\<And>p. R p (snd (wr p))"
  shows "served R n (snd (node_write op wr qref k n))"
proof (cases "target qref k True n")
  case (Some r)
  show ?thesis
  proof (cases r)
    case (Inr rp)
    obtain ref part where rp: "rp = (ref, part)" by fastforce
    have "served R n (put_part ref (snd (wr part)) n)"
      using Some Inr rp by (intro served_put [OF _ assms]) (simp add: target_found)
    with Some Inr rp show ?thesis by (cases "wr part") (auto simp: node_write_def served_Inc split: sum.splits)
  qed (use Some in \<open>simp add: node_write_def served_Inc served_refl\<close>)
qed (simp add: node_write_def served_refl)

lemma served_handleSet: "served R n (snd (handleSet now m qref data n))"
  by (auto simp: handleSet_def served_write served_refl Set_key_def write_data split: option.splits)

lemma served_handleDelete: "served R n (snd (handleDelete now m qref data n))"
  by (auto simp: handleDelete_def served_write served_refl Delete_key_def write_data split: option.splits)

lemma served_handleGet: "served R n (snd (handleGet m qref k n))"
  by (auto simp: handleGet_def served_Inc served_refl split: option.splits sum.splits prod.splits bool.splits)

lemma snapshot_part_data: "snapshot_part now e part = (resp, part1) \<Longrightarrow> R part part1"
  using snapshot_data [of part now None] by (auto simp: snapshot_part_def refl split: if_splits prod.splits sum.splits)

lemma served_handleSnapshot: "served R n (snd (handleSnapshot now qref e n))"
proof (cases "\<exists>ref part. qref = Some ref \<and> lookup ref n = Some part")
  case True
  then obtain ref part where l: "qref = Some ref" "lookup ref n = Some part" by blast
  obtain resp part1 where s: "snapshot_part now e part = (resp, part1)" by fastforce
  have "served R n (put_part ref part1 n)" using l(2) snapshot_part_data [OF s] by (rule served_put)
  with l s show ?thesis by (cases resp) (simp_all add: handleSnapshot_def served_Inc)
qed (auto simp: handleSnapshot_def served_refl split: option.splits)

lemma served_handleMigrateExport: "served R n (snd (handleMigrateExport now qref cnt i after frz n))"
proof (cases "\<exists>ref c j part. qref = Some ref \<and> cnt = Some c \<and> i = Some j \<and> 0 < c \<and> lookup ref n = Some part")
  case True
  then obtain ref c j part where q: "qref = Some ref" "cnt = Some c" "i = Some j" "0 < c" "lookup ref n = Some part"
    by blast
  obtain r part1 where e: "Export now (migration_tag c j) (range_of c j) frz after freezeTTL part = (r, part1)"
    by fastforce
  have "served R n (put_part ref part1 n)"
    using export_data e by (intro served_put [OF q(5)]) (metis snd_conv)
  with q e show ?thesis by (cases r) (simp_all add: handleMigrateExport_def range_of_def)
qed (auto simp: handleMigrateExport_def served_refl split: option.splits)

lemma served_handleMigratePull: "served R n (snd (handleMigratePull net now m body n))"
proof (cases "\<exists>req part. body = Some req \<and> lookup (mr_Target req) n = Some part")
  case True
  then obtain req part where q: "body = Some req" "lookup (mr_Target req) n = Some part" by blast
  obtain r part1 where e: "pull net now req part = (r, part1)" by fastforce
  have "served R n (put_part (mr_Target req) part1 n)"
    using pull_data e by (intro served_put [OF q(2)]) (metis snd_conv)
  with q e show ?thesis by (cases r) (auto simp: handleMigratePull_def served_refl)
qed (auto simp: handleMigratePull_def served_refl split: option.splits)

end

interpretation ev_serve: serving evolves
  by unfold_locales (simp_all add: evolves_write evolves_Import evolves_Snapshot evolves_Export)

section \<open>The node's invariant\<close>

definition replica_ok :: "PartitionRef \<Rightarrow> held \<Rightarrow> bool" where
  "replica_ok ref r \<longleftrightarrow>
     (let p = hr_part r in
      PartitionRef (rp_Generation p) (rp_ID p) = ref \<and> wal_ok (rp_wal p) \<and> data_ok p \<and> freezes_ok p \<and>
      (hr_following r \<longleftrightarrow> rp_role p = NodeRoleFollower) \<and>
      (rp_role p = NodeRoleLeader \<longrightarrow> rp_synced p \<and> rp_dataEpoch p = rp_epoch p))"

definition node_ok :: "NodeServer \<Rightarrow> bool" where
  "node_ok n \<longleftrightarrow> gm_ok (nd_replicas n) \<and> (\<forall>ref r. map_of (nd_replicas n) ref = Some r \<longrightarrow> replica_ok ref r)"

lemma node_ok_put:
  assumes "node_ok n" and "\<And>r. map_of (nd_replicas n) ref = Some r \<Longrightarrow> replica_ok ref (r\<lparr>hr_part := part\<rparr>)"
  shows "node_ok (put_part ref part n)"
  using assms by (auto simp: node_ok_def put_part_def gomap_simps split: option.splits)

lemma replica_ok_evolve:
  "replica_ok ref r \<Longrightarrow> evolves (hr_part r) (hr_part r') \<Longrightarrow> hr_following r' = hr_following r \<Longrightarrow> replica_ok ref r'"
  by (auto simp: replica_ok_def evolves_def same_status_def Let_def)

lemma node_ok_served:
  assumes "node_ok n" and "served evolves n n'"
  shows "node_ok n'"
proof -
  have "replica_ok ref r'" if "map_of (nd_replicas n') ref = Some r'" for ref r'
  proof -
    from assms(2) have "rel_option (\<lambda>r r'. hr_following r' = hr_following r \<and> evolves (hr_part r) (hr_part r'))
        (map_of (nd_replicas n) ref) (map_of (nd_replicas n') ref)" by (simp add: served_def)
    with that obtain r where "map_of (nd_replicas n) ref = Some r" "hr_following r' = hr_following r"
      "evolves (hr_part r) (hr_part r')" by (auto simp: option_rel_Some2)
    with assms(1) show ?thesis by (auto simp: node_ok_def intro: replica_ok_evolve)
  qed
  with assms show ?thesis by (simp add: node_ok_def served_def)
qed

lemma node_ok_evolve:
  assumes "node_ok n" and "lookup ref n = Some part" and "evolves part part1"
  shows "node_ok (put_part ref part1 n)"
  using assms(1) ev_serve.served_put [OF assms(2,3)] by (rule node_ok_served)

lemma node_ok_counters [simp]: "node_ok (n\<lparr>nd_ops := c\<rparr>) = node_ok n" "node_ok (node_Inc name n) = node_ok n"
  by (simp_all add: node_ok_def node_Inc_def)

lemma ev_parts:
  "evolves p (snd (Set_key now k v p))" "evolves p (snd (Delete_key now k p))"
  by (simp_all add: Set_key_def Delete_key_def evolves_write)

lemmas node_ok_handlers =
  ev_serve.served_handleSet [THEN node_ok_served [rotated]] ev_serve.served_handleDelete [THEN node_ok_served [rotated]]
  ev_serve.served_handleGet [THEN node_ok_served [rotated]] ev_serve.served_handleSnapshot [THEN node_ok_served [rotated]]
  ev_serve.served_handleMigrateExport [THEN node_ok_served [rotated]]
  ev_serve.served_handleMigratePull [THEN node_ok_served [rotated]]

text \<open>A follower's loop, with answers that are at least possible: sequence numbers are not negative.\<close>

definition answer_ok :: "node_response \<Rightarrow> bool" where
  "answer_ok resp \<longleftrightarrow> (case resp of NSnapshot snap \<Rightarrow> 0 \<le> sn_Seq snap \<and> gm_ok (sn_Data snap) | _ \<Rightarrow> True)"

lemma apply_entries_evolves: "evolves p (snd (apply_entries es p))"
proof (induction es p rule: apply_entries.induct)
  case (2 e es p)
  have "evolves p (applyLocked (le_Operation e) (le_SequenceNumber e) (p\<lparr>rp_wal := WAL_appendLocked e (rp_wal p)\<rparr>))"
    if "le_SequenceNumber e = w_currentSeq (rp_wal p) + 1"
    using that appendLocked_ok(1) [of "rp_wal p" e] applyLocked_data(1) by (auto simp: evolves_def same_status_def freezes_ok_def)
  with 2 show ?case by (auto simp: Record_def ev.refl intro: ev.trans)
qed (simp add: ev.refl)

lemma resetLocked_ok:
  assumes "wal_ok (rp_wal p)" and "data_ok p"
  shows "wal_ok (rp_wal (resetLocked p))" and "data_ok (resetLocked p)"
  using assms by (simp_all add: resetLocked_def wal_ok_Reset data_ok_def lsm.contents_reset lsm.inv_reset)

lemma replica_ok_answer:
  assumes "replica_ok ref r" and "hr_following r" and "answer_ok resp" and "follow_answer req resp (hr_part r) = (part1, k)"
  shows "replica_ok ref (r\<lparr>hr_part := part1\<rparr>)"
proof -
  have ev: "replica_ok ref (r\<lparr>hr_part := q\<rparr>)" if "evolves (hr_part r) q" for q
    using assms(1) that by (auto simp: replica_ok_def evolves_def same_status_def Let_def)
  have rs: "replica_ok ref (r\<lparr>hr_part := Replica_Reset q\<rparr>)" if "evolves (hr_part r) q" for q
    using ev [OF that] assms(2) by (auto simp: replica_ok_def Replica_Reset_def resetLocked_ok Let_def) (simp_all add: resetLocked_def)
  show ?thesis
  proof (cases req)
    case (AskSnapshot addr ref' e)
    show ?thesis
    proof (cases "\<exists>snap. resp = NSnapshot snap")
      case True
      then obtain snap where snap: "resp = NSnapshot snap" by blast
      with assms show ?thesis
        by (auto simp: AskSnapshot follow_answer_def LoadSnapshot_def answer_ok_def replica_ok_def Let_def wal_ok_Reset
            data_ok_def lsm.contents_load lsm.inv_load gm_len_card)
    next
      case False
      with assms(4) have "part1 = hr_part r" by (cases resp) (auto simp: AskSnapshot follow_answer_def)
      then show ?thesis using ev ev.refl by blast
    qed
  next
    case (AskEntries addr q)
    show ?thesis
    proof (cases "\<exists>rr. resp = NEntries rr")
      case True
      then obtain rr where rr: "resp = NEntries rr" by blast
      obtain err p1 where a: "apply_entries (rr_Entries rr) (hr_part r) = (err, p1)" by fastforce
      then have e1: "evolves (hr_part r) p1" using apply_entries_evolves [of "hr_part r" "rr_Entries rr"] by simp
      have "replica_ok ref (r\<lparr>hr_part := p1\<lparr>rp_dataEpoch := rr_Epoch rr\<rparr>\<rparr>)"
        using ev [OF e1] assms(2) by (auto simp: replica_ok_def data_ok_def Let_def)
      with assms(4) ev.refl rs ev rs [OF e1] show ?thesis
        by (auto simp: AskEntries rr follow_answer_def ApplyLogEntries_def a split: if_splits option.splits)
    next
      case False
      with assms(4) have "part1 = hr_part r \<or> part1 = Replica_Reset (hr_part r)"
        by (cases resp) (auto simp: AskEntries follow_answer_def split: if_splits)
      then show ?thesis using ev rs ev.refl by blast
    qed
  qed
qed

lemma node_ok_follow_round:
  assumes "node_ok n" and "\<And>req. answer_ok (net req)"
  shows "node_ok (follow_round net ref n)"
proof (cases "\<exists>r ldr addr. map_of (nd_replicas n) ref = Some r \<and> hr_following r \<and> leaderOf ref n = Some (ldr, addr)")
  case True
  then obtain r ldr addr where r: "map_of (nd_replicas n) ref = Some r" "hr_following r" "leaderOf ref n = Some (ldr, addr)"
    by blast
  let ?req = "follow_ask ref addr (hr_part r)"
  obtain part1 k where a: "follow_answer ?req (net ?req) (hr_part r) = (part1, k)" by fastforce
  have "replica_ok ref r" using assms(1) r by (simp add: node_ok_def)
  then have "replica_ok ref (r\<lparr>hr_part := part1\<rparr>)" using r(2) assms(2) a by (rule replica_ok_answer)
  then have "node_ok (put_part ref part1 n)" using assms(1) r by (intro node_ok_put) auto
  with r a show ?thesis by (auto simp: follow_round_def Let_def split: option.splits)
qed (use assms in \<open>auto simp: follow_round_def split: option.splits\<close>)


lemma replica_ok_lead:
  assumes "replica_ok ref r"
  shows "replica_ok ref \<lparr>hr_part = lead ex p (hr_part r), hr_following = False\<rparr>"
  using assms resetLocked_ok [of "hr_part r"]
  by (auto simp: replica_ok_def lead_def Seal_def LeadFresh_def Promote_def data_ok_def Let_def) (simp_all add: resetLocked_def)

lemma replica_ok_follow:
  assumes "replica_ok ref r"
  shows "replica_ok ref \<lparr>hr_part = snd (Follow e (hr_part r)), hr_following = True\<rparr>"
  using assms resetLocked_ok [of "hr_part r"]
  by (auto simp: replica_ok_def Follow_def data_ok_def Let_def) (simp_all add: resetLocked_def)

lemma replica_ok_new: "replica_ok ref \<lparr>hr_part = NewPartition ref opts, hr_following = True\<rparr>"
  using tracks_NewPartition [of ref opts]
  by (simp add: replica_ok_def Let_def tracks_def wal_holds_def) (simp add: NewPartition_def)

lemma node_ok_reconcile:
  assumes "node_ok n"
  shows "node_ok (reconcile lo n)"
proof -
  let ?ok = "\<lambda>rs. gm_ok rs \<and> (\<forall>ref r. map_of rs ref = Some r \<longrightarrow> replica_ok ref r)"
  have one: "?ok (reconcile_one n rs x)" if "?ok rs" for rs x
  proof -
    obtain ref p where x: "x = (ref, p)" by fastforce
    define r where "r = (case map_of rs ref of Some r \<Rightarrow> r | None \<Rightarrow> \<lparr>hr_part = NewPartition ref (nd_opts n), hr_following = True\<rparr>)"
    have r: "replica_ok ref r" using that replica_ok_new by (auto simp: r_def split: option.splits)
    define r' where "r' = (if p_Leader p = nd_ID n
        then \<lparr>hr_part = lead (map_of rs ref \<noteq> None) p (hr_part r), hr_following = False\<rparr>
        else \<lparr>hr_part = snd (Follow (p_Epoch p) (hr_part r)), hr_following = True\<rparr>)"
    have "reconcile_one n rs x = gm_put ref r' rs"
      by (simp add: x reconcile_one_def r_def r'_def Let_def split: option.splits)
    moreover have "replica_ok ref r'" using replica_ok_lead [OF r] replica_ok_follow [OF r] by (simp add: r'_def)
    ultimately show ?thesis using that by (simp add: map_of_put)
  qed
  have "?ok (filter (\<lambda>(ref, r). map_of (desired_replicas n lo) ref \<noteq> None) (nd_replicas n))"
  proof -
    have "map_of (filter P m) k = Some v \<Longrightarrow> gm_ok m \<Longrightarrow> map_of m k = Some v" for P and m :: "(PartitionRef \<times> held) list" and k v
      by (auto simp: gm_ok_def distinct_map_filter map_of_eq_Some_iff)
    moreover have "gm_ok (filter P (nd_replicas n))" for P
      using assms by (simp add: node_ok_def gm_ok_def distinct_map_filter)
    ultimately show ?thesis using assms unfolding node_ok_def by blast
  qed
  then have "?ok (foldl (reconcile_one n) (filter (\<lambda>(ref, r). map_of (desired_replicas n lo) ref \<noteq> None) (nd_replicas n))
      (desired_replicas n lo))"
    by (rule foldl_inv) (rule one)
  then show ?thesis by (simp add: node_ok_def reconcile_def Let_def)
qed

text \<open>Everything that changes a node's state, in any order: a new layout, a lost lease, requests, replication.\<close>

inductive node_step :: "NodeServer \<Rightarrow> NodeServer \<Rightarrow> bool" where
  watch: "node_step n (reconcile lo (n\<lparr>nd_layout := lo\<rparr>))"
| members: "node_step n (n\<lparr>nd_nodes := ns\<rparr>)"
| lost: "node_step n (rejoin now n)"
| set: "node_step n (snd (handleSet now m qref data n))"
| delete: "node_step n (snd (handleDelete now m qref data' n))"
| get: "node_step n (snd (handleGet m qref k n))"
| snapshot: "node_step n (snd (handleSnapshot now qref e n))"
| export: "node_step n (snd (handleMigrateExport now qref cnt i after frz n))"
| pull: "node_step n (snd (handleMigratePull net now m body n))"
| follow: "(\<And>req. answer_ok (net' req)) \<Longrightarrow> node_step n (follow_round net' ref n)"

lemma node_ok_New: "node_ok (NewNode i addr opts now)"
  by (simp add: NewNode_def node_ok_def gm_ok_def)

lemma node_ok_layout [simp]: "node_ok (n\<lparr>nd_layout := lo\<rparr>) = node_ok n" "node_ok (n\<lparr>nd_nodes := ns\<rparr>) = node_ok n"
  "node_ok (n\<lparr>nd_incarnation := i\<rparr>) = node_ok n"
  by (simp_all add: node_ok_def)

lemma node_ok_step: "node_step n n' \<Longrightarrow> node_ok n \<Longrightarrow> node_ok n'"
  by (induction rule: node_step.induct)
    (auto simp: rejoin_def Let_def intro!: node_ok_reconcile node_ok_handlers node_ok_follow_round)

lemma find_status_unique:
  assumes "st \<in> set ps" and "ps_Ref st = ref" and "\<forall>x \<in> set ps. ps_Ref x = ref \<longrightarrow> x = st"
  shows "find_status ps ref = (st, True)"
  using assms(1,3)
proof (induction ps)
  case (Cons p ps)
  show ?case
  proof (cases "ps_Ref p = ref")
    case True
    with Cons.prems(2) have "p = st" by simp
    then show ?thesis by (simp add: assms(2))
  next
    case False
    with Cons.prems(1) assms(2) have "st \<in> set ps" by auto
    with Cons False show ?thesis by simp
  qed
qed simp

lemma find_status_none: "ref \<notin> ps_Ref ` set ps \<Longrightarrow> find_status ps ref = (zero_status, False)"
  by (induction ps) auto

lemma node_ok_status:
  assumes "node_ok n"
  shows "NodeStatus_Partition (node_status n) ref =
    (case lookup ref n of None \<Rightarrow> (zero_status, False) | Some part \<Rightarrow> (Replica_Status part, True))"
proof -
  let ?ps = "ns_Partitions (node_status n)"
  have key: "ps_Ref (Replica_Status (hr_part r)) = ref'" if "(ref', r) \<in> set (nd_replicas n)" for ref' r
    using assms that by (auto simp: node_ok_def gm_ok_def replica_ok_def Replica_Status_def ps_Ref_def Let_def split: prod.splits)
  have set: "x \<in> set ?ps \<longleftrightarrow> (\<exists>r. (ps_Ref x, r) \<in> set (nd_replicas n) \<and> x = Replica_Status (hr_part r))" for x
    using key by (force simp: node_status_def)
  have mo: "map_of (nd_replicas n) ref = Some r \<longleftrightarrow> (ref, r) \<in> set (nd_replicas n)" for r
    using assms by (simp add: node_ok_def gm_ok_def)
  show ?thesis
  proof (cases "map_of (nd_replicas n) ref")
    case None
    then have "find_status ?ps ref = (zero_status, False)"
      by (intro find_status_none) (force simp: set map_of_eq_None_iff)
    with None show ?thesis by (simp add: NodeStatus_Partition_def lookup_def)
  next
    case (Some r)
    have "find_status ?ps ref = (Replica_Status (hr_part r), True)"
    proof (rule find_status_unique)
      show k: "ps_Ref (Replica_Status (hr_part r)) = ref" using Some mo key by blast
      show "Replica_Status (hr_part r) \<in> set ?ps" using Some mo k set by blast
      show "\<forall>x \<in> set ?ps. ps_Ref x = ref \<longrightarrow> x = Replica_Status (hr_part r)"
        using Some mo set by (metis option.inject)
    qed
    with Some show ?thesis by (simp add: NodeStatus_Partition_def lookup_def)
  qed
qed

text \<open>
  C16. In every state a node reaches, whatever layouts, requests, replication answers and lost leases
  it sees in whatever order, the status it reports to the controller for a partition is the status
  of the replica it holds, the log of every replica is contiguous and bounded, its key counter is
  the number of keys a reader finds, and a leader counts as synced in its own epoch.
\<close>

theorem node_invariant:
  assumes "rtranclp node_step (NewNode i addr opts now) n"
  shows "NodeStatus_Partition (node_status n) ref =
      (case lookup ref n of None \<Rightarrow> (zero_status, False) | Some part \<Rightarrow> (Replica_Status part, True)) \<and>
    (case lookup ref n of None \<Rightarrow> True
     | Some part \<Rightarrow> wal_ok (rp_wal part) \<and> rp_keys part = int (card (dom (contents (rp_store part)))) \<and>
         (rp_role part = NodeRoleLeader \<longrightarrow> rp_synced part \<and> rp_dataEpoch part = rp_epoch part))"
proof -
  have ok: "node_ok n"
    using assms by (induction rule: rtranclp_induct) (auto intro: node_ok_New node_ok_step)
  then show ?thesis
    by (auto simp: node_ok_status node_ok_def lookup_def replica_ok_def data_ok_def Let_def split: option.splits)
qed

theorem node_invariant_witness:
  "\<exists>part. NodeStatus_Partition (node_status example_server) (PartitionRef 1 0) = (Replica_Status part, True) \<and>
    wal_ok (rp_wal part) \<and> rp_synced part \<and> rp_dataEpoch part = 1"
proof -
  have "node_step (NewNode ''node1'' ''node1:7000'' example_opts 11) example_server"
    unfolding example_server_def by (rule node_step.watch)
  then have r: "rtranclp node_step (NewNode ''node1'' ''node1:7000'' example_opts 11) example_server" by blast
  have "Find (Some example_layout) (PartitionRef 1 0) = Some (example_partition 0)"
    by (simp add: Find_def example_layout_def)
  note l = example_server_lookup [OF this]
  show ?thesis
    using node_invariant [OF r, of "PartitionRef 1 0"]
    by (intro exI [of _ "LeadFresh 1 (NewPartition (PartitionRef 1 0) example_opts)"]) (auto simp: l LeadFresh_def)
qed

end
