(* ===== verification/NodeServe.thy ===== *)
theory NodeServe
  imports NodeInv
begin

text \<open>
  Client requests on a database node (\<open>src/internal/node/node.go\<close>): the outcome of writes on every
  branch, and the freeze of a key range while it migrates.
\<close>

section \<open>Client requests\<close>

lemma append_contents:
  assumes "data_ok p"
  shows "contents (rp_store (snd (appendLocked now op p))) = op_spec op (contents (rp_store p))"
proof -
  have flush: "contents (snd (snd (Store_Flush c s))) = contents s" if "store_ok s" for c s
    using that by (simp add: lsm.contents_flush)
  have "data_ok (applyLocked op' sq (p\<lparr>rp_wal := w\<rparr>))" for op' sq w using assms by (simp add: applyLocked_data(1))
  then show ?thesis
    using assms applyLocked_data(2) [of "p\<lparr>rp_wal := w\<rparr>" for w]
    by (auto simp: appendLocked_def Append_def WAL_Checkpoint_def Let_def data_ok_def flush)
qed

text \<open>A write on one replica: refused without any effect on data and log, or the next entry.\<close>

lemma write_cases:
  assumes "data_ok p" and "write_op now op p = (r, p')"
  shows "case r of
      Inl err \<Rightarrow> rp_store p' = rp_store p \<and> rp_wal p' = rp_wal p \<and>
        (err = ErrNotLeader \<and> rp_role p \<noteq> NodeRoleLeader \<or>
         rp_role p = NodeRoleLeader \<and> (err = ErrSealed \<and> rp_sealed p \<or>
           err = ErrFrozen \<and> \<not> rp_sealed p \<and> fst (frozenLocked now (op_Key op) p)))
    | Inr e \<Rightarrow> rp_role p = NodeRoleLeader \<and> \<not> rp_sealed p \<and> \<not> fst (frozenLocked now (op_Key op) p) \<and>
        le_SequenceNumber e = w_currentSeq (rp_wal p) + 1 \<and> contents (rp_store p') = op_spec op (contents (rp_store p))"
proof -
  obtain b p1 where f: "frozenLocked now (op_Key op) p = (b, p1)" by fastforce
  note st = tracks_frozenLocked [OF f]
  have d: "data_ok p1" using assms(1) f by (auto simp: frozenLocked_def data_ok_def Let_def split: if_splits)
  obtain e p2 where a: "appendLocked now op p1 = (e, p2)" by fastforce
  have "le_SequenceNumber e = w_currentSeq (rp_wal p) + 1"
    using a st(5) by (auto simp: appendLocked_def Append_def Let_def split: if_splits prod.splits)
  moreover have "contents (rp_store p2) = op_spec op (contents (rp_store p))"
    using append_contents [OF d, of now op] a st(6) by simp
  ultimately show ?thesis
    using assms(2) f a st by (auto simp: write_op_def split: if_splits bool.splits)
qed

lemma lookup_put:
  "lookup ref' (put_part ref part n) = (if ref' = ref \<and> lookup ref n \<noteq> None then Some part else lookup ref' n)"
  by (auto simp: lookup_def put_part_def gomap_simps split: option.splits)

lemma lookup_Inc [simp]: "lookup ref (node_Inc name n) = lookup ref n"
  by (simp add: lookup_def node_Inc_def)

lemma node_ok_data: "node_ok n \<Longrightarrow> lookup ref n = Some part \<Longrightarrow> data_ok part"
  by (auto simp: node_ok_def lookup_def replica_ok_def Let_def)

lemma target_write:
  assumes "nd_layout n = Some l" and "Route (Some l) k = Some (ref, Some p)" and "Find (Some l) ref = Some p"
  shows "target qref k True n = Some
    (if qref \<in> {None, Some ref} \<and> p_Leader p = nd_ID n
     then (case lookup ref n of None \<Rightarrow> Inl 421 | Some part \<Rightarrow> Inr (ref, part)) else Inl 421)"
  using assms by (auto simp: target_def Owns_def split: option.splits bool.splits)

definition contents_at :: "PartitionRef \<Rightarrow> NodeServer \<Rightarrow> (key \<rightharpoonup> string) option" where
  "contents_at ref n = map_option (\<lambda>p. contents (rp_store p)) (lookup ref n)"

lemma node_write_outcome:
  assumes "node_ok n" and "nd_layout n = Some l" and "Route (Some l) k = Some (ref, Some p)" and "Find (Some l) ref = Some p"
    and "\<And>part. wr part = write_op now op part" and "op_Key op = k"
  shows "case node_write name wr qref k n of
      (NSeq s, n') \<Rightarrow> p_Leader p = nd_ID n \<and> qref \<in> {None, Some ref} \<and>
        (\<exists>part. lookup ref n = Some part \<and> rp_role part = NodeRoleLeader \<and> \<not> rp_sealed part \<and>
           s = w_currentSeq (rp_wal part) + 1 \<and> contents_at ref n' = Some (op_spec op (contents (rp_store part)))) \<and>
        (\<forall>ref'. ref' \<noteq> ref \<longrightarrow> contents_at ref' n' = contents_at ref' n)
    | (NError code, n') \<Rightarrow>
        (\<forall>ref'. contents_at ref' n' = contents_at ref' n) \<and>
        (code = 421 \<and> (qref \<notin> {None, Some ref} \<or> p_Leader p \<noteq> nd_ID n \<or>
             (\<forall>part. lookup ref n = Some part \<longrightarrow> rp_role part \<noteq> NodeRoleLeader)) \<or>
         code = 503 \<and> (\<exists>part. lookup ref n = Some part \<and> (rp_sealed part \<or> fst (frozenLocked now k part))))
    | _ \<Rightarrow> False"
proof (cases "qref \<in> {None, Some ref} \<and> p_Leader p = nd_ID n \<and> lookup ref n \<noteq> None")
  case True
  then obtain part where l: "lookup ref n = Some part" by blast
  obtain r part1 where w: "write_op now op part = (r, part1)" by fastforce
  note c = write_cases [OF node_ok_data [OF assms(1) l] w]
  show ?thesis
  proof (cases r)
    case (Inl err)
    with True l w c assms(5,6) show ?thesis
      by (auto simp: node_write_def target_write [OF assms(2-4)] contents_at_def lookup_put)
  next
    case (Inr e)
    with True l w c assms(5,6) show ?thesis
      by (auto simp: node_write_def target_write [OF assms(2-4)] contents_at_def lookup_put)
  qed
next
  case False
  then have "target qref k True n = Some (Inl 421)"
    by (auto simp: target_write [OF assms(2-4)])
  with False show ?thesis by (auto simp: node_write_def contents_at_def)
qed

lemma node_set_cases:
  assumes "node_ok n" and "nd_layout n = Some l" and "layout_ok l" and "k \<noteq> ''''"
  shows "\<exists>ref p. Route (Some l) k = Some (ref, Some p) \<and>
    (case handleSet now ''POST'' qref (Some (k, v)) n of
       (NSeq s, n') \<Rightarrow> p_Leader p = nd_ID n \<and> qref \<in> {None, Some ref} \<and>
         (\<exists>part. lookup ref n = Some part \<and> rp_role part = NodeRoleLeader \<and> \<not> rp_sealed part \<and>
            s = w_currentSeq (rp_wal part) + 1 \<and> contents_at ref n' = Some ((contents (rp_store part))(k \<mapsto> v))) \<and>
         (\<forall>ref'. ref' \<noteq> ref \<longrightarrow> contents_at ref' n' = contents_at ref' n)
     | (NError code, n') \<Rightarrow>
         (\<forall>ref'. contents_at ref' n' = contents_at ref' n) \<and>
         (code = 421 \<and> (qref \<notin> {None, Some ref} \<or> p_Leader p \<noteq> nd_ID n \<or>
              (\<forall>part. lookup ref n = Some part \<longrightarrow> rp_role part \<noteq> NodeRoleLeader)) \<or>
          code = 503 \<and> (\<exists>part. lookup ref n = Some part \<and> (rp_sealed part \<or> fst (frozenLocked now k part))))
     | _ \<Rightarrow> False)"
proof -
  obtain ref p where r: "Route (Some l) k = Some (ref, Some p)" "Find (Some l) ref = Some p"
    using assms(3) by (rule Route_Find)
  let ?op = "\<lparr>op_Type = OpSet, op_Key = k, op_Value = v, op_Timestamp = 0\<rparr>"
  have spec: "op_spec ?op m = m(k \<mapsto> v)" for m by (simp add: op_spec.simps)
  have "Set_key now k v part = write_op now ?op part" for part by (simp add: Set_key_def)
  note out = node_write_outcome [OF assms(1,2) r this, where name = "''set''" and qref = qref, unfolded spec]
  have "handleSet now ''POST'' qref (Some (k, v)) n = node_write ''set'' (Set_key now k v) qref k n"
    using assms(4) by (simp add: handleSet_def)
  with out r show ?thesis by (intro exI [of _ ref] exI [of _ p]) simp
qed

text \<open>
  C18. A set request on a node is acknowledged only by the layout's leader of the partition that owns
  the key, on an unsealed leading replica and for the partition the balancer asked for; it then has
  the next sequence number and sets exactly that key. Every refusal changes no data on the node and
  is a 421 (wrong partition, not on this node, not the leader) or a 503 (sealed or frozen).
\<close>

theorem node_set_outcome:
  assumes "node_ok n" and "nd_layout n = Some l" and "layout_ok l" and "k \<noteq> ''''"
  shows "\<exists>ref p. Route (Some l) k = Some (ref, Some p) \<and>
    (case handleSet now ''POST'' qref (Some (k, v)) n of
       (NSeq s, n') \<Rightarrow> p_Leader p = nd_ID n \<and> qref \<in> {None, Some ref} \<and>
         (\<exists>part. lookup ref n = Some part \<and> rp_role part = NodeRoleLeader \<and> \<not> rp_sealed part \<and>
            s = w_currentSeq (rp_wal part) + 1 \<and> contents_at ref n' = Some ((contents (rp_store part))(k \<mapsto> v))) \<and>
         (\<forall>ref'. ref' \<noteq> ref \<longrightarrow> contents_at ref' n' = contents_at ref' n)
     | (NError code, n') \<Rightarrow>
         (\<forall>ref'. contents_at ref' n' = contents_at ref' n) \<and>
         (code = 421 \<and> (qref \<notin> {None, Some ref} \<or> p_Leader p \<noteq> nd_ID n \<or>
              (\<forall>part. lookup ref n = Some part \<longrightarrow> rp_role part \<noteq> NodeRoleLeader)) \<or>
          code = 503 \<and> (\<exists>part. lookup ref n = Some part \<and> (rp_sealed part \<or> fst (frozenLocked now k part))))
     | _ \<Rightarrow> False)"
  using assms by (rule node_set_cases)

section \<open>Frozen ranges\<close>

lemma show_nat_digits: "c \<in> set (show_nat n) \<Longrightarrow> of_char c \<in> {48..57 :: nat}"
proof (induction n rule: show_nat.induct)
  case (1 n)
  then show ?case by (cases "n < 10") (auto simp: show_nat.simps [of n])
qed

lemma show_nat_not_Nil [simp]: "show_nat n \<noteq> []"
  by (subst show_nat.simps) simp

lemma char_of_inj: "a < 256 \<Longrightarrow> b < 256 \<Longrightarrow> char_of a = char_of b \<longleftrightarrow> a = (b :: nat)"
  by (metis of_char_of mod_less)

lemma show_nat_inj: "show_nat m = show_nat n \<Longrightarrow> m = n"
proof (induction m arbitrary: n rule: show_nat.induct)
  case (1 m)
  have d: "char_of (48 + a mod 10) = char_of (48 + b mod 10) \<longleftrightarrow> a mod 10 = b mod (10 :: nat)" for a b
    by (subst char_of_inj) auto
  show ?case
  proof (cases "m < 10 \<or> n < 10")
    case True
    with 1(2) show ?thesis
      by (subst (asm) (1 2) show_nat.simps) (auto simp: char_of_inj dest: sym [of "[]"] split: if_splits)
  next
    case False
    with 1(2) have "show_nat (m div 10) = show_nat (n div 10)" "m mod 10 = n mod 10"
      by (subst (asm) (1 2) show_nat.simps, simp add: d)+
    with 1(1) [of "n div 10"] False have "m div 10 = n div 10" by simp
    with \<open>m mod 10 = n mod 10\<close> show ?thesis by (metis div_mult_mod_eq)
  qed
qed

lemma show_int_inj: "show_int i = show_int j \<Longrightarrow> i = j"
proof -
  have char_dash: "\<not> 48 \<le> (of_char (CHR ''-'') :: nat)" by simp
  have neg: "CHR ''-'' # s \<noteq> show_nat m" for s m
    using show_nat_digits [of "CHR ''-''" m] by (metis list.set_intros(1) atLeastAtMost_iff char_dash)
  show "show_int i = show_int j \<Longrightarrow> i = j"
    using neg neg [symmetric] by (auto simp: show_int_def dest: show_nat_inj split: if_splits)
qed

lemma show_int_no_slash: "CHR ''/'' \<notin> set (show_int i)"
  using show_nat_digits [of "CHR ''/''" "nat i"] show_nat_digits [of "CHR ''/''" "nat (- i)"] by (auto simp: show_int_def)

lemma migration_tag_inj: "migration_tag c i = migration_tag c' i' \<Longrightarrow> c = c' \<and> i = i'"
proof -
  assume "migration_tag c i = migration_tag c' i'"
  then have "show_int c = show_int c' \<and> show_int i = show_int i'"
    by (simp add: migration_tag_def append_Cons_eq_iff show_int_no_slash)
  then show ?thesis using show_int_inj by blast
qed

lemma freezes_ok_tag:
  assumes "freezes_ok p"
  shows "\<forall>f \<in> set (rp_freezes p). fz_tag f = migration_tag c i \<longrightarrow> fz_match f = range_of c i"
  using assms migration_tag_inj unfolding freezes_ok_def by metis


text \<open>A replica on which the range \<open>c/i\<close> is frozen until \<open>until\<close>, with the contents \<open>m\<close> in it.\<close>

definition holds_range :: "int \<Rightarrow> int \<Rightarrow> go_time \<Rightarrow> (key \<rightharpoonup> string) \<Rightarrow> Replica \<Rightarrow> bool" where
  "holds_range c i until m p \<longleftrightarrow> data_ok p \<and> freezes_ok p \<and> frozen_until (range_of c i) until p \<and>
     contents (rp_store p) |` {k. range_of c i k} = m"

lemma holds_range_write:
  assumes "holds_range c i until m p" and "t \<le> until"
  shows "holds_range c i until m (snd (write_op t op p))"
proof -
  obtain r p' where w: "write_op t op p = (r, p')" by fastforce
  have ok: "data_ok p" and f: "frozen_until (range_of c i) until p" using assms(1) by (simp_all add: holds_range_def)
  have fr: "frozen_until (range_of c i) until p'"
  proof -
    obtain b p1 where fl: "frozenLocked t (op_Key op) p = (b, p1)" by fastforce
    have "frozen_until (range_of c i) until p1" using frozenLocked_frozen(1) [OF f assms(2), of "op_Key op"] fl by simp
    moreover obtain e p2 where a: "appendLocked t op p1 = (e, p2)" by fastforce
    moreover have "rp_freezes p2 = rp_freezes p1" using appendLocked_freezes a by (metis snd_conv)
    ultimately show ?thesis
      using w fl f by (auto simp: write_op_def frozen_until_def split: if_splits bool.splits)
  qed
  have c: "contents (rp_store p') |` {k. range_of c i k} = contents (rp_store p) |` {k. range_of c i k}"
  proof (cases r)
    case (Inr e)
    with write_cases [OF ok w] have "\<not> range_of c i (op_Key op)"
      and "contents (rp_store p') = op_spec op (contents (rp_store p))"
      using frozenLocked_frozen(2) [OF f assms(2), of "op_Key op"] by auto
    then show ?thesis by (simp add: op_spec_restrict(1))
  qed (use write_cases [OF ok w] in simp)
  have "data_ok p' \<and> freezes_ok p'"
    using evolves_write [of p t op] w assms(1) by (auto simp: evolves_def holds_range_def)
  with fr c assms(1) w show ?thesis by (simp add: holds_range_def)
qed

lemma Take_Snapshot_frame:
  "rp_freezes (snd (Take_Snapshot t f p)) = rp_freezes p"
  "data_ok p \<Longrightarrow> contents (rp_store (snd (Take_Snapshot t f p))) = contents (rp_store p)"
  by (auto simp: Take_Snapshot_def Let_def split_beta data_ok_def lsm.contents_flush)

lemma holds_range_snapshot:
  assumes "holds_range c i until m p"
  shows "holds_range c i until m (snd (Take_Snapshot t f p))"
  using assms evolves_Snapshot [of p t f] Take_Snapshot_frame [where t = t and f = f and p = p]
  by (auto simp: holds_range_def frozen_until_def freezes_ok_def evolves_def)

lemma frozen_until_extend:
  assumes "frozen_until (range_of c i) until p" and "until \<le> t + ttl"
  shows "frozen_until (range_of c i) until (addFreezeLocked t tag match ttl p)"
proof -
  have "\<exists>f' \<in> set fs'. fz_match f' = fz_match f \<and> until \<le> fz_until f'"
    if "extend_freeze tag (t + ttl) fs = Some fs'" "f \<in> set fs" "until \<le> fz_until f" for fs fs' f
    using that assms(2) by (induction fs arbitrary: fs') (auto split: if_splits)
  then show ?thesis
    using assms(1) by (fastforce simp: frozen_until_def addFreezeLocked_def Let_def split: option.splits)
qed

lemma holds_range_export:
  assumes "holds_range c i until m p" and "until \<le> t + ttl"
  shows "holds_range c i until m (snd (Export t (migration_tag c' i') (range_of c' i') frz after ttl p))"
proof -
  let ?p1 = "addFreezeLocked t (migration_tag c' i') (range_of c' i') ttl p"
  have "rp_store ?p1 = rp_store p" by (simp add: addFreezeLocked_def Let_def split: option.splits)
  then have p1: "holds_range c i until m ?p1"
    using assms evolves_addFreeze [of p t c' i' ttl] frozen_until_extend
    by (auto simp: holds_range_def evolves_def)
  have snap: "holds_range c i until m (snd (export_snapshot t (range_of c' i') q))" if "holds_range c i until m q" for q
    using holds_range_snapshot [OF that, of t "Some (range_of c' i')"]
    by (auto simp: export_snapshot_def split: prod.splits sum.splits)
  show ?thesis
    using assms(1) p1 snap [OF p1] snap [OF assms(1)]
    by (auto simp: Export_def Let_def split: prod.splits bool.splits)
qed

text \<open>What a node serves while a range is frozen: client requests, snapshots and further exports.\<close>

inductive serve_step :: "go_time \<Rightarrow> go_time \<Rightarrow> NodeServer \<Rightarrow> NodeServer \<Rightarrow> bool" for from_time until where
  set: "t \<le> until \<Longrightarrow> serve_step from_time until n (snd (handleSet t m qref data n))"
| delete: "t \<le> until \<Longrightarrow> serve_step from_time until n (snd (handleDelete t m qref data' n))"
| get: "serve_step from_time until n (snd (handleGet m qref k n))"
| snapshot: "serve_step from_time until n (snd (handleSnapshot t qref e n))"
| export: "from_time \<le> t \<Longrightarrow> serve_step from_time until n (snd (handleMigrateExport t qref cnt j after frz n))"

definition range_held :: "PartitionRef \<Rightarrow> int \<Rightarrow> int \<Rightarrow> go_time \<Rightarrow> (key \<rightharpoonup> string) \<Rightarrow> NodeServer \<Rightarrow> bool" where
  "range_held ref c i until m n \<longleftrightarrow> (\<exists>part. lookup ref n = Some part \<and> holds_range c i until m part)"

lemma range_held_Inc [simp]: "range_held ref c i until m (node_Inc name n) = range_held ref c i until m n"
  by (simp add: range_held_def)

lemma range_held_put:
  assumes "range_held ref c i until m n"
    and "\<And>part. lookup ref' n = Some part \<Longrightarrow> holds_range c i until m part \<Longrightarrow> holds_range c i until m part'"
  shows "range_held ref c i until m (put_part ref' part' n)"
  using assms by (auto simp: range_held_def lookup_put)

lemma range_held_write:
  assumes "range_held ref c i until m n" and "t \<le> until" and "\<And>p. wr p = write_op t op p"
  shows "range_held ref c i until m (snd (node_write name wr qref k n))"
proof (cases "\<exists>ref' part. target qref k True n = Some (Inr (ref', part))")
  case True
  then obtain ref' part where g: "target qref k True n = Some (Inr (ref', part))" by blast
  obtain r p' where w: "write_op t op part = (r, p')" by fastforce
  have "range_held ref c i until m (put_part ref' p' n)"
    using assms(1)
  proof (rule range_held_put)
    fix q assume "lookup ref' n = Some q" "holds_range c i until m q"
    with target_found [OF g] holds_range_write [OF _ assms(2), of c i m part op] w show "holds_range c i until m p'" by simp
  qed
  with g w assms(3) show ?thesis by (cases r) (simp_all add: node_write_def)
next
  case False
  with assms(1) show ?thesis by (auto simp: node_write_def split: option.splits sum.splits)
qed

lemma range_held_handleSet:
  "range_held ref c i until m n \<Longrightarrow> t \<le> until \<Longrightarrow> range_held ref c i until m (snd (handleSet t mt qref data n))"
  by (auto simp: handleSet_def intro: range_held_write Set_key_def split: option.splits)

lemma range_held_handleDelete:
  "range_held ref c i until m n \<Longrightarrow> t \<le> until \<Longrightarrow> range_held ref c i until m (snd (handleDelete t mt qref data n))"
  by (auto simp: handleDelete_def intro: range_held_write Delete_key_def split: option.splits)

lemma range_held_handleSnapshot:
  assumes "range_held ref c i until m n"
  shows "range_held ref c i until m (snd (handleSnapshot t qref e n))"
proof (cases "\<exists>ref' part. qref = Some ref' \<and> lookup ref' n = Some part")
  case True
  then obtain ref' part where q: "qref = Some ref'" "lookup ref' n = Some part" by blast
  obtain resp part1 where s: "snapshot_part t e part = (resp, part1)" by fastforce
  have "range_held ref c i until m (put_part ref' part1 n)"
    using assms
  proof (rule range_held_put)
    fix p assume "lookup ref' n = Some p" "holds_range c i until m p"
    then show "holds_range c i until m part1"
      using q s holds_range_snapshot [of c i until m part t None]
      by (auto simp: snapshot_part_def split: if_splits prod.splits sum.splits)
  qed
  with q s show ?thesis by (cases resp) (simp_all add: handleSnapshot_def)
qed (use assms in \<open>auto simp: handleSnapshot_def split: option.splits\<close>)

lemma range_held_export:
  assumes "range_held ref c i until m n" and "until \<le> t + freezeTTL"
  shows "range_held ref c i until m (snd (handleMigrateExport t qref cnt j after frz n))"
proof (cases "\<exists>ref' c' j' part. qref = Some ref' \<and> cnt = Some c' \<and> j = Some j' \<and> 0 < c' \<and> lookup ref' n = Some part")
  case True
  then obtain ref' c' j' part where q: "qref = Some ref'" "cnt = Some c'" "j = Some j'" "0 < c'" "lookup ref' n = Some part"
    by blast
  obtain r part1 where e: "Export t (migration_tag c' j') (range_of c' j') frz after freezeTTL part = (r, part1)" by fastforce
  have "range_held ref c i until m (put_part ref' part1 n)"
    using assms(1) by (rule range_held_put) (use holds_range_export [OF _ assms(2)] e q in \<open>force dest: arg_cong [of _ _ snd]\<close>)
  with q e show ?thesis by (cases r) (simp_all add: handleMigrateExport_def range_of_def)
qed (use assms in \<open>auto simp: handleMigrateExport_def split: option.splits\<close>)

lemma range_held_step:
  assumes "serve_step from_time until n n'" and "range_held ref c i until m n" and "until \<le> from_time + freezeTTL"
  shows "range_held ref c i until m n'"
  using assms
proof (cases rule: serve_step.cases)
  case (get m' qref k)
  with assms(2) show ?thesis by (auto simp: handleGet_def split: option.splits sum.splits prod.splits bool.splits)
qed (auto intro!: range_held_handleSet range_held_handleDelete range_held_handleSnapshot range_held_export)

text \<open>
  C14. Once a node has answered an export with a freeze, the exported key range of the partition stays
  as it was for the 30 s of the freeze, through any sequence of client requests, snapshots and further
  exports (of this range or of others, so the tags of different ranges never collide).
\<close>

theorem frozen_until_marked:
  assumes "node_ok n" and "lookup ref n = Some part"
    and "handleMigrateExport now (Some ref) (Some cnt) (Some i) after True n = (NChunk chunk, n1)"
    and "rtranclp (serve_step now (now + freezeTTL)) n1 n2"
  shows "\<exists>part2. lookup ref n2 = Some part2 \<and>
    contents (rp_store part2) |` {k. GetPartitionID k cnt = Some i} =
    contents (rp_store part) |` {k. GetPartitionID k cnt = Some i}"
proof -
  let ?m = "contents (rp_store part) |` {k. range_of cnt i k}"
  obtain part1 where e: "Export now (migration_tag cnt i) (range_of cnt i) True after freezeTTL part = (Inr chunk, part1)"
    and n1: "n1 = put_part ref part1 n"
    using assms(2,3) by (auto simp: handleMigrateExport_def range_of_def split: if_splits prod.splits sum.splits)
  let ?p0 = "addFreezeLocked now (migration_tag cnt i) (range_of cnt i) freezeTTL part"
  have ok: "data_ok part" "freezes_ok part"
    using assms(1,2) by (auto simp: node_ok_def lookup_def replica_ok_def Let_def)
  have "frozen_until (range_of cnt i) (now + freezeTTL) ?p0"
    using freezes_ok_tag [OF ok(2)] by (rule frozen_until_addFreeze)
  moreover have "rp_store ?p0 = rp_store part" by (simp add: addFreezeLocked_def Let_def split: option.splits)
  ultimately have p0: "holds_range cnt i (now + freezeTTL) ?m ?p0"
    using ok evolves_addFreeze [of part now cnt i freezeTTL] by (auto simp: holds_range_def evolves_def)
  have "part1 = ?p0 \<or> part1 = snd (export_snapshot now (range_of cnt i) ?p0)"
    using e by (auto simp: Export_def Let_def split: if_splits prod.splits bool.splits)
  with p0 holds_range_snapshot [OF p0, of now "Some (range_of cnt i)"] have "holds_range cnt i (now + freezeTTL) ?m part1"
    by (auto simp: export_snapshot_def split: prod.splits sum.splits)
  then have "range_held ref cnt i (now + freezeTTL) ?m n1"
    using assms(2) by (auto simp: n1 range_held_def lookup_put)
  with assms(4) have "range_held ref cnt i (now + freezeTTL) ?m n2"
    by (induction rule: rtranclp_induct) (auto intro: range_held_step)
  then show ?thesis by (auto simp: range_held_def holds_range_def range_of_def)
qed

section \<open>Concrete requests\<close>

lemma example_server_ok: "node_ok example_server"
  unfolding example_server_def by (intro node_ok_reconcile) (simp add: node_ok_New)

lemma example_server_layout: "nd_layout example_server = Some example_layout" "nd_ID example_server = ''node1''"
  by (simp_all add: example_server_def NewNode_def)

theorem node_set_outcome_witness:
  "\<exists>ref n'. handleSet 5 ''POST'' None (Some (''user:42'', ''v'')) example_server = (NSeq 1, n') \<and>
    contents_at ref n' = Some [''user:42'' \<mapsto> ''v'']"
proof -
  obtain ref p where f: "Route (Some example_layout) ''user:42'' = Some (ref, Some p)" "Find (Some example_layout) ref = Some p"
    using example_layout_ok by (rule Route_Find)
  let ?part = "LeadFresh 1 (NewPartition ref example_opts)"
  have part: "rp_role ?part = NodeRoleLeader" "\<not> rp_sealed ?part" "\<not> fst (frozenLocked 5 ''user:42'' ?part)"
    "w_currentSeq (rp_wal ?part) = 0" "contents (rp_store ?part) = Map.empty"
    using tracks_LeadFresh [OF tracks_NewPartition]
    by (simp_all add: LeadFresh_def NewPartition_def resetLocked_def frozenLocked_def WAL_Reset_def tracks_def)
  note l = example_server_lookup [OF f(2)]
  obtain resp n' where h: "handleSet 5 ''POST'' None (Some (''user:42'', ''v'')) example_server = (resp, n')" by fastforce
  from node_set_outcome [OF example_server_ok example_server_layout(1) example_layout_ok, where k = "''user:42''" and now = 5 and qref = None
        and v = "''v''"] f example_Find [OF f(2)] part l example_server_layout(2)
  show ?thesis by (cases resp) (auto simp: h)
qed

theorem frozen_until_marked_witness:
  "\<exists>chunk n1 part2. handleMigrateExport 5 (Some (PartitionRef 1 0)) (Some 2) (Some 0) 0 True example_server = (NChunk chunk, n1) \<and>
    lookup (PartitionRef 1 0) (snd (handleSet 7 ''POST'' None (Some (''user:42'', ''v'')) n1)) = Some part2 \<and>
    contents (rp_store part2) |` {k. GetPartitionID k 2 = Some 0} = Map.empty"
proof -
  have f: "Find (Some example_layout) (PartitionRef 1 0) = Some (example_partition 0)"
    by (simp add: Find_def example_layout_def)
  note l = example_server_lookup [OF f]
  let ?part = "LeadFresh 1 (NewPartition (PartitionRef 1 0) example_opts)"
  have part: "rp_role ?part = NodeRoleLeader" "contents (rp_store ?part) = Map.empty"
    using tracks_LeadFresh [OF tracks_NewPartition] by (simp_all add: LeadFresh_def tracks_def)
  obtain chunk part1 where "Export 5 (migration_tag 2 0) (\<lambda>k. GetPartitionID k 2 = Some 0) True 0 freezeTTL ?part = (Inr chunk, part1)"
    using Export_leader [OF part(1)] by blast
  then obtain n1 where x: "handleMigrateExport 5 (Some (PartitionRef 1 0)) (Some 2) (Some 0) 0 True example_server = (NChunk chunk, n1)"
    by (simp add: handleMigrateExport_def l)
  have "serve_step 5 (5 + freezeTTL) n1 (snd (handleSet 7 ''POST'' None (Some (''user:42'', ''v'')) n1))"
    by (rule serve_step.set) (simp add: freezeTTL_def)
  from frozen_until_marked [OF example_server_ok l x r_into_rtranclp, of _, OF this] x part(2) show ?thesis by auto
qed

end
