(* ===== verification/Replication.thy ===== *)
theory Replication
  imports NodeServe
begin

text \<open>
  The replication protocol of one partition, as the code in \<open>src/internal/node/node.go\<close> (\<open>reconcile\<close>,
  \<open>follow\<close>, \<open>handleReplicate\<close>, \<open>handleSnapshot\<close>) and \<open>src/internal/partition/partition.go\<close> runs it on
  several nodes: a step relation over the replicas and the requests under way, its invariant, and
  what it implies for the copies of the data.
\<close>

section \<open>The replication group of one partition\<close>

text \<open>
  The replicas of one partition on all nodes, each with the request its follower loop has under way.
  A replica's loop has at most one: \<open>stopFollowing\<close> waits for the loop to end before the replica
  is promoted, demoted or dropped. \<open>g_led\<close> are the epochs some leader has taken up.
\<close>

datatype flight =
    Idle
  | Asked node_id follow_request            \<comment> \<open>sent, not yet handled\<close>
  | Waiting node_id follow_request          \<comment> \<open>the handler waits for new entries\<close>
  | Answered follow_request node_response

record group =
  g_part :: "node_id \<Rightarrow> Replica option"
  g_flight :: "node_id \<Rightarrow> flight"
  g_led :: "int set"

definition set_part :: "node_id \<Rightarrow> Replica option \<Rightarrow> group \<Rightarrow> group" where
  "set_part n po s = s\<lparr>g_part := (g_part s)(n := po)\<rparr>"

definition set_flight :: "node_id \<Rightarrow> flight \<Rightarrow> group \<Rightarrow> group" where
  "set_flight n f s = s\<lparr>g_flight := (g_flight s)(n := f)\<rparr>"

text \<open>The operations on a replica's data outside replication, as the handlers call them.\<close>

inductive data_op :: "Replica \<Rightarrow> Replica \<Rightarrow> bool" where
  client_write: "data_op p (snd (write_op now op p))"
| import_ops: "data_op p (snd (Import now ops p))"
| snapshot: "data_op p (snd (Take_Snapshot now f p))"
| export: "data_op p (snd (Export now tag match frz after ttl p))"

inductive group_step :: "PartitionRef \<Rightarrow> Options \<Rightarrow> group \<Rightarrow> group \<Rightarrow> bool" for ref opts where
  lead_new: "g_part s n = None \<Longrightarrow> p_Epoch pt \<notin> g_led s \<Longrightarrow> 0 \<le> p_Epoch pt \<Longrightarrow>
    group_step ref opts s (set_part n (Some (lead False pt (NewPartition ref opts)))
      (set_flight n Idle (s\<lparr>g_led := insert (p_Epoch pt) (g_led s)\<rparr>)))"
| promote: "g_part s n = Some p \<Longrightarrow> p_Epoch pt \<notin> g_led s \<Longrightarrow> 0 \<le> p_Epoch pt \<Longrightarrow>
    group_step ref opts s (set_part n (Some (lead True pt p))
      (set_flight n Idle (s\<lparr>g_led := insert (p_Epoch pt) (g_led s)\<rparr>)))"
| still_leads: "g_part s n = Some p \<Longrightarrow> rp_role p = NodeRoleLeader \<Longrightarrow> p_Epoch pt = rp_epoch p \<Longrightarrow>
    group_step ref opts s (set_part n (Some (lead True pt p)) s)"
| follow_new: "g_part s n = None \<Longrightarrow>
    group_step ref opts s (set_part n (Some (snd (Follow e (NewPartition ref opts)))) (set_flight n Idle s))"
| follow: "g_part s n = Some p \<Longrightarrow> group_step ref opts s (set_part n (Some (snd (Follow e p))) s)"
| drop: "group_step ref opts s (set_part n None (set_flight n Idle s))"
| data: "g_part s n = Some p \<Longrightarrow> data_op p p' \<Longrightarrow> group_step ref opts s (set_part n (Some p') s)"
| ask: "g_part s n = Some p \<Longrightarrow> rp_role p = NodeRoleFollower \<Longrightarrow> g_flight s n = Idle \<Longrightarrow>
    group_step ref opts s (set_flight n (Asked m (follow_ask ref addr p)) s)"
| serve_snapshot: "g_flight s n = Asked m (AskSnapshot addr ref e) \<Longrightarrow> g_part s m = Some q \<Longrightarrow>
    snapshot_part now (show_int e) q = (resp, q') \<Longrightarrow>
    group_step ref opts s (set_part m (Some q') (set_flight n (Answered (AskSnapshot addr ref e) resp) s))"
| serve_begin: "g_flight s n = Asked m (AskEntries addr rq) \<Longrightarrow> g_part s m = Some q \<Longrightarrow>
    rq_epoch rq = Some e \<Longrightarrow> rq_dataEpoch rq = Some d \<Longrightarrow> rq_after rq = Some a \<Longrightarrow>
    group_step ref opts s (set_flight n
      (case replicate_begin e d a (rq_wait rq) q of
         Some resp \<Rightarrow> Answered (AskEntries addr rq) resp
       | None \<Rightarrow> Waiting m (AskEntries addr rq)) s)"
| serve_wake: "g_flight s n = Waiting m (AskEntries addr rq) \<Longrightarrow> g_part s m = Some q \<Longrightarrow>
    rq_epoch rq = Some e \<Longrightarrow> rq_after rq = Some a \<Longrightarrow>
    group_step ref opts s (set_flight n (Answered (AskEntries addr rq) (replicate_wake e a q)) s)"
| refuse: "g_flight s n = Asked m req \<Longrightarrow> group_step ref opts s (set_flight n (Answered req (NError code)) s)"
| fails: "group_step ref opts s (set_flight n Idle s)"
| deliver: "g_flight s n = Answered req resp \<Longrightarrow> g_part s n = Some p \<Longrightarrow>
    group_step ref opts s (set_part n (Some (fst (follow_answer req resp p))) (set_flight n Idle s))"

definition group_init :: group where
  "group_init = \<lparr>g_part = (\<lambda>_. None), g_flight = (\<lambda>_. Idle), g_led = {}\<rparr>"

section \<open>Data operations continue a history\<close>

definition continues :: "Replica \<Rightarrow> Replica \<Rightarrow> bool" where
  "continues p q \<longleftrightarrow> same_status p q \<and> (\<forall>h. tracks h p \<longrightarrow> (\<exists>x. tracks (h @ x) q))"

interpretation co: evolution continues
proof
  show "continues p p" for p by (auto simp: continues_def intro: exI [of _ "[]"])
  show "continues p r" if "continues p q" "continues q r" for p q r
    using that unfolding continues_def by (metis append.assoc same_status_trans)
qed

lemma continues_write: "continues p (snd (write_op now op p))"
proof -
  obtain r p' where w: "write_op now op p = (r, p')" by fastforce
  have "\<exists>x. tracks (h @ x) p'" if "tracks h p" for h
  proof (cases r)
    case (Inl err)
    with tracks_write_error [OF that] w show ?thesis by (auto intro: exI [of _ "[]"])
  next
    case (Inr e)
    with w that obtain cps where "tracks (h @ e # cps) p'" by (blast elim: tracks_write)
    then show ?thesis by blast
  qed
  with w same_status_write [of p now op] show ?thesis by (simp add: continues_def)
qed

lemma continues_append: "continues p (snd (appendLocked now op p))"
proof -
  obtain e p' where a: "appendLocked now op p = (e, p')" by fastforce
  have "\<exists>x. tracks (h @ x) p'" if "tracks h p" for h
    using tracks_appendLocked [OF that a] by metis
  with a same_status_appendLocked [of p now op] show ?thesis by (simp add: continues_def)
qed

lemma continues_Snapshot: "continues p (snd (Take_Snapshot now f p))"
proof (cases "rp_role p = NodeRoleLeader")
  case True
  then obtain snap p' where s: "Take_Snapshot now f p = (Inr snap, p')" using Take_Snapshot_leader by blast
  have "\<exists>x. tracks (h @ x) p'" if "tracks h p" for h
    using tracks_Take_Snapshot [OF that s] by metis
  moreover have "same_status p p'" using evolves_Snapshot [of p now f] s by (simp add: evolves_def)
  ultimately show ?thesis using s by (simp add: continues_def)
qed (simp add: Take_Snapshot_def co.refl)

lemma continues_Export: "continues p (snd (Export now tag match frz after ttl p))"
proof -
  have snap: "continues q (snd (export_snapshot now match q))" for q
    using continues_Snapshot [of q now "Some match"] by (auto simp: export_snapshot_def split: prod.splits sum.splits)
  have frz: "continues p (addFreezeLocked now tag match ttl p)"
    by (auto simp: continues_def same_status_def intro: exI [of _ "[]"]) (simp_all add: addFreezeLocked_def Let_def split: option.splits)
  show ?thesis
    using snap frz co.trans [OF frz snap] by (auto simp: Export_def Let_def co.refl split: prod.splits bool.splits)
qed

lemma data_op_continues: "data_op p p' \<Longrightarrow> continues p p' \<and> (rp_role p = NodeRoleLeader \<or> p' = p)"
proof (induction rule: data_op.induct)
  case (client_write p now op)
  have "snd (write_op now op p) = p" if "rp_role p \<noteq> NodeRoleLeader" using that by (simp add: write_op_def)
  then show ?case using continues_write by blast
next
  case (import_ops p now ops)
  then show ?case by (auto simp: Import_def co.refl intro!: co.fold_evolves continues_append)
next
  case (snapshot p now f)
  then show ?case using continues_Snapshot by (auto simp: Take_Snapshot_def)
next
  case (export p now tag match frz after ttl)
  have "snd (Export now tag match frz after ttl p) = p" if "rp_role p \<noteq> NodeRoleLeader"
    using that by (simp add: Export_def export_snapshot_def Take_Snapshot_def)
  then show ?case using continues_Export by blast
qed

section \<open>Invariant\<close>

text \<open>
  \<open>H e\<close> is the history of the leader of epoch \<open>e\<close>, complete as far as that leader got; \<open>G n\<close> is the
  history the replica on node \<open>n\<close> is at. A leader is at the end of its epoch's history; a synced
  follower is on a prefix of the history of the epoch its data comes from; a promoted leader
  remembers up to where its history is a prefix of the previous epoch's.
\<close>

type_synonym histories = "int \<rightharpoonup> LogEntry list"

definition on_history :: "histories \<Rightarrow> int \<Rightarrow> LogEntry list \<Rightarrow> bool" where
  "on_history H e g \<longleftrightarrow> (\<exists>h. H e = Some h \<and> prefix g h)"

definition role_inv :: "histories \<Rightarrow> LogEntry list \<Rightarrow> Replica \<Rightarrow> bool" where
  "role_inv H g p \<longleftrightarrow> tracks g p \<and> (\<not> rp_synced p \<longrightarrow> rp_dataEpoch p = 0) \<and>
     (if rp_role p = NodeRoleLeader
      then H (rp_epoch p) = Some g \<and> rp_dataEpoch p = rp_epoch p \<and> rp_synced p \<and>
        (0 \<le> rp_prevEpoch p \<longrightarrow> 0 \<le> rp_promotedSeq p \<and> rp_promotedSeq p \<le> int (length g) \<and>
           on_history H (rp_prevEpoch p) (take (nat (rp_promotedSeq p)) g))
      else rp_synced p \<longrightarrow> on_history H (rp_dataEpoch p) g)"

text \<open>A request describes the follower that sent it; an answer is right for that follower.\<close>

definition req_ok :: "LogEntry list \<Rightarrow> Replica \<Rightarrow> follow_request \<Rightarrow> bool" where
  "req_ok g p req \<longleftrightarrow>
     (case req of
        AskSnapshot _ _ _ \<Rightarrow> True
      | AskEntries _ rq \<Rightarrow> rp_synced p \<and> rq_dataEpoch rq = Some (rp_dataEpoch p) \<and> rq_after rq = Some (int (length g)))"

definition flight_inv :: "histories \<Rightarrow> LogEntry list \<Rightarrow> Replica option \<Rightarrow> flight \<Rightarrow> bool" where
  "flight_inv H g po f \<longleftrightarrow>
     (case f of
        Idle \<Rightarrow> True
      | Asked m req \<Rightarrow> (\<exists>p. po = Some p \<and> rp_role p = NodeRoleFollower \<and> req_ok g p req)
      | Waiting m req \<Rightarrow> (\<exists>p. po = Some p \<and> rp_role p = NodeRoleFollower \<and> req_ok g p req) \<and>
          (case req of AskEntries _ rq \<Rightarrow> (\<exists>e. rq_epoch rq = Some e \<and> on_history H e g) | _ \<Rightarrow> False)
      | Answered req resp \<Rightarrow> (\<exists>p. po = Some p \<and> rp_role p = NodeRoleFollower \<and> req_ok g p req) \<and>
          (case (req, resp) of
             (AskEntries _ _, NEntries rr) \<Rightarrow> on_history H (rr_Epoch rr) (g @ rr_Entries rr)
           | (AskSnapshot _ _ _, NSnapshot snap) \<Rightarrow> (\<exists>h0. on_history H (sn_Epoch snap) h0 \<and> sn_Seq snap = int (length h0) \<and>
               gm_ok (sn_Data snap) \<and> map_of (sn_Data snap) = replay h0)
           | _ \<Rightarrow> True))"

definition group_inv :: "histories \<Rightarrow> (node_id \<Rightarrow> LogEntry list) \<Rightarrow> group \<Rightarrow> bool" where
  "group_inv H G s \<longleftrightarrow>
     dom H \<subseteq> g_led s \<and> (\<forall>e h. H e = Some h \<longrightarrow> hist_ok h) \<and>
     (\<forall>n p. g_part s n = Some p \<longrightarrow> role_inv H (G n) p) \<and>
     (\<forall>n m p q. g_part s n = Some p \<and> g_part s m = Some q \<and> rp_role p = NodeRoleLeader \<and> rp_role q = NodeRoleLeader \<and>
        rp_epoch p = rp_epoch q \<longrightarrow> n = m) \<and>
     (\<forall>n. flight_inv H (G n) (g_part s n) (g_flight s n))"

text \<open>Histories only grow.\<close>

definition grows :: "histories \<Rightarrow> histories \<Rightarrow> bool" where
  "grows H H' \<longleftrightarrow> (\<forall>e h. H e = Some h \<longrightarrow> (\<exists>h'. H' e = Some h' \<and> prefix h h'))"

lemma on_history_grows: "on_history H e g \<Longrightarrow> grows H H' \<Longrightarrow> on_history H' e g"
  unfolding on_history_def grows_def by (meson prefix_order.trans)

lemma on_history_prefix: "on_history H e g \<Longrightarrow> prefix g' g \<Longrightarrow> on_history H e g'"
  unfolding on_history_def by (meson prefix_order.trans)

lemma flight_inv_grows: "flight_inv H g po f \<Longrightarrow> grows H H' \<Longrightarrow> flight_inv H' g po f"
  unfolding flight_inv_def
  by (auto split: flight.splits follow_request.splits node_response.splits dest: on_history_grows)

text \<open>For another replica only the history of its own epoch must stay as it is.\<close>

lemma role_inv_grows:
  assumes "role_inv H g p" and "grows H H'" and "rp_role p = NodeRoleLeader \<Longrightarrow> H' (rp_epoch p) = H (rp_epoch p)"
  shows "role_inv H' g p"
  using assms by (auto simp: role_inv_def dest: on_history_grows)

lemma group_invD:
  assumes "group_inv H G s"
  shows "dom H \<subseteq> g_led s" and "H e = Some h \<Longrightarrow> hist_ok h" and "g_part s n = Some p \<Longrightarrow> role_inv H (G n) p"
    and "g_part s n = Some p \<Longrightarrow> g_part s m = Some q \<Longrightarrow> rp_role p = NodeRoleLeader \<Longrightarrow> rp_role q = NodeRoleLeader \<Longrightarrow>
      rp_epoch p = rp_epoch q \<Longrightarrow> n = m"
    and "flight_inv H (G n) (g_part s n) (g_flight s n)"
  using assms unfolding group_inv_def by blast+

lemma grows_refl [simp]: "grows H H"
  by (simp add: grows_def)

text \<open>Changing one replica and its request; the histories of the other leaders' epochs stay.\<close>

lemma group_inv_update:
  assumes inv: "group_inv H G s" and H': "grows H H'" "\<And>e h. H' e = Some h \<Longrightarrow> hist_ok h" "dom H' \<subseteq> led"
    and others: "\<And>m q. m \<noteq> n \<Longrightarrow> g_part s m = Some q \<Longrightarrow> rp_role q = NodeRoleLeader \<Longrightarrow> H' (rp_epoch q) = H (rp_epoch q)"
    and role: "\<And>p. po = Some p \<Longrightarrow> role_inv H' g p"
    and uniq: "\<And>p m q. po = Some p \<Longrightarrow> rp_role p = NodeRoleLeader \<Longrightarrow> m \<noteq> n \<Longrightarrow> g_part s m = Some q \<Longrightarrow>
      rp_role q = NodeRoleLeader \<Longrightarrow> rp_epoch p \<noteq> rp_epoch q"
    and fl: "flight_inv H' g po f"
  shows "group_inv H' (G(n := g)) (set_part n po (set_flight n f (s\<lparr>g_led := led\<rparr>)))"
proof -
  have "role_inv H' ((G(n := g)) m) q" if "((g_part s)(n := po)) m = Some q" for m q
    using that role role_inv_grows [OF group_invD(3) [OF inv] H'(1) others] by (cases "m = n") auto
  moreover have "i = j" if "((g_part s)(n := po)) i = Some p" "((g_part s)(n := po)) j = Some q" "rp_role p = NodeRoleLeader"
    "rp_role q = NodeRoleLeader" "rp_epoch p = rp_epoch q" for i j p q
  proof (rule ccontr)
    assume ij: "i \<noteq> j"
    consider "i = n" "j \<noteq> n" | "j = n" "i \<noteq> n" | "i \<noteq> n" "j \<noteq> n" using ij by blast
    then show False
    proof cases
      case 1 with that uniq [of p j q] show False by simp
    next
      case 2 with that uniq [of q i p] show False by simp
    next
      case 3 with that group_invD(4) [OF inv, of i p j q] ij show False by simp
    qed
  qed
  moreover have "flight_inv H' ((G(n := g)) m) (((g_part s)(n := po)) m) (((g_flight s)(n := f)) m)" for m
    using fl flight_inv_grows [OF group_invD(5) [OF inv] H'(1)] by (cases "m = n") auto
  ultimately show ?thesis
    using H'(2,3) unfolding group_inv_def set_part_def set_flight_def by (auto simp del: fun_upd_apply)
qed

lemma group_inv_flight:
  assumes "group_inv H G s" and "flight_inv H (G n) (g_part s n) f"
  shows "group_inv H G (set_flight n f s)"
  using assms by (auto simp: group_inv_def set_flight_def)

lemma set_same:
  "set_flight n (g_flight s n) s = s" "set_part n (g_part s n) s = s" "g_part s n = Some p \<Longrightarrow> set_part n (Some p) s = s"
  by (simp_all add: set_flight_def set_part_def fun_upd_idem)

text \<open>A leader has no request under way, and its epoch is taken.\<close>

lemma leader_idle:
  assumes "group_inv H G s" and "g_part s n = Some p" and "rp_role p = NodeRoleLeader"
  shows "g_flight s n = Idle" and "rp_epoch p \<in> g_led s" and "H (rp_epoch p) = Some (G n)"
  using group_invD(1) [OF assms(1)] group_invD(3) [OF assms(1,2)] group_invD(5) [OF assms(1), of n] assms(2,3)
  by (auto simp: flight_inv_def role_inv_def split: flight.splits)

lemma inv_data:
  assumes inv: "group_inv H G s" and p: "g_part s n = Some p" and c: "continues p p'" "rp_role p = NodeRoleLeader \<or> p' = p"
  shows "\<exists>H' x. group_inv H' (G(n := G n @ x)) (set_part n (Some p') s) \<and> grows H H' \<and>
    (rp_role p = NodeRoleLeader \<longrightarrow> tracks (G n @ x) p' \<and> H' = H(rp_epoch p \<mapsto> G n @ x))"
proof (cases "rp_role p = NodeRoleLeader")
  case False
  then have "set_part n (Some p') s = s" using c p set_same(3) by auto
  with inv False show ?thesis by (intro exI [of _ H] exI [of _ "[]"]) simp
next
  case True
  let ?e = "rp_epoch p"
  note l = leader_idle [OF inv p True]
  have r: "role_inv H (G n) p" using inv p by (rule group_invD)
  then obtain x where x: "tracks (G n @ x) p'" using c(1) by (auto simp: continues_def role_inv_def)
  let ?H = "H(?e \<mapsto> G n @ x)"
  have st: "same_status p p'" using c(1) by (simp add: continues_def)
  have gr: "grows H ?H" using l(3) by (auto simp: grows_def)
  have "group_inv ?H (G(n := G n @ x)) (set_part n (Some p') (set_flight n (g_flight s n) (s\<lparr>g_led := g_led s\<rparr>)))"
    using inv gr
  proof (rule group_inv_update)
    show "hist_ok h" if "?H e = Some h" for e h
      using that group_invD(2) [OF inv] tracks_hist_ok [OF x] by (auto split: if_splits)
    show "dom ?H \<subseteq> g_led s" using group_invD(1) [OF inv] l(2) by auto
    show "?H (rp_epoch q) = H (rp_epoch q)" if "m \<noteq> n" "g_part s m = Some q" "rp_role q = NodeRoleLeader" for m q
      using group_invD(4) [OF inv p that(2) True that(3)] that(1) by auto
    show "role_inv ?H (G n @ x) q" if "Some p' = Some q" for q
    proof -
      from that have q: "q = p'" by simp
      have "on_history ?H (rp_prevEpoch p) (take (nat (rp_promotedSeq p)) (G n @ x))" if "0 \<le> rp_prevEpoch p"
        using r True that on_history_grows [OF _ gr] by (auto simp: role_inv_def take_append)
      with r x st True show ?thesis by (auto simp: q role_inv_def same_status_def)
    qed
    show "rp_epoch q \<noteq> rp_epoch q'" if "Some p' = Some q" "rp_role q = NodeRoleLeader" "m \<noteq> n" "g_part s m = Some q'"
      "rp_role q' = NodeRoleLeader" for q m q'
      using group_invD(4) [OF inv p that(4) True that(5)] that(1,3) st by (auto simp: same_status_def)
    show "flight_inv ?H (G n @ x) (Some p') (g_flight s n)" using l(1) by (simp add: flight_inv_def)
  qed
  then have "group_inv ?H (G(n := G n @ x)) (set_part n (Some p') s)" by (simp add: set_same)
  with x gr show ?thesis by blast
qed

lemma inv_follow:
  assumes inv: "group_inv H G s" and p: "g_part s n = Some p"
  shows "\<exists>g. group_inv H (G(n := g)) (set_part n (Some (snd (Follow e p))) s)"
proof -
  let ?p' = "snd (Follow e p)"
  let ?g = "if rp_role p = NodeRoleLeader then [] else G n"
  have r: "role_inv H (G n) p" using inv p by (rule group_invD)
  then have t: "tracks ?g ?p'"
    using tracks_resetLocked [of "G n" p]
    by (auto simp: role_inv_def Follow_def Let_def) (auto simp: tracks_def data_ok_def)
  have "group_inv H (G(n := ?g)) (set_part n (Some ?p') (set_flight n (g_flight s n) (s\<lparr>g_led := g_led s\<rparr>)))"
    using inv grows_refl
  proof (rule group_inv_update)
    show "role_inv H ?g q" if "Some ?p' = Some q" for q
    proof -
      from that have q: "q = ?p'" by simp
      show ?thesis using t r by (auto simp: q role_inv_def Follow_def Let_def resetLocked_def)
    qed
    show "flight_inv H ?g (Some ?p') (g_flight s n)"
    proof (cases "rp_role p = NodeRoleLeader")
      case True
      then show ?thesis using leader_idle(1) [OF inv p] by (simp add: flight_inv_def)
    next
      case False
      then have "?p' = p\<lparr>rp_role := NodeRoleFollower, rp_epoch := e, rp_sealed := False\<rparr>"
        by (simp add: Follow_def Let_def)
      then show ?thesis
        using group_invD(5) [OF inv, of n] False p
        by (auto simp: flight_inv_def req_ok_def split: flight.splits follow_request.splits)
    qed
  qed (use group_invD [OF inv] in \<open>auto simp: Follow_def Let_def\<close>)
  then show ?thesis by (auto simp: set_same)
qed

text \<open>Taking up a fresh epoch, with the data of the replica or empty.\<close>

lemma inv_take_up:
  assumes inv: "group_inv H G s" and e: "e \<notin> g_led s"
    and p': "tracks g p'" "rp_role p' = NodeRoleLeader" "rp_epoch p' = e" "rp_dataEpoch p' = e" "rp_synced p'"
    and prev: "0 \<le> rp_prevEpoch p' \<Longrightarrow> 0 \<le> rp_promotedSeq p' \<and> rp_promotedSeq p' \<le> int (length g) \<and>
      on_history H (rp_prevEpoch p') (take (nat (rp_promotedSeq p')) g)"
  shows "grows H (H(e \<mapsto> g)) \<and> group_inv (H(e \<mapsto> g)) (G(n := g)) (set_part n (Some p') (set_flight n Idle (s\<lparr>g_led := insert e (g_led s)\<rparr>)))"
proof -
  let ?H = "H(e \<mapsto> g)"
  have He: "H e = None" using e group_invD(1) [OF inv] by blast
  then have gr: "grows H ?H" by (auto simp: grows_def)
  moreover have "group_inv ?H (G(n := g)) (set_part n (Some p') (set_flight n Idle (s\<lparr>g_led := insert e (g_led s)\<rparr>)))"
    using inv gr
  proof (rule group_inv_update)
    show "hist_ok h" if "?H e' = Some h" for e' h
      using that group_invD(2) [OF inv] tracks_hist_ok [OF p'(1)] by (auto split: if_splits)
    show "dom ?H \<subseteq> insert e (g_led s)" using group_invD(1) [OF inv] by auto
    show "?H (rp_epoch q) = H (rp_epoch q)" if "m \<noteq> n" "g_part s m = Some q" "rp_role q = NodeRoleLeader" for m q
      using leader_idle(2) [OF inv that(2,3)] e by auto
    show "role_inv ?H g q" if "Some p' = Some q" for q
      using that p' prev on_history_grows [OF _ gr] by (auto simp: role_inv_def)
    show "rp_epoch q \<noteq> rp_epoch q'" if "Some p' = Some q" "rp_role q = NodeRoleLeader" "m \<noteq> n" "g_part s m = Some q'"
      "rp_role q' = NodeRoleLeader" for q m q'
      using leader_idle(2) [OF inv that(4,5)] e that(1) p'(3) by auto
    show "flight_inv ?H g (Some p') Idle" by (simp add: flight_inv_def)
  qed
  ultimately show ?thesis by blast
qed

lemma inv_promote:
  assumes inv: "group_inv H G s" and p: "g_part s n = Some p" and e: "p_Epoch pt \<notin> g_led s"
  shows "grows H (H(p_Epoch pt \<mapsto> G n)) \<and> group_inv (H(p_Epoch pt \<mapsto> G n)) (G(n := G n))
    (set_part n (Some (lead True pt p)) (set_flight n Idle (s\<lparr>g_led := insert (p_Epoch pt) (g_led s)\<rparr>)))"
proof -
  have r: "role_inv H (G n) p" using inv p by (rule group_invD)
  have "\<not> (rp_role p = NodeRoleLeader \<and> rp_epoch p = p_Epoch pt)"
    using leader_idle(2) [OF inv p] e by auto
  then have l: "lead True pt p = Seal (p_State pt = PartitionHandoff) (Promote (p_Epoch pt) p)" by (auto simp: lead_def)
  have t: "tracks (G n) p" using r by (simp add: role_inv_def)
  show ?thesis
    using inv e
  proof (rule inv_take_up)
    show "tracks (G n) (lead True pt p)"
      using t unfolding l by (auto simp: Seal_def Promote_def tracks_def data_ok_def)
    show "rp_role (lead True pt p) = NodeRoleLeader" "rp_epoch (lead True pt p) = p_Epoch pt"
      "rp_dataEpoch (lead True pt p) = p_Epoch pt" "rp_synced (lead True pt p)"
      by (simp_all add: l Seal_def Promote_def)
    assume "0 \<le> rp_prevEpoch (lead True pt p)"
    then have sy: "rp_synced p" and prev: "rp_prevEpoch (lead True pt p) = rp_dataEpoch p"
      by (auto simp: l Seal_def Promote_def split: if_splits)
    have "on_history H (rp_dataEpoch p) (G n)"
      using r sy by (auto simp: role_inv_def on_history_def split: if_splits)
    moreover have "rp_promotedSeq (lead True pt p) = int (length (G n))"
      using tracks_seq [OF t] by (simp add: l Seal_def Promote_def)
    ultimately show "0 \<le> rp_promotedSeq (lead True pt p) \<and> rp_promotedSeq (lead True pt p) \<le> int (length (G n)) \<and>
      on_history H (rp_prevEpoch (lead True pt p)) (take (nat (rp_promotedSeq (lead True pt p))) (G n))"
      by (simp add: prev)
  qed
qed

lemma inv_lead_new:
  assumes inv: "group_inv H G s" and e: "p_Epoch pt \<notin> g_led s"
  shows "grows H (H(p_Epoch pt \<mapsto> [])) \<and> group_inv (H(p_Epoch pt \<mapsto> [])) (G(n := []))
    (set_part n (Some (lead False pt (NewPartition ref opts))) (set_flight n Idle (s\<lparr>g_led := insert (p_Epoch pt) (g_led s)\<rparr>)))"
proof -
  let ?p = "lead False pt (NewPartition ref opts)"
  have l: "?p = Seal (p_State pt = PartitionHandoff) (LeadFresh (p_Epoch pt) (NewPartition ref opts))" by (simp add: lead_def)
  show ?thesis
    using inv e
  proof (rule inv_take_up)
    show "tracks [] ?p"
      using tracks_LeadFresh [OF tracks_NewPartition] unfolding l by (auto simp: Seal_def tracks_def data_ok_def)
  qed (simp_all add: l Seal_def LeadFresh_def)
qed

text \<open>Replacing a replica by one that follows nobody yet, or by none.\<close>

lemma inv_blank:
  assumes inv: "group_inv H G s" and po: "\<And>p. po = Some p \<Longrightarrow> tracks g p \<and> rp_role p = NodeRoleFollower \<and> \<not> rp_synced p \<and> rp_dataEpoch p = 0"
  shows "group_inv H (G(n := g)) (set_part n po (set_flight n Idle s))"
proof -
  have "group_inv H (G(n := g)) (set_part n po (set_flight n Idle (s\<lparr>g_led := g_led s\<rparr>)))"
    using inv grows_refl
    by (rule group_inv_update) (use po group_invD [OF inv] in \<open>auto simp: role_inv_def flight_inv_def\<close>)
  then show ?thesis by simp
qed

text \<open>
  The check of \<open>CanServe\<close> is sound: a follower that the leader accepts is on a prefix of the
  leader's history, also when its data comes from the previous leader.
\<close>

lemma CanServe_sound:
  assumes q: "role_inv H h q" "rp_role q = NodeRoleLeader" and g: "on_history H d g"
    and serve: "CanServe d (int (length g)) q"
  shows "prefix g h"
proof -
  have len: "int (length g) \<le> int (length h)"
    using serve tracks_seq [of h q] q(1) by (auto simp: CanServe_def role_inv_def split: if_splits)
  have He: "H (rp_epoch q) = Some h" using q by (simp add: role_inv_def)
  consider "d = rp_epoch q" | "0 \<le> rp_prevEpoch q" "d = rp_prevEpoch q" "int (length g) \<le> rp_promotedSeq q"
    using serve by (auto simp: CanServe_def split: if_splits)
  then show ?thesis
  proof cases
    case 1
    with g He show ?thesis by (simp add: on_history_def)
  next
    case 2
    let ?k = "nat (rp_promotedSeq q)"
    from q 2 have k: "on_history H d (take ?k h)" "rp_promotedSeq q \<le> int (length h)" by (simp_all add: role_inv_def)
    with g obtain h0 where "prefix g h0" "prefix (take ?k h) h0" by (auto simp: on_history_def)
    moreover have "length g \<le> length (take ?k h)" using 2(3) k(2) by simp
    ultimately have "prefix g (take ?k h)" by (meson prefix_length_prefix)
    then show ?thesis using take_is_prefix prefix_order.trans by blast
  qed
qed

text \<open>The entries a leader sends after an accepted position continue that follower's history.\<close>

lemma served_entries:
  assumes "tracks h q" and "prefix g h" and "Replica_GetLogsAfter (int (length g)) replicationBatch q = (es, True)"
  shows "prefix (g @ es) h"
proof -
  from assms(1) have w: "wal_holds h (rp_wal q)" by (simp add: tracks_def)
  have "prefix (take (length g) h @ es) h"
    using wlog.after_extends_prefix [OF w, of "int (length g)" replicationBatch es] assms(3) prefix_length_le [OF assms(2)]
    by (simp add: Replica_GetLogsAfter_def)
  then show ?thesis using assms(2) by (metis prefix_def append_eq_conv_conj)
qed

lemma inv_serve_begin:
  assumes inv: "group_inv H G s" and f: "g_flight s n = Asked m (AskEntries addr rq)" and q: "g_part s m = Some q"
    and rq: "rq_epoch rq = Some e" "rq_dataEpoch rq = Some d" "rq_after rq = Some a"
  shows "flight_inv H (G n) (g_part s n)
    (case replicate_begin e d a (rq_wait rq) q of
       Some resp \<Rightarrow> Answered (AskEntries addr rq) resp | None \<Rightarrow> Waiting m (AskEntries addr rq))"
proof -
  from group_invD(5) [OF inv, of n] f obtain p where p: "g_part s n = Some p" "rp_role p = NodeRoleFollower"
    "req_ok (G n) p (AskEntries addr rq)" by (auto simp: flight_inv_def)
  with rq have pd: "rp_synced p" "d = rp_dataEpoch p" "a = int (length (G n))" by (auto simp: req_ok_def)
  have rp: "role_inv H (G n) p" and rq': "role_inv H (G m) q" using inv p(1) q by (auto intro: group_invD)
  have on: "on_history H d (G n)" using rp p(2) pd by (auto simp: role_inv_def)
  have served: "on_history H e (G n) \<and> (replicate_begin e d a (rq_wait rq) q = None \<or>
      (\<exists>rr. replicate_begin e d a (rq_wait rq) q = Some (NEntries rr) \<and> on_history H (rr_Epoch rr) (G n @ rr_Entries rr)))"
    if "rp_role q = NodeRoleLeader" "rp_epoch q = e" "CanServe d a q" "Replica_GetLogsAfter a replicationBatch q = (es, True)" for es
  proof -
    have "prefix (G n) (G m)" using CanServe_sound [OF rq' that(1) on] that(3) pd by simp
    moreover have "H e = Some (G m)" using rq' that(1,2) by (simp add: role_inv_def)
    moreover have "prefix (G n @ es) (G m)"
      using served_entries [of "G m" q "G n" es] rq' calculation(1) that(4) pd by (simp add: role_inv_def)
    ultimately show ?thesis using that by (auto simp: replicate_begin_def on_history_def)
  qed
  obtain es ok where l: "Replica_GetLogsAfter a replicationBatch q = (es, ok)" by fastforce
  consider code where "replicate_begin e d a (rq_wait rq) q = Some (NError code)"
    | es where "rp_role q = NodeRoleLeader" "rp_epoch q = e" "CanServe d a q" "Replica_GetLogsAfter a replicationBatch q = (es, True)"
  proof (cases "rp_role q = NodeRoleLeader \<and> rp_epoch q = e \<and> CanServe d a q \<and> ok")
    case True
    with l show ?thesis by (intro that(2)) auto
  next
    case False
    with l have "\<exists>code. replicate_begin e d a (rq_wait rq) q = Some (NError code)" by (auto simp: replicate_begin_def)
    with that(1) show ?thesis by blast
  qed
  then show ?thesis
  proof cases
    case 1
    with p show ?thesis by (auto simp: flight_inv_def)
  next
    case 2
    from served [OF 2] p rq show ?thesis by (auto simp: flight_inv_def)
  qed
qed

lemma inv_serve_wake:
  assumes inv: "group_inv H G s" and f: "g_flight s n = Waiting m (AskEntries addr rq)" and q: "g_part s m = Some q"
    and rq: "rq_epoch rq = Some e" "rq_after rq = Some a"
  shows "flight_inv H (G n) (g_part s n) (Answered (AskEntries addr rq) (replicate_wake e a q))"
proof -
  from group_invD(5) [OF inv, of n] f rq(1) obtain p where p: "g_part s n = Some p" "rp_role p = NodeRoleFollower"
    "req_ok (G n) p (AskEntries addr rq)" and on: "on_history H e (G n)" by (auto simp: flight_inv_def)
  have a: "a = int (length (G n))" using p(3) rq by (auto simp: req_ok_def)
  have rq': "role_inv H (G m) q" using inv q by (rule group_invD)
  have "on_history H e (G n @ es)"
    if "rp_role q = NodeRoleLeader" "rp_epoch q = e" "Replica_GetLogsAfter a replicationBatch q = (es, True)" for es
  proof -
    have He: "H e = Some (G m)" using rq' that(1,2) by (simp add: role_inv_def)
    with on have "prefix (G n) (G m)" by (simp add: on_history_def)
    then have "prefix (G n @ es) (G m)" using served_entries [of "G m" q "G n" es] rq' that(3) a by (simp add: role_inv_def)
    with He show ?thesis by (simp add: on_history_def)
  qed
  with p show ?thesis
    by (auto simp: flight_inv_def replicate_wake_def split: prod.splits bool.splits)
qed

lemma inv_serve_snapshot:
  assumes inv: "group_inv H G s" and f: "g_flight s n = Asked m (AskSnapshot addr ref e)" and q: "g_part s m = Some q"
    and sp: "snapshot_part now e' q = (resp, q')"
  shows "\<exists>H' G'. grows H H' \<and> group_inv H' G' (set_part m (Some q') (set_flight n (Answered (AskSnapshot addr ref e) resp) s))"
proof -
  from group_invD(5) [OF inv, of n] f obtain p where p: "g_part s n = Some p" "rp_role p = NodeRoleFollower"
    by (auto simp: flight_inv_def)
  have com: "set_part m (Some q') (set_flight n g s) = set_flight n g (set_part m (Some q') s)" for g
    by (simp add: set_part_def set_flight_def)
  show ?thesis
  proof (cases "\<exists>snap. resp = NSnapshot snap")
    case False
    then have "q' = q" using sp by (auto simp: snapshot_part_def Take_Snapshot_def split: if_splits prod.splits sum.splits)
    moreover have "flight_inv H (G n) (g_part s n) (Answered (AskSnapshot addr ref e) resp)"
      using p False by (auto simp: flight_inv_def req_ok_def split: node_response.splits)
    ultimately have "group_inv H G (set_part m (Some q') (set_flight n (Answered (AskSnapshot addr ref e) resp) s))"
      unfolding com using q inv by (simp add: set_same group_inv_flight)
    then show ?thesis using grows_refl by blast
  next
    case True
    then obtain snap where snap: "resp = NSnapshot snap" by blast
    with sp have ts: "Take_Snapshot now None q = (Inr snap, q')"
      by (auto simp: snapshot_part_def split: if_splits prod.splits sum.splits)
    have tq: "tracks (G m) q" using group_invD(3) [OF inv q] by (simp add: role_inv_def)
    have ld: "rp_role q = NodeRoleLeader" using ts by (auto simp: Take_Snapshot_def split: if_splits)
    have cont: "continues q q'" using continues_Snapshot [of q now None] ts by simp
    obtain H' x where i: "group_inv H' (G(m := G m @ x)) (set_part m (Some q') s)" "grows H H'"
      and t': "tracks (G m @ x) q'" "H' = H(rp_epoch q \<mapsto> G m @ x)"
      using inv_data [OF inv q cont] ld by auto
    obtain cp where cp: "tracks (G m @ [cp]) q'" "op_Type (le_Operation cp) = OpCheckpoint" "sn_Seq snap = int (length (G m)) + 1"
      "sn_Epoch snap = rp_epoch q" "gm_ok (sn_Data snap)"
      "map_of (sn_Data snap) = replay (G m) |` {k. case None of None \<Rightarrow> True | Some g \<Rightarrow> g k}"
      using tracks_Take_Snapshot [OF tq ts] by metis
    have "length x = 1" using tracks_seq [OF t'(1)] tracks_seq [OF cp(1)] by simp
    have data: "map_of (sn_Data snap) = replay (G m @ x)"
      using cp(1,6) t'(1) cp(2) by (simp add: tracks_def)
    have "n \<noteq> m" using p ld q by auto
    have "flight_inv H' ((G(m := G m @ x)) n) (g_part (set_part m (Some q') s) n) (Answered (AskSnapshot addr ref e) resp)"
      using p cp data \<open>length x = 1\<close> \<open>n \<noteq> m\<close>
      by (auto simp: flight_inv_def snap req_ok_def set_part_def on_history_def t'(2) intro!: exI [of _ "G m @ x"])
    then show ?thesis unfolding com using group_inv_flight [OF i(1)] i(2) by blast
  qed
qed


lemma inv_deliver:
  assumes inv: "group_inv H G s" and f: "g_flight s n = Answered req resp" and p: "g_part s n = Some p"
  shows "\<exists>g. group_inv H (G(n := g)) (set_part n (Some (fst (follow_answer req resp p))) (set_flight n Idle s))"
proof -
  let ?p' = "fst (follow_answer req resp p)"
  from group_invD(5) [OF inv, of n] f p have pf: "rp_role p = NodeRoleFollower" "req_ok (G n) p req"
    and ans: "case (req, resp) of
             (AskEntries _ _, NEntries rr) \<Rightarrow> on_history H (rr_Epoch rr) (G n @ rr_Entries rr)
           | (AskSnapshot _ _ _, NSnapshot snap) \<Rightarrow> (\<exists>h0. on_history H (sn_Epoch snap) h0 \<and> sn_Seq snap = int (length h0) \<and>
               gm_ok (sn_Data snap) \<and> map_of (sn_Data snap) = replay h0)
           | _ \<Rightarrow> True"
    by (auto simp: flight_inv_def)
  have r: "role_inv H (G n) p" using inv p by (rule group_invD)
  have t: "tracks (G n) p" using r by (simp add: role_inv_def)
  have ok: "role_inv H g q \<Longrightarrow> rp_role q = NodeRoleFollower \<Longrightarrow> group_inv H (G(n := g)) (set_part n (Some q) (set_flight n Idle s))" for g q
  proof -
    assume q: "role_inv H g q" "rp_role q = NodeRoleFollower"
    have "group_inv H (G(n := g)) (set_part n (Some q) (set_flight n Idle (s\<lparr>g_led := g_led s\<rparr>)))"
      using inv grows_refl by (rule group_inv_update) (use q group_invD [OF inv] in \<open>auto simp: flight_inv_def\<close>)
    then show ?thesis by simp
  qed
  have rs: "role_inv H [] (Replica_Reset q)" "rp_role (Replica_Reset q) = NodeRoleFollower"
    if "tracks g q" "rp_role q = NodeRoleFollower" for g q
    using that tracks_resetLocked [OF that(1)] by (auto simp: role_inv_def Replica_Reset_def) (simp_all add: resetLocked_def)
  consider (entries) addr rq rr where "req = AskEntries addr rq" "resp = NEntries rr"
    | (snapshot) addr ref e snap where "req = AskSnapshot addr ref e" "resp = NSnapshot snap"
    | (other) "?p' = p \<or> ?p' = Replica_Reset p"
    by (cases req; cases resp) (auto simp: follow_answer_def)
  then show ?thesis
  proof cases
    case other
    then have "\<exists>g. role_inv H g ?p' \<and> rp_role ?p' = NodeRoleFollower" using r pf(1) rs [OF t pf(1)] by auto
    then show ?thesis using ok by blast
  next
    case entries
    with ans obtain h where h: "H (rr_Epoch rr) = Some h" "prefix (G n @ rr_Entries rr) h" by (auto simp: on_history_def)
    have sy: "rp_synced p" using pf(2) entries by (simp add: req_ok_def)
    have es: "rr_Entries rr = take (length (rr_Entries rr)) (drop (length (G n)) h)" using h(2) by (auto simp: prefix_def)
    have pre: "prefix (G n) h" using h(2) by (auto simp: prefix_def)
    obtain p1 where a: "apply_entries (rr_Entries rr) p = (None, p1)" "same_status p p1"
      "tracks (take (max (length (G n)) (length (G n) + length (rr_Entries rr))) h) p1"
      using apply_entries_extends [OF t group_invD(2) [OF inv h(1)] pre order_refl es] by blast
    have "take (length (G n) + length (rr_Entries rr)) h = G n @ rr_Entries rr" using h(2) by (auto simp: prefix_def)
    with a(3) have t1: "tracks (G n @ rr_Entries rr) p1" by (simp add: max_def)
    have p': "?p' = p1\<lparr>rp_dataEpoch := rr_Epoch rr\<rparr>"
      using a(1) pf(1) sy by (simp add: entries follow_answer_def ApplyLogEntries_def)
    have "role_inv H (G n @ rr_Entries rr) ?p'"
      using t1 a(2) pf(1) h sy unfolding p' by (auto simp: role_inv_def same_status_def on_history_def tracks_def data_ok_def)
    then show ?thesis using ok [of _ ?p'] a(2) pf(1) by (auto simp: p' same_status_def)
  next
    case snapshot
    with ans obtain h0 where h0: "on_history H (sn_Epoch snap) h0" "sn_Seq snap = int (length h0)" "gm_ok (sn_Data snap)"
      "map_of (sn_Data snap) = replay h0" by auto
    then have ho: "hist_ok h0" using group_invD(2) [OF inv] hist_ok_prefix by (auto simp: on_history_def)
    obtain x p1 where l: "LoadSnapshot snap p = (x, p1)" by fastforce
    note ls = tracks_LoadSnapshot [OF t pf(1) ho h0(2-4) l]
    have "?p' = p1" using l by (simp add: snapshot follow_answer_def)
    moreover have "role_inv H h0 p1" using ls h0(1) by (simp add: role_inv_def)
    ultimately show ?thesis using ok ls(5) by metis
  qed
qed

lemma inv_seal:
  assumes inv: "group_inv H G s" and p: "g_part s n = Some p" "rp_role p = NodeRoleLeader" and e: "p_Epoch pt = rp_epoch p"
  shows "group_inv H G (set_part n (Some (lead True pt p)) s)"
proof -
  let ?p' = "p\<lparr>rp_sealed := (p_State pt = PartitionHandoff)\<rparr>"
  have l: "lead True pt p = ?p'" using p e by (simp add: lead_def Seal_def)
  have r: "role_inv H (G n) ?p'"
    using group_invD(3) [OF inv p(1)] by (simp add: role_inv_def tracks_def data_ok_def)
  have "group_inv H (G(n := G n)) (set_part n (Some ?p') (set_flight n (g_flight s n) (s\<lparr>g_led := g_led s\<rparr>)))"
    using inv grows_refl
  proof (rule group_inv_update)
    show "rp_epoch q \<noteq> rp_epoch q'" if "Some ?p' = Some q" "m \<noteq> n" "g_part s m = Some q'" "rp_role q' = NodeRoleLeader" for q m q'
      using group_invD(4) [OF inv p(1) that(3) p(2) that(4)] that(1,2) by auto
    show "flight_inv H (G n) (Some ?p') (g_flight s n)" using leader_idle(1) [OF inv p] by (simp add: flight_inv_def)
  qed (use r group_invD [OF inv] in auto)
  then show ?thesis by (simp add: l set_same)
qed

lemma group_inv_step:
  assumes "group_step ref opts s s'" and "group_inv H G s"
  shows "\<exists>H' G'. grows H H' \<and> group_inv H' G' s'"
  using assms
proof (induction rule: group_step.induct)
  case (still_leads s n p pt)
  then show ?case using inv_seal grows_refl by metis
next
  case (follow_new s n e)
  let ?p = "snd (Follow e (NewPartition ref opts))"
  have "tracks [] ?p \<and> rp_role ?p = NodeRoleFollower \<and> \<not> rp_synced ?p \<and> rp_dataEpoch ?p = 0"
    using tracks_NewPartition [of ref opts] by (simp add: Follow_def NewPartition_def tracks_def data_ok_def)
  then have "group_inv H (G(n := [])) (set_part n (Some ?p) (set_flight n Idle s))"
    by (intro inv_blank [OF follow_new(2)]) auto
  then show ?case using grows_refl by blast
next
  case (drop s n)
  show ?case using inv_blank [OF drop, of None "[]" n] grows_refl by blast
next
  case (data s n p p')
  then show ?case using inv_data data_op_continues by metis
next
  case (ask s n p m addr)
  have "role_inv H (G n) p" using ask by (auto intro: group_invD)
  then have "flight_inv H (G n) (g_part s n) (Asked m (follow_ask ref addr p))"
    using ask tracks_seq [of "G n" p] by (auto simp: flight_inv_def follow_ask_def req_ok_def role_inv_def)
  then show ?case using group_inv_flight ask(4) grows_refl by blast
next
  case (refuse s n m req code)
  have "flight_inv H (G n) (g_part s n) (Answered req (NError code))"
    using group_invD(5) [OF refuse(2), of n] refuse(1) by (auto simp: flight_inv_def split: follow_request.splits)
  then show ?case using group_inv_flight refuse(2) grows_refl by blast
next
  case (fails s n)
  have "flight_inv H (G n) (g_part s n) Idle" by (simp add: flight_inv_def)
  then show ?case using group_inv_flight fails grows_refl by blast
next
  case (follow s n p e)
  then show ?case using inv_follow [OF follow(2,1)] grows_refl by blast
next
  case (serve_snapshot s n m addr e q now resp q')
  then show ?case using inv_serve_snapshot by blast
next
  case (serve_begin s n m addr rq q e d a)
  then show ?case using group_inv_flight [OF serve_begin(6) inv_serve_begin [OF serve_begin(6,1-5)]] grows_refl by blast
next
  case (serve_wake s n m addr rq q e a)
  then show ?case using group_inv_flight [OF serve_wake(5) inv_serve_wake [OF serve_wake(5,1-4)]] grows_refl by blast
next
  case (deliver s n req resp p)
  then show ?case using inv_deliver grows_refl by blast
next
  case (lead_new s n pt)
  then show ?case using inv_lead_new [OF lead_new(4,2)] by blast
next
  case (promote s n p pt)
  then show ?case using inv_promote [OF promote(4,1,2)] by blast
qed

lemma grows_trans: "grows H H' \<Longrightarrow> grows H' H'' \<Longrightarrow> grows H H''"
  unfolding grows_def by (meson prefix_order.trans)

lemma group_inv_steps:
  assumes "rtranclp (group_step ref opts) s s'" and "group_inv H G s"
  shows "\<exists>H' G'. grows H H' \<and> group_inv H' G' s'"
  using assms
proof (induction rule: rtranclp_induct)
  case base
  then show ?case using grows_refl by blast
next
  case (step t u)
  then show ?case using group_inv_step grows_trans by meson
qed

lemma group_inv_init: "group_inv Map.empty (\<lambda>_. []) group_init"
  by (simp add: group_inv_def group_init_def flight_inv_def)

lemma group_inv_reachable:
  assumes "rtranclp (group_step ref opts) group_init s"
  shows "\<exists>H G. group_inv H G s"
  using group_inv_steps [OF assms group_inv_init] by blast

lemma synced_history:
  assumes "group_inv H G s" and "g_part s n = Some p" and "rp_synced p"
  shows "tracks (G n) p" and "on_history H (rp_dataEpoch p) (G n)"
  using group_invD(3) [OF assms(1,2)] assms(3) by (auto simp: role_inv_def on_history_def split: if_splits)

text \<open>Two synced replicas of one data epoch are at positions of one history.\<close>

lemma positions_agree:
  assumes inv: "group_inv H G s"
    and "g_part s n = Some p" and "g_part s m = Some q" and "rp_synced p" and "rp_synced q"
    and "rp_dataEpoch p = rp_dataEpoch q" and "w_currentSeq (rp_wal p) \<le> w_currentSeq (rp_wal q)"
  shows "\<exists>g x. tracks g p \<and> tracks (g @ x) q \<and>
    int (length x) = w_currentSeq (rp_wal q) - w_currentSeq (rp_wal p) \<and>
    contents (rp_store q) = fold (\<lambda>e. op_spec (le_Operation e)) x (contents (rp_store p)) \<and>
    (w_currentSeq (rp_wal p) = w_currentSeq (rp_wal q) \<longrightarrow> rp_keys p = rp_keys q)"
proof -
  note tp = synced_history [OF inv assms(2,4)] and tq = synced_history [OF inv assms(3,5)]
  have "length (G n) \<le> length (G m)" using assms(7) tracks_seq [OF tp(1)] tracks_seq [OF tq(1)] by simp
  then have "prefix (G n) (G m)"
    using tp(2) tq(2) assms(6) unfolding on_history_def by (metis option.inject prefix_length_prefix)
  then obtain x where x: "G m = G n @ x" by (auto simp: prefix_def)
  have "rp_keys p = rp_keys q" if "w_currentSeq (rp_wal p) = w_currentSeq (rp_wal q)"
    using tp(1) tq(1) x that tracks_seq [OF tp(1)] tracks_seq [OF tq(1)] by (simp add: tracks_def data_ok_def)
  then show ?thesis
    using tp(1) tq(1) x tracks_seq [OF tp(1)] tracks_seq [OF tq(1)]
    by (intro exI [of _ "G n"] exI [of _ x]) (simp add: tracks_def replay_append)
qed

text \<open>
  C3. Replication keeps the copies of a partition consistent through any interleaving of writes,
  snapshots, log streaming with long polls, failed requests, promotions, demotions and dropped
  replicas. Whenever two replicas are synced to the same data epoch, they are at positions of one
  history: the data of the one that is ahead is the data of the other with the entries in between
  applied, and at equal positions data and key counts are equal. (An epoch is taken up by one
  leader only, which is what the planner's fencing of leaders guarantees.)
\<close>

theorem replicas_agree:
  assumes "rtranclp (group_step ref opts) group_init s"
    and "g_part s n = Some p" and "g_part s m = Some q" and "rp_synced p" and "rp_synced q"
    and "rp_dataEpoch p = rp_dataEpoch q" and "w_currentSeq (rp_wal p) \<le> w_currentSeq (rp_wal q)"
  shows "\<exists>g x. tracks g p \<and> tracks (g @ x) q \<and>
    int (length x) = w_currentSeq (rp_wal q) - w_currentSeq (rp_wal p) \<and>
    contents (rp_store q) = fold (\<lambda>e. op_spec (le_Operation e)) x (contents (rp_store p)) \<and>
    (w_currentSeq (rp_wal p) = w_currentSeq (rp_wal q) \<longrightarrow> rp_keys p = rp_keys q)"
  using group_inv_reachable [OF assms(1)] positions_agree [OF _ assms(2-7)] by blast

text \<open>Two leaders of one partition never share an epoch.\<close>

lemma one_leader_per_epoch:
  assumes "rtranclp (group_step ref opts) group_init s" and "g_part s n = Some p" and "g_part s m = Some q"
    and "rp_role p = NodeRoleLeader" and "rp_role q = NodeRoleLeader" and "rp_epoch p = rp_epoch q"
  shows "n = m"
  using group_inv_reachable [OF assms(1)] group_invD(4) assms(2-6) by metis


text \<open>Positions in two states, one reached from the other, on the history of one epoch.\<close>

lemma earlier_prefix:
  assumes inv: "group_inv H G s" "group_inv H' G' s'" and "grows H H'"
    and p: "on_history H d g" "on_history H' d g'"
  shows "prefix g g' \<or> prefix g' g"
  using assms(3) p unfolding grows_def on_history_def
  by (metis (no_types, lifting) option.inject prefix_order.trans prefix_same_cases)

lemma handoff_history:
  assumes "rtranclp (group_step ref opts) group_init s1" and "rtranclp (group_step ref opts) group_init s2"
    and "rtranclp (group_step ref opts) s1 s2 \<or> rtranclp (group_step ref opts) s2 s1"
    and "g_part s1 n = Some p" and "rp_role p = NodeRoleLeader" and "g_part s2 m = Some q"
    and "rp_dataEpoch q = rp_epoch p" and "rp_epoch p \<noteq> 0" and "w_currentSeq (rp_wal p) \<le> w_currentSeq (rp_wal q)"
  shows "\<exists>g x. tracks g p \<and> tracks (g @ x) q"
proof -
  obtain H G H' G' where inv: "group_inv H G s1" "group_inv H' G' s2" and gr: "grows H H' \<or> grows H' H"
    using assms(3) group_inv_reachable [OF assms(1)] group_inv_reachable [OF assms(2)] group_inv_steps by metis
  have p: "tracks (G n) p" "on_history H (rp_epoch p) (G n)"
    using group_invD(3) [OF inv(1) assms(4)] assms(5) by (auto simp: role_inv_def on_history_def)
  have "rp_synced q" using group_invD(3) [OF inv(2) assms(6)] assms(7,8) by (auto simp: role_inv_def)
  note q = synced_history [OF inv(2) assms(6) this]
  have "prefix (G n) (G' m) \<or> prefix (G' m) (G n)"
    using gr earlier_prefix [OF inv] earlier_prefix [OF inv(2,1)] p(2) q(2) assms(7) by metis
  moreover have "length (G n) \<le> length (G' m)" using assms(9) tracks_seq [OF p(1)] tracks_seq [OF q(1)] by simp
  ultimately have "prefix (G n) (G' m)" by (metis prefix_length_le le_antisym prefix_length_prefix prefix_order.refl)
  with p(1) q(1) show ?thesis unfolding prefix_def by metis
qed


section \<open>A concrete group\<close>

text \<open>A leader takes up epoch 1; a follower joins and loads its snapshot.\<close>

lemma example_group:
  obtains s p q where "rtranclp (group_step (PartitionRef 1 0) example_opts) group_init s"
    and "g_part s ''node1'' = Some p" and "g_part s ''node2'' = Some q" and "rp_role p = NodeRoleLeader" and "rp_epoch p = 1"
    and "rp_role q = NodeRoleFollower" and "rp_synced p" and "rp_synced q" and "rp_dataEpoch p = 1" and "rp_dataEpoch q = 1"
    and "w_currentSeq (rp_wal p) = 1" and "w_currentSeq (rp_wal q) = 1"
    and "rp_Generation p = 1" and "rp_ID p = 0" and "rp_Generation q = 1" and "rp_ID q = 0"
proof -
  let ?ref = "PartitionRef 1 0" let ?pt = "example_partition 0"
  let ?lp = "lead False ?pt (NewPartition ?ref example_opts)" let ?fp = "snd (Follow 1 (NewPartition ?ref example_opts))"
  let ?step = "group_step ?ref example_opts"
  have lp: "rp_role ?lp = NodeRoleLeader" "rp_epoch ?lp = 1" "rp_dataEpoch ?lp = 1" "rp_synced ?lp" "w_currentSeq (rp_wal ?lp) = 0"
    by (simp_all add: lead_def Seal_def LeadFresh_def resetLocked_def WAL_Reset_def example_partition_def)
  obtain snap lp' where sn: "Take_Snapshot 5 None ?lp = (Inr snap, lp')" using Take_Snapshot_leader [OF lp(1)] by blast
  have lp': "same_status ?lp lp'" "sn_Epoch snap = 1" "sn_Seq snap = 1" "w_currentSeq (rp_wal lp') = 1"
    using sn lp by (auto simp: Take_Snapshot_def same_status_def WAL_Checkpoint_def Append_def Let_def split_beta)
  have ids: "rp_Generation lp' = 1" "rp_ID lp' = 0"
    using evolves_Snapshot [of ?lp 5 None] sn
    by (simp_all add: evolves_def) (simp_all add: lead_def Seal_def LeadFresh_def resetLocked_def NewPartition_def)
  have fp: "rp_role ?fp = NodeRoleFollower" "\<not> rp_synced ?fp" "rp_epoch ?fp = 1" "rp_Generation ?fp = 1" "rp_ID ?fp = 0" by (simp_all add: Follow_def NewPartition_def)
  let ?req = "AskSnapshot ''node1:7000'' ?ref 1"
  have sp: "snapshot_part 5 (show_int 1) ?lp = (NSnapshot snap, lp')" using sn lp(2) by (simp add: snapshot_part_def)
  have ask: "follow_ask ?ref ''node1:7000'' ?fp = ?req" using fp by (simp add: follow_ask_def)
  define s1 where "s1 = set_part ''node1'' (Some ?lp) (set_flight ''node1'' Idle (group_init\<lparr>g_led := insert (p_Epoch ?pt) (g_led group_init)\<rparr>))"
  define s2 where "s2 = set_part ''node2'' (Some ?fp) (set_flight ''node2'' Idle s1)"
  define s3 where "s3 = set_flight ''node2'' (Asked ''node1'' ?req) s2"
  define s4 where "s4 = set_part ''node1'' (Some lp') (set_flight ''node2'' (Answered ?req (NSnapshot snap)) s3)"
  define q where "q = fst (follow_answer ?req (NSnapshot snap) ?fp)"
  define s5 where "s5 = set_part ''node2'' (Some q) (set_flight ''node2'' Idle s4)"
  note defs = s1_def s2_def s3_def s4_def s5_def set_part_def set_flight_def group_init_def
  have "?step group_init s1" unfolding s1_def
    by (rule group_step.lead_new) (simp_all add: group_init_def example_partition_def)
  moreover have "?step s1 s2" unfolding s2_def by (rule group_step.follow_new) (simp add: defs)
  moreover have "?step s2 s3" unfolding s3_def ask [symmetric] by (rule group_step.ask) (use fp in \<open>simp_all add: defs\<close>)
  moreover have "?step s3 s4" unfolding s4_def by (rule group_step.serve_snapshot [OF _ _ sp]) (simp_all add: defs)
  moreover have "?step s4 s5" unfolding s5_def q_def by (rule group_step.deliver) (simp_all add: defs)
  ultimately have "rtranclp ?step group_init s5" by (meson rtranclp.rtrancl_refl rtranclp.rtrancl_into_rtrancl)
  moreover have "g_part s5 ''node1'' = Some lp'" "g_part s5 ''node2'' = Some q" by (simp_all add: defs)
  moreover have "rp_role q = NodeRoleFollower" "rp_synced q" "rp_dataEpoch q = 1" "w_currentSeq (rp_wal q) = 1"
    "rp_Generation q = 1" "rp_ID q = 0"
    using fp lp' by (simp_all add: q_def follow_answer_def LoadSnapshot_def WAL_Reset_def)
  ultimately show ?thesis using lp lp' ids by (intro that [of s5 lp' q]) (simp_all add: same_status_def)
qed

theorem replicas_agree_witness:
  "\<exists>s p q. rtranclp (group_step (PartitionRef 1 0) example_opts) group_init s \<and>
    g_part s ''node1'' = Some p \<and> g_part s ''node2'' = Some q \<and> rp_role p = NodeRoleLeader \<and> rp_role q = NodeRoleFollower \<and>
    contents (rp_store q) = contents (rp_store p) \<and> rp_keys q = rp_keys p"
proof -
  obtain s p q where s: "rtranclp (group_step (PartitionRef 1 0) example_opts) group_init s"
    "g_part s ''node1'' = Some p" "g_part s ''node2'' = Some q" "rp_role p = NodeRoleLeader" "rp_epoch p = 1"
    "rp_role q = NodeRoleFollower" "rp_synced p" "rp_synced q" "rp_dataEpoch p = 1" "rp_dataEpoch q = 1"
    "w_currentSeq (rp_wal p) = 1" "w_currentSeq (rp_wal q) = 1" by (rule example_group)
  from replicas_agree [OF s(1-3,7,8)] s obtain x where "int (length x) = 0"
    "contents (rp_store q) = fold (\<lambda>e. op_spec (le_Operation e)) x (contents (rp_store p))" "rp_keys p = rp_keys q" by auto
  with s show ?thesis by auto
qed

section \<open>Nodes run the protocol\<close>

text \<open>
  What reconciling does to a group: the replica on node \<open>n\<close> becomes \<open>po\<close>; a request under way survives
  only if the replica was there before and goes on to follow; an epoch that is now led counts as led.
\<close>

definition regroup :: "node_id \<Rightarrow> Replica option \<Rightarrow> group \<Rightarrow> group" where
  "regroup n po s =
     (let leads = (case po of Some p \<Rightarrow> rp_role p = NodeRoleLeader | None \<Rightarrow> False) in
      set_part n po (set_flight n (if g_part s n = None \<or> po = None \<or> leads then Idle else g_flight s n)
        (if leads then s\<lparr>g_led := insert (rp_epoch (the po)) (g_led s)\<rparr> else s)))"

lemma lead_status [simp]: "rp_role (lead ex p part) = NodeRoleLeader" "rp_epoch (lead ex p part) = p_Epoch p"
  by (simp_all add: lead_def Seal_def LeadFresh_def Promote_def resetLocked_def)

lemma Follow_status [simp]: "rp_role (snd (Follow e part)) = NodeRoleFollower" "rp_epoch (snd (Follow e part)) = e"
  by (simp_all add: Follow_def resetLocked_def Let_def)

lemma lead_group_step:
  assumes inv: "group_inv H G s" and e: "0 \<le> p_Epoch p"
    and new: "p_Epoch p \<in> g_led s \<Longrightarrow> \<exists>part. g_part s n = Some part \<and> rp_role part = NodeRoleLeader \<and> rp_epoch part = p_Epoch p"
  shows "group_step ref opts s (regroup n (Some (case g_part s n of
    None \<Rightarrow> lead False p (NewPartition ref opts) | Some part \<Rightarrow> lead True p part)) s)"
proof (cases "p_Epoch p \<in> g_led s")
  case True
  with new obtain part where part: "g_part s n = Some part" "rp_role part = NodeRoleLeader" "rp_epoch part = p_Epoch p"
    by blast
  have "set_flight n Idle (s\<lparr>g_led := insert (p_Epoch p) (g_led s)\<rparr>) = s"
    using leader_idle [OF inv part(1,2)] True set_same(1) [of n s] by (simp add: insert_absorb)
  with part show ?thesis by (simp add: regroup_def group_step.still_leads)
next
  case False
  with e show ?thesis
    by (cases "g_part s n") (simp_all add: regroup_def group_step.lead_new group_step.promote)
qed

lemma follow_group_step:
  "group_step ref opts s (regroup n (Some (snd (Follow e (case g_part s n of
    None \<Rightarrow> NewPartition ref opts | Some part \<Rightarrow> part)))) s)"
  by (cases "g_part s n")
    (simp_all add: regroup_def group_step.follow_new group_step.follow set_same(1))

text \<open>
  What a node does to its replica of a partition when it reconciles with a layout is a step of the
  protocol; provided that an epoch the layout makes it lead is new, or the one it leads already.
\<close>

lemma reconcile_group_step:
  assumes "layout_ok l" and "gm_ok (nd_replicas n)" and inv: "group_inv H G s" and part: "g_part s (nd_ID n) = lookup ref n"
    and fresh: "\<And>p. is_member n l \<Longrightarrow> Find (Some l) ref = Some p \<Longrightarrow> p_Leader p = nd_ID n \<Longrightarrow> 0 \<le> p_Epoch p \<and>
      (p_Epoch p \<in> g_led s \<longrightarrow> (\<exists>part. lookup ref n = Some part \<and> rp_role part = NodeRoleLeader \<and> rp_epoch part = p_Epoch p))"
  shows "group_step ref (nd_opts n) s (regroup (nd_ID n) (lookup ref (reconcile (Some l) n)) s)"
proof (cases "lookup ref (reconcile (Some l) n)")
  case None
  then show ?thesis by (simp add: regroup_def group_step.drop)
next
  case (Some part')
  then obtain p where p: "is_member n l" "Find (Some l) ref = Some p" and
    part': "part' = hr_part (reconciled n ref p (map_of (nd_replicas n) ref))"
    by (auto simp: lookup_reconcile [OF assms(1,2)] split: if_splits option.splits)
  note r = part' [unfolded reconciled_part, folded lookup_def]
  show ?thesis
  proof (cases "p_Leader p = nd_ID n")
    case True
    then show ?thesis
      using lead_group_step [OF inv, of p "nd_ID n" ref "nd_opts n"] fresh [OF p True] r Some part
      by (simp split: option.splits)
  next
    case False
    then show ?thesis
      using follow_group_step [of ref "nd_opts n" s "nd_ID n" "p_Epoch p"] r Some part
      by (simp split: option.splits)
  qed
qed

end
