(* ===== verification/Registry.thy ===== *)
theory Registry
  imports Model
begin

text \<open>
  \<open>src/internal/registry/etcd.go\<close>: what the components keep in etcd and how they read, write and
  watch it. The etcd client is a parameter: a record of its operations over a state \<open>'s\<close> of the
  outside world, which every call may advance. \<open>etcd_ok\<close> states the documented behaviour of the
  service (atomic transactions on a revisioned key space, with other clients running in between).
  Values are kept structured: marshalling is the constructor, unmarshalling the match.
\<close>

section \<open>Keys and values\<close>

definition NodesPrefix :: string where "NodesPrefix = ''/slicedb/nodes/''"
definition ControllersPrefix :: string where "ControllersPrefix = ''/slicedb/controllers/''"
definition ElectionPrefix :: string where "ElectionPrefix = ''/slicedb/controller-election''"
definition ConfigKey :: string where "ConfigKey = ''/slicedb/config''"
definition LayoutKey :: string where "LayoutKey = ''/slicedb/layout''"
definition DrainPrefix :: string where "DrainPrefix = ''/slicedb/drain/''"

lemmas key_defs = NodesPrefix_def ControllersPrefix_def ElectionPrefix_def ConfigKey_def LayoutKey_def
  DrainPrefix_def

record ControllerInfo =
  ci_ID :: string
  ci_Address :: string

datatype etcd_value =
    VLayout Layout
  | VConfig Config
  | VNode Node
  | VController ControllerInfo
  | VText string

record KeyValue =
  kv_Key :: string
  kv_Value :: etcd_value
  kv_CreateRevision :: int
  kv_ModRevision :: int

section \<open>The client\<close>

datatype get_option = GetKey | GetPrefix | GetFirstCreate

datatype etcd_cmp =
    CreateRevisionIs string int
  | ModRevisionIs string int

record 's etcd_client =
  ec_Get :: "get_option \<Rightarrow> string \<Rightarrow> 's \<Rightarrow> (string + KeyValue list) \<times> 's"
  ec_Put :: "string \<Rightarrow> etcd_value \<Rightarrow> 's \<Rightarrow> (string + unit) \<times> 's"
  ec_Delete :: "string \<Rightarrow> 's \<Rightarrow> (string + unit) \<times> 's"
  ec_Txn :: "etcd_cmp list \<Rightarrow> string \<Rightarrow> etcd_value \<Rightarrow> 's \<Rightarrow> (string + bool) \<times> 's"
  ec_Grant :: "int \<Rightarrow> 's \<Rightarrow> (string + int) \<times> 's"
  ec_PutLease :: "string \<Rightarrow> etcd_value \<Rightarrow> int \<Rightarrow> 's \<Rightarrow> (string + unit) \<times> 's"
  ec_Revoke :: "int \<Rightarrow> 's \<Rightarrow> (string + unit) \<times> 's"
  ec_KeepAlive :: "int \<Rightarrow> 's \<Rightarrow> (string + unit) \<times> 's"

datatype reg_error =
    EtcdError string
  | Malformed
  | NotInitialized
  | ErrConflict

section \<open>Operations\<close>

text \<open>\<open>Register\<close>: the lease it returns is the one the key is bound to.\<close>

definition Register ::
  "'s etcd_client \<Rightarrow> string \<Rightarrow> etcd_value \<Rightarrow> int \<Rightarrow> 's \<Rightarrow> (reg_error + int) \<times> 's" where
  "Register ec key val ttl s =
     (case ec_Grant ec ttl s of
        (Inl e, s) \<Rightarrow> (Inl (EtcdError e), s)
      | (Inr lease, s) \<Rightarrow>
          (case ec_PutLease ec key val lease s of
             (Inl e, s) \<Rightarrow> (Inl (EtcdError e), snd (ec_Revoke ec lease s))
           | (Inr _, s) \<Rightarrow>
               (case ec_KeepAlive ec lease s of
                  (Inl e, s) \<Rightarrow> (Inl (EtcdError e), s)
                | (Inr _, s) \<Rightarrow> (Inr lease, s))))"

definition Revoke :: "'s etcd_client \<Rightarrow> int \<Rightarrow> 's \<Rightarrow> 's" where
  "Revoke ec lease s = snd (ec_Revoke ec lease s)"

definition RegisterNode :: "'s etcd_client \<Rightarrow> Node \<Rightarrow> int \<Rightarrow> 's \<Rightarrow> (reg_error + int) \<times> 's" where
  "RegisterNode ec node ttl = Register ec (NodesPrefix @ n_ID node) (VNode node) ttl"

definition RegisterController :: "'s etcd_client \<Rightarrow> ControllerInfo \<Rightarrow> int \<Rightarrow> 's \<Rightarrow> (reg_error + int) \<times> 's" where
  "RegisterController ec info ttl = Register ec (ControllersPrefix @ ci_ID info) (VController info) ttl"

definition nodes_from :: "KeyValue list \<Rightarrow> (node_id, Node) gomap" where
  "nodes_from kvs =
     foldl (\<lambda>m kv. case kv_Value kv of VNode n \<Rightarrow> gm_put (n_ID n) n m | _ \<Rightarrow> m) [] kvs"

definition GetNodes :: "'s etcd_client \<Rightarrow> 's \<Rightarrow> (reg_error + (node_id, Node) gomap) \<times> 's" where
  "GetNodes ec s =
     (case ec_Get ec GetPrefix NodesPrefix s of
        (Inl e, s) \<Rightarrow> (Inl (EtcdError e), s)
      | (Inr kvs, s) \<Rightarrow> (Inr (nodes_from kvs), s))"

definition GetControllers :: "'s etcd_client \<Rightarrow> 's \<Rightarrow> (reg_error + ControllerInfo list) \<times> 's" where
  "GetControllers ec s =
     (case ec_Get ec GetPrefix ControllersPrefix s of
        (Inl e, s) \<Rightarrow> (Inl (EtcdError e), s)
      | (Inr kvs, s) \<Rightarrow>
          (Inr (sort_key ci_ID
             (List.map_filter (\<lambda>kv. case kv_Value kv of VController c \<Rightarrow> Some c | _ \<Rightarrow> None) kvs)), s))"

text \<open>The proposal of the election key created first; empty when nobody campaigns.\<close>

definition ElectionLeader :: "'s etcd_client \<Rightarrow> 's \<Rightarrow> (reg_error + string) \<times> 's" where
  "ElectionLeader ec s =
     (case ec_Get ec GetFirstCreate (ElectionPrefix @ ''/'') s of
        (Inl e, s) \<Rightarrow> (Inl (EtcdError e), s)
      | (Inr [], s) \<Rightarrow> (Inr '''', s)
      | (Inr (kv # kvs), s) \<Rightarrow> (Inr (case kv_Value kv of VText t \<Rightarrow> t | _ \<Rightarrow> ''''), s))"

definition InitConfig :: "'s etcd_client \<Rightarrow> Config \<Rightarrow> 's \<Rightarrow> (reg_error + unit) \<times> 's" where
  "InitConfig ec cfg s =
     (case ec_Txn ec [CreateRevisionIs ConfigKey 0] ConfigKey (VConfig cfg) s of
        (Inl e, s) \<Rightarrow> (Inl (EtcdError e), s)
      | (Inr _, s) \<Rightarrow> (Inr (), s))"

definition GetConfig :: "'s etcd_client \<Rightarrow> 's \<Rightarrow> (reg_error + Config) \<times> 's" where
  "GetConfig ec s =
     (case ec_Get ec GetKey ConfigKey s of
        (Inl e, s) \<Rightarrow> (Inl (EtcdError e), s)
      | (Inr [], s) \<Rightarrow> (Inl NotInitialized, s)
      | (Inr (kv # kvs), s) \<Rightarrow>
          (case kv_Value kv of VConfig cfg \<Rightarrow> (Inr cfg, s) | _ \<Rightarrow> (Inl Malformed, s)))"

definition PutConfig :: "'s etcd_client \<Rightarrow> Config \<Rightarrow> 's \<Rightarrow> (reg_error + unit) \<times> 's" where
  "PutConfig ec cfg s =
     (case ec_Put ec ConfigKey (VConfig cfg) s of
        (Inl e, s) \<Rightarrow> (Inl (EtcdError e), s)
      | (Inr _, s) \<Rightarrow> (Inr (), s))"

text \<open>The value stored for a drained node is the formatted time, \<open>now\<close>.\<close>

definition SetDrained :: "'s etcd_client \<Rightarrow> string \<Rightarrow> node_id \<Rightarrow> bool \<Rightarrow> 's \<Rightarrow> (reg_error + unit) \<times> 's" where
  "SetDrained ec now nodeID drained s =
     (case (if drained then ec_Put ec (DrainPrefix @ nodeID) (VText now) s
            else ec_Delete ec (DrainPrefix @ nodeID) s) of
        (Inl e, s) \<Rightarrow> (Inl (EtcdError e), s)
      | (Inr _, s) \<Rightarrow> (Inr (), s))"

definition TrimPrefix :: "string \<Rightarrow> string \<Rightarrow> string" where
  "TrimPrefix s p = (if prefix p s then drop (length p) s else s)"

definition GetDrained :: "'s etcd_client \<Rightarrow> 's \<Rightarrow> (reg_error + (node_id, bool) gomap) \<times> 's" where
  "GetDrained ec s =
     (case ec_Get ec GetPrefix DrainPrefix s of
        (Inl e, s) \<Rightarrow> (Inl (EtcdError e), s)
      | (Inr kvs, s) \<Rightarrow>
          (Inr (foldl (\<lambda>m kv. gm_put (TrimPrefix (kv_Key kv) DrainPrefix) True m) [] kvs), s))"

definition GetLayout :: "'s etcd_client \<Rightarrow> 's \<Rightarrow> (reg_error + Layout option \<times> int) \<times> 's" where
  "GetLayout ec s =
     (case ec_Get ec GetKey LayoutKey s of
        (Inl e, s) \<Rightarrow> (Inl (EtcdError e), s)
      | (Inr [], s) \<Rightarrow> (Inr (None, 0), s)
      | (Inr (kv # kvs), s) \<Rightarrow>
          (case kv_Value kv of VLayout l \<Rightarrow> (Inr (Some l, kv_ModRevision kv), s) | _ \<Rightarrow> (Inl Malformed, s)))"

definition PutLayout ::
  "'s etcd_client \<Rightarrow> Layout \<Rightarrow> int \<Rightarrow> string \<Rightarrow> int \<Rightarrow> 's \<Rightarrow> (reg_error + unit) \<times> 's" where
  "PutLayout ec l prevModRev fenceKey fenceRev s =
     (let cmps = [ModRevisionIs LayoutKey prevModRev] @
            (if fenceKey \<noteq> '''' then [CreateRevisionIs fenceKey fenceRev] else [])
      in case ec_Txn ec cmps LayoutKey (VLayout l) s of
           (Inl e, s) \<Rightarrow> (Inl (EtcdError e), s)
         | (Inr succeeded, s) \<Rightarrow> (if \<not> succeeded then (Inl ErrConflict, s) else (Inr (), s)))"

section \<open>Watchers\<close>

datatype watch_event = EventPut KeyValue | EventDelete string

type_synonym NodeWatcher = "(node_id, Node) gomap"
type_synonym LayoutWatcher = "Layout option"

definition NodeWatcher_Get :: "NodeWatcher \<Rightarrow> node_id \<Rightarrow> Node option" where
  "NodeWatcher_Get w n = map_of w n"

definition nodes_reset :: "KeyValue list \<Rightarrow> NodeWatcher \<Rightarrow> NodeWatcher" where
  "nodes_reset kvs w = nodes_from kvs"

definition nodes_apply :: "watch_event \<Rightarrow> NodeWatcher \<Rightarrow> NodeWatcher" where
  "nodes_apply ev w =
     (case ev of
        EventDelete k \<Rightarrow> gm_del (TrimPrefix k NodesPrefix) w
      | EventPut kv \<Rightarrow> (case kv_Value kv of VNode n \<Rightarrow> gm_put (n_ID n) n w | _ \<Rightarrow> w))"

definition layout_store :: "etcd_value \<Rightarrow> LayoutWatcher \<Rightarrow> LayoutWatcher" where
  "layout_store v w = (case v of VLayout l \<Rightarrow> Some l | _ \<Rightarrow> w)"

definition layout_reset :: "KeyValue list \<Rightarrow> LayoutWatcher \<Rightarrow> LayoutWatcher" where
  "layout_reset kvs w = (case kvs of [] \<Rightarrow> None | kv # _ \<Rightarrow> layout_store (kv_Value kv) w)"

definition layout_apply :: "watch_event \<Rightarrow> LayoutWatcher \<Rightarrow> LayoutWatcher" where
  "layout_apply ev w =
     (case ev of EventDelete _ \<Rightarrow> None | EventPut kv \<Rightarrow> layout_store (kv_Value kv) w)"

text \<open>
  One turn of the loop in \<open>watch\<close>: what a read returned, and the responses the watch then delivered
  until it broke (\<open>None\<close> is a response with an error). The result counts the calls of \<open>onChange\<close>.
\<close>

fun watch_responses ::
  "(watch_event \<Rightarrow> 'w \<Rightarrow> 'w) \<Rightarrow> watch_event list option list \<Rightarrow> 'w \<times> nat \<Rightarrow> 'w \<times> nat" where
  "watch_responses app [] wn = wn"
| "watch_responses app (None # rs) wn = wn"
| "watch_responses app (Some evs # rs) (w, n) =
     watch_responses app rs (fold app evs w, if evs \<noteq> [] then Suc n else n)"

fun watch_turn ::
  "(KeyValue list \<Rightarrow> 'w \<Rightarrow> 'w) \<Rightarrow> (watch_event \<Rightarrow> 'w \<Rightarrow> 'w) \<Rightarrow>
   (string + KeyValue list) \<times> watch_event list option list \<Rightarrow> 'w \<times> nat \<Rightarrow> 'w \<times> nat" where
  "watch_turn reset app (Inl e, rs) wn = wn"
| "watch_turn reset app (Inr kvs, rs) (w, n) = watch_responses app rs (reset kvs w, Suc n)"

definition watch ::
  "(KeyValue list \<Rightarrow> 'w \<Rightarrow> 'w) \<Rightarrow> (watch_event \<Rightarrow> 'w \<Rightarrow> 'w) \<Rightarrow>
   ((string + KeyValue list) \<times> watch_event list option list) list \<Rightarrow> 'w \<Rightarrow> 'w \<times> nat" where
  "watch reset app turns w = fold (watch_turn reset app) turns (w, 0)"

definition WatchNodes ::
  "((string + KeyValue list) \<times> watch_event list option list) list \<Rightarrow> NodeWatcher \<times> nat" where
  "WatchNodes turns = watch nodes_reset nodes_apply turns []"

definition WatchLayout ::
  "((string + KeyValue list) \<times> watch_event list option list) list \<Rightarrow> LayoutWatcher \<times> nat" where
  "WatchLayout turns = watch layout_reset layout_apply turns None"

section \<open>The service\<close>

text \<open>
  etcd's key space: the revision grows by one with every change; a key remembers the revision that
  created it and the one that wrote it last, and an absent key compares as revision 0.
\<close>

record etcd_store =
  es_Revision :: int
  es_KVs :: "KeyValue list"

definition lookup_kv :: "string \<Rightarrow> etcd_store \<Rightarrow> KeyValue option" where
  "lookup_kv k st = find (\<lambda>kv. kv_Key kv = k) (es_KVs st)"

definition create_revision :: "string \<Rightarrow> etcd_store \<Rightarrow> int" where
  "create_revision k st = (case lookup_kv k st of None \<Rightarrow> 0 | Some kv \<Rightarrow> kv_CreateRevision kv)"

definition mod_revision :: "string \<Rightarrow> etcd_store \<Rightarrow> int" where
  "mod_revision k st = (case lookup_kv k st of None \<Rightarrow> 0 | Some kv \<Rightarrow> kv_ModRevision kv)"

definition new_kv :: "string \<Rightarrow> etcd_value \<Rightarrow> etcd_store \<Rightarrow> KeyValue" where
  "new_kv k v st =
     (let rev = es_Revision st + 1
      in \<lparr>kv_Key = k, kv_Value = v,
          kv_CreateRevision = (case lookup_kv k st of None \<Rightarrow> rev | Some kv \<Rightarrow> kv_CreateRevision kv),
          kv_ModRevision = rev\<rparr>)"

datatype etcd_change = ChangePut string etcd_value | ChangeDelete string

fun es_change :: "etcd_change \<Rightarrow> etcd_store \<Rightarrow> etcd_store" where
  "es_change (ChangePut k v) st =
     st\<lparr>es_Revision := es_Revision st + 1,
        es_KVs := filter (\<lambda>kv. kv_Key kv \<noteq> k) (es_KVs st) @ [new_kv k v st]\<rparr>"
| "es_change (ChangeDelete k) st =
     (if lookup_kv k st = None then st
      else st\<lparr>es_Revision := es_Revision st + 1, es_KVs := filter (\<lambda>kv. kv_Key kv \<noteq> k) (es_KVs st)\<rparr>)"

definition get_range :: "get_option \<Rightarrow> string \<Rightarrow> etcd_store \<Rightarrow> KeyValue list" where
  "get_range opt k st =
     (case opt of
        GetKey \<Rightarrow> filter (\<lambda>kv. kv_Key kv = k) (es_KVs st)
      | GetPrefix \<Rightarrow> sort_key kv_Key (filter (\<lambda>kv. prefix k (kv_Key kv)) (es_KVs st))
      | GetFirstCreate \<Rightarrow> take 1 (sort_key kv_CreateRevision (filter (\<lambda>kv. prefix k (kv_Key kv)) (es_KVs st))))"

fun cmp_holds :: "etcd_store \<Rightarrow> etcd_cmp \<Rightarrow> bool" where
  "cmp_holds st (CreateRevisionIs k r) \<longleftrightarrow> create_revision k st = r"
| "cmp_holds st (ModRevisionIs k r) \<longleftrightarrow> mod_revision k st = r"

text \<open>What a watch delivers for a change to the keys it selects.\<close>

fun change_events :: "(string \<Rightarrow> bool) \<Rightarrow> etcd_change list \<Rightarrow> etcd_store \<Rightarrow> watch_event list" where
  "change_events sel [] st = []"
| "change_events sel (ChangePut k v # cs) st =
     (if sel k then [EventPut (new_kv k v st)] else []) @ change_events sel cs (es_change (ChangePut k v) st)"
| "change_events sel (ChangeDelete k # cs) st =
     (if sel k \<and> lookup_kv k st \<noteq> None then [EventDelete k] else []) @
     change_events sel cs (es_change (ChangeDelete k) st)"

text \<open>
  The contract of the client: \<open>view\<close> is the key space in a state of the world, \<open>env\<close> what the
  other clients may do to it between two steps of this one. A read sees one state; a transaction
  compares and writes atomically; after an error the write may or may not have happened.
\<close>

definition etcd_ok ::
  "'s etcd_client \<Rightarrow> ('s \<Rightarrow> etcd_store) \<Rightarrow> (etcd_store \<Rightarrow> etcd_store \<Rightarrow> bool) \<Rightarrow> bool" where
  "etcd_ok ec view env \<longleftrightarrow>
     (\<forall>opt k s. \<exists>st. env\<^sup>*\<^sup>* (view s) st \<and> env\<^sup>*\<^sup>* st (view (snd (ec_Get ec opt k s))) \<and>
        (case fst (ec_Get ec opt k s) of Inl _ \<Rightarrow> True | Inr kvs \<Rightarrow> kvs = get_range opt k st)) \<and>
     (\<forall>cmps k v s. \<exists>st. env\<^sup>*\<^sup>* (view s) st \<and>
        (let after = view (snd (ec_Txn ec cmps k v s)); wrote = env\<^sup>*\<^sup>* (es_change (ChangePut k v) st) after
         in case fst (ec_Txn ec cmps k v s) of
              Inl _ \<Rightarrow> env\<^sup>*\<^sup>* st after \<or> list_all (cmp_holds st) cmps \<and> wrote
            | Inr True \<Rightarrow> list_all (cmp_holds st) cmps \<and> wrote
            | Inr False \<Rightarrow> \<not> list_all (cmp_holds st) cmps \<and> env\<^sup>*\<^sup>* st after)) \<and>
     (\<forall>k v s. \<exists>st. env\<^sup>*\<^sup>* (view s) st \<and>
        (let after = view (snd (ec_Put ec k v s)) in
         env\<^sup>*\<^sup>* (es_change (ChangePut k v) st) after \<or> (\<exists>e. fst (ec_Put ec k v s) = Inl e) \<and> env\<^sup>*\<^sup>* st after)) \<and>
     (\<forall>k s. \<exists>st. env\<^sup>*\<^sup>* (view s) st \<and>
        (let after = view (snd (ec_Delete ec k s)) in
         env\<^sup>*\<^sup>* (es_change (ChangeDelete k) st) after \<or> (\<exists>e. fst (ec_Delete ec k s) = Inl e) \<and> env\<^sup>*\<^sup>* st after))"

lemma etcd_ok_Get:
  assumes "etcd_ok ec view env" and "ec_Get ec opt k s = (r, s')"
  obtains st where "env\<^sup>*\<^sup>* (view s) st" and "env\<^sup>*\<^sup>* st (view s')"
    and "\<And>kvs. r = Inr kvs \<Longrightarrow> kvs = get_range opt k st"
proof -
  from assms(1) have "\<exists>st. env\<^sup>*\<^sup>* (view s) st \<and> env\<^sup>*\<^sup>* st (view (snd (ec_Get ec opt k s))) \<and>
      (case fst (ec_Get ec opt k s) of Inl _ \<Rightarrow> True | Inr kvs \<Rightarrow> kvs = get_range opt k st)"
    unfolding etcd_ok_def by (elim conjE) blast
  with assms(2) show ?thesis by (auto intro: that)
qed

lemma etcd_ok_Txn:
  assumes "etcd_ok ec view env" and "ec_Txn ec cmps k v s = (r, s')"
  obtains (wrote) st where "r \<noteq> Inr False" and "env\<^sup>*\<^sup>* (view s) st" and "list_all (cmp_holds st) cmps"
      and "env\<^sup>*\<^sup>* (es_change (ChangePut k v) st) (view s')"
    | (kept) "r \<noteq> Inr True" and "env\<^sup>*\<^sup>* (view s) (view s')"
proof -
  let ?r = "fst (ec_Txn ec cmps k v s)" and ?s' = "snd (ec_Txn ec cmps k v s)"
  from assms(1) obtain st where st: "env\<^sup>*\<^sup>* (view s) st"
    and alt: "case ?r of
        Inl _ \<Rightarrow> env\<^sup>*\<^sup>* st (view ?s') \<or> list_all (cmp_holds st) cmps \<and> env\<^sup>*\<^sup>* (es_change (ChangePut k v) st) (view ?s')
      | Inr True \<Rightarrow> list_all (cmp_holds st) cmps \<and> env\<^sup>*\<^sup>* (es_change (ChangePut k v) st) (view ?s')
      | Inr False \<Rightarrow> \<not> list_all (cmp_holds st) cmps \<and> env\<^sup>*\<^sup>* st (view ?s')"
    unfolding etcd_ok_def Let_def by (elim conjE) blast
  from assms(2) have r: "?r = r" and s': "?s' = s'" by simp_all
  note alt = alt [unfolded r s']
  have kept': "env\<^sup>*\<^sup>* (view s) (view s')" if "env\<^sup>*\<^sup>* st (view s')"
    using st that by (rule rtranclp_trans)
  show ?thesis
  proof (cases r)
    case (Inl e)
    with alt consider "env\<^sup>*\<^sup>* st (view s')"
      | "list_all (cmp_holds st) cmps" "env\<^sup>*\<^sup>* (es_change (ChangePut k v) st) (view s')" by auto
    then show ?thesis
      using Inl st kept' by cases (auto intro: wrote kept)
  next
    case (Inr b)
    with alt st kept' show ?thesis by (cases b) (auto intro: wrote kept)
  qed
qed

lemma etcd_ok_Put:
  assumes "etcd_ok ec view env"
  obtains st where "env\<^sup>*\<^sup>* (view s) st"
    and "env\<^sup>*\<^sup>* st (view (snd (ec_Put ec k v s))) \<or> env\<^sup>*\<^sup>* (es_change (ChangePut k v) st) (view (snd (ec_Put ec k v s)))"
  using assms unfolding etcd_ok_def Let_def by (elim conjE) blast

lemma etcd_ok_Delete:
  assumes "etcd_ok ec view env"
  obtains st where "env\<^sup>*\<^sup>* (view s) st"
    and "env\<^sup>*\<^sup>* st (view (snd (ec_Delete ec k s))) \<or> env\<^sup>*\<^sup>* (es_change (ChangeDelete k) st) (view (snd (ec_Delete ec k s)))"
  using assms unfolding etcd_ok_def Let_def by (elim conjE) blast

section \<open>Facts about the key space\<close>

definition es_ok :: "etcd_store \<Rightarrow> bool" where
  "es_ok st \<longleftrightarrow> distinct (map kv_Key (es_KVs st)) \<and>
     (\<forall>kv \<in> set (es_KVs st). 0 < kv_CreateRevision kv \<and> kv_CreateRevision kv \<le> kv_ModRevision kv \<and>
        kv_ModRevision kv \<le> es_Revision st)"

lemma lookup_kv_Some: "lookup_kv k st = Some kv \<Longrightarrow> kv \<in> set (es_KVs st) \<and> kv_Key kv = k"
  by (auto simp: lookup_kv_def find_Some_iff)

lemma find_key_in: "distinct (map kv_Key kvs) \<Longrightarrow> kv \<in> set kvs \<Longrightarrow> find (\<lambda>x. kv_Key x = kv_Key kv) kvs = Some kv"
  by (induction kvs) (auto simp: image_iff)

lemma lookup_kv_in: "es_ok st \<Longrightarrow> kv \<in> set (es_KVs st) \<Longrightarrow> lookup_kv (kv_Key kv) st = Some kv"
  by (simp add: lookup_kv_def es_ok_def find_key_in)

lemma find_filter_key:
  "find (\<lambda>kv. kv_Key kv = k') (filter (\<lambda>kv. kv_Key kv \<noteq> k) kvs) =
     (if k' = k then None else find (\<lambda>kv. kv_Key kv = k') kvs)"
  by (induction kvs) auto

lemma find_append: "find P (xs @ ys) = (case find P xs of None \<Rightarrow> find P ys | Some x \<Rightarrow> Some x)"
  by (induction xs) auto

lemma new_kv_simps [simp]: "kv_Key (new_kv k v st) = k" "kv_Value (new_kv k v st) = v"
  "kv_ModRevision (new_kv k v st) = es_Revision st + 1"
  by (simp_all add: new_kv_def Let_def)

lemma lookup_kv_change:
  "lookup_kv k' (es_change (ChangePut k v) st) = (if k' = k then Some (new_kv k v st) else lookup_kv k' st)"
  "lookup_kv k' (es_change (ChangeDelete k) st) = (if k' = k then None else lookup_kv k' st)"
  by (auto simp: lookup_kv_def find_append find_filter_key split: option.splits)

lemma lookup_kv_revisions:
  assumes "es_ok st" and "lookup_kv k st = Some kv"
  shows "0 < kv_CreateRevision kv" "kv_CreateRevision kv \<le> kv_ModRevision kv" "kv_ModRevision kv \<le> es_Revision st"
  using assms lookup_kv_Some [OF assms(2)] by (auto simp: es_ok_def)

lemma es_ok_change: "es_ok st \<Longrightarrow> es_Revision st \<ge> 0 \<Longrightarrow> es_ok (es_change c st)"
proof (cases c)
  case (ChangePut k v)
  assume ok: "es_ok st" and "es_Revision st \<ge> 0"
  then have "0 < kv_CreateRevision (new_kv k v st) \<and> kv_CreateRevision (new_kv k v st) \<le> es_Revision st + 1"
    using lookup_kv_revisions [OF ok, of k] by (fastforce simp: new_kv_def Let_def split: option.splits)
  with ok show ?thesis
    by (fastforce simp: ChangePut es_ok_def distinct_map_filter)
next
  case (ChangeDelete k)
  assume "es_ok st"
  then show ?thesis
    by (fastforce simp: ChangeDelete es_ok_def distinct_map_filter)
qed

lemma es_change_revision: "es_Revision st \<le> es_Revision (es_change c st)"
  by (cases c) auto

section \<open>Watchers mirror the store\<close>

definition stored_layout :: "etcd_store \<Rightarrow> Layout option" where
  "stored_layout st =
     (case lookup_kv LayoutKey st of
        Some kv \<Rightarrow> (case kv_Value kv of VLayout l \<Rightarrow> Some l | _ \<Rightarrow> None)
      | None \<Rightarrow> None)"

definition live_node :: "etcd_store \<Rightarrow> node_id \<Rightarrow> Node option" where
  "live_node st n =
     (case lookup_kv (NodesPrefix @ n) st of
        Some kv \<Rightarrow> (case kv_Value kv of VNode nd \<Rightarrow> Some nd | _ \<Rightarrow> None)
      | None \<Rightarrow> None)"

text \<open>
  What is stored where: nodes under their own ids, a layout under the layout key, a configuration
  with a count that fits in 32 bits under the configuration key.
\<close>

definition entry_ok :: "string \<Rightarrow> etcd_value \<Rightarrow> bool" where
  "entry_ok k v \<longleftrightarrow>
     (prefix NodesPrefix k \<longrightarrow> (case v of VNode n \<Rightarrow> k = NodesPrefix @ n_ID n | _ \<Rightarrow> False)) \<and>
     (k = LayoutKey \<longrightarrow> (case v of VLayout _ \<Rightarrow> True | _ \<Rightarrow> False)) \<and>
     (k = ConfigKey \<longrightarrow> (case v of VConfig cfg \<Rightarrow> cfg_PartitionCount cfg < 2 ^ 32 | _ \<Rightarrow> False))"

fun change_ok :: "etcd_change \<Rightarrow> bool" where
  "change_ok (ChangePut k v) \<longleftrightarrow> entry_ok k v"
| "change_ok (ChangeDelete k) \<longleftrightarrow> True"

definition entries_ok :: "etcd_store \<Rightarrow> bool" where
  "entries_ok st \<longleftrightarrow> (\<forall>kv \<in> set (es_KVs st). entry_ok (kv_Key kv) (kv_Value kv))"

lemma entries_ok_change: "entries_ok st \<Longrightarrow> change_ok c \<Longrightarrow> entries_ok (es_change c st)"
  by (cases c) (auto simp: entries_ok_def)

lemma node_entry:
  assumes "entry_ok k v" and "prefix NodesPrefix k"
  obtains n where "v = VNode n" and "k = NodesPrefix @ n_ID n"
  using assms by (auto simp: entry_ok_def split: etcd_value.splits)

lemma layout_entry: "entry_ok LayoutKey v \<Longrightarrow> \<exists>l. v = VLayout l"
  by (cases v) (auto simp: entry_ok_def)

lemma TrimPrefix_append [simp]: "TrimPrefix (p @ s) p = s"
  by (simp add: TrimPrefix_def)

text \<open>A fresh read gives exactly the live nodes.\<close>

lemma map_of_nodes_from:
  assumes "\<forall>kv \<in> set kvs. \<exists>n. kv_Value kv = VNode n \<and> kv_Key kv = NodesPrefix @ n_ID n"
    and "distinct (map kv_Key kvs)"
  shows "map_of (nodes_from kvs) i = Some nd \<longleftrightarrow> (\<exists>kv \<in> set kvs. kv_Value kv = VNode nd \<and> n_ID nd = i)"
  using assms
proof (induction kvs rule: rev_induct)
  case (snoc kv kvs)
  from snoc.prems obtain n where n: "kv_Value kv = VNode n" "kv_Key kv = NodesPrefix @ n_ID n" by auto
  have other: "n_ID m \<noteq> n_ID n" if "kv' \<in> set kvs" "kv_Value kv' = VNode m" for kv' m
  proof
    assume "n_ID m = n_ID n"
    with that snoc.prems(1) n have "kv_Key kv' = kv_Key kv" by auto
    with that(1) snoc.prems(2) show False by (force simp: image_iff)
  qed
  have "map_of (nodes_from (kvs @ [kv])) = (map_of (nodes_from kvs))(n_ID n \<mapsto> n)"
    by (simp add: nodes_from_def n update_conv')
  with snoc n other show ?case by (auto simp: fun_upd_def)
qed (simp add: nodes_from_def)

lemma nodes_from_live:
  assumes "es_ok st" and "entries_ok st"
  shows "map_of (nodes_from (get_range GetPrefix NodesPrefix st)) i = live_node st i"
proof -
  let ?kvs = "get_range GetPrefix NodesPrefix st"
  have set: "set ?kvs = {kv \<in> set (es_KVs st). prefix NodesPrefix (kv_Key kv)}"
    by (simp add: get_range_def)
  have nodes: "\<exists>n. kv_Value kv = VNode n \<and> kv_Key kv = NodesPrefix @ n_ID n" if "kv \<in> set ?kvs" for kv
    using that assms(2) unfolding set entries_ok_def by (auto elim!: node_entry)
  have "distinct (map kv_Key ?kvs)"
    using assms(1) by (simp add: get_range_def es_ok_def distinct_map inj_on_def)
  with nodes have iff: "map_of (nodes_from ?kvs) i = Some nd \<longleftrightarrow>
      (\<exists>kv \<in> set ?kvs. kv_Value kv = VNode nd \<and> n_ID nd = i)" for nd
    by (intro map_of_nodes_from) auto
  have "map_of (nodes_from ?kvs) i = Some nd \<longleftrightarrow> live_node st i = Some nd" for nd
  proof
    assume "map_of (nodes_from ?kvs) i = Some nd"
    then obtain kv where "kv \<in> set ?kvs" "kv_Value kv = VNode nd" "n_ID nd = i" using iff by blast
    moreover from this nodes [of kv] have "kv_Key kv = NodesPrefix @ i" by auto
    ultimately show "live_node st i = Some nd"
      using lookup_kv_in [OF assms(1), of kv] by (simp add: live_node_def set)
  next
    assume "live_node st i = Some nd"
    then obtain kv where kv: "lookup_kv (NodesPrefix @ i) st = Some kv" "kv_Value kv = VNode nd"
      by (auto simp: live_node_def split: option.splits etcd_value.splits)
    then have "kv \<in> set ?kvs" using lookup_kv_Some [OF kv(1)] by (simp add: set)
    moreover from nodes [OF this] kv lookup_kv_Some [OF kv(1)] have "n_ID nd = i" by auto
    ultimately show "map_of (nodes_from ?kvs) i = Some nd" using iff kv by blast
  qed
  then show ?thesis by (metis option.exhaust)
qed

text \<open>Each delivered change keeps a watcher that mirrors the store a mirror.\<close>

lemma nodes_apply_changes:
  assumes "list_all change_ok cs" and "map_of w = live_node st"
  shows "map_of (fold nodes_apply (change_events (prefix NodesPrefix) cs st) w) = live_node (fold es_change cs st)"
  using assms
proof (induction cs arbitrary: w st)
  case (Cons c cs)
  let ?evs = "change_events (prefix NodesPrefix) [c] st"
  have "map_of (fold nodes_apply ?evs w) = live_node (es_change c st)"
  proof (cases c)
    case (ChangePut k v)
    show ?thesis
    proof (cases "prefix NodesPrefix k")
      case True
      with Cons.prems(1) ChangePut obtain n where "v = VNode n" "k = NodesPrefix @ n_ID n"
        by (auto elim: node_entry)
      with ChangePut Cons.prems(2) show ?thesis
        by (auto simp: nodes_apply_def live_node_def lookup_kv_change update_conv' fun_eq_iff
            simp del: es_change.simps)
    next
      case False
      then have "NodesPrefix @ i \<noteq> k" for i by auto
      with False ChangePut Cons.prems(2) show ?thesis
        by (auto simp: live_node_def lookup_kv_change fun_eq_iff simp del: es_change.simps)
    qed
  next
    case (ChangeDelete k)
    then show ?thesis
      using Cons.prems(2)
      by (auto simp: nodes_apply_def live_node_def lookup_kv_change delete_conv' fun_eq_iff prefix_def
          simp del: es_change.simps)
  qed
  with Cons show ?case by (cases c) (auto simp del: es_change.simps)
qed simp

lemma layout_apply_changes:
  assumes "list_all change_ok cs" and "w = stored_layout st"
  shows "fold layout_apply (change_events ((=) LayoutKey) cs st) w = stored_layout (fold es_change cs st)"
  using assms
proof (induction cs arbitrary: w st)
  case (Cons c cs)
  have "fold layout_apply (change_events ((=) LayoutKey) [c] st) w = stored_layout (es_change c st)"
    using Cons.prems
    by (cases c) (auto simp: layout_apply_def layout_store_def stored_layout_def lookup_kv_change entry_ok_def
        simp del: es_change.simps split: etcd_value.splits)
  with Cons show ?case by (cases c) (auto simp del: es_change.simps)
qed simp

lemma watch_responses_all: "fst (watch_responses app (map Some evss) (w, n)) = fold app (concat evss) w"
  by (induction evss arbitrary: w n) auto

lemma watch_last:
  "fst (watch reset app (turns @ [(Inr kvs, map Some evss)]) w) =
     fold app (concat evss) (reset kvs (fst (watch reset app turns w)))"
  by (cases "fold (watch_turn reset app) turns (w, 0)") (simp add: watch_def watch_responses_all)

lemma find_hd_filter: "find P xs = (case filter P xs of [] \<Rightarrow> None | x # _ \<Rightarrow> Some x)"
  by (induction xs) auto

lemma lookup_get_range: "lookup_kv k st = (case get_range GetKey k st of [] \<Rightarrow> None | kv # _ \<Rightarrow> Some kv)"
  by (simp add: lookup_kv_def get_range_def find_hd_filter)

lemma layout_reset_stored:
  assumes "es_ok st" and "entries_ok st"
  shows "layout_reset (get_range GetKey LayoutKey st) w = stored_layout st"
proof -
  note lookup_get_range [of LayoutKey st]
  moreover have "\<exists>l. kv_Value kv = VLayout l" if "kv \<in> set (get_range GetKey LayoutKey st)" for kv
    using that assms(2) by (simp add: get_range_def entries_ok_def) (metis layout_entry)
  ultimately show ?thesis
    by (cases "get_range GetKey LayoutKey st")
      (fastforce simp: layout_reset_def layout_store_def stored_layout_def)+
qed


text \<open>A node leaves and another one registers after a read that saw the first one.\<close>

definition example_store :: etcd_store where
  "example_store = \<lparr>es_Revision = 9, es_KVs =
     [\<lparr>kv_Key = ''/slicedb/nodes/node1'', kv_Value = VNode \<lparr>n_ID = ''node1'', n_Address = ''node1:7000'', n_Incarnation = 11\<rparr>,
        kv_CreateRevision = 3, kv_ModRevision = 3\<rparr>,
      \<lparr>kv_Key = ''/slicedb/layout'', kv_Value = VLayout example_layout, kv_CreateRevision = 5, kv_ModRevision = 8\<rparr>,
      \<lparr>kv_Key = ''/slicedb/config'', kv_Value = VConfig \<lparr>cfg_PartitionCount = 3, cfg_ReplicationFactor = 2\<rparr>,
        kv_CreateRevision = 1, kv_ModRevision = 1\<rparr>,
      \<lparr>kv_Key = ''/slicedb/controller-election/7a'', kv_Value = VText ''c1:8080'',
        kv_CreateRevision = 4, kv_ModRevision = 4\<rparr>]\<rparr>"

definition example_changes :: "etcd_change list" where
  "example_changes = [ChangeDelete ''/slicedb/nodes/node1'', ChangePut ''/slicedb/nodes/node2''
     (VNode \<lparr>n_ID = ''node2'', n_Address = ''node2:7000'', n_Incarnation = 12\<rparr>)]"

lemma example_store_ok: "es_ok example_store" "entries_ok example_store"
  by (simp_all add: es_ok_def entries_ok_def entry_ok_def example_store_def key_defs prefix_def)


end
