(* ===== verification/Controller.thy ===== *)
theory Controller
  imports PlanSafety Reshard Registry
begin

text \<open>
  \<open>src/internal/controller/controller.go\<close> and \<open>api.go\<close>: the control loop around the planner, the
  fenced update of the layout, the resharding driver and the admin API. \<open>'s world\<close> is what a
  goroutine of the controller reads or calls outside itself: the etcd client, the fields that the
  campaign and the watchers keep (fence, leadership, nodes, layout), the clock and the network;
  every call may advance the state \<open>'s\<close>. A log message is a value of \<open>message\<close>.
\<close>

section \<open>State\<close>

definition maxEvents :: nat where "maxEvents = 300"

record ctl_Options =
  co_ID :: string
  co_Advertise :: string
  co_PartitionCount :: int
  co_ReplicationFactor :: int
  co_Interval :: int
  co_AutoBalance :: bool
  co_SessionTTL :: int

record fence =
  f_key :: string
  f_rev :: int

datatype 'e update_error =
    errNotLeader
  | RegistryError reg_error
  | MutateError 'e

datatype step_error =
    StepRegistry reg_error
  | PullFailed PartitionRef node_id string
  | StepUpdate "reshard_error update_error"

datatype message =
    MPlan plan_event
  | MReshard reshard_event
  | MLeading string int
  | MStopped string
  | MConfig int int
  | MDrained node_id bool
  | MMoving PartitionRef node_id node_id
  | MUnpinned PartitionRef
  | MReshardFailed step_error

record Event =
  ev_Time :: go_time
  ev_Message :: message

record Controller =
  ct_opts :: ctl_Options
  ct_trigger :: bool \<comment> \<open>a token is in the channel\<close>
  ct_statuses :: "(node_id, NodeStatus) gomap"
  ct_events :: "Event list"

definition NewController :: "ctl_Options \<Rightarrow> Controller" where
  "NewController opts =
     (let opts = (if co_Interval opts \<le> 0 then opts\<lparr>co_Interval := 10 ^ 9\<rparr> else opts);
          opts = (if co_SessionTTL opts \<le> 0 then opts\<lparr>co_SessionTTL := 5\<rparr> else opts)
      in \<lparr>ct_opts = opts, ct_trigger = False, ct_statuses = [], ct_events = []\<rparr>)"

definition kick :: "Controller \<Rightarrow> Controller" where
  "kick c = c\<lparr>ct_trigger := True\<rparr>"

definition record_event :: "go_time \<Rightarrow> message \<Rightarrow> Controller \<Rightarrow> Controller" where
  "record_event now msg c =
     (let evs = ct_events c @ [\<lparr>ev_Time = now, ev_Message = msg\<rparr>]
      in c\<lparr>ct_events := (if length evs > maxEvents then drop (length evs - maxEvents) evs else evs)\<rparr>)"

definition record_all :: "go_time \<Rightarrow> message list \<Rightarrow> Controller \<Rightarrow> Controller" where
  "record_all now msgs c = fold (record_event now) msgs c"

section \<open>The fenced update\<close>

datatype api_body =
    BError
  | BStable int
  | BUnstable unstable
  | BConfig Config
  | BDrain node_id bool
  | BEvents "message list"
  | BOther string

type_synonym api_response = "int \<times> api_body"

record partitionRequest =
  pq_Generation :: int
  pq_Partition :: int
  pq_Node :: node_id
  pq_From :: node_id
  pq_To :: node_id

text \<open>A request of the admin API; a body that does not decode is \<open>None\<close>.\<close>

record api_request =
  aq_method :: string
  aq_path :: string
  aq_proxied :: string
  aq_config :: "(int option \<times> int option) option"
  aq_drain :: "(node_id \<times> bool) option"
  aq_partition :: "partitionRequest option"

record 's world =
  w_etcd :: "'s etcd_client"
  w_leading :: "'s \<Rightarrow> bool"
  w_fence :: "'s \<Rightarrow> fence option"
  w_nodes :: "'s \<Rightarrow> NodeWatcher"
  w_layout :: "'s \<Rightarrow> LayoutWatcher"
  w_now :: "'s \<Rightarrow> go_time"
  w_format :: "go_time \<Rightarrow> string"
  w_status :: "string \<Rightarrow> 's \<Rightarrow> (string + NodeStatus) \<times> 's"
  w_pull :: "string \<Rightarrow> MigrationRequest \<Rightarrow> 's \<Rightarrow> (string + MigrationResult) \<times> 's"
  w_parses :: "string \<Rightarrow> bool"
  w_proxy :: "string \<Rightarrow> api_request \<Rightarrow> 's \<Rightarrow> (string + api_response) \<times> 's"
  w_wait :: "'s \<Rightarrow> 's" \<comment> \<open>time passes while the goroutine waits\<close>

definition empty_layout :: Layout where
  "empty_layout = \<lparr>l_Version = 0, l_Generation = 0, l_PartitionCount = 0, l_Partitions = [],
     l_Resharding = None, l_Members = []\<rparr>"

text \<open>Equal up to the version; a map is marshalled in the order of its keys.\<close>

definition sameLayout :: "Layout \<Rightarrow> Layout \<Rightarrow> bool" where
  "sameLayout a b \<longleftrightarrow>
     a\<lparr>l_Members := sort_key fst (l_Members a)\<rparr> =
     b\<lparr>l_Version := l_Version a, l_Members := sort_key fst (l_Members b)\<rparr>"

definition next_layout :: "Layout option \<Rightarrow> Layout" where
  "next_layout current =
     (let next = (case current of None \<Rightarrow> empty_layout | Some l \<Rightarrow> l)
      in next\<lparr>l_Version := l_Version next + 1\<rparr>)"

type_synonym ('e, 'm) mutation = "go_time \<Rightarrow> Layout \<Rightarrow> 'e + Layout \<times> 'm list"

fun update_attempts ::
  "'s world \<Rightarrow> ('e, 'm) mutation \<Rightarrow> nat \<Rightarrow> 's \<Rightarrow> ('e update_error + 'm list) \<times> 's" where
  "update_attempts w mutate 0 s = (Inl (RegistryError ErrConflict), s)"
| "update_attempts w mutate (Suc n) s =
     (case w_fence w s of
        None \<Rightarrow> (Inl errNotLeader, s)
      | Some f \<Rightarrow>
          (case GetLayout (w_etcd w) s of
             (Inl e, s) \<Rightarrow> (Inl (RegistryError e), s)
           | (Inr (current, modRev), s) \<Rightarrow>
               (case mutate (w_now w s) (next_layout current) of
                  Inl e \<Rightarrow> (Inl (MutateError e), s)
                | Inr (next, events) \<Rightarrow>
                    if (case current of None \<Rightarrow> False | Some l \<Rightarrow> sameLayout l next) then (Inr events, s)
                    else
                      (case PutLayout (w_etcd w) next modRev (f_key f) (f_rev f) s of
                         (Inl ErrConflict, s) \<Rightarrow> update_attempts w mutate n s
                       | (Inl e, s) \<Rightarrow> (Inl (RegistryError e), s)
                       | (Inr _, s) \<Rightarrow> (Inr events, s)))))"

definition updateLayout ::
  "'s world \<Rightarrow> ('e, 'm) mutation \<Rightarrow> 's \<Rightarrow> ('e update_error + 'm list) \<times> 's" where
  "updateLayout w mutate s = update_attempts w mutate 5 s"

section \<open>The control loop\<close>

definition poll_status ::
  "'s world \<Rightarrow> node_id \<times> Node \<Rightarrow> (node_id, NodeStatus) gomap \<times> 's \<Rightarrow> (node_id, NodeStatus) gomap \<times> 's" where
  "poll_status w = (\<lambda>(i, node) (out, s).
     (case w_status w (n_Address node) s of
        (Inl e, s) \<Rightarrow> (out, s)
      | (Inr st, s) \<Rightarrow>
          if n_Incarnation (ns_Node st) \<noteq> n_Incarnation node then (out, s)
          else (gm_put i st out, s)))"

definition pollStatuses ::
  "'s world \<Rightarrow> (node_id, Node) gomap \<Rightarrow> 's \<Rightarrow> (node_id, NodeStatus) gomap \<times> 's" where
  "pollStatuses w nodes s = fold (poll_status w) nodes ([], s)"

definition plan_mutation ::
  "Config \<Rightarrow> (node_id, Node) gomap \<Rightarrow> (node_id, bool) gomap \<Rightarrow> (node_id, NodeStatus) gomap \<Rightarrow> bool \<Rightarrow>
   (unit, message) mutation" where
  "plan_mutation cfg nodes drained statuses auto now l =
     (let (l', events) = plan l \<lparr>pi_Config = cfg, pi_Nodes = nodes, pi_Drained = drained, pi_Status = statuses,
            pi_Now = now, pi_AutoBalance = auto\<rparr>
      in Inr (l', map MPlan events))"

definition round :: "'s world \<Rightarrow> Controller \<Rightarrow> 's \<Rightarrow> Controller \<times> 's" where
  "round w c s =
     (case GetConfig (w_etcd w) s of
        (Inl e, s) \<Rightarrow> (c, s)
      | (Inr cfg, s) \<Rightarrow>
          (case GetDrained (w_etcd w) s of
             (Inl e, s) \<Rightarrow> (c, s)
           | (Inr drained, s) \<Rightarrow>
               let nodes = w_nodes w s;
                   (statuses, s) = pollStatuses w nodes s;
                   c = c\<lparr>ct_statuses := statuses\<rparr>;
                   (res, s) = updateLayout w (plan_mutation cfg nodes drained statuses (co_AutoBalance (ct_opts c))) s
               in (case res of Inl e \<Rightarrow> c | Inr events \<Rightarrow> record_all (w_now w s) events c, s)))"

text \<open>
  A term of the leader: the initial configuration, then rounds. \<open>waits\<close> has what woke the loop
  after each round; after the last one the term ends. The resharding loop that \<open>lead\<close> starts runs
  beside it, a \<open>reshard_tick\<close> at a time.
\<close>

datatype lead_wait = Ticked | Triggered

definition lead_init :: "'s world \<Rightarrow> Controller \<Rightarrow> 's \<Rightarrow> 's" where
  "lead_init w c s =
     snd (InitConfig (w_etcd w) \<lparr>cfg_PartitionCount = co_PartitionCount (ct_opts c),
                 cfg_ReplicationFactor = co_ReplicationFactor (ct_opts c)\<rparr> s)"

definition lead_wake :: "'s world \<Rightarrow> lead_wait option \<Rightarrow> Controller \<Rightarrow> 's \<Rightarrow> Controller \<times> 's" where
  "lead_wake w woken c s = (if woken = Some Triggered then c\<lparr>ct_trigger := False\<rparr> else c, w_wait w s)"

fun lead_rounds :: "'s world \<Rightarrow> lead_wait list \<Rightarrow> Controller \<Rightarrow> 's \<Rightarrow> Controller \<times> 's" where
  "lead_rounds w [] c s = (let (c, s) = round w c s in lead_wake w None c s)"
| "lead_rounds w (woken # waits) c s =
     (let (c, s) = round w c s; (c, s) = lead_wake w (Some woken) c s
      in lead_rounds w waits c s)"

definition lead_term :: "'s world \<Rightarrow> lead_wait list \<Rightarrow> Controller \<Rightarrow> 's \<Rightarrow> Controller \<times> 's" where
  "lead_term w waits c s = lead_rounds w waits c (lead_init w c s)"

section \<open>Elections\<close>

text \<open>
  The election library of etcd, with the session (a lease) as an integer, and the two atomic fields
  that \<open>campaign\<close> writes. A session that is lost ends the wait of the term.
\<close>

record 's election =
  el_NewSession :: "int \<Rightarrow> 's \<Rightarrow> (string + int) \<times> 's"
  el_Campaign :: "int \<Rightarrow> string \<Rightarrow> string \<Rightarrow> 's \<Rightarrow> (string + string \<times> int) \<times> 's" \<comment> \<open>\<open>Key()\<close> and \<open>Rev()\<close> once it is won\<close>
  el_Resign :: "int \<Rightarrow> 's \<Rightarrow> 's"
  el_Close :: "int \<Rightarrow> 's \<Rightarrow> 's"
  el_fence :: "fence option \<Rightarrow> 's \<Rightarrow> 's"
  el_leading :: "bool \<Rightarrow> 's \<Rightarrow> 's"

text \<open>A turn of \<open>campaign\<close>: up to the won election, the term, and the end of it.\<close>

definition campaign_start :: "'s world \<Rightarrow> 's election \<Rightarrow> Controller \<Rightarrow> 's \<Rightarrow> int option \<times> Controller \<times> 's" where
  "campaign_start w el c s =
     (case el_NewSession el (co_SessionTTL (ct_opts c)) s of
        (Inl e, s) \<Rightarrow> (None, c, w_wait w s)
      | (Inr session, s) \<Rightarrow>
          (case el_Campaign el session ElectionPrefix (co_Advertise (ct_opts c)) s of
             (Inl e, s) \<Rightarrow> (None, c, w_wait w (el_Close el session s))
           | (Inr (key, electionRev), s) \<Rightarrow>
               let s = el_fence el (Some \<lparr>f_key = key, f_rev = electionRev\<rparr>) s;
                   s = el_leading el True s
               in (Some session, record_event (w_now w s) (MLeading (co_ID (ct_opts c)) electionRev) c, s)))"

definition campaign_end :: "'s world \<Rightarrow> 's election \<Rightarrow> int \<Rightarrow> Controller \<Rightarrow> 's \<Rightarrow> Controller \<times> 's" where
  "campaign_end w el session c s =
     (let s = el_leading el False s;
          s = el_fence el None s;
          c = record_event (w_now w s) (MStopped (co_ID (ct_opts c))) c;
          s = el_Resign el session s
      in (c, el_Close el session s))"

definition campaign_turn :: "'s world \<Rightarrow> 's election \<Rightarrow> lead_wait list \<Rightarrow> Controller \<Rightarrow> 's \<Rightarrow> Controller \<times> 's" where
  "campaign_turn w el waits c s =
     (case campaign_start w el c s of
        (None, c, s) \<Rightarrow> (c, s)
      | (Some session, c, s) \<Rightarrow> let (c, s) = lead_term w waits c s in campaign_end w el session c s)"

text \<open>A turn of \<open>announce\<close>; \<open>ended\<close> is whether the controller is shutting down when the lease is lost.\<close>

definition announce_turn :: "'s world \<Rightarrow> bool \<Rightarrow> Controller \<Rightarrow> 's \<Rightarrow> 's" where
  "announce_turn w ended c s =
     (case RegisterController (w_etcd w) \<lparr>ci_ID = co_ID (ct_opts c), ci_Address = co_Advertise (ct_opts c)\<rparr>
             (co_SessionTTL (ct_opts c)) s of
        (Inl e, s) \<Rightarrow> w_wait w s
      | (Inr lease, s) \<Rightarrow> let s = w_wait w s in if ended then Revoke (w_etcd w) lease s else s)"

section \<open>Resharding\<close>

text \<open>The sources of a target, or \<open>None\<close> when one of them cannot serve the pull yet.\<close>

fun reshard_sources :: "Layout \<Rightarrow> NodeWatcher \<Rightarrow> int list \<Rightarrow> MigrationSource list option" where
  "reshard_sources l nodes [] = Some []"
| "reshard_sources l nodes (sid # sids) =
     (let src = l_Partitions l ! nat sid in
      case NodeWatcher_Get nodes (p_Leader src) of
        None \<Rightarrow> None
      | Some srcNode \<Rightarrow>
          if \<not> Writable src then None
          else map_option (\<lambda>srcs. \<lparr>ms_PartitionID = sid, ms_Epoch = p_Epoch src, ms_Address = n_Address srcNode\<rparr> # srcs)
                 (reshard_sources l nodes sids))"

text \<open>The request for target \<open>i\<close>, with the node to send it to, once the target is ready for it.\<close>

definition reshard_request ::
  "Layout \<Rightarrow> Resharding \<Rightarrow> NodeWatcher \<Rightarrow> (node_id, NodeStatus) gomap \<Rightarrow> nat \<Rightarrow> (Node \<times> MigrationRequest) option"
  where
  "reshard_request l r nodes statuses i =
     (let target = r_Partitions r ! i; ref = PartitionRef (r_Generation r) (int i) in
      if r_Status r ! i = MigrationDone then None
      else if \<not> Writable target then None
      else
        case NodeWatcher_Get nodes (p_Leader target) of
          None \<Rightarrow> None
        | Some leaderNode \<Rightarrow>
            (case map_of statuses (p_Leader target) of
               None \<Rightarrow> None
             | Some st \<Rightarrow>
                 let (ps, ok) = NodeStatus_Partition st ref in
                 if \<not> ok \<or> ps_Role ps \<noteq> NodeRoleLeader \<or> ps_Epoch ps \<noteq> p_Epoch target then None
                 else
                   map_option (\<lambda>srcs. (leaderNode,
                       \<lparr>mr_Target = ref, mr_TargetEpoch = p_Epoch target, mr_TargetCount = r_PartitionCount r,
                        mr_SourceGeneration = l_Generation l, mr_Sources = srcs\<rparr>))
                     (reshard_sources l nodes (SourcePartitions (int i) (l_PartitionCount l) (r_PartitionCount r)))))"

definition mark_mutation :: "int \<Rightarrow> nat \<Rightarrow> Partition \<Rightarrow> MigrationSource list \<Rightarrow> (reshard_error, message) mutation" where
  "mark_mutation g i target srcs now n =
     (case mark_migrated g i target srcs n of
        Inl e \<Rightarrow> Inl e
      | Inr (n', events) \<Rightarrow> Inr (n', map MReshard events))"

definition finish_mutation :: "int \<Rightarrow> (reshard_error, message) mutation" where
  "finish_mutation g now n = (let (n', events) = finish_resharding g n in Inr (n', map MReshard events))"

fun reshard_targets ::
  "'s world \<Rightarrow> Layout \<Rightarrow> Resharding \<Rightarrow> (node_id, NodeStatus) gomap \<Rightarrow> nat list \<Rightarrow> 's \<Rightarrow>
   (step_error option \<times> message list) \<times> 's" where
  "reshard_targets w l r statuses [] s = ((None, []), s)"
| "reshard_targets w l r statuses (i # is) s =
     (case reshard_request l r (w_nodes w s) statuses i of
        None \<Rightarrow> reshard_targets w l r statuses is s
      | Some (leaderNode, req) \<Rightarrow>
          (case w_pull w (n_Address leaderNode) req s of
             (Inl e, s) \<Rightarrow> ((Some (PullFailed (mr_Target req) (p_Leader (r_Partitions r ! i)) e), []), s)
           | (Inr res, s) \<Rightarrow>
               (case updateLayout w (mark_mutation (r_Generation r) i (r_Partitions r ! i) (mr_Sources req)) s of
                  (Inl e, s) \<Rightarrow> ((Some (StepUpdate e), []), s)
                | (Inr events, s) \<Rightarrow>
                    let ((err, msgs), s) = reshard_targets w l r statuses is s
                    in ((err, events @ msgs), s))))"

definition reshardStep :: "'s world \<Rightarrow> Controller \<Rightarrow> 's \<Rightarrow> (step_error option \<times> message list) \<times> 's" where
  "reshardStep w c s =
     (case GetLayout (w_etcd w) s of
        (Inl e, s) \<Rightarrow> ((Some (StepRegistry e), []), s)
      | (Inr (None, _), s) \<Rightarrow> ((None, []), s)
      | (Inr (Some l, _), s) \<Rightarrow>
          (case l_Resharding l of
             None \<Rightarrow> ((None, []), s)
           | Some r \<Rightarrow>
               if all_done (r_Status r)
               then
                 (case updateLayout w (finish_mutation (r_Generation r)) s of
                    (Inl e, s) \<Rightarrow> ((Some (StepUpdate e), []), s)
                  | (Inr events, s) \<Rightarrow> ((None, events), s))
               else reshard_targets w l r (ct_statuses c) [0..<length (r_Partitions r)] s))"

text \<open>One tick of \<open>reshardLoop\<close>; an error is recorded when it differs from the last one.\<close>

definition reshard_tick ::
  "'s world \<Rightarrow> bool \<Rightarrow> step_error option \<Rightarrow> Controller \<Rightarrow> 's \<Rightarrow> step_error option \<times> Controller \<times> 's" where
  "reshard_tick w cancelled lastErr c s =
     (let ((err, msgs), s) = reshardStep w c s; now = w_now w s; c = record_all now msgs c
      in case err of
           None \<Rightarrow> (None, c, s)
         | Some e \<Rightarrow>
             if cancelled then (None, c, s)
             else (Some e, if Some e \<noteq> lastErr then record_event now (MReshardFailed e) c else c, s))"

section \<open>Changes from the panel\<close>

datatype panel_error =
    NoSuchPartition PartitionRef
  | AlreadyHandingOff PartitionRef node_id
  | NotInSync node_id PartitionRef
  | HoldsNoReplica node_id PartitionRef
  | AlreadyHolds node_id PartitionRef
  | NotAMember node_id

definition partitionFor ::
  "Layout \<Rightarrow> partitionRequest \<Rightarrow> panel_error + PartitionRef \<times> Partition" where
  "partitionFor l req =
     (let ref = PartitionRef (if pq_Generation req = 0 then l_Generation l else pq_Generation req) (pq_Partition req)
      in case Find (Some l) ref of
           None \<Rightarrow> Inl (NoSuchPartition ref)
         | Some part \<Rightarrow> Inr (ref, part))"

text \<open>Writing through the pointer that \<open>Find\<close> returned for \<open>ref\<close>.\<close>

definition set_Partition :: "PartitionRef \<Rightarrow> Partition \<Rightarrow> Layout \<Rightarrow> Layout" where
  "set_Partition ref part l =
     (if ref_Generation ref = l_Generation l \<and> 0 \<le> ref_ID ref \<and> ref_ID ref < int (length (l_Partitions l))
      then l\<lparr>l_Partitions := (l_Partitions l)[nat (ref_ID ref) := part]\<rparr>
      else
        case l_Resharding l of
          None \<Rightarrow> l
        | Some r \<Rightarrow> l\<lparr>l_Resharding := Some (r\<lparr>r_Partitions := (r_Partitions r)[nat (ref_ID ref) := part]\<rparr>)\<rparr>)"

definition transfer_mutation :: "partitionRequest \<Rightarrow> (panel_error, message) mutation" where
  "transfer_mutation req now l =
     (case partitionFor l req of
        Inl e \<Rightarrow> Inl e
      | Inr (ref, part) \<Rightarrow>
          if p_Leader part = pq_Node req then Inr (l, [])
          else if p_State part = PartitionHandoff then Inl (AlreadyHandingOff ref (p_HandoffTo part))
          else if \<not> ContainsString (p_Followers part) (pq_Node req) then Inl (NotInSync (pq_Node req) ref)
          else
            let inp = \<lparr>pi_Config = \<lparr>cfg_PartitionCount = 0, cfg_ReplicationFactor = 0\<rparr>, pi_Nodes = [],
                  pi_Drained = [], pi_Status = [], pi_Now = now, pi_AutoBalance = False\<rparr>;
                (part', p) = startHandoff inp ref part (pq_Node req) RequestedFromPanel (start_planner l)
            in Inr (set_Partition ref (part'\<lparr>p_Pinned := True\<rparr>) l, map MPlan (pl_events p)))"

definition move_mutation :: "partitionRequest \<Rightarrow> (panel_error, message) mutation" where
  "move_mutation req now l =
     (case partitionFor l req of
        Inl e \<Rightarrow> Inl e
      | Inr (ref, part) \<Rightarrow>
          if \<not> Has part (pq_From req) then Inl (HoldsNoReplica (pq_From req) ref)
          else if Has part (pq_To req) then Inl (AlreadyHolds (pq_To req) ref)
          else if gm_get 0 (l_Members l) (pq_To req) = 0 then Inl (NotAMember (pq_To req))
          else
            Inr (set_Partition ref (part\<lparr>p_Joining := p_Joining part @ [pq_To req],
                   p_Evict := (if ContainsString (p_Evict part) (pq_From req) then p_Evict part
                               else p_Evict part @ [pq_From req]),
                   p_Pinned := True\<rparr>) l,
                 [MMoving ref (pq_From req) (pq_To req)]))"

definition unpin_mutation :: "partitionRequest \<Rightarrow> (panel_error, message) mutation" where
  "unpin_mutation req now l =
     (case partitionFor l req of
        Inl e \<Rightarrow> Inl e
      | Inr (ref, part) \<Rightarrow>
          if \<not> p_Pinned part then Inr (l, [])
          else Inr (set_Partition ref (part\<lparr>p_Pinned := False\<rparr>) l, [MUnpinned ref]))"

section \<open>The admin API\<close>

definition respondLayoutChange ::
  "go_time \<Rightarrow> 'e update_error + message list \<Rightarrow> Controller \<Rightarrow> api_response \<times> Controller" where
  "respondLayoutChange now res c =
     (case res of
        Inl e \<Rightarrow>
          ((if e = errNotLeader \<or> e = RegistryError ErrConflict then 503 else 409, BError), c)
      | Inr events \<Rightarrow> ((200, BEvents events), kick (record_all now events c)))"

text \<open>The last step of \<open>handleTransferLeader\<close>, \<open>handleMove\<close> and \<open>handleUnpin\<close>.\<close>

definition change_layout ::
  "'s world \<Rightarrow> (panel_error, message) mutation \<Rightarrow> Controller \<Rightarrow> 's \<Rightarrow> api_response \<times> Controller \<times> 's" where
  "change_layout w mutate c s =
     (let (res, s) = updateLayout w mutate s; (resp, c) = respondLayoutChange (w_now w s) res c in (resp, c, s))"

definition handleTransferLeader ::
  "'s world \<Rightarrow> partitionRequest option \<Rightarrow> Controller \<Rightarrow> 's \<Rightarrow> api_response \<times> Controller \<times> 's" where
  "handleTransferLeader w body c s =
     (case body of
        None \<Rightarrow> ((400, BError), c, s)
      | Some req \<Rightarrow>
          if pq_Node req = '''' then ((400, BError), c, s) else change_layout w (transfer_mutation req) c s)"

definition handleMove ::
  "'s world \<Rightarrow> partitionRequest option \<Rightarrow> Controller \<Rightarrow> 's \<Rightarrow> api_response \<times> Controller \<times> 's" where
  "handleMove w body c s =
     (case body of
        None \<Rightarrow> ((400, BError), c, s)
      | Some req \<Rightarrow>
          if pq_From req = '''' \<or> pq_To req = '''' then ((400, BError), c, s)
          else change_layout w (move_mutation req) c s)"

definition handleUnpin ::
  "'s world \<Rightarrow> partitionRequest option \<Rightarrow> Controller \<Rightarrow> 's \<Rightarrow> api_response \<times> Controller \<times> 's" where
  "handleUnpin w body c s =
     (case body of None \<Rightarrow> ((400, BError), c, s) | Some req \<Rightarrow> change_layout w (unpin_mutation req) c s)"

text \<open>
  The new configuration a request asks for, or the status that refuses it: the partition count
  is checked (and may not change during a resharding) before the replication factor.
\<close>

definition checked_config :: "LayoutWatcher \<Rightarrow> int option \<times> int option \<Rightarrow> Config \<Rightarrow> int + Config" where
  "checked_config layout req cfg =
     (let with_factor = (\<lambda>cfg. case snd req of
            None \<Rightarrow> Inr cfg
          | Some rf \<Rightarrow> if rf < 1 \<or> rf > 16 then Inl 400 else Inr (cfg\<lparr>cfg_ReplicationFactor := rf\<rparr>))
      in case fst req of
           None \<Rightarrow> with_factor cfg
         | Some pc \<Rightarrow>
             if pc < 1 \<or> pc > 1024 then Inl 400
             else if (case layout of None \<Rightarrow> False | Some l \<Rightarrow> l_Resharding l \<noteq> None \<and> pc \<noteq> cfg_PartitionCount cfg)
             then Inl 409
             else with_factor (cfg\<lparr>cfg_PartitionCount := pc\<rparr>))"

definition handleConfig ::
  "'s world \<Rightarrow> (int option \<times> int option) option \<Rightarrow> Controller \<Rightarrow> 's \<Rightarrow> api_response \<times> Controller \<times> 's" where
  "handleConfig w body c s =
     (case body of
        None \<Rightarrow> ((400, BError), c, s)
      | Some req \<Rightarrow>
          (case GetConfig (w_etcd w) s of
             (Inl e, s) \<Rightarrow> ((503, BError), c, s)
           | (Inr cfg, s) \<Rightarrow>
               (case checked_config (w_layout w s) req cfg of
                  Inl code \<Rightarrow> ((code, BError), c, s)
                | Inr cfg \<Rightarrow>
                    (case PutConfig (w_etcd w) cfg s of
                       (Inl e, s) \<Rightarrow> ((500, BError), c, s)
                     | (Inr _, s) \<Rightarrow>
                         ((200, BConfig cfg),
                          kick (record_event (w_now w s)
                            (MConfig (cfg_PartitionCount cfg) (cfg_ReplicationFactor cfg)) c), s)))))"

definition handleDrain ::
  "'s world \<Rightarrow> (node_id \<times> bool) option \<Rightarrow> Controller \<Rightarrow> 's \<Rightarrow> api_response \<times> Controller \<times> 's" where
  "handleDrain w body c s =
     (case body of
        None \<Rightarrow> ((400, BError), c, s)
      | Some (node, drained) \<Rightarrow>
          if node = '''' then ((400, BError), c, s)
          else
            (case SetDrained (w_etcd w) (w_format w (w_now w s)) node drained s of
               (Inl e, s) \<Rightarrow> ((500, BError), c, s)
             | (Inr _, s) \<Rightarrow>
                 ((200, BDrain node drained), kick (record_event (w_now w s) (MDrained node drained) c), s)))"

definition handleStable :: "'s world \<Rightarrow> Controller \<Rightarrow> 's \<Rightarrow> api_response \<times> 's" where
  "handleStable w c s =
     (case GetConfig (w_etcd w) s of
        (Inl e, s) \<Rightarrow> ((503, BError), s)
      | (Inr cfg, s) \<Rightarrow>
          (case GetLayout (w_etcd w) s of
             (Inl e, s) \<Rightarrow> ((503, BError), s)
           | (Inr (lo, _), s) \<Rightarrow>
               let (res, s) = GetDrained (w_etcd w) s;
                   drained = (case res of Inl e \<Rightarrow> [] | Inr d \<Rightarrow> d)
               in case unstableReason lo cfg drained (co_AutoBalance (ct_opts c)) of
                    Some reason \<Rightarrow> ((503, BUnstable reason), s)
                  | None \<Rightarrow> ((200, BStable (case lo of None \<Rightarrow> 0 | Some l \<Rightarrow> l_Version l)), s)))"

record stateResponse =
  sr_Controller :: string
  sr_Leading :: bool
  sr_Leader :: string
  sr_Controllers :: "ControllerInfo list"
  sr_Config :: Config
  sr_Layout :: "Layout option"
  sr_Nodes :: "Node list"
  sr_Drained :: "(node_id, bool) gomap"
  sr_Status :: "(node_id, NodeStatus) gomap"
  sr_Stable :: "unstable option"
  sr_Events :: "Event list"

definition ok_or :: "'a \<Rightarrow> reg_error + 'a \<Rightarrow> 'a" where
  "ok_or d res = (case res of Inl e \<Rightarrow> d | Inr x \<Rightarrow> x)"

text \<open>Every part that cannot be read is left at its zero value.\<close>

definition handleState :: "'s world \<Rightarrow> Controller \<Rightarrow> 's \<Rightarrow> stateResponse \<times> 's" where
  "handleState w c s =
     (let leading = w_leading w s;
          (leader, s) = ElectionLeader (w_etcd w) s;
          (controllers, s) = GetControllers (w_etcd w) s;
          (cfg, s) = GetConfig (w_etcd w) s;
          (lay, s) = GetLayout (w_etcd w) s;
          (drained, s) = GetDrained (w_etcd w) s;
          cfg = ok_or \<lparr>cfg_PartitionCount = 0, cfg_ReplicationFactor = 0\<rparr> cfg;
          l = fst (ok_or (None, 0) lay)
      in (\<lparr>sr_Controller = co_ID (ct_opts c), sr_Leading = leading, sr_Leader = ok_or '''' leader,
           sr_Controllers = ok_or [] controllers, sr_Config = cfg, sr_Layout = l,
           sr_Nodes = sort_key n_ID (map snd (w_nodes w s)), sr_Drained = ok_or [] drained,
           sr_Status = ct_statuses c,
           sr_Stable = unstableReason l cfg (ok_or [] drained) (co_AutoBalance (ct_opts c)),
           sr_Events = ct_events c\<rparr>, s))"

definition serveAPI :: "'s world \<Rightarrow> api_request \<Rightarrow> Controller \<Rightarrow> 's \<Rightarrow> api_response \<times> Controller \<times> 's" where
  "serveAPI w req c s =
     (let getting = aq_method req = ''GET''; posting = aq_method req = ''POST''; path = aq_path req in
      if path = ''/api/state''
      then (if getting then (let (_, s) = handleState w c s in ((200, BOther path), c, s)) else ((405, BError), c, s))
      else if path = ''/api/stable''
      then (if getting then (let (resp, s) = handleStable w c s in (resp, c, s)) else ((405, BError), c, s))
      else if path = ''/api/config''
      then (if posting then handleConfig w (aq_config req) c s else ((405, BError), c, s))
      else if path = ''/api/nodes/drain''
      then (if posting then handleDrain w (aq_drain req) c s else ((405, BError), c, s))
      else if path = ''/api/partitions/leader''
      then (if posting then handleTransferLeader w (aq_partition req) c s else ((405, BError), c, s))
      else if path = ''/api/partitions/move''
      then (if posting then handleMove w (aq_partition req) c s else ((405, BError), c, s))
      else if path = ''/api/partitions/unpin''
      then (if posting then handleUnpin w (aq_partition req) c s else ((405, BError), c, s))
      else ((404, BError), c, s))"

text \<open>\<open>None\<close>: there is no other leader to forward the request to.\<close>

definition proxyToLeader ::
  "'s world \<Rightarrow> api_request \<Rightarrow> Controller \<Rightarrow> 's \<Rightarrow> (api_response \<times> Controller) option \<times> 's" where
  "proxyToLeader w req c s =
     (case ElectionLeader (w_etcd w) s of
        (Inl e, s) \<Rightarrow> (None, s)
      | (Inr addr, s) \<Rightarrow>
          if addr = '''' \<or> addr = co_Advertise (ct_opts c) \<or> \<not> w_parses w addr then (None, s)
          else
            (case w_proxy w addr (req\<lparr>aq_proxied := co_ID (ct_opts c)\<rparr>) s of
               (Inr resp, s) \<Rightarrow> (Some (resp, c), s)
             | (Inl e, s) \<Rightarrow>
                 if aq_method req = ''GET'' then (let (resp, c, s) = serveAPI w req c s in (Some (resp, c), s))
                 else (Some ((502, BError), c), s)))"

definition handleAPI :: "'s world \<Rightarrow> api_request \<Rightarrow> Controller \<Rightarrow> 's \<Rightarrow> api_response \<times> Controller \<times> 's" where
  "handleAPI w req c s =
     (if w_leading w s then serveAPI w req c s
      else
        let (proxied, s) = (if aq_proxied req = '''' then proxyToLeader w req c s else (None, s))
        in case proxied of
             Some (resp, c) \<Rightarrow> (resp, c, s)
           | None \<Rightarrow>
               if aq_method req = ''GET'' \<and> (aq_path req = ''/api/state'' \<or> aq_path req = ''/api/stable'')
               then serveAPI w req c s
               else ((503, BError), c, s))"

definition handlePanel :: "string \<Rightarrow> int" where
  "handlePanel path = (if path \<noteq> ''/'' then 404 else 200)"

end
