(* ===== verification/ControlSafety.thy ===== *)
theory ControlSafety
  imports Controller Interfaces
begin

text \<open>
  Any number of controllers over one etcd. The changes they make to a layout (the planner's rounds,
  the resharding driver, the panel) keep it well formed and only ever move leaderships to larger
  epochs; the compare-and-swap of \<open>updateLayout\<close> makes each of them atomic; the election key
  fences a controller that lost office.
\<close>

section \<open>Changes of a layout\<close>

inductive layout_change :: "Layout \<Rightarrow> Layout \<Rightarrow> bool" where
  planned: "plan_mutation cfg nodes drained statuses auto now l = Inr (l', ev) \<Longrightarrow>
    '''' \<notin> dom (map_of nodes) \<Longrightarrow> cfg_PartitionCount cfg < 2 ^ 32 \<Longrightarrow> layout_change l l'"
| finished: "finish_mutation g now l = Inr (l', ev) \<Longrightarrow> layout_change l l'"
| marked: "mark_mutation g i target srcs now l = Inr (l', ev) \<Longrightarrow> layout_change l l'"
| transferred: "transfer_mutation req now l = Inr (l', ev) \<Longrightarrow> layout_change l l'"
| moved: "move_mutation req now l = Inr (l', ev) \<Longrightarrow> layout_change l l'"
| unpinned: "unpin_mutation req now l = Inr (l', ev) \<Longrightarrow> layout_change l l'"

text \<open>The partitions of generation \<open>g\<close>, once there are any.\<close>

definition table :: "Layout \<Rightarrow> int \<Rightarrow> Partition list" where
  "table l g =
     (if g = l_Generation l then l_Partitions l
      else case l_Resharding l of
             None \<Rightarrow> []
           | Some r \<Rightarrow> if g = r_Generation r then r_Partitions r else [])"

text \<open>A partition that keeps its place, with a new leader only at a larger epoch.\<close>

definition leads_on :: "Partition \<Rightarrow> Partition \<Rightarrow> bool" where
  "leads_on a b \<longleftrightarrow> p_ID b = p_ID a \<and> p_Epoch a \<le> p_Epoch b \<and>
     (p_Epoch b = p_Epoch a \<longrightarrow> p_Leader b = p_Leader a \<or> p_Leader b = '''')"

text \<open>A leader that keeps its epoch is still the same process: the layout recorded no other incarnation of it.\<close>

definition seat :: "Layout \<Rightarrow> Layout \<Rightarrow> Partition \<Rightarrow> Partition \<Rightarrow> bool" where
  "seat l l' a b \<longleftrightarrow> leads_on a b \<and>
     (p_Leader a \<noteq> '''' \<and> p_Leader b = p_Leader a \<and> p_Epoch b = p_Epoch a \<longrightarrow>
        map_of (l_Members l') (p_Leader a) = map_of (l_Members l) (p_Leader a))"

text \<open>A generation is dropped only when a later one is current, and never comes back.\<close>

definition succeeds :: "Layout \<Rightarrow> Layout \<Rightarrow> bool" where
  "succeeds l l' \<longleftrightarrow> l_Generation l \<le> l_Generation l' \<and>
     (\<forall>g. table l g \<noteq> [] \<longrightarrow> g < l_Generation l' \<or> list_all2 (seat l l') (table l g) (table l' g))"

definition uninitialised :: "Layout \<Rightarrow> bool" where
  "uninitialised l \<longleftrightarrow> l_PartitionCount l = 0 \<and> l_Partitions l = [] \<and> l_Resharding l = None"

definition stored_ok :: "Layout \<Rightarrow> bool" where
  "stored_ok l \<longleftrightarrow> cluster_ok l \<and> 0 \<le> l_Generation l \<and>
     (uninitialised l \<or> layout_ok l \<and> 0 < l_Generation l) \<and>
     (\<forall>r. l_Resharding l = Some r \<longrightarrow> r_Generation r = l_Generation l + 1) \<and>
     (\<forall>p \<in> set (parts_of l). 0 \<le> p_Epoch p)"

lemma leads_on_refl [simp, intro]: "leads_on a a"
  by (simp add: leads_on_def)

lemma leads_on_trans: "leads_on a b \<Longrightarrow> leads_on b c \<Longrightarrow> leads_on a c"
  by (auto simp: leads_on_def)

lemma fenced_leads_on: "fenced a b \<Longrightarrow> leads_on a b"
  by (simp add: fenced_def leads_on_def)

lemma seat_refl [simp, intro]: "seat l l a a"
  by (simp add: seat_def)

lemma seat_same_members: "l_Members l' = l_Members l \<Longrightarrow> seat l l' a b = leads_on a b"
  by (simp add: seat_def)

lemma list_seat_same: "l_Members l' = l_Members l \<Longrightarrow> list_all2 (seat l l') ps ps"
  by (simp add: list_all2_refl seat_same_members)

lemma seat_trans:
  assumes "seat l l' a b" and "seat l' l'' b c"
  shows "seat l l'' a c"
  unfolding seat_def
proof (intro conjI impI)
  have ab: "leads_on a b" and bc: "leads_on b c" using assms by (simp_all add: seat_def)
  then show "leads_on a c" by (rule leads_on_trans)
  assume c: "p_Leader a \<noteq> '''' \<and> p_Leader c = p_Leader a \<and> p_Epoch c = p_Epoch a"
  then have e: "p_Epoch b = p_Epoch a" using ab bc by (simp add: leads_on_def)
  then have n: "p_Leader b = p_Leader a" using bc c by (auto simp: leads_on_def)
  from c e n assms show "map_of (l_Members l'') (p_Leader a) = map_of (l_Members l) (p_Leader a)" by (simp add: seat_def)
qed

interpretation succ: evolution succeeds
proof
  show "succeeds l l" for l by (simp add: succeeds_def list_all2_refl)
  fix a b c assume ab: "succeeds a b" and bc: "succeeds b c"
  have "g < l_Generation c \<or> list_all2 (seat a c) (table a g) (table c g)" if "table a g \<noteq> []" for g
  proof (cases "g < l_Generation b")
    case False
    with ab that have l: "list_all2 (seat a b) (table a g) (table b g)" unfolding succeeds_def by blast
    with that have "table b g \<noteq> []" by auto
    with bc have "g < l_Generation c \<or> list_all2 (seat b c) (table b g) (table c g)"
      unfolding succeeds_def by blast
    with l show ?thesis
      using list_all2_trans [of "seat a b" "seat b c" "seat a c"] seat_trans by blast
  qed (use bc in \<open>auto simp: succeeds_def\<close>)
  with ab bc show "succeeds a c" by (auto simp: succeeds_def)
qed

lemma Find_tableD:
  assumes "stored_ok l" and "Find (Some l) ref = Some p"
  shows "nat (ref_ID ref) < length (table l (ref_Generation ref))"
    and "p = table l (ref_Generation ref) ! nat (ref_ID ref)"
    and "l_Generation l \<le> ref_Generation ref"
  using assms by (auto simp: Find_def table_def stored_ok_def split: if_splits option.splits)

text \<open>Two layouts, one after the other, never name two leaders of a partition at one epoch.\<close>

lemma succeeds_leader:
  assumes "succeeds l l'" and "stored_ok l" and "stored_ok l'"
    and "Find (Some l) ref = Some a" and "Find (Some l') ref = Some b"
  shows "seat l l' a b"
proof -
  note a = Find_tableD [OF assms(2,4)] and b = Find_tableD [OF assms(3,5)]
  from a(1) have "table l (ref_Generation ref) \<noteq> []" by auto
  with assms(1) b(3) have "list_all2 (seat l l') (table l (ref_Generation ref)) (table l' (ref_Generation ref))"
    by (auto simp: succeeds_def)
  with a b show ?thesis by (simp add: list_all2_conv_all_nth)
qed

section \<open>Every change keeps the layout well formed\<close>

text \<open>
  A round goes through a layout \<open>q\<close> without the nodes that left or restarted; whoever leads there is
  still the member it was.
\<close>

lemma fenced_seat:
  assumes "fenced a c" and "fenced c b"
    and "\<forall>n \<in> set (Holders c). map_of (l_Members l') n = map_of (l_Members l) n"
  shows "seat l l' a b"
proof -
  have "p_Leader c = p_Leader a" if "p_Leader a \<noteq> ''''" "p_Leader b = p_Leader a" "p_Epoch b = p_Epoch a"
    using assms(1,2) that by (auto simp: fenced_def)
  then show ?thesis
    using assms(3) fenced_leads_on [OF fenced_trans [OF assms(1,2)]] by (auto simp: seat_def set_Holders)
qed

lemma list_fenced_seat:
  assumes "list_all2 fenced as cs" and "list_all2 fenced cs bs"
    and "\<forall>c \<in> set cs. \<forall>n \<in> set (Holders c). map_of (l_Members l') n = map_of (l_Members l) n"
  shows "list_all2 (seat l l') as bs"
  using assms by (auto simp: list_all2_conv_all_nth intro!: fenced_seat [of "as ! i" "cs ! i" "bs ! i" for i])

lemma fenced_layout_succeeds:
  assumes "fenced_layout tc l q" and "fenced_layout tc q l'"
    and "\<forall>part \<in> set (parts_of q). \<forall>n \<in> set (Holders part). map_of (l_Members l') n = map_of (l_Members l) n"
  shows "succeeds l l'"
proof -
  have parts: "list_all2 (seat l l') (l_Partitions l) (l_Partitions l')"
    using assms by (intro list_fenced_seat [of _ "l_Partitions q"]) (auto simp: fenced_layout_def parts_of_eq)
  have resh: "\<exists>r'. l_Resharding l' = Some r' \<and> r_Generation r' = r_Generation r \<and>
      list_all2 (seat l l') (r_Partitions r) (r_Partitions r')" if "l_Resharding l = Some r" for r
  proof -
    from assms(1) that obtain rq where rq: "l_Resharding q = Some rq" "fenced_resharding r rq"
      by (auto simp: fenced_layout_def)
    with assms(2) obtain r' where r': "l_Resharding l' = Some r'" "fenced_resharding rq r'"
      by (auto simp: fenced_layout_def)
    from rq r' assms(3) have "list_all2 (seat l l') (r_Partitions r) (r_Partitions r')"
      by (intro list_fenced_seat [of _ "r_Partitions rq"]) (simp_all add: fenced_resharding_def parts_of_eq ball_Un)
    with rq r' show ?thesis by (simp add: fenced_resharding_def)
  qed
  have gen: "l_Generation l' = l_Generation l" using assms(1,2) by (simp add: fenced_layout_def)
  have "list_all2 (seat l l') (table l g) (table l' g)" if "table l g \<noteq> []" for g
    using that parts resh gen by (auto simp: table_def split: if_splits option.splits)
  with gen show ?thesis by (simp add: succeeds_def)
qed

lemma fenced_layout_epochs:
  assumes "fenced_layout tc l l'" and "\<forall>p \<in> set (parts_of l). 0 \<le> p_Epoch p"
  shows "\<forall>p \<in> set (parts_of l'). 0 \<le> p_Epoch p"
  using assms fenced_epochs [of "l_Partitions l" "l_Partitions l'"]
    fenced_epochs [of "r_Partitions (the (l_Resharding l))" "r_Partitions (the (l_Resharding l'))"]
  by (auto simp: fenced_layout_def fenced_resharding_def fresh_resharding_def parts_of_eq split: option.splits)

lemma fenced_layout_stored:
  assumes "fenced_layout tc l l'" and "tc < 2 ^ 32" and "layout_ok l" and "0 < l_Generation l"
    and "\<And>r. l_Resharding l = Some r \<Longrightarrow> r_Generation r = l_Generation l + 1" and "cluster_ok l'"
    and "\<forall>p \<in> set (parts_of l). 0 \<le> p_Epoch p"
  shows "stored_ok l'"
proof -
  have ep: "\<forall>p \<in> set (parts_of l'). 0 \<le> p_Epoch p" using assms(1,7) by (rule fenced_layout_epochs)
  have "layout_ok l'" using assms(1,3,2) by (rule fenced_layout_ok)
  moreover have "r_Generation r = l_Generation l' + 1" if "l_Resharding l' = Some r" for r
    using assms(1,5) that
    by (cases "l_Resharding l") (auto simp: fenced_layout_def fenced_resharding_def fresh_resharding_def)
  moreover have "l_Generation l' = l_Generation l" using assms(1) by (simp add: fenced_layout_def)
  ultimately show ?thesis using assms(4,6) ep by (simp add: stored_ok_def)
qed

text \<open>The first round sets up the table, or leaves it empty while no partitions are configured.\<close>

lemma bootstrap_cases:
  assumes "uninitialised l" and "0 \<le> l_Generation l" and "cfg_PartitionCount (pi_Config inp) < 2 ^ 32"
  obtains (empty) "uninitialised (pl_l (bootstrap inp (start_planner l)))" "cfg_PartitionCount (pi_Config inp) \<le> 0"
    | (filled) "layout_ok (pl_l (bootstrap inp (start_planner l)))"
      "l_Resharding (pl_l (bootstrap inp (start_planner l))) = None"
      "\<forall>p \<in> set (parts_of (pl_l (bootstrap inp (start_planner l)))). 0 \<le> p_Epoch p"
proof -
  have "table_ok n (map (\<lambda>i. new_Partition (int i) 0) [0..<nat n])" if "0 < n" "n < 2 ^ 32" for n
    using that by (simp add: table_ok_def new_Partition_def)
  note tab = this and defs = bootstrap_def start_planner_def uninitialised_def layout_ok_def Let_def
  show ?thesis
  proof (cases "0 < cfg_PartitionCount (pi_Config inp)")
    case True
    with assms tab show ?thesis by (intro filled) (auto simp: defs parts_of_eq new_Partition_def)
  next
    case False
    with assms(1) show ?thesis by (intro empty) (auto simp: defs)
  qed
qed

lemma bootstrap_generation:
  "0 \<le> l_Generation l \<Longrightarrow> 0 < l_Generation (pl_l (bootstrap inp (start_planner l))) \<and>
    l_Generation l \<le> l_Generation (pl_l (bootstrap inp (start_planner l))) \<and>
    l_Version (pl_l (bootstrap inp (start_planner l))) = l_Version l"
  by (auto simp: bootstrap_def start_planner_def Let_def)

lemma fenced_uninitialised:
  assumes "fenced_layout tc l l'" and "uninitialised l" and "tc \<le> 0"
  shows "uninitialised l'"
  using assms by (auto simp: fenced_layout_def uninitialised_def fresh_resharding_def split: option.splits)

lemma plan_stored:
  assumes ok: "stored_ok l" and nodes: "'''' \<notin> dom (map_of (pi_Nodes inp))"
    and tc: "cfg_PartitionCount (pi_Config inp) < 2 ^ 32" and eq: "plan l inp = (l', ev)"
  shows "stored_ok l' \<and> succeeds l l' \<and> l_Version l' = l_Version l"
proof -
  from ok have cl: "cluster_ok l" and g: "0 \<le> l_Generation l" by (auto simp: stored_ok_def)
  have cl': "cluster_ok l'" using plan_invariant_facts(1) [OF cl nodes] eq by simp
  show ?thesis
  proof (cases "uninitialised l")
    case True
    let ?b = "pl_l (bootstrap inp (start_planner l))"
    note f = plan_spec(5) [OF cl nodes eq] and bg = bootstrap_generation [OF g, of inp]
    have gen: "l_Generation l' = l_Generation ?b" "l_Version l' = l_Version ?b"
      using f by (simp_all add: fenced_layout_def)
    have "table l h = []" for h using True by (simp add: table_def uninitialised_def)
    then have "succeeds l l'" using bg gen by (simp add: succeeds_def)
    moreover have "stored_ok l'"
      using True g tc
    proof (cases rule: bootstrap_cases [where inp = inp])
      case empty
      then have "uninitialised l'" using f by (blast intro: fenced_uninitialised)
      then show ?thesis using cl' bg gen by (simp add: stored_ok_def uninitialised_def parts_of_eq)
    next
      case filled
      with bg show ?thesis by (intro fenced_layout_stored [OF f tc _ _ _ cl']) auto
    qed
    ultimately show ?thesis using bg gen by simp
  next
    case False
    with ok have lo: "layout_ok l" "0 < l_Generation l" by (auto simp: stored_ok_def)
    then have "l_PartitionCount l \<noteq> 0" "l_Generation l \<noteq> 0" by (auto simp: layout_ok_def table_ok_def)
    note init = this
    note f = plan_spec(4) [OF cl nodes eq init]
    from f tc lo have "stored_ok l'"
      using ok by (intro fenced_layout_stored [OF f tc lo _ cl']) (auto simp: stored_ok_def)
    moreover have "pl_l (bootstrap inp (start_planner l)) = l"
      using init by (simp add: bootstrap_initialised) (simp add: start_planner_def)
    with plan_spec(6) [OF cl nodes eq] have "succeeds l l'" by (auto intro: fenced_layout_succeeds)
    ultimately show ?thesis using f by (simp add: fenced_layout_def)
  qed
qed

lemma finish_stored:
  assumes ok: "stored_ok l" and eq: "finish_resharding g l = (l', ev)"
  shows "stored_ok l' \<and> succeeds l l' \<and> l_Version l' = l_Version l"
proof (cases "l' = l")
  case True
  with ok show ?thesis by (simp add: succ.refl)
next
  case False
  with eq obtain r where r: "l_Resharding l = Some r"
    and l': "l' = l\<lparr>l_Generation := r_Generation r, l_PartitionCount := r_PartitionCount r,
      l_Partitions := r_Partitions r, l_Resharding := None\<rparr>"
    by (auto simp: finish_resharding_def split: option.splits if_splits)
  from ok r have g: "r_Generation r = l_Generation l + 1" by (auto simp: stored_ok_def)
  have "succeeds l l'" using r g by (auto simp: succeeds_def table_def l' list_seat_same)
  moreover have "cluster_ok l'" using ok r by (auto simp: stored_ok_def cluster_ok_def parts_of_eq l')
  moreover have "layout_ok l'"
    using ok r by (auto simp: stored_ok_def layout_ok_def uninitialised_def l')
  moreover have "\<forall>p \<in> set (parts_of l'). 0 \<le> p_Epoch p"
    using ok r by (auto simp: stored_ok_def parts_of_eq l')
  ultimately show ?thesis using ok g by (simp add: stored_ok_def l')
qed

lemma mark_stored:
  assumes ok: "stored_ok l" and eq: "mark_migrated g i target srcs l = Inr (l', ev)"
  shows "stored_ok l' \<and> succeeds l l' \<and> l_Version l' = l_Version l"
  using eq
proof (rule mark_migrated_Inr)
  fix r assume r: "l_Resharding l = Some r" "r_Generation r = g"
    and l': "l' = l\<lparr>l_Resharding := Some (r\<lparr>r_Status := (r_Status r)[i := MigrationDone]\<rparr>)\<rparr>"
  have "table l' h = table l h" for h using r by (simp add: table_def l')
  then have "succeeds l l'" by (simp add: succeeds_def l' list_seat_same)
  moreover have "cluster_ok l'" using ok r by (simp add: stored_ok_def cluster_ok_def parts_of_eq l')
  moreover have "layout_ok l'"
    using ok r layout_ok_mark [of l r i MigrationDone] by (auto simp: stored_ok_def uninitialised_def l')
  moreover have "parts_of l' = parts_of l" using r by (simp add: parts_of_eq l')
  ultimately show ?thesis using ok r by (auto simp: stored_ok_def uninitialised_def l')
qed

text \<open>The panel changes one partition and leaves its leader and epoch alone.\<close>

lemma list_seat_update:
  "leads_on (ps ! i) p \<Longrightarrow> l_Members l' = l_Members l \<Longrightarrow> list_all2 (seat l l') ps (ps[i := p])"
  by (simp add: list_all2_conv_all_nth seat_same_members)
    (metis leads_on_refl nth_list_update_eq nth_list_update_neq)

lemma table_ok_update: "table_ok n ps \<Longrightarrow> p_ID p = p_ID (ps ! i) \<Longrightarrow> table_ok n (ps[i := p])"
  by (simp add: table_ok_def) (metis nth_list_update_eq nth_list_update_neq)

lemma cluster_ok_update:
  assumes "cluster_ok l" and "part_ok p" and "set (Holders p) \<subseteq> dom (map_of (l_Members l))"
    and "set (parts_of l') \<subseteq> insert p (set (parts_of l))" and "l_Members l' = l_Members l"
  shows "cluster_ok l'"
proof -
  have "part_ok q \<and> set (Holders q) \<subseteq> dom (map_of (l_Members l))" if "q \<in> set (parts_of l')" for q
    using assms(1-4) that unfolding cluster_ok_def by (cases "q = p") auto
  with assms(1,5) show ?thesis by (simp add: cluster_ok_def)
qed

lemma stored_cluster: "stored_ok l \<Longrightarrow> cluster_ok l"
  by (simp add: stored_ok_def)

lemma Find_parts_of: "Find (Some l) ref = Some p \<Longrightarrow> p \<in> set (parts_of l)"
  by (auto simp: Find_def parts_of_eq split: if_splits option.splits)

lemma epochs_update:
  assumes "stored_ok l" and "Find (Some l) ref = Some a" and "leads_on a b"
    and "set (parts_of l') \<subseteq> insert b (set (parts_of l))"
  shows "\<forall>p \<in> set (parts_of l'). 0 \<le> p_Epoch p"
proof -
  from assms(1) have e: "0 \<le> p_Epoch p" if "p \<in> set (parts_of l)" for p using that by (auto simp: stored_ok_def)
  from e [OF Find_parts_of [OF assms(2)]] assms(3) have "0 \<le> p_Epoch b" by (simp add: leads_on_def)
  with e assms(4) show ?thesis by blast
qed

lemma set_Partition_stored:
  assumes ok: "stored_ok l" and find: "Find (Some l) ref = Some a"
    and on: "leads_on a b" and part: "part_ok b" "set (Holders b) \<subseteq> dom (map_of (l_Members l))"
  shows "stored_ok (set_Partition ref b l) \<and> succeeds l (set_Partition ref b l) \<and>
    l_Version (set_Partition ref b l) = l_Version l"
proof (cases "ref_Generation ref = l_Generation l \<and> 0 \<le> ref_ID ref \<and> ref_ID ref < int (length (l_Partitions l))")
  case True
  let ?i = "nat (ref_ID ref)" and ?l' = "set_Partition ref b l"
  have l': "?l' = l\<lparr>l_Partitions := (l_Partitions l)[?i := b]\<rparr>" using True by (simp add: set_Partition_def)
  have a: "a = l_Partitions l ! ?i" using True find by (simp add: Find_def)
  have "uninitialised l \<Longrightarrow> False" using True by (auto simp: uninitialised_def)
  with ok have "layout_ok ?l' \<and> 0 < l_Generation l"
    using on a by (auto simp: stored_ok_def layout_ok_def leads_on_def l' intro: table_ok_update split: option.splits)
  moreover have "set (parts_of ?l') \<subseteq> insert b (set (parts_of l))"
    using set_update_subset_insert [of "l_Partitions l" ?i b] unfolding parts_of_eq l' by auto
  then have "cluster_ok ?l'" "\<forall>p \<in> set (parts_of ?l'). 0 \<le> p_Epoch p"
    using cluster_ok_update [OF stored_cluster [OF ok] part, of ?l'] epochs_update [OF ok find on] by (simp_all add: l')
  moreover have "succeeds l ?l'"
    using on a by (auto simp: succeeds_def table_def l' list_seat_update list_seat_same split: option.splits)
  ultimately show ?thesis using ok by (auto simp: stored_ok_def l')
next
  case False
  with find obtain r where r: "l_Resharding l = Some r" "ref_Generation ref = r_Generation r"
    "0 \<le> ref_ID ref" "ref_ID ref < int (length (r_Partitions r))" "a = r_Partitions r ! nat (ref_ID ref)"
    by (auto simp: Find_def split: option.splits if_splits)
  let ?i = "nat (ref_ID ref)" and ?l' = "set_Partition ref b l"
  have l': "?l' = l\<lparr>l_Resharding := Some (r\<lparr>r_Partitions := (r_Partitions r)[?i := b]\<rparr>)\<rparr>"
    using False r(1) by (auto simp: set_Partition_def)
  have "uninitialised l \<Longrightarrow> False" using r(1) by (simp add: uninitialised_def)
  with ok have "layout_ok ?l' \<and> 0 < l_Generation l"
    using on r by (auto simp: stored_ok_def layout_ok_def leads_on_def l' intro: table_ok_update)
  moreover have "set (parts_of ?l') \<subseteq> insert b (set (parts_of l))"
    using set_update_subset_insert [of "r_Partitions r" ?i b] r(1) unfolding parts_of_eq l' by auto
  then have "cluster_ok ?l'" "\<forall>p \<in> set (parts_of ?l'). 0 \<le> p_Epoch p"
    using cluster_ok_update [OF stored_cluster [OF ok] part, of ?l'] epochs_update [OF ok find on] by (simp_all add: l')
  moreover have "succeeds l ?l'"
    using on r by (auto simp: succeeds_def table_def l' list_seat_update list_seat_same split: option.splits)
  ultimately show ?thesis using ok r(1) by (auto simp: stored_ok_def l')
qed

lemma partitionFor_Find: "partitionFor l req = Inr (ref, part) \<Longrightarrow> Find (Some l) ref = Some part"
  by (auto simp: partitionFor_def Let_def split: option.splits)

lemma stored_part:
  assumes "stored_ok l" and "Find (Some l) ref = Some p"
  shows "part_ok p" and "set (Holders p) \<subseteq> dom (map_of (l_Members l))"
  using assms Find_parts_of [OF assms(2)] by (auto simp: stored_ok_def cluster_ok_def)

lemma transfer_stored:
  assumes ok: "stored_ok l" and eq: "transfer_mutation req now l = Inr (l', ev)"
  shows "stored_ok l' \<and> succeeds l l' \<and> l_Version l' = l_Version l"
proof (cases "l' = l")
  case True
  with ok show ?thesis by (simp add: succ.refl)
next
  case False
  with eq obtain ref a b where "partitionFor l req = Inr (ref, a)" and l': "l' = set_Partition ref b l"
    and b: "b = a\<lparr>p_State := PartitionHandoff, p_HandoffTo := p_HandoffTo b, p_HandoffAt := p_HandoffAt b,
      p_HandoffVersion := p_HandoffVersion b, p_Pinned := True\<rparr>"
    by (auto simp: transfer_mutation_def startHandoff_def Let_def split: sum.splits prod.splits if_splits)
  then have find: "Find (Some l) ref = Some a" by (simp add: partitionFor_Find)
  have "leads_on a b" by (subst b) (simp add: leads_on_def)
  moreover have "part_ok b" using stored_part(1) [OF ok find] by (subst b) (simp add: part_ok_def Holders_def)
  moreover have "Holders b = Holders a" by (subst b) (simp add: Holders_def)
  ultimately show ?thesis
    unfolding l' using stored_part(2) [OF ok find] by (intro set_Partition_stored [OF ok find]) simp_all
qed

lemma move_stored:
  assumes ok: "stored_ok l" and eq: "move_mutation req now l = Inr (l', ev)"
  shows "stored_ok l' \<and> succeeds l l' \<and> l_Version l' = l_Version l"
proof -
  from eq obtain ref a where "partitionFor l req = Inr (ref, a)" and new: "\<not> Has a (pq_To req)"
    and mem: "gm_get 0 (l_Members l) (pq_To req) \<noteq> 0"
    and l': "l' = set_Partition ref (a\<lparr>p_Joining := p_Joining a @ [pq_To req], p_Evict :=
      (if ContainsString (p_Evict a) (pq_From req) then p_Evict a else p_Evict a @ [pq_From req]), p_Pinned := True\<rparr>) l"
    by (simp add: move_mutation_def split: sum.split_asm prod.split_asm if_split_asm)
  then have find: "Find (Some l) ref = Some a" by (simp add: partitionFor_Find)
  define ev' where "ev' = (if ContainsString (p_Evict a) (pq_From req) then p_Evict a else p_Evict a @ [pq_From req])"
  let ?b = "a\<lparr>p_Joining := p_Joining a @ [pq_To req], p_Evict := ev', p_Pinned := True\<rparr>"
  have to: "pq_To req \<in> dom (map_of (l_Members l))"
    using mem by (auto simp: gm_get_def split: option.splits)
  with ok have "pq_To req \<noteq> ''''" by (auto simp: stored_ok_def cluster_ok_def)
  with stored_part(1) [OF ok find] new have "part_ok ?b"
    by (auto simp: part_ok_def Holders_def Has_def)
  moreover have "set (Holders ?b) \<subseteq> dom (map_of (l_Members l))"
    using stored_part(2) [OF ok find] to by (auto simp: set_Holders)
  ultimately show ?thesis
    unfolding l' ev'_def [symmetric] by (intro set_Partition_stored [OF ok find]) (simp_all add: leads_on_def)
qed

lemma unpin_stored:
  assumes ok: "stored_ok l" and eq: "unpin_mutation req now l = Inr (l', ev)"
  shows "stored_ok l' \<and> succeeds l l' \<and> l_Version l' = l_Version l"
proof (cases "l' = l")
  case True
  with ok show ?thesis by (simp add: succ.refl)
next
  case False
  with eq obtain ref a where "partitionFor l req = Inr (ref, a)" and l': "l' = set_Partition ref (a\<lparr>p_Pinned := False\<rparr>) l"
    by (auto simp: unpin_mutation_def split: sum.splits if_splits)
  then have find: "Find (Some l) ref = Some a" by (simp add: partitionFor_Find)
  show ?thesis
    unfolding l' using stored_part [OF ok find]
    by (intro set_Partition_stored [OF ok find]) (simp_all add: leads_on_def part_ok_def Holders_def)
qed

lemma layout_change_stored:
  assumes "layout_change l l'" and ok: "stored_ok l"
  shows "stored_ok l' \<and> succeeds l l' \<and> l_Version l' = l_Version l"
  using assms(1)
proof cases
  case (planned cfg nodes drained statuses auto now ev)
  let ?inp = "\<lparr>pi_Config = cfg, pi_Nodes = nodes, pi_Drained = drained, pi_Status = statuses, pi_Now = now, pi_AutoBalance = auto\<rparr>"
  from planned(1) have "plan l ?inp = (l', snd (plan l ?inp))"
    by (simp add: plan_mutation_def Let_def case_prod_beta prod_eq_iff)
  with planned(2,3) show ?thesis by (intro plan_stored [OF ok, of ?inp]) simp_all
next
  case (finished g now ev)
  then have "finish_resharding g l = (l', snd (finish_resharding g l))"
    by (simp add: finish_mutation_def Let_def case_prod_beta prod_eq_iff)
  then show ?thesis by (rule finish_stored [OF ok])
next
  case (marked g i target srcs now ev)
  then obtain ev' where "mark_migrated g i target srcs l = Inr (l', ev')"
    by (simp add: mark_mutation_def split: sum.split_asm prod.split_asm)
  then show ?thesis by (rule mark_stored [OF ok])
next
  case (transferred req now ev)
  then show ?thesis by (rule transfer_stored [OF ok])
next
  case (moved req now ev)
  then show ?thesis by (rule move_stored [OF ok])
next
  case (unpinned req now ev)
  then show ?thesis by (rule unpin_stored [OF ok])
qed

section \<open>Controllers over one store\<close>

definition election_key :: "string \<Rightarrow> bool" where
  "election_key k \<longleftrightarrow> prefix (ElectionPrefix @ ''/'') k"

definition fence_live :: "fence \<Rightarrow> etcd_store \<Rightarrow> bool" where
  "fence_live f st \<longleftrightarrow> create_revision (f_key f) st = f_rev f"

text \<open>What an election hands out: its key with the revision that created it.\<close>

definition fence_ok :: "fence \<Rightarrow> bool" where
  "fence_ok f \<longleftrightarrow> election_key (f_key f) \<and> 0 < f_rev f"

text \<open>
  The steps of the store: a controller commits a change of the stored layout while its election key
  is alive; a controller starts to campaign; an election key goes away (resignation or an expired
  lease); or some other key is written or deleted (nodes, configuration, drained nodes, controllers).
\<close>

inductive store_step :: "etcd_store \<Rightarrow> etcd_store \<Rightarrow> bool" where
  commit: "fence_ok f \<Longrightarrow> fence_live f st \<Longrightarrow> layout_change (next_layout (stored_layout st)) l' \<Longrightarrow>
    store_step st (es_change (ChangePut LayoutKey (VLayout l')) st)"
| campaign: "election_key k \<Longrightarrow> lookup_kv k st = None \<Longrightarrow> store_step st (es_change (ChangePut k v) st)"
| resign: "election_key k \<Longrightarrow> store_step st (es_change (ChangeDelete k) st)"
| put_other: "\<not> election_key k \<Longrightarrow> k \<noteq> LayoutKey \<Longrightarrow> entry_ok k v \<Longrightarrow> store_step st (es_change (ChangePut k v) st)"
| delete_other: "\<not> election_key k \<Longrightarrow> k \<noteq> LayoutKey \<Longrightarrow> store_step st (es_change (ChangeDelete k) st)"

definition store_ok :: "etcd_store \<Rightarrow> bool" where
  "store_ok st \<longleftrightarrow> es_ok st \<and> 0 \<le> es_Revision st \<and> entries_ok st \<and>
     (\<forall>l. stored_layout st = Some l \<longrightarrow> stored_ok l)"

text \<open>How a store may look later: revisions only grow, and the layout is kept or replaced by a successor.\<close>

definition later :: "etcd_store \<Rightarrow> etcd_store \<Rightarrow> bool" where
  "later st st' \<longleftrightarrow> es_Revision st \<le> es_Revision st' \<and>
     (\<forall>k. create_revision k st' \<in> {0, create_revision k st} \<or> es_Revision st < create_revision k st') \<and>
     (lookup_kv LayoutKey st' = lookup_kv LayoutKey st \<or> es_Revision st < mod_revision LayoutKey st') \<and>
     (\<forall>l. stored_layout st = Some l \<longrightarrow>
        (\<exists>l'. stored_layout st' = Some l' \<and> succeeds l l' \<and> (l' = l \<or> l_Version l < l_Version l')))"

lemma later_create:
  "later st st' \<Longrightarrow> create_revision k st' = 0 \<or> create_revision k st' = create_revision k st \<or>
    es_Revision st < create_revision k st'"
  by (auto simp: later_def)

lemma election_key_other: "\<not> election_key LayoutKey" "election_key k \<Longrightarrow> entry_ok k v" "election_key k \<Longrightarrow> k \<noteq> ''''"
  by (auto simp: election_key_def entry_ok_def key_defs prefix_def)

lemma create_revision_change:
  "create_revision k (es_change c st) \<in> {0, create_revision k st} \<or> es_Revision st < create_revision k (es_change c st)"
  by (cases c) (auto simp: create_revision_def lookup_kv_change new_kv_def Let_def simp del: es_change.simps split: option.splits)

lemma stored_layout_change:
  "stored_layout (es_change (ChangePut k v) st) =
     (if k = LayoutKey then (case v of VLayout l \<Rightarrow> Some l | _ \<Rightarrow> None) else stored_layout st)"
  "k \<noteq> LayoutKey \<Longrightarrow> stored_layout (es_change (ChangeDelete k) st) = stored_layout st"
  by (simp_all add: stored_layout_def lookup_kv_change del: es_change.simps)

interpretation lt: evolution later
proof
  show "later st st" for st by (simp add: later_def succ.refl)
  fix a b c assume ab: "later a b" and bc: "later b c"
  have rev: "es_Revision a \<le> es_Revision b" "es_Revision b \<le> es_Revision c" using ab bc by (simp_all add: later_def)
  have create: "create_revision k c \<in> {0, create_revision k a} \<or> es_Revision a < create_revision k c" for k
  proof -
    from bc have "create_revision k c \<in> {0, create_revision k b} \<or> es_Revision b < create_revision k c"
      by (simp add: later_def)
    moreover from ab have "create_revision k b \<in> {0, create_revision k a} \<or> es_Revision a < create_revision k b"
      by (simp add: later_def)
    ultimately show ?thesis using rev by auto
  qed
  have kv: "lookup_kv LayoutKey c = lookup_kv LayoutKey a \<or> es_Revision a < mod_revision LayoutKey c"
    using ab bc rev by (auto simp: later_def mod_revision_def)
  have "\<exists>l'. stored_layout c = Some l' \<and> succeeds l l' \<and> (l' = l \<or> l_Version l < l_Version l')"
    if "stored_layout a = Some l" for l
  proof -
    from ab that obtain m where m: "stored_layout b = Some m" "succeeds l m" "m = l \<or> l_Version l < l_Version m"
      by (auto simp: later_def)
    with bc obtain l' where "stored_layout c = Some l'" "succeeds m l'" "l' = m \<or> l_Version m < l_Version l'"
      by (auto simp: later_def)
    with m show ?thesis by (auto intro: succ.trans)
  qed
  with rev create kv show "later a c" by (simp add: later_def)
qed

lemma table_version [simp]: "table (l\<lparr>l_Version := n\<rparr>) = table l"
  by (simp add: fun_eq_iff table_def cong: option.case_cong)

lemma seat_version [simp]: "seat (l\<lparr>l_Version := n\<rparr>) = seat l" "seat l (l'\<lparr>l_Version := n\<rparr>) = seat l l'"
  by (simp_all add: fun_eq_iff seat_def)

lemma succeeds_version [simp]: "succeeds l (l\<lparr>l_Version := n\<rparr>)" "succeeds (l\<lparr>l_Version := n\<rparr>) l' = succeeds l l'"
  by (simp_all add: succeeds_def list_seat_same)

lemma stored_ok_version [simp]: "stored_ok (l\<lparr>l_Version := n\<rparr>) = stored_ok l"
  by (simp add: stored_ok_def cluster_ok_def parts_of_eq layout_ok_def uninitialised_def cong: option.case_cong)

lemma empty_layout_stored: "stored_ok empty_layout"
  by (simp add: stored_ok_def empty_layout_def cluster_ok_def parts_of_eq uninitialised_def)

lemma next_layout_stored: "store_ok st \<Longrightarrow> stored_ok (next_layout (stored_layout st))"
  by (cases "stored_layout st")
    (auto simp: store_ok_def next_layout_def empty_layout_stored)

lemma store_step_inv:
  assumes "store_step st st'" and ok: "store_ok st"
  shows "store_ok st' \<and> later st st'"
proof -
  have es: "es_ok (es_change c st)" "0 \<le> es_Revision (es_change c st)" for c
    using ok es_ok_change es_change_revision [of st c] by (auto simp: store_ok_def)
  have entries: "change_ok c \<Longrightarrow> entries_ok (es_change c st)" for c
    using ok by (simp add: store_ok_def entries_ok_change)
  have other: "store_ok (es_change c st) \<and> later st (es_change c st)"
    if "change_ok c" "lookup_kv LayoutKey (es_change c st) = lookup_kv LayoutKey st" for c
  proof -
    have "stored_layout (es_change c st) = stored_layout st" using that(2) by (simp add: stored_layout_def)
    with es entries that ok create_revision_change es_change_revision show ?thesis
      by (auto simp: store_ok_def later_def succ.refl)
  qed
  show ?thesis
    using assms(1)
  proof cases
    case (commit f l')
    note ch = layout_change_stored [OF commit(4) next_layout_stored [OF ok]]
    have "succeeds l l' \<and> l_Version l < l_Version l'" if "stored_layout st = Some l" for l
      using ch that by (simp add: next_layout_def)
    moreover have "entry_ok LayoutKey (VLayout l')" by (simp add: entry_ok_def key_defs prefix_def)
    ultimately show ?thesis
      unfolding commit(1)
      using ch es entries [of "ChangePut LayoutKey (VLayout l')"] create_revision_change [of _ "ChangePut LayoutKey (VLayout l')" st]
        es_change_revision [of st "ChangePut LayoutKey (VLayout l')"]
      by (simp add: store_ok_def later_def stored_layout_change mod_revision_def lookup_kv_change del: es_change.simps)
  qed (use election_key_other in \<open>auto intro!: other simp: lookup_kv_change simp del: es_change.simps\<close>)
qed

lemma store_steps_inv:
  assumes "store_step\<^sup>*\<^sup>* st st'" and "store_ok st"
  shows "store_ok st' \<and> later st st'"
  using assms
proof (induction rule: rtranclp_induct)
  case (step b c)
  then show ?case using store_step_inv [of b c] by (auto intro: lt.trans)
qed (simp add: lt.refl)

section \<open>One leader per epoch, for ever\<close>

text \<open>
  C2. What etcd holds stays correct whatever any number of controllers do. Start from a good store and
  let controllers commit changes of the layout (planning rounds, resharding, the panel), campaign and
  lose office, and let nodes and operators write their keys, in any order. The layout that is then
  stored is well formed: distinct live holders in every partition, and a table that fits its
  counts (or none yet). Its version is larger than the old one unless it is the old layout. And for
  every partition that both layouts have, the epoch has not gone down, and within one epoch no second
  node was ever made leader.
\<close>

theorem stored_layouts_safe:
  assumes "store_ok st" and "store_step\<^sup>*\<^sup>* st st'" and "stored_layout st = Some l"
  shows "\<exists>l'. stored_layout st' = Some l' \<and> cluster_ok l' \<and> (layout_ok l' \<or> uninitialised l') \<and>
    (l' = l \<or> l_Version l < l_Version l') \<and>
    (\<forall>ref a b. Find (Some l) ref = Some a \<and> Find (Some l') ref = Some b \<longrightarrow>
      p_Epoch a \<le> p_Epoch b \<and> (p_Epoch b = p_Epoch a \<longrightarrow> p_Leader b = p_Leader a \<or> p_Leader b = ''''))"
proof -
  from store_steps_inv [OF assms(2,1)] assms(3) obtain l' where l': "stored_layout st' = Some l'"
    "succeeds l l'" "l' = l \<or> l_Version l < l_Version l'" and ok': "stored_ok l'"
    by (auto simp: later_def store_ok_def)
  from assms(1,3) have "stored_ok l" by (simp add: store_ok_def)
  then have "leads_on a b" if "Find (Some l) ref = Some a" "Find (Some l') ref = Some b" for ref a b
    using succeeds_leader [OF l'(2) _ ok' that] by (simp add: seat_def)
  with l' ok' show ?thesis by (auto simp: stored_ok_def leads_on_def)
qed

section \<open>Election\<close>

text \<open>The campaign a controller has won: its key is the oldest of the election keys.\<close>

definition elected :: "fence \<Rightarrow> etcd_store \<Rightarrow> bool" where
  "elected f st \<longleftrightarrow> fence_ok f \<and> fence_live f st \<and>
     (\<forall>kv \<in> set (es_KVs st). election_key (kv_Key kv) \<and> kv_Key kv \<noteq> f_key f \<longrightarrow> f_rev f < kv_CreateRevision kv)"

lemma live_revision:
  assumes "store_ok st" and "fence_ok f" and "fence_live f st"
  obtains kv where "lookup_kv (f_key f) st = Some kv" and "kv_CreateRevision kv = f_rev f"
    and "f_rev f \<le> es_Revision st"
  using assms lookup_kv_revisions [of st "f_key f"]
  by (auto simp: fence_live_def fence_ok_def create_revision_def store_ok_def split: option.splits)

lemma dead_stays_dead:
  assumes "store_ok st" and "store_step\<^sup>*\<^sup>* st st'" and "fence_ok f" and "f_rev f \<le> es_Revision st"
    and "\<not> fence_live f st"
  shows "\<not> fence_live f st'"
  using store_steps_inv [OF assms(2,1)] later_create [of st st' "f_key f"] assms(3-5)
  by (auto simp: fence_live_def fence_ok_def)

lemma elected_stays_oldest:
  assumes ok: "store_ok st" and steps: "store_step\<^sup>*\<^sup>* st st'" and f: "elected f st"
    and kv: "kv \<in> set (es_KVs st')" "election_key (kv_Key kv)" "kv_Key kv \<noteq> f_key f"
  shows "f_rev f < kv_CreateRevision kv"
proof -
  let ?k = "kv_Key kv"
  from store_steps_inv [OF steps ok] have ok': "store_ok st'" and lt: "later st st'" by simp_all
  have look: "lookup_kv ?k st' = Some kv" using ok' kv(1) by (simp add: store_ok_def lookup_kv_in)
  then have cr: "create_revision ?k st' = kv_CreateRevision kv" and pos: "0 < kv_CreateRevision kv"
    using ok' lookup_kv_revisions(1) [of st' ?k kv] by (simp_all add: create_revision_def store_ok_def)
  have fr: "f_rev f \<le> es_Revision st" using live_revision [OF ok, of f] f by (auto simp: elected_def)
  from lt consider "create_revision ?k st' = create_revision ?k st" | "es_Revision st < create_revision ?k st'"
    using cr pos later_create [of st st' ?k] by auto
  then show ?thesis
  proof cases
    case 1
    with cr pos obtain kv0 where kv0: "lookup_kv ?k st = Some kv0" "kv_CreateRevision kv0 = kv_CreateRevision kv"
      by (auto simp: create_revision_def split: option.splits)
    with f kv(2,3) lookup_kv_Some [OF kv0(1)] show ?thesis by (fastforce simp: elected_def)
  qed (use fr cr in simp)
qed

text \<open>Once another controller is elected, the fence of the first never matches again.\<close>

lemma deposed_fence_dead:
  assumes "store_ok st" and "elected f st" and "store_step\<^sup>*\<^sup>* st st'" and "elected g st'" and "g \<noteq> f"
    and "store_step\<^sup>*\<^sup>* st' st''"
  shows "f_rev f < f_rev g \<and> \<not> fence_live f st''"
proof -
  from store_steps_inv [OF assms(3,1)] have ok': "store_ok st'" and lt: "later st st'" by simp_all
  from assms(2,4) have fo: "fence_ok f" "fence_live f st" and go: "fence_ok g" "fence_live g st'"
    by (simp_all add: elected_def)
  obtain kv where kv: "lookup_kv (f_key f) st = Some kv" "f_rev f \<le> es_Revision st"
    using assms(1) fo by (rule live_revision)
  obtain kg where kg: "lookup_kv (f_key g) st' = Some kg" "kv_CreateRevision kg = f_rev g"
    using ok' go by (rule live_revision)
  note kg' = lookup_kv_Some [OF kg(1)]
  have key: "f_key g \<noteq> f_key f \<Longrightarrow> f_rev f < f_rev g"
    using elected_stays_oldest [OF assms(1,3,2), of kg] kg kg' go(1) by (simp add: fence_ok_def)
  have dead: "\<not> fence_live f st'"
  proof
    assume live: "fence_live f st'"
    then obtain kf where kf: "lookup_kv (f_key f) st' = Some kf" "kv_CreateRevision kf = f_rev f"
      by (rule live_revision [OF ok' fo(1)])
    show False
    proof (cases "f_key g = f_key f")
      case True
      with kf kg have "f_rev g = f_rev f" by simp
      with True assms(5) show False by simp
    next
      case False
      with lookup_kv_Some [OF kf(1)] assms(4) kf(2) fo(1) have "f_rev g < f_rev f"
        by (force simp: elected_def fence_ok_def)
      with key [OF False] show False by simp
    qed
  qed
  moreover have "f_rev f < f_rev g"
  proof (cases "f_key g = f_key f")
    case True
    with go dead have "create_revision (f_key f) st' = f_rev g" "f_rev g \<noteq> f_rev f" "0 < f_rev g"
      by (auto simp: fence_live_def fence_ok_def)
    with later_create [OF lt, of "f_key f"] kv fo show ?thesis by (auto simp: fence_live_def)
  qed (rule key)
  ultimately show ?thesis
    using dead_stays_dead [OF ok' assms(6) fo(1)] kv(2) lt by (auto simp: later_def)
qed

section \<open>Concrete histories\<close>

definition example_fence :: fence where
  "example_fence = \<lparr>f_key = ''/slicedb/controller-election/7a'', f_rev = 4\<rparr>"

definition example_successor :: fence where
  "example_successor = \<lparr>f_key = ''/slicedb/controller-election/7b'', f_rev = 11\<rparr>"

definition example_transfer :: partitionRequest where
  "example_transfer = \<lparr>pq_Generation = 0, pq_Partition = 0, pq_Node = ''node2'', pq_From = '''', pq_To = ''''\<rparr>"

text \<open>The layout after the panel asked for a handoff to \<open>node2\<close>, and the store with it.\<close>

definition example_handing_off :: Layout where
  "example_handing_off = fst (projr (transfer_mutation example_transfer 1000 (next_layout (Some example_layout))))"

definition example_after :: etcd_store where
  "example_after = es_change (ChangePut LayoutKey (VLayout example_handing_off)) example_store"

lemma example_store_layout: "stored_layout example_store = Some example_layout"
  by (simp add: stored_layout_def lookup_kv_def example_store_def key_defs)

lemma example_store_good: "store_ok example_store"
proof -
  have "stored_ok example_layout"
    using example_layout_ok example_cluster_ok(1) by (auto simp: stored_ok_def example_layout_def parts_of_eq example_partition_def)
  with example_store_ok example_store_layout show ?thesis
    by (simp add: store_ok_def) (simp add: example_store_def)
qed

lemma example_fence_live: "fence_ok example_fence" "fence_live example_fence example_store"
  by (simp_all add: fence_ok_def fence_live_def example_fence_def election_key_def create_revision_def lookup_kv_def
      example_store_def key_defs prefix_def)

lemma example_transfer_result:
  "\<exists>ev. transfer_mutation example_transfer now (next_layout (Some example_layout)) = Inr (l, ev) \<Longrightarrow>
    layout_change (next_layout (Some example_layout)) l"
  by (auto intro: layout_change.transferred)

lemma example_handing_off_change: "layout_change (next_layout (stored_layout example_store)) example_handing_off"
  unfolding example_store_layout
  by (rule example_transfer_result [of 1000])
    (simp add: example_handing_off_def transfer_mutation_def partitionFor_def example_transfer_def next_layout_def
      example_layout_def example_partition_def Find_def Let_def case_prod_beta)

lemma example_commit: "store_step\<^sup>*\<^sup>* example_store example_after"
  unfolding example_after_def
  by (rule r_into_rtranclp, rule store_step.commit [OF example_fence_live example_handing_off_change])

theorem stored_layouts_safe_witness:
  "\<exists>l'. stored_layout example_after = Some l' \<and> cluster_ok l' \<and> 7 < l_Version l' \<and>
    (\<exists>b. Find (Some l') (PartitionRef 1 0) = Some b \<and> p_State b = PartitionHandoff \<and> p_Leader b = ''node1'')"
proof -
  from stored_layouts_safe [OF example_store_good example_commit example_store_layout]
  have "\<exists>l'. stored_layout example_after = Some l' \<and> cluster_ok l' \<and> (l' = example_layout \<or> l_Version example_layout < l_Version l')"
    by blast
  moreover have l': "stored_layout example_after = Some example_handing_off"
    by (simp add: example_after_def stored_layout_change del: es_change.simps)
  moreover have "l_Version example_handing_off = 8"
    "\<exists>b. Find (Some example_handing_off) (PartitionRef 1 0) = Some b \<and> p_State b = PartitionHandoff \<and> p_Leader b = ''node1''"
    by (simp_all add: example_handing_off_def transfer_mutation_def partitionFor_def example_transfer_def next_layout_def
      example_layout_def example_partition_def Find_def Let_def case_prod_beta set_Partition_def)
  ultimately show ?thesis by auto
qed

text \<open>The leader's key expires and another controller campaigns and wins.\<close>

definition example_expired :: etcd_store where
  "example_expired = es_change (ChangeDelete ''/slicedb/controller-election/7a'') example_store"

definition example_won :: etcd_store where
  "example_won = es_change (ChangePut ''/slicedb/controller-election/7b'' (VText ''c2:8080'')) example_expired"

lemma example_election: "store_step\<^sup>*\<^sup>* example_store example_won"
proof (rule rtranclp.rtrancl_into_rtrancl [OF r_into_rtranclp])
  show "store_step example_store example_expired"
    unfolding example_expired_def
    by (rule store_step.resign) (simp add: election_key_def key_defs prefix_def)
  show "store_step example_expired example_won"
    unfolding example_won_def
    by (rule store_step.campaign)
      (simp_all add: election_key_def key_defs prefix_def example_expired_def example_store_def lookup_kv_def)
qed

lemmas example_election_defs = example_won_def example_expired_def example_store_def example_fence_def
  example_successor_def elected_def fence_ok_def fence_live_def election_key_def create_revision_def lookup_kv_def
  new_kv_def key_defs prefix_def

lemma example_elected: "elected example_fence example_store" "elected example_successor example_won"
  "example_successor \<noteq> example_fence"
  by (simp_all add: example_election_defs Let_def)

end
