(* ===== verification/ControlUpdate.thy ===== *)
theory ControlUpdate
  imports ControlSafety
begin

text \<open>
  \<open>updateLayout\<close> over an etcd client that keeps its contract, while other clients run: what each
  of its results says about the store. \<open>env\<close> is what the others do, any part of \<open>store_step\<close>.
\<close>

section \<open>Reading and writing the layout\<close>

lemma env_steps: "env\<^sup>*\<^sup>* a b \<Longrightarrow> env \<le> store_step \<Longrightarrow> store_step\<^sup>*\<^sup>* a b"
  by (metis rtranclp_mono predicate2D)

lemma GetLayout_sees:
  assumes "etcd_ok ec view env" and "GetLayout ec s = (r, s')"
  obtains st where "env\<^sup>*\<^sup>* (view s) st" and "env\<^sup>*\<^sup>* st (view s')"
    and "\<And>current rev. r = Inr (current, rev) \<Longrightarrow> current = stored_layout st \<and> rev = mod_revision LayoutKey st"
proof -
  obtain g s1 where g: "ec_Get ec GetKey LayoutKey s = (g, s1)" by fastforce
  obtain st where st: "env\<^sup>*\<^sup>* (view s) st" "env\<^sup>*\<^sup>* st (view s1)"
    "\<forall>kvs. g = Inr kvs \<longrightarrow> kvs = get_range GetKey LayoutKey st"
    by (rule etcd_ok_Get [OF assms(1) g]) blast
  have s1: "s1 = s'" using assms(2) g
    by (auto simp: GetLayout_def split: sum.splits list.splits etcd_value.splits)
  have "current = stored_layout st \<and> rev = mod_revision LayoutKey st" if "r = Inr (current, rev)" for current rev
    using assms(2) g that st(3) lookup_get_range [of LayoutKey st]
    by (auto simp: GetLayout_def stored_layout_def mod_revision_def split: sum.splits list.splits etcd_value.splits)
  with st s1 show ?thesis by (intro that) auto
qed

lemma PutLayout_effect:
  assumes "etcd_ok ec view env" and "PutLayout ec l prev fk fr s = (r, s')" and "fk \<noteq> ''''"
  obtains (wrote) st where "r = Inr () \<or> (\<exists>e. r = Inl (EtcdError e))" and "env\<^sup>*\<^sup>* (view s) st"
      and "mod_revision LayoutKey st = prev" and "create_revision fk st = fr"
      and "env\<^sup>*\<^sup>* (es_change (ChangePut LayoutKey (VLayout l)) st) (view s')"
    | (kept) e where "r = Inl e" and "env\<^sup>*\<^sup>* (view s) (view s')"
proof -
  let ?cmps = "[ModRevisionIs LayoutKey prev, CreateRevisionIs fk fr]"
  obtain t s1 where t: "ec_Txn ec ?cmps LayoutKey (VLayout l) s = (t, s1)" by fastforce
  have s1: "s1 = s'" and r: "r = (case t of Inl e \<Rightarrow> Inl (EtcdError e) | Inr b \<Rightarrow> if b then Inr () else Inl ErrConflict)"
    using assms(2,3) t by (auto simp: PutLayout_def split: sum.splits if_splits)
  show ?thesis
    using assms(1) t
  proof (cases rule: etcd_ok_Txn)
    case (wrote st)
    then have "r = Inr () \<or> (\<exists>e. r = Inl (EtcdError e))" by (cases t) (auto simp: r)
    with wrote s1 show ?thesis by (intro that(1) [of st]) auto
  next
    case kept
    then have "\<exists>e. r = Inl e" by (cases t) (auto simp: r)
    with kept s1 show ?thesis by (auto intro: that(2))
  qed
qed

text \<open>The compare-and-swap: an unchanged modification revision means an unchanged layout.\<close>

lemma same_revision_same_layout:
  assumes "store_ok st" and "store_step\<^sup>*\<^sup>* st st'" and "mod_revision LayoutKey st' = mod_revision LayoutKey st"
  shows "stored_layout st' = stored_layout st"
proof -
  have "mod_revision LayoutKey st \<le> es_Revision st"
    using assms(1) lookup_kv_revisions(3) [of st LayoutKey]
    by (auto simp: mod_revision_def store_ok_def split: option.splits)
  with store_steps_inv [OF assms(2,1)] assms(3) show ?thesis
    by (auto simp: later_def stored_layout_def)
qed

text \<open>
  C13. A deposed controller can never write again. If a controller was elected at some moment and at a
  later one the elected controller is another, then the term of the first is older, and every
  \<open>PutLayout\<close> it sends from then on, whatever layout and revision it carries and whatever the
  others do meanwhile, is refused and writes nothing.
\<close>

theorem deposed_never_writes:
  assumes "etcd_ok ec view env" and "env \<le> store_step" and "store_ok st" and "elected f st"
    and "store_step\<^sup>*\<^sup>* st st'" and "elected g st'" and "g \<noteq> f" and "store_step\<^sup>*\<^sup>* st' (view s)"
    and "PutLayout ec l prev (f_key f) (f_rev f) s = (r, s')"
  shows "f_rev f < f_rev g \<and> r \<noteq> Inr () \<and> env\<^sup>*\<^sup>* (view s) (view s')"
proof -
  from assms(4) have fo: "fence_ok f" by (simp add: elected_def)
  then have fk: "f_key f \<noteq> ''''" using election_key_other(3) by (auto simp: fence_ok_def)
  have older: "f_rev f < f_rev g" and dead: "\<not> fence_live f b" if "env\<^sup>*\<^sup>* (view s) b" for b
    using deposed_fence_dead [OF assms(3-7)] assms(8) env_steps [OF that assms(2)] by (meson rtranclp_trans)+
  from assms(1,9) fk show ?thesis
  proof (cases rule: PutLayout_effect)
    case (wrote b)
    with dead show ?thesis by (simp add: fence_live_def)
  next
    case (kept e)
    with older show ?thesis by auto
  qed
qed

section \<open>The update\<close>

definition changes_by :: "('e, 'm) mutation \<Rightarrow> bool" where
  "changes_by mutate \<longleftrightarrow> (\<forall>now l l' ev. mutate now l = Inr (l', ev) \<longrightarrow> layout_change l l')"

text \<open>
  The two ways to succeed: one fenced write of the change applied to the layout stored at that very
  moment, or a moment at which the change had nothing to do.
\<close>

definition committed ::
  "'s world \<Rightarrow> ('e, 'm) mutation \<Rightarrow> (etcd_store \<Rightarrow> etcd_store \<Rightarrow> bool) \<Rightarrow> 'm list \<Rightarrow> etcd_store \<Rightarrow> etcd_store \<Rightarrow> bool"
  where
  "committed w mutate env events a b \<longleftrightarrow>
     (\<exists>st f now l' s. env\<^sup>*\<^sup>* a st \<and> w_fence w s = Some f \<and> fence_live f st \<and>
        mutate now (next_layout (stored_layout st)) = Inr (l', events) \<and>
        env\<^sup>*\<^sup>* (es_change (ChangePut LayoutKey (VLayout l')) st) b)"

definition nothing_to_do ::
  "('e, 'm) mutation \<Rightarrow> (etcd_store \<Rightarrow> etcd_store \<Rightarrow> bool) \<Rightarrow> 'm list \<Rightarrow> etcd_store \<Rightarrow> etcd_store \<Rightarrow> bool" where
  "nothing_to_do mutate env events a b \<longleftrightarrow>
     (\<exists>st now l l'. env\<^sup>*\<^sup>* a st \<and> stored_layout st = Some l \<and> mutate now (next_layout (Some l)) = Inr (l', events) \<and>
        sameLayout l l' \<and> env\<^sup>*\<^sup>* st b)"

lemma committed_before: "env\<^sup>*\<^sup>* a b \<Longrightarrow> committed w mutate env ev b c \<Longrightarrow> committed w mutate env ev a c"
  unfolding committed_def by (meson rtranclp_trans)

lemma nothing_before: "env\<^sup>*\<^sup>* a b \<Longrightarrow> nothing_to_do mutate env ev b c \<Longrightarrow> nothing_to_do mutate env ev a c"
  unfolding nothing_to_do_def by (meson rtranclp_trans)

text \<open>What a result means: after an unanswered request alone it is open whether the write happened.\<close>

fun update_outcome ::
  "'s world \<Rightarrow> ('e, 'm) mutation \<Rightarrow> (etcd_store \<Rightarrow> etcd_store \<Rightarrow> bool) \<Rightarrow> 'e update_error + 'm list \<Rightarrow>
   etcd_store \<Rightarrow> etcd_store \<Rightarrow> bool" where
  "update_outcome w mutate env (Inr events) a b \<longleftrightarrow> committed w mutate env events a b \<or> nothing_to_do mutate env events a b"
| "update_outcome w mutate env (Inl e) a b \<longleftrightarrow> env\<^sup>*\<^sup>* a b \<or>
     (\<exists>t. e = RegistryError (EtcdError t)) \<and> (\<exists>events. committed w mutate env events a b)"

lemma update_outcome_before:
  "env\<^sup>*\<^sup>* a b \<Longrightarrow> update_outcome w mutate env res b c \<Longrightarrow> update_outcome w mutate env res a c"
  by (cases res) (auto intro: committed_before nothing_before rtranclp_trans)

text \<open>The write of one attempt, after a read at \<open>st\<close>.\<close>

lemma put_outcome:
  assumes etcd: "etcd_ok (w_etcd w) view env" and env: "env \<le> store_step" and st: "store_ok st"
    and read: "env\<^sup>*\<^sup>* a st" "env\<^sup>*\<^sup>* st (view s)"
    and fence: "w_fence w s0 = Some f" "fence_ok f"
    and m: "mutate now (next_layout (stored_layout st)) = Inr (l', events)"
    and q: "PutLayout (w_etcd w) l' (mod_revision LayoutKey st) (f_key f) (f_rev f) s = (q, s')"
  shows "(q = Inr () \<or> (\<exists>t. q = Inl (EtcdError t))) \<and> committed w mutate env events a (view s') \<or>
    (\<exists>e. q = Inl e) \<and> env\<^sup>*\<^sup>* a (view s')"
proof -
  have "f_key f \<noteq> ''''" using fence(2) election_key_other(3) by (auto simp: fence_ok_def)
  with etcd q show ?thesis
  proof (cases rule: PutLayout_effect)
    case (wrote st2)
    have st2: "env\<^sup>*\<^sup>* st st2" using read(2) wrote(2) by (rule rtranclp_trans)
    then have "stored_layout st2 = stored_layout st"
      using env_steps [OF _ env] same_revision_same_layout [OF st _ wrote(3)] by blast
    moreover have "env\<^sup>*\<^sup>* a st2" using read(1) st2 by (rule rtranclp_trans)
    ultimately have "committed w mutate env events a (view s')"
      using wrote(4,5) m fence(1) unfolding committed_def fence_live_def by metis
    with wrote(1) show ?thesis by blast
  next
    case (kept e)
    have "env\<^sup>*\<^sup>* a (view s')" by (rule rtranclp_trans [OF rtranclp_trans [OF read] kept(2)])
    with kept(1) show ?thesis by blast
  qed
qed

lemma update_attempts_outcome:
  fixes view :: "'s \<Rightarrow> etcd_store"
  assumes etcd: "etcd_ok (w_etcd w) view env" and env: "env \<le> store_step"
    and fences: "\<And>s f. w_fence w s = Some f \<Longrightarrow> fence_ok f"
  shows "store_ok (view s) \<Longrightarrow> update_attempts w mutate n s = (res, s') \<Longrightarrow>
    update_outcome w mutate env res (view s) (view s')"
proof (induction n arbitrary: s)
  case (Suc n)
  show ?case
  proof (cases "w_fence w s")
    case (Some f)
    obtain r s1 where r: "GetLayout (w_etcd w) s = (r, s1)" by fastforce
    obtain st where st: "env\<^sup>*\<^sup>* (view s) st" "env\<^sup>*\<^sup>* st (view s1)"
      "\<forall>current rev. r = Inr (current, rev) \<longrightarrow> current = stored_layout st \<and> rev = mod_revision LayoutKey st"
      by (rule GetLayout_sees [OF etcd r]) blast
    have s1: "env\<^sup>*\<^sup>* (view s) (view s1)" using st(1,2) by (rule rtranclp_trans)
    have okst: "store_ok st" using store_steps_inv [OF env_steps [OF st(1) env] Suc.prems(1)] by simp
    let ?m = "mutate (w_now w s1) (next_layout (stored_layout st))"
    consider (failed) e where "r = Inl e"
      | (refused) e where "r = Inr (stored_layout st, mod_revision LayoutKey st)" "?m = Inl e"
      | (changed) l' events where "r = Inr (stored_layout st, mod_revision LayoutKey st)" "?m = Inr (l', events)"
    proof (cases r)
      case (Inr cr)
      with st(3) have "r = Inr (stored_layout st, mod_revision LayoutKey st)" by (cases cr) simp
      then show ?thesis using refused changed by (cases ?m) (auto simp: split_paired_all)
    qed (rule failed)
    then show ?thesis
    proof cases
      case (changed l' events)
      show ?thesis
      proof (cases "case stored_layout st of None \<Rightarrow> False | Some l \<Rightarrow> sameLayout l l'")
        case True
        then obtain l where "stored_layout st = Some l" "sameLayout l l'" by (auto split: option.splits)
        with changed st have "nothing_to_do mutate env events (view s) (view s1)"
          unfolding nothing_to_do_def by metis
        with True Suc.prems Some r changed show ?thesis by auto
      next
        case False
        obtain q s2 where q: "PutLayout (w_etcd w) l' (mod_revision LayoutKey st) (f_key f) (f_rev f) s1 = (q, s2)"
          by fastforce
        note put = put_outcome [where w = w and view = view and mutate = mutate and now = "w_now w s1", OF etcd env okst st(1,2) Some fences [OF Some] changed(2) q]
        have res: "(res, s') = (case q of Inl ErrConflict \<Rightarrow> update_attempts w mutate n s2
            | Inl e \<Rightarrow> (Inl (RegistryError e), s2) | Inr _ \<Rightarrow> (Inr events, s2))"
          using Suc.prems(2) Some r changed False q by (simp split: sum.splits reg_error.splits)
        show ?thesis
        proof (cases "q = Inl ErrConflict")
          case True
          with put have s2: "env\<^sup>*\<^sup>* (view s) (view s2)" by auto
          from True res have "update_attempts w mutate n s2 = (res, s')" by simp
          with Suc.IH [of s2] store_steps_inv [OF env_steps [OF s2 env] Suc.prems(1)]
          have "update_outcome w mutate env res (view s2) (view s')" by blast
          with s2 show ?thesis by (rule update_outcome_before)
        next
          case False
          with res put show ?thesis by (auto split: sum.splits reg_error.splits)
        qed
      qed
    qed (use Suc.prems Some r s1 in auto)
  qed (use Suc.prems in auto)
qed auto

section \<open>The operations of a controller\<close>

text \<open>
  What a controller may rely on: the contract of etcd with other clients that take store steps,
  fences that come from elections, nodes with names (\<open>cmd/node\<close> refuses an empty id), and
  requests to nodes or other controllers that change the store by store steps only.
\<close>

definition world_ok :: "'s world \<Rightarrow> ('s \<Rightarrow> etcd_store) \<Rightarrow> (etcd_store \<Rightarrow> etcd_store \<Rightarrow> bool) \<Rightarrow> bool" where
  "world_ok w view env \<longleftrightarrow> etcd_ok (w_etcd w) view env \<and> env \<le> store_step \<and>
     (\<forall>s f. w_fence w s = Some f \<longrightarrow> fence_ok f) \<and> (\<forall>s. '''' \<notin> dom (map_of (w_nodes w s))) \<and>
     (\<forall>addr s. env\<^sup>*\<^sup>* (view s) (view (snd (w_status w addr s)))) \<and>
     (\<forall>addr req s. env\<^sup>*\<^sup>* (view s) (view (snd (w_pull w addr req s)))) \<and>
     (\<forall>addr req s. env\<^sup>*\<^sup>* (view s) (view (snd (w_proxy w addr req s)))) \<and>
     (\<forall>s. env\<^sup>*\<^sup>* (view s) (view (w_wait w s)))"

lemma world_okD:
  assumes "world_ok w view env"
  shows "etcd_ok (w_etcd w) view env" and "env \<le> store_step" and "w_fence w s = Some f \<Longrightarrow> fence_ok f"
    and "'''' \<notin> dom (map_of (w_nodes w s))"
    and "store_step\<^sup>*\<^sup>* (view s) (view (snd (w_status w addr s)))"
    and "store_step\<^sup>*\<^sup>* (view s) (view (snd (w_pull w addr req s)))"
    and "store_step\<^sup>*\<^sup>* (view s) (view (snd (w_proxy w addr req' s)))"
    and "store_step\<^sup>*\<^sup>* (view s) (view (w_wait w s))"
proof -
  from assms have le: "env \<le> store_step" by (simp add: world_ok_def)
  have steps: "env\<^sup>*\<^sup>* a b \<Longrightarrow> store_step\<^sup>*\<^sup>* a b" for a b by (rule env_steps [OF _ le])
  show "store_step\<^sup>*\<^sup>* (view s) (view (snd (w_status w addr s)))"
    "store_step\<^sup>*\<^sup>* (view s) (view (snd (w_pull w addr req s)))"
    "store_step\<^sup>*\<^sup>* (view s) (view (snd (w_proxy w addr req' s)))"
    "store_step\<^sup>*\<^sup>* (view s) (view (w_wait w s))"
    using assms by (auto simp: world_ok_def intro!: steps)
qed (use assms in \<open>simp_all add: world_ok_def\<close>)

lemma committed_steps:
  assumes "committed w mutate env events a b" and "env \<le> store_step" and "\<And>s f. w_fence w s = Some f \<Longrightarrow> fence_ok f"
    and "changes_by mutate"
  shows "store_step\<^sup>*\<^sup>* a b"
proof -
  from assms(1) obtain st f now l' s where c: "env\<^sup>*\<^sup>* a st" "w_fence w s = Some f" "fence_live f st"
    "mutate now (next_layout (stored_layout st)) = Inr (l', events)"
    "env\<^sup>*\<^sup>* (es_change (ChangePut LayoutKey (VLayout l')) st) b"
    by (auto simp: committed_def)
  have "layout_change (next_layout (stored_layout st)) l'" using assms(4) c(4) unfolding changes_by_def by blast
  with assms(3) [OF c(2)] c(3) have "store_step st (es_change (ChangePut LayoutKey (VLayout l')) st)"
    by (rule store_step.commit)
  with env_steps [OF c(1) assms(2)] env_steps [OF c(5) assms(2)] show ?thesis
    by (meson converse_rtranclp_into_rtranclp rtranclp_trans)
qed

lemma update_outcome_steps:
  assumes "update_outcome w mutate env res a b" and "env \<le> store_step"
    and "\<And>s f. w_fence w s = Some f \<Longrightarrow> fence_ok f" and "changes_by mutate"
  shows "store_step\<^sup>*\<^sup>* a b"
proof -
  have cm: "committed w mutate env ev a b \<Longrightarrow> store_step\<^sup>*\<^sup>* a b" for ev
    using committed_steps assms(2-4) by blast
  have nt: "nothing_to_do mutate env ev a b \<Longrightarrow> store_step\<^sup>*\<^sup>* a b" for ev
    using env_steps [OF _ assms(2)] unfolding nothing_to_do_def by (meson rtranclp_trans)
  from assms(1) show ?thesis
    using cm nt env_steps [OF _ assms(2)] by (cases res) auto
qed

lemma updateLayout_spec:
  assumes "world_ok w view env" and "changes_by mutate" and "store_ok (view s)"
    and "updateLayout w mutate s = (res, s')"
  shows "update_outcome w mutate env res (view s) (view s')" and "store_step\<^sup>*\<^sup>* (view s) (view s')"
proof -
  note w = world_okD [OF assms(1)]
  show "update_outcome w mutate env res (view s) (view s')"
    using assms(3,4) by (intro update_attempts_outcome [OF w(1,2,3)]) (auto simp: updateLayout_def)
  then show "store_step\<^sup>*\<^sup>* (view s) (view s')"
    by (rule update_outcome_steps [OF _ w(2) _ assms(2)]) (rule w(3))
qed

text \<open>
  C4. A layout update is atomic and fenced. Run \<open>updateLayout\<close> against etcd while other controllers,
  nodes and operators change the store between any two of its requests. If it reports success, then
  either it wrote exactly once, at a moment when its election key was alive, the change applied to the
  layout stored at that very moment with the next version (so no concurrent update is lost), or there
  was a moment at which the change had nothing to do. If it reports an error, it wrote nothing, except
  after a request that etcd did not answer, where the write may have happened.
\<close>

theorem updateLayout_atomic:
  assumes "world_ok w view env" and "changes_by mutate" and "store_ok (view s)"
    and "updateLayout w mutate s = (res, s')"
  shows "update_outcome w mutate env res (view s) (view s') \<and> store_step\<^sup>*\<^sup>* (view s) (view s')"
  using updateLayout_spec [OF assms] by blast

text \<open>A world state that the store reaches by its steps.\<close>

definition reaches :: "('s \<Rightarrow> etcd_store) \<Rightarrow> 's \<Rightarrow> 's \<Rightarrow> bool" where
  "reaches view s s' \<longleftrightarrow> store_step\<^sup>*\<^sup>* (view s) (view s')"

interpretation re: evolution "reaches view" for view
  by unfold_locales (auto simp: reaches_def intro: rtranclp_trans)

lemma reaches_ok: "reaches view s s' \<Longrightarrow> store_ok (view s) \<Longrightarrow> store_ok (view s')"
  using store_steps_inv by (auto simp: reaches_def)

lemma updateLayout_reaches:
  assumes "world_ok w view env" and "changes_by mutate" and "store_ok (view s)"
  shows "reaches view s (snd (updateLayout w mutate s))"
  unfolding reaches_def by (rule updateLayout_spec(2) [OF assms surjective_pairing])

lemma Get_reaches:
  assumes "world_ok w view env"
  shows "reaches view s (snd (ec_Get (w_etcd w) opt k s))"
proof -
  note w = world_okD [OF assms]
  obtain st where "env\<^sup>*\<^sup>* (view s) st" "env\<^sup>*\<^sup>* st (view (snd (ec_Get (w_etcd w) opt k s)))"
    by (rule etcd_ok_Get [OF w(1) surjective_pairing]) blast
  then show ?thesis unfolding reaches_def by (meson env_steps w(2) rtranclp_trans)
qed

lemma Get_snd:
  "snd (GetConfig ec s) = snd (ec_Get ec GetKey ConfigKey s)"
  "snd (GetLayout ec s) = snd (ec_Get ec GetKey LayoutKey s)"
  "snd (GetDrained ec s) = snd (ec_Get ec GetPrefix DrainPrefix s)"
  "snd (GetControllers ec s) = snd (ec_Get ec GetPrefix ControllersPrefix s)"
  "snd (ElectionLeader ec s) = snd (ec_Get ec GetFirstCreate (ElectionPrefix @ ''/'') s)"
  by (simp_all add: GetConfig_def GetLayout_def GetDrained_def GetControllers_def ElectionLeader_def
      split: prod.split sum.split list.split etcd_value.split)

lemmas Get_reaches_all = Get_reaches [of w view env s GetKey ConfigKey for w view env s, folded Get_snd]
  Get_reaches [of w view env s GetKey LayoutKey for w view env s, folded Get_snd]
  Get_reaches [of w view env s GetPrefix DrainPrefix for w view env s, folded Get_snd]
  Get_reaches [of w view env s GetPrefix ControllersPrefix for w view env s, folded Get_snd]
  Get_reaches [of w view env s GetFirstCreate "ElectionPrefix @ ''/''" for w view env s, folded Get_snd]

lemma put_other_steps:
  assumes "\<not> election_key k" and "k \<noteq> LayoutKey" and "entry_ok k v" and "env \<le> store_step"
    and "env\<^sup>*\<^sup>* a st" and "env\<^sup>*\<^sup>* (es_change (ChangePut k v) st) b"
  shows "store_step\<^sup>*\<^sup>* a b"
  using env_steps [OF assms(5,4)] converse_rtranclp_into_rtranclp [OF store_step.put_other [OF assms(1-3)] env_steps [OF assms(6,4)]]
  by (rule rtranclp_trans)

lemma delete_other_steps:
  assumes "\<not> election_key k" and "k \<noteq> LayoutKey" and "env \<le> store_step"
    and "env\<^sup>*\<^sup>* a st" and "env\<^sup>*\<^sup>* (es_change (ChangeDelete k) st) b"
  shows "store_step\<^sup>*\<^sup>* a b"
  using env_steps [OF assms(4,3)] converse_rtranclp_into_rtranclp [OF store_step.delete_other [OF assms(1,2)] env_steps [OF assms(5,3)]]
  by (rule rtranclp_trans)

lemma Put_reaches:
  assumes "world_ok w view env" and "\<not> election_key k" and "k \<noteq> LayoutKey" and "entry_ok k v"
  shows "reaches view s (snd (ec_Put (w_etcd w) k v s))"
proof -
  note w = world_okD [OF assms(1)]
  obtain st where "env\<^sup>*\<^sup>* (view s) st" "env\<^sup>*\<^sup>* st (view (snd (ec_Put (w_etcd w) k v s))) \<or>
      env\<^sup>*\<^sup>* (es_change (ChangePut k v) st) (view (snd (ec_Put (w_etcd w) k v s)))"
    by (rule etcd_ok_Put [OF w(1)]) blast
  with put_other_steps [OF assms(2-4) w(2)] env_steps [OF _ w(2)] show ?thesis
    unfolding reaches_def by (meson rtranclp_trans)
qed

lemma Delete_reaches:
  assumes "world_ok w view env" and "\<not> election_key k" and "k \<noteq> LayoutKey"
  shows "reaches view s (snd (ec_Delete (w_etcd w) k s))"
proof -
  note w = world_okD [OF assms(1)]
  obtain st where "env\<^sup>*\<^sup>* (view s) st" "env\<^sup>*\<^sup>* st (view (snd (ec_Delete (w_etcd w) k s))) \<or>
      env\<^sup>*\<^sup>* (es_change (ChangeDelete k) st) (view (snd (ec_Delete (w_etcd w) k s)))"
    by (rule etcd_ok_Delete [OF w(1)]) blast
  with delete_other_steps [OF assms(2,3) w(2)] env_steps [OF _ w(2)] show ?thesis
    unfolding reaches_def by (meson rtranclp_trans)
qed

lemma own_keys:
  "\<not> election_key ConfigKey" "ConfigKey \<noteq> LayoutKey" "\<not> election_key (DrainPrefix @ n)" "DrainPrefix @ n \<noteq> LayoutKey"
  "entry_ok (DrainPrefix @ n) v" "entry_ok ConfigKey (VConfig cfg) \<longleftrightarrow> cfg_PartitionCount cfg < 2 ^ 32"
  by (auto simp: election_key_def entry_ok_def key_defs prefix_def)

lemma SetDrained_reaches: "world_ok w view env \<Longrightarrow> reaches view s (snd (SetDrained (w_etcd w) now n drained s))"
  using Put_reaches [of w view env "DrainPrefix @ n" "VText now" s] Delete_reaches [of w view env "DrainPrefix @ n" s]
  by (auto simp: SetDrained_def own_keys split: prod.split sum.split)

lemma PutConfig_reaches:
  "world_ok w view env \<Longrightarrow> cfg_PartitionCount cfg < 2 ^ 32 \<Longrightarrow> reaches view s (snd (PutConfig (w_etcd w) cfg s))"
  using Put_reaches [of w view env ConfigKey "VConfig cfg" s]
  by (auto simp: PutConfig_def own_keys split: prod.split sum.split)

lemma InitConfig_reaches:
  assumes "world_ok w view env" and "cfg_PartitionCount cfg < 2 ^ 32"
  shows "reaches view s (snd (InitConfig (w_etcd w) cfg s))"
proof -
  note w = world_okD [OF assms(1)]
  obtain r s' where t: "ec_Txn (w_etcd w) [CreateRevisionIs ConfigKey 0] ConfigKey (VConfig cfg) s = (r, s')" by fastforce
  then have "snd (InitConfig (w_etcd w) cfg s) = s'" by (auto simp: InitConfig_def split: sum.split)
  moreover from w(1) t have "store_step\<^sup>*\<^sup>* (view s) (view s')"
  proof (cases rule: etcd_ok_Txn)
    case (wrote st)
    with assms(2) show ?thesis by (intro put_other_steps [OF own_keys(1,2) _ w(2) wrote(2,4)]) (simp add: own_keys)
  qed (rule env_steps [OF _ w(2)])
  ultimately show ?thesis by (simp add: reaches_def)
qed

section \<open>A concrete world\<close>

text \<open>A store that one client has for itself: its calls are answered at once.\<close>

definition local_etcd :: "etcd_store etcd_client" where
  "local_etcd = \<lparr>
     ec_Get = \<lambda>opt k st. (Inr (get_range opt k st), st),
     ec_Put = \<lambda>k v st. (Inr (), es_change (ChangePut k v) st),
     ec_Delete = \<lambda>k st. (Inr (), es_change (ChangeDelete k) st),
     ec_Txn = \<lambda>cmps k v st. if list_all (cmp_holds st) cmps then (Inr True, es_change (ChangePut k v) st) else (Inr False, st),
     ec_Grant = \<lambda>ttl st. (Inr 1, st),
     ec_PutLease = \<lambda>k v lease st. (Inr (), es_change (ChangePut k v) st),
     ec_Revoke = \<lambda>lease st. (Inr (), st),
     ec_KeepAlive = \<lambda>lease st. (Inr (), st)\<rparr>"

definition nobody :: "etcd_store \<Rightarrow> etcd_store \<Rightarrow> bool" where
  "nobody st st' \<longleftrightarrow> False"

definition example_world :: "etcd_store world" where
  "example_world = \<lparr>w_etcd = local_etcd, w_leading = \<lambda>_. True, w_fence = \<lambda>_. Some example_fence,
     w_nodes = \<lambda>_. pi_Nodes example_alive, w_layout = stored_layout, w_now = \<lambda>_. 1000, w_format = \<lambda>_. ''now'',
     w_status = \<lambda>addr st. (Inl ''refused'', st), w_pull = \<lambda>addr req st. (Inl ''refused'', st),
     w_parses = \<lambda>_. True, w_proxy = \<lambda>addr req st. (Inl ''refused'', st), w_wait = \<lambda>st. st\<rparr>"

lemma nobody_steps [simp]: "nobody\<^sup>*\<^sup>* a b \<longleftrightarrow> a = b"
proof
  assume "nobody\<^sup>*\<^sup>* a b"
  then show "a = b" by (induction) (auto simp: nobody_def)
qed simp

lemma example_world_ok: "world_ok example_world (\<lambda>st. st) nobody"
  using example_fence_live(1)
  by (simp add: world_ok_def etcd_ok_def example_world_def local_etcd_def le_fun_def nobody_def Let_def del: es_change.simps)
    (simp add: example_alive_def)

lemma local_etcd_ok: "etcd_ok local_etcd (\<lambda>st. st) nobody"
  using example_world_ok by (simp add: world_ok_def example_world_def)

theorem deposed_never_writes_witness:
  "elected example_fence example_store \<and> elected example_successor example_won \<and> f_rev example_fence < f_rev example_successor \<and>
   fst (PutLayout local_etcd example_layout 8 (f_key example_fence) (f_rev example_fence) example_won) \<noteq> Inr () \<and>
   snd (PutLayout local_etcd example_layout 8 (f_key example_fence) (f_rev example_fence) example_won) = example_won"
  using deposed_never_writes [OF local_etcd_ok _ example_store_good example_elected(1) example_election example_elected(2,3)
      rtranclp.rtrancl_refl surjective_pairing, of example_layout 8] example_elected(1,2)
  by (simp add: le_fun_def nobody_def)

theorem updateLayout_atomic_witness:
  "\<exists>s'. updateLayout example_world (transfer_mutation example_transfer) example_store =
      (Inr [MPlan (HandingOff (PartitionRef 1 0) ''node1'' ''node2'' RequestedFromPanel)], s') \<and>
    update_outcome example_world (transfer_mutation example_transfer) nobody
      (Inr [MPlan (HandingOff (PartitionRef 1 0) ''node1'' ''node2'' RequestedFromPanel)]) example_store s' \<and>
    store_step\<^sup>*\<^sup>* example_store s'"
proof -
  let ?m = "transfer_mutation example_transfer"
  have ch: "changes_by ?m" by (auto simp: changes_by_def intro: layout_change.transferred)
  obtain res s' where eq: "updateLayout example_world ?m example_store = (res, s')" by fastforce
  have "res = fst (updateLayout example_world ?m example_store)" by (simp add: eq)
  also have "\<dots> = Inr [MPlan (HandingOff (PartitionRef 1 0) ''node1'' ''node2'' RequestedFromPanel)]" by code_simp
  finally have "res = Inr [MPlan (HandingOff (PartitionRef 1 0) ''node1'' ''node2'' RequestedFromPanel)]" .
  with eq updateLayout_atomic [OF example_world_ok ch example_store_good eq] show ?thesis by auto
qed

end
