(* ===== verification/ControlRun.thy ===== *)
theory ControlRun
  imports ControlUpdate
begin

text \<open>
  Every operation of a controller (a round of the control loop, a tick of the resharding loop, a
  request of the admin API, taking office) changes the store by store steps only and keeps the log
  of events bounded, so the results of \<open>ControlSafety\<close> hold for the code of \<open>Controller\<close>.
\<close>

section \<open>The changes the code makes\<close>

lemma changes_by_plan:
  "'''' \<notin> dom (map_of nodes) \<Longrightarrow> cfg_PartitionCount cfg < 2 ^ 32 \<Longrightarrow>
    changes_by (plan_mutation cfg nodes drained statuses auto)"
  by (auto simp: changes_by_def intro: layout_change.planned)

lemma changes_by_others:
  "changes_by (finish_mutation g)" "changes_by (mark_mutation g i target srcs)" "changes_by (transfer_mutation req)"
  "changes_by (move_mutation req)" "changes_by (unpin_mutation req)"
  unfolding changes_by_def
  by (blast intro: layout_change.finished layout_change.marked layout_change.transferred layout_change.moved
      layout_change.unpinned)+

text \<open>A configuration that is read fits in 32 bits, and so does every one the panel may store.\<close>

lemma GetConfig_fits:
  assumes "world_ok w view env" and "store_ok (view s)" and "GetConfig (w_etcd w) s = (Inr cfg, s')"
  shows "cfg_PartitionCount cfg < 2 ^ 32"
proof -
  note w = world_okD [OF assms(1)]
  obtain g s1 where g: "ec_Get (w_etcd w) GetKey ConfigKey s = (g, s1)" by fastforce
  obtain st where st: "env\<^sup>*\<^sup>* (view s) st" "\<forall>kvs. g = Inr kvs \<longrightarrow> kvs = get_range GetKey ConfigKey st"
    by (rule etcd_ok_Get [OF w(1) g]) blast
  from assms(3) g obtain kv kvs where kv: "g = Inr (kv # kvs)" "kv_Value kv = VConfig cfg"
    by (auto simp: GetConfig_def split: sum.splits list.splits etcd_value.splits)
  with st(2) have "kv \<in> set (get_range GetKey ConfigKey st)" by (metis list.set_intros(1))
  moreover have "entries_ok st"
    using store_steps_inv [OF env_steps [OF st(1) w(2)] assms(2)] by (simp add: store_ok_def)
  ultimately have "entry_ok ConfigKey (VConfig cfg)"
    using kv(2) by (auto simp: get_range_def entries_ok_def)
  then show ?thesis by (simp add: own_keys)
qed

lemma checked_config_bounds:
  assumes "checked_config layout req cfg = Inr cfg'"
  shows "cfg_PartitionCount cfg' = cfg_PartitionCount cfg \<or> 1 \<le> cfg_PartitionCount cfg' \<and> cfg_PartitionCount cfg' \<le> 1024"
    and "cfg_ReplicationFactor cfg' = cfg_ReplicationFactor cfg \<or>
      1 \<le> cfg_ReplicationFactor cfg' \<and> cfg_ReplicationFactor cfg' \<le> 16"
  using assms by (auto simp: checked_config_def Let_def split: option.splits if_splits)

section \<open>The control loop\<close>

lemma pollStatuses_reaches:
  assumes "world_ok w view env"
  shows "reaches view s (snd (pollStatuses w nodes s))"
proof -
  have step: "reaches view (snd os) (snd (poll_status w n os))" for n os
    using world_okD(5) [OF assms, of "snd os" "n_Address (snd n)"]
    by (auto simp: poll_status_def case_prod_beta reaches_def split: prod.split sum.split)
  have "reaches view (snd os) (snd (fold (poll_status w) ns os))" for ns os
  proof (induction ns arbitrary: os)
    case (Cons n ns)
    show ?case unfolding fold.simps comp_def by (rule re.trans [OF step Cons.IH])
  qed (simp add: re.refl)
  from this [of "([], s)" nodes] show ?thesis by (simp add: pollStatuses_def)
qed

lemma round_reaches:
  assumes w: "world_ok w view env" and ok: "store_ok (view s)"
  shows "reaches view s (snd (round w c s))"
proof -
  obtain r1 s1 where 1: "GetConfig (w_etcd w) s = (r1, s1)" by fastforce
  obtain r2 s2 where 2: "GetDrained (w_etcd w) s1 = (r2, s2)" by fastforce
  obtain sts s3 where 3: "pollStatuses w (w_nodes w s2) s2 = (sts, s3)" by fastforce
  have s1: "reaches view s s1" using Get_reaches_all(1) [OF w, of s] 1 by simp
  have s2: "reaches view s s2" using Get_reaches_all(3) [OF w, of s1] 2 s1 by (auto intro: re.trans)
  have s3: "reaches view s s3" using pollStatuses_reaches [OF w, of s2] 3 s2 by (metis re.trans snd_conv)
  show ?thesis
  proof (cases "\<exists>cfg drained. r1 = Inr cfg \<and> r2 = Inr drained")
    case True
    then obtain cfg drained where r: "r1 = Inr cfg" "r2 = Inr drained" by blast
    let ?m = "plan_mutation cfg (w_nodes w s2) drained sts (co_AutoBalance (ct_opts c))"
    have "changes_by ?m"
      by (rule changes_by_plan [OF world_okD(4) [OF w] GetConfig_fits [OF w ok 1 [unfolded r]]])
    then have "reaches view s (snd (updateLayout w ?m s3))"
      by (intro re.trans [OF s3] updateLayout_reaches [OF w _ reaches_ok [OF s3 ok]])
    with 1 2 3 r show ?thesis by (simp add: round_def Let_def case_prod_beta)
  next
    case False
    with 1 2 s1 s2 show ?thesis by (auto simp: round_def split: sum.split)
  qed
qed

lemma lead_init_reaches:
  assumes "world_ok w view env" and "co_PartitionCount (ct_opts c) < 2 ^ 32"
  shows "reaches view s (lead_init w c s)"
  unfolding lead_init_def using assms(2) by (intro InitConfig_reaches [OF assms(1)]) simp

lemma lead_wake_reaches: "world_ok w view env \<Longrightarrow> reaches view s (snd (lead_wake w woken c s))"
  by (simp add: lead_wake_def reaches_def world_okD(8))

section \<open>Resharding\<close>

lemma reshard_targets_reaches:
  assumes w: "world_ok w view env"
  shows "store_ok (view s) \<Longrightarrow> reaches view s (snd (reshard_targets w l r statuses ids s))"
proof (induction ids arbitrary: s)
  case (Cons i ids)
  show ?case
  proof (cases "reshard_request l r (w_nodes w s) statuses i")
    case (Some nr)
    obtain node req where nr: "nr = (node, req)" by fastforce
    obtain p s1 where p: "w_pull w (n_Address node) req s = (p, s1)" by fastforce
    have s1: "reaches view s s1"
      using world_okD(6) [OF w, of s "n_Address node" req] p by (simp add: reaches_def)
    let ?m = "mark_mutation (r_Generation r) i (r_Partitions r ! i) (mr_Sources req)"
    obtain u s2 where u: "updateLayout w ?m s1 = (u, s2)" by fastforce
    have s2: "reaches view s s2"
      using updateLayout_reaches [OF w changes_by_others(2) reaches_ok [OF s1 Cons.prems]] u s1
      by (metis re.trans snd_conv)
    have "reaches view s (snd (reshard_targets w l r statuses ids s2))"
      using s2 Cons.IH [OF reaches_ok [OF s2 Cons.prems]] by (rule re.trans)
    with Some nr p u s1 s2 show ?thesis by (auto simp: Let_def split: sum.split prod.split)
  qed (use Cons in simp)
qed (simp add: re.refl)

lemma reshardStep_reaches:
  assumes w: "world_ok w view env" and ok: "store_ok (view s)"
  shows "reaches view s (snd (reshardStep w c s))"
proof -
  obtain g s1 where g: "GetLayout (w_etcd w) s = (g, s1)" by fastforce
  have s1: "reaches view s s1" using Get_reaches_all(2) [OF w, of s] g by simp
  note ok1 = reaches_ok [OF s1 ok]
  have "reaches view s (snd (updateLayout w (finish_mutation h) s1))" for h
    using s1 updateLayout_reaches [OF w changes_by_others(1) ok1] by (rule re.trans)
  moreover have "reaches view s (snd (reshard_targets w l r statuses ids s1))" for l r statuses ids
    using s1 reshard_targets_reaches [OF w ok1] by (rule re.trans)
  ultimately show ?thesis
    using g s1 by (auto simp: reshardStep_def split: sum.split option.split prod.split) (metis snd_conv)+
qed

section \<open>The admin API\<close>

lemma change_layout_reaches:
  assumes w: "world_ok w view env" and ok: "store_ok (view s)" and "changes_by m"
  shows "reaches view s (snd (snd (change_layout w m c s)))"
  using updateLayout_reaches [OF w assms(3) ok]
  by (simp add: change_layout_def case_prod_beta Let_def)

lemma panel_reaches:
  assumes w: "world_ok w view env" and ok: "store_ok (view s)"
  shows "reaches view s (snd (snd (handleTransferLeader w body c s)))"
    and "reaches view s (snd (snd (handleMove w body c s)))"
    and "reaches view s (snd (snd (handleUnpin w body c s)))"
  using change_layout_reaches [OF w ok changes_by_others(3)] change_layout_reaches [OF w ok changes_by_others(4)]
    change_layout_reaches [OF w ok changes_by_others(5)]
  by (auto simp: handleTransferLeader_def handleMove_def handleUnpin_def re.refl split: option.split)

lemma handleConfig_reaches:
  assumes w: "world_ok w view env" and ok: "store_ok (view s)"
  shows "reaches view s (snd (snd (handleConfig w body c s)))"
proof -
  obtain g s1 where g: "GetConfig (w_etcd w) s = (g, s1)" by fastforce
  have s1: "reaches view s s1" using Get_reaches_all(1) [OF w, of s] g by simp
  have put: "reaches view s (snd (PutConfig (w_etcd w) cfg' s1))"
    if "g = Inr cfg" "checked_config (w_layout w s1) req cfg = Inr cfg'" for cfg cfg' req
  proof -
    have "cfg_PartitionCount cfg' < 2 ^ 32"
      using GetConfig_fits [OF w ok g [unfolded that(1)]] checked_config_bounds(1) [OF that(2)] by auto
    then show ?thesis by (intro re.trans [OF s1] PutConfig_reaches [OF w])
  qed
  show ?thesis
    using g s1 by (auto simp: handleConfig_def re.refl split: option.split sum.split prod.split dest: put)
qed

lemma handleDrain_reaches:
  assumes w: "world_ok w view env"
  shows "reaches view s (snd (snd (handleDrain w body c s)))"
  using SetDrained_reaches [OF w, of s]
  by (auto simp: handleDrain_def re.refl split: option.split sum.split prod.split) (metis snd_conv)+

lemma handleStable_reaches:
  assumes w: "world_ok w view env"
  shows "reaches view s (snd (handleStable w c s))"
proof -
  obtain r1 s1 where 1: "GetConfig (w_etcd w) s = (r1, s1)" by fastforce
  obtain r2 s2 where 2: "GetLayout (w_etcd w) s1 = (r2, s2)" by fastforce
  obtain r3 s3 where 3: "GetDrained (w_etcd w) s2 = (r3, s3)" by fastforce
  have s1: "reaches view s s1" using Get_reaches_all(1) [OF w, of s] 1 by simp
  have s2: "reaches view s s2" using Get_reaches_all(2) [OF w, of s1] 2 s1 by (auto intro: re.trans)
  have s3: "reaches view s s3" using Get_reaches_all(3) [OF w, of s2] 3 s2 by (auto intro: re.trans)
  from 1 2 3 s1 s2 s3 show ?thesis
    by (simp add: handleStable_def Let_def split: sum.split prod.split option.split)
qed

lemma handleState_reaches:
  assumes w: "world_ok w view env"
  shows "reaches view s (snd (handleState w c s))"
proof -
  obtain r1 s1 where 1: "ElectionLeader (w_etcd w) s = (r1, s1)" by fastforce
  obtain r2 s2 where 2: "GetControllers (w_etcd w) s1 = (r2, s2)" by fastforce
  obtain r3 s3 where 3: "GetConfig (w_etcd w) s2 = (r3, s3)" by fastforce
  obtain r4 s4 where 4: "GetLayout (w_etcd w) s3 = (r4, s4)" by fastforce
  obtain r5 s5 where 5: "GetDrained (w_etcd w) s4 = (r5, s5)" by fastforce
  have "reaches view s s1" "reaches view s1 s2" "reaches view s2 s3" "reaches view s3 s4" "reaches view s4 s5"
    using Get_reaches_all(5) [OF w, of s] Get_reaches_all(4) [OF w, of s1] Get_reaches_all(1) [OF w, of s2]
      Get_reaches_all(2) [OF w, of s3] Get_reaches_all(3) [OF w, of s4] 1 2 3 4 5 by simp_all
  then have "reaches view s s5" by (meson re.trans)
  with 1 2 3 4 5 show ?thesis by (simp add: handleState_def Let_def)
qed

lemma serveAPI_reaches:
  assumes w: "world_ok w view env" and ok: "store_ok (view s)"
  shows "reaches view s (snd (snd (serveAPI w req c s)))"
  using panel_reaches [OF w ok] handleConfig_reaches [OF w ok] handleDrain_reaches [OF w] handleStable_reaches [OF w]
    handleState_reaches [OF w]
  by (simp add: serveAPI_def case_prod_beta Let_def re.refl)

lemma proxyToLeader_reaches:
  assumes w: "world_ok w view env" and ok: "store_ok (view s)"
  shows "reaches view s (snd (proxyToLeader w req c s))"
proof -
  obtain e s1 where e: "ElectionLeader (w_etcd w) s = (e, s1)" by fastforce
  have s1: "reaches view s s1" using Get_reaches_all(5) [OF w, of s] e by simp
  have fwd: "reaches view s s2 \<and> reaches view s (snd (snd (serveAPI w req c s2)))"
    if "w_proxy w addr r s1 = (x, s2)" for addr r x s2
  proof -
    have s2: "reaches view s s2"
      using world_okD(7) [OF w, of s1 addr r] that s1 by (auto simp: reaches_def intro: rtranclp_trans)
    then show ?thesis using serveAPI_reaches [OF w reaches_ok [OF s2 ok], of req c] by (auto intro: re.trans)
  qed
  show ?thesis
  proof (cases e)
    case (Inr addr)
    obtain x s2 where x: "w_proxy w addr (req\<lparr>aq_proxied := co_ID (ct_opts c)\<rparr>) s1 = (x, s2)" by fastforce
    with fwd [OF x] e s1 Inr show ?thesis
      by (simp add: proxyToLeader_def case_prod_beta Let_def split: sum.split)
  qed (use e s1 in \<open>simp add: proxyToLeader_def\<close>)
qed

lemma handleAPI_reaches:
  assumes w: "world_ok w view env" and ok: "store_ok (view s)"
  shows "reaches view s (snd (snd (handleAPI w req c s)))"
proof -
  obtain p s1 where p: "(if aq_proxied req = '''' then proxyToLeader w req c s else (None, s)) = (p, s1)" by fastforce
  have s1: "reaches view s s1"
    using p proxyToLeader_reaches [OF w ok, of req c] by (auto simp: re.refl split: if_splits)
  have "reaches view s (snd (snd (serveAPI w req c s1)))"
    using s1 serveAPI_reaches [OF w reaches_ok [OF s1 ok]] by (rule re.trans)
  with p s1 serveAPI_reaches [OF w ok, of req c] show ?thesis
    by (simp add: handleAPI_def Let_def split: option.split prod.split)
qed

section \<open>The controller's own state\<close>

text \<open>No operation changes the options, and none lets the log outgrow its bound.\<close>

definition keeps :: "Controller \<Rightarrow> Controller \<Rightarrow> bool" where
  "keeps c c' \<longleftrightarrow> ct_opts c' = ct_opts c \<and> (length (ct_events c) \<le> maxEvents \<longrightarrow> length (ct_events c') \<le> maxEvents)"

interpretation kp: evolution keeps
  by unfold_locales (auto simp: keeps_def)

lemma keeps_record: "keeps c (record_event now msg c)"
  by (simp add: keeps_def record_event_def maxEvents_def Let_def)

lemma keeps_record_all: "keeps c (record_all now msgs c)"
  unfolding record_all_def by (rule kp.fold_evolves) (rule keeps_record)

lemma keeps_fields [simp]:
  "keeps c (kick c') = keeps c c'" "keeps c (c'\<lparr>ct_statuses := sts\<rparr>) = keeps c c'"
  "keeps c (c'\<lparr>ct_trigger := b\<rparr>) = keeps c c'" "keeps (c\<lparr>ct_statuses := sts\<rparr>) c' = keeps c c'"
  by (simp_all add: keeps_def kick_def)

lemma round_keeps: "keeps c (fst (round w c s))"
  using keeps_record_all [of "c\<lparr>ct_statuses := sts\<rparr>" for sts]
  by (auto simp: round_def Let_def case_prod_beta kp.refl split: sum.split prod.split)

lemma reshard_tick_keeps: "keeps c (fst (snd (reshard_tick w cancelled err c s)))"
  using kp.trans [OF keeps_record_all keeps_record]
  by (auto simp: reshard_tick_def Let_def case_prod_beta keeps_record_all split: option.split)

lemma change_layout_keeps: "keeps c (fst (snd (change_layout w m c s)))"
  by (auto simp: change_layout_def respondLayoutChange_def Let_def case_prod_beta keeps_record_all kp.refl split: sum.split)

lemma handlers_keep:
  "keeps c (fst (snd (handleTransferLeader w p c s)))" "keeps c (fst (snd (handleMove w p c s)))"
  "keeps c (fst (snd (handleUnpin w p c s)))"
  by (auto simp: handleTransferLeader_def handleMove_def handleUnpin_def change_layout_keeps kp.refl split: option.split)

lemma handleConfig_keeps: "keeps c (fst (snd (handleConfig w body c s)))"
  by (auto simp: handleConfig_def keeps_record kp.refl split: sum.split prod.split option.split)

lemma handleDrain_keeps: "keeps c (fst (snd (handleDrain w body c s)))"
  by (auto simp: handleDrain_def keeps_record kp.refl split: sum.split prod.split option.split)

lemma serveAPI_keeps: "keeps c (fst (snd (serveAPI w req c s)))"
  by (simp add: serveAPI_def Let_def case_prod_beta handlers_keep handleConfig_keeps handleDrain_keeps kp.refl)

lemma proxyToLeader_keeps:
  "proxyToLeader w req c s = (Some (resp, c'), s') \<Longrightarrow> keeps c c'"
  using serveAPI_keeps [of c w req]
  by (auto simp: proxyToLeader_def Let_def case_prod_beta kp.refl split: sum.splits prod.splits if_splits)

lemma handleAPI_keeps: "keeps c (fst (snd (handleAPI w req c s)))"
  using proxyToLeader_keeps [of w req c s]
  by (auto simp: handleAPI_def Let_def serveAPI_keeps kp.refl split: prod.split option.split)

end
