(* ===== verification/Cluster.thy ===== *)
theory Cluster
  imports Replication ControlRun
begin

text \<open>
  The parts put together: one etcd with any number of controllers (\<open>ControlSafety\<close>), and data nodes
  that start, crash, lose their lease, watch the stored layout with any delay, reconcile, serve
  requests and replicate from each other (\<open>DataNode\<close>, \<open>Replication\<close>). \<open>Replication\<close> takes as
  given that an epoch is led once; here that follows from the layouts the controllers store and from
  the incarnations by which a node knows whether an assignment was made for it.
\<close>

section \<open>State and steps\<close>

text \<open>
  The history holds every value of the layout key so far (\<open>None\<close>: no layout yet), \<open>cl_seen\<close> the
  position up to which a node's watch got, \<open>cl_used\<close> the incarnations of a node so far. For every node
  and partition there is the request of the follower's loop, and \<open>cl_led\<close> are the epochs led so far.
\<close>

record cluster =
  cl_store :: etcd_store
  cl_history :: "Layout option list"
  cl_node :: "node_id \<Rightarrow> NodeServer"
  cl_seen :: "node_id \<Rightarrow> nat"
  cl_used :: "node_id \<Rightarrow> int set"
  cl_flight :: "node_id \<Rightarrow> PartitionRef \<Rightarrow> flight"
  cl_led :: "PartitionRef \<Rightarrow> int set"

definition leads_now :: "Replica option \<Rightarrow> bool" where
  "leads_now po \<longleftrightarrow> (case po of Some p \<Rightarrow> rp_role p = NodeRoleLeader | None \<Rightarrow> False)"

definition set_node :: "node_id \<Rightarrow> NodeServer \<Rightarrow> cluster \<Rightarrow> cluster" where
  "set_node n nd c = c\<lparr>cl_node := (cl_node c)(n := nd)\<rparr>"

definition set_request :: "node_id \<Rightarrow> PartitionRef \<Rightarrow> flight \<Rightarrow> cluster \<Rightarrow> cluster" where
  "set_request n ref f c = c\<lparr>cl_flight := (cl_flight c)(n := (cl_flight c n)(ref := f))\<rparr>"

text \<open>A node after its replicas were reconciled: the loops of replicas that no longer follow have ended.\<close>

definition settle :: "node_id \<Rightarrow> NodeServer \<Rightarrow> cluster \<Rightarrow> cluster" where
  "settle n nd c = c\<lparr>cl_node := (cl_node c)(n := nd),
     cl_flight := (cl_flight c)(n := (\<lambda>ref.
       if lookup ref (cl_node c n) = None \<or> lookup ref nd = None \<or> leads_now (lookup ref nd) then Idle else cl_flight c n ref)),
     cl_led := (\<lambda>ref. if leads_now (lookup ref nd) then insert (rp_epoch (the (lookup ref nd))) (cl_led c ref)
                       else cl_led c ref)\<rparr>"

text \<open>What the follower's loop does with an answer (the second half of \<open>follow_round\<close>).\<close>

definition deliver_answer :: "PartitionRef \<Rightarrow> follow_request \<Rightarrow> node_response \<Rightarrow> NodeServer \<Rightarrow> NodeServer" where
  "deliver_answer ref req resp nd =
     (case lookup ref nd of
        None \<Rightarrow> nd
      | Some part \<Rightarrow>
          let (part1, replicated) = follow_answer req resp part;
              nd1 = put_part ref part1 nd
          in (case replicated of None \<Rightarrow> nd1 | Some k \<Rightarrow> nd1\<lparr>nd_ops := gm_add ''replicated'' k (nd_ops nd1)\<rparr>))"

lemma follow_round_deliver:
  assumes "map_of (nd_replicas n) ref = Some r" and "hr_following r" and "leaderOf ref n = Some (ldr, addr)"
  shows "follow_round net ref n =
    deliver_answer ref (follow_ask ref addr (hr_part r)) (net (follow_ask ref addr (hr_part r))) n"
  using assms by (simp add: follow_round_def deliver_answer_def lookup_def Let_def)

inductive node_request :: "NodeServer \<Rightarrow> NodeServer \<Rightarrow> bool" where
  set: "node_request n (snd (handleSet now m qref data n))"
| delete: "node_request n (snd (handleDelete now m qref data' n))"
| get: "node_request n (snd (handleGet m qref k n))"
| snapshot: "node_request n (snd (handleSnapshot now qref e n))"
| export: "node_request n (snd (handleMigrateExport now qref cnt i after frz n))"
| pull: "node_request n (snd (handleMigratePull net now m body n))"

inductive cluster_step :: "Options \<Rightarrow> cluster \<Rightarrow> cluster \<Rightarrow> bool" for opts where
  control: "store_step (cl_store c) st \<Longrightarrow>
    cluster_step opts c (c\<lparr>cl_store := st,
      cl_history := (if stored_layout st = stored_layout (cl_store c) then cl_history c
                     else cl_history c @ [stored_layout st])\<rparr>)"
| watch: "n \<noteq> '''' \<Longrightarrow> cl_seen c n \<le> k \<Longrightarrow> k < length (cl_history c) \<Longrightarrow> cl_history c ! k = lo \<Longrightarrow>
    cluster_step opts c (settle n (reconcile lo ((cl_node c n)\<lparr>nd_layout := lo\<rparr>)) (c\<lparr>cl_seen := (cl_seen c)(n := k)\<rparr>))"
| lost: "n \<noteq> '''' \<Longrightarrow> now \<notin> cl_used c n \<Longrightarrow>
    cluster_step opts c (settle n (rejoin now (cl_node c n))
      (c\<lparr>cl_used := (cl_used c)(n := insert now (cl_used c n))\<rparr>))"
| restart: "now \<notin> cl_used c n \<Longrightarrow>
    cluster_step opts c (settle n (NewNode n addr opts now)
      (c\<lparr>cl_seen := (cl_seen c)(n := 0), cl_used := (cl_used c)(n := insert now (cl_used c n))\<rparr>))"
| members: "cluster_step opts c (set_node n ((cl_node c n)\<lparr>nd_nodes := ns\<rparr>) c)"
| request: "node_request (cl_node c n) nd \<Longrightarrow> cluster_step opts c (set_node n nd c)"
| ask: "map_of (nd_replicas (cl_node c n)) ref = Some r \<Longrightarrow> hr_following r \<Longrightarrow>
    leaderOf ref (cl_node c n) = Some (ldr, addr) \<Longrightarrow> cl_flight c n ref = Idle \<Longrightarrow>
    cluster_step opts c (set_request n ref (Asked m (follow_ask ref addr (hr_part r))) c)"
| serve_snapshot: "cl_flight c n ref = Asked m (AskSnapshot addr ref e) \<Longrightarrow>
    handleSnapshot now (Some ref) (show_int e) (cl_node c m) = (resp, nd) \<Longrightarrow>
    cluster_step opts c (set_request n ref (Answered (AskSnapshot addr ref e) resp) (set_node m nd c))"
| serve_entries: "cl_flight c n ref = Asked m (AskEntries addr rq) \<Longrightarrow> rq_ref rq = Some ref \<Longrightarrow>
    handleReplicate rq None (cl_node c m) = resp \<Longrightarrow>
    cluster_step opts c (set_request n ref
      (if resp = NClosed then Waiting m (AskEntries addr rq) else Answered (AskEntries addr rq) resp) c)"
| wake: "cl_flight c n ref = Waiting m (AskEntries addr rq) \<Longrightarrow> lookup ref (cl_node c m) = Some part \<Longrightarrow>
    rq_epoch rq = Some e \<Longrightarrow> rq_after rq = Some a \<Longrightarrow>
    cluster_step opts c (set_request n ref (Answered (AskEntries addr rq) (replicate_wake e a part)) c)"
| fails: "cluster_step opts c (set_request n ref Idle c)"
| deliver: "cl_flight c n ref = Answered req resp \<Longrightarrow>
    cluster_step opts c (set_request n ref Idle (set_node n (deliver_answer ref req resp (cl_node c n)) c))"

text \<open>All nodes have just started, on a store that may or may not hold a layout.\<close>

definition cluster_init :: "Options \<Rightarrow> etcd_store \<Rightarrow> (node_id \<Rightarrow> string) \<Rightarrow> (node_id \<Rightarrow> int) \<Rightarrow> cluster" where
  "cluster_init opts st addr started =
     \<lparr>cl_store = st, cl_history = [stored_layout st], cl_node = (\<lambda>n. NewNode n (addr n) opts (started n)),
      cl_seen = (\<lambda>_. 0), cl_used = (\<lambda>n. {started n}), cl_flight = (\<lambda>_ _. Idle), cl_led = (\<lambda>_. {})\<rparr>"

section \<open>The replication group of a partition in the cluster\<close>

definition grp :: "PartitionRef \<Rightarrow> cluster \<Rightarrow> group" where
  "grp ref c = \<lparr>g_part = (\<lambda>n. lookup ref (cl_node c n)), g_flight = (\<lambda>n. cl_flight c n ref), g_led = cl_led c ref\<rparr>"

lemma grp_simps [simp]:
  "g_part (grp ref c) n = lookup ref (cl_node c n)" "g_flight (grp ref c) n = cl_flight c n ref"
  "g_led (grp ref c) = cl_led c ref"
  by (simp_all add: grp_def)

lemma grp_frame [simp]:
  "grp ref (c\<lparr>cl_store := st\<rparr>) = grp ref c" "grp ref (c\<lparr>cl_history := h\<rparr>) = grp ref c"
  "grp ref (c\<lparr>cl_seen := s\<rparr>) = grp ref c" "grp ref (c\<lparr>cl_used := u\<rparr>) = grp ref c"
  by (simp_all add: grp_def)

lemma grp_settle: "grp ref (settle n nd c) = regroup n (lookup ref nd) (grp ref c)"
  by (auto simp: grp_def settle_def regroup_def leads_now_def set_part_def set_flight_def Let_def fun_eq_iff split: option.splits)

lemma grp_set_node: "grp ref (set_node n nd c) = set_part n (lookup ref nd) (grp ref c)"
  by (auto simp: grp_def set_node_def set_part_def)

lemma grp_set_request:
  "grp ref (set_request n ref' f c) = (if ref' = ref then set_flight n f (grp ref c) else grp ref c)"
  by (auto simp: grp_def set_request_def set_flight_def fun_eq_iff)

interpretation dop: serving "data_op\<^sup>*\<^sup>*"
  by unfold_locales (auto intro: data_op.intros rtranclp_trans)

lemma request_served: "node_request n n' \<Longrightarrow> served data_op\<^sup>*\<^sup>* n n'"
  by (induction rule: node_request.induct)
    (rule dop.served_handleSet dop.served_handleDelete dop.served_handleGet dop.served_handleSnapshot
      dop.served_handleMigrateExport dop.served_handleMigratePull)+

lemma data_steps_group:
  assumes "data_op\<^sup>*\<^sup>* p p'" and "g_part s n = Some p"
  shows "(group_step ref opts)\<^sup>*\<^sup>* s (set_part n (Some p') s)"
  using assms(1)
proof (induction rule: rtranclp_induct)
  case base
  with assms(2) show ?case by (simp add: set_same)
next
  case (step q r)
  have "group_step ref opts (set_part n (Some q) s) (set_part n (Some r) (set_part n (Some q) s))"
    using step.hyps(2) by (intro group_step.data) (simp_all add: set_part_def)
  with step.IH show ?case by (simp add: set_part_def)
qed

lemma served_lookup: "served R n n' \<Longrightarrow> rel_option R (lookup ref n) (lookup ref n')"
  unfolding served_def lookup_def by (auto simp: option.rel_map elim!: option.rel_mono_strong)

lemma served_group:
  assumes "served data_op\<^sup>*\<^sup>* (cl_node c n) nd"
  shows "(group_step ref opts)\<^sup>*\<^sup>* (grp ref c) (grp ref (set_node n nd c))"
proof (cases "lookup ref (cl_node c n)")
  case None
  with served_lookup [OF assms, of ref] set_same(2) [of n "grp ref c"] show ?thesis by (simp add: grp_set_node)
next
  case (Some p)
  with served_lookup [OF assms, of ref] obtain p' where "lookup ref nd = Some p'" "data_op\<^sup>*\<^sup>* p p'"
    by (auto simp: option_rel_Some1)
  with Some data_steps_group [of p p' "grp ref c" n] show ?thesis by (simp add: grp_set_node)
qed

lemma lookup_frame [simp]:
  "lookup ref (n\<lparr>nd_ops := x\<rparr>) = lookup ref n" "lookup ref (n\<lparr>nd_nodes := ns\<rparr>) = lookup ref n"
  "lookup ref (n\<lparr>nd_layout := lo\<rparr>) = lookup ref n" "lookup ref (n\<lparr>nd_incarnation := i\<rparr>) = lookup ref n"
  by (simp_all add: lookup_def)

lemma lookup_deliver:
  "lookup ref' (deliver_answer ref req resp nd) =
     (if ref' = ref then map_option (\<lambda>p. fst (follow_answer req resp p)) (lookup ref nd) else lookup ref' nd)"
proof (cases "lookup ref nd")
  case (Some part)
  obtain part1 k where "follow_answer req resp part = (part1, k)" by fastforce
  with Some show ?thesis by (auto simp: deliver_answer_def Let_def lookup_put split: option.splits)
qed (simp add: deliver_answer_def)

section \<open>Nodes between two layouts\<close>

text \<open>What stays as it is while a node serves and replicates: all but data, counters and the address book.\<close>

definition same_place :: "NodeServer \<Rightarrow> NodeServer \<Rightarrow> bool" where
  "same_place n n' \<longleftrightarrow> nd_ID n' = nd_ID n \<and> nd_incarnation n' = nd_incarnation n \<and> nd_opts n' = nd_opts n \<and>
     nd_layout n' = nd_layout n"

text \<open>The replication loop runs exactly for followers.\<close>

definition loops_ok :: "NodeServer \<Rightarrow> bool" where
  "loops_ok n \<longleftrightarrow> gm_ok (nd_replicas n) \<and>
     (\<forall>ref r. map_of (nd_replicas n) ref = Some r \<longrightarrow> (hr_following r \<longleftrightarrow> rp_role (hr_part r) = NodeRoleFollower))"

definition leads_at :: "int \<Rightarrow> Replica option \<Rightarrow> bool" where
  "leads_at e po \<longleftrightarrow> (\<exists>p. po = Some p \<and> rp_role p = NodeRoleLeader \<and> rp_epoch p = e)"

lemma data_steps_status:
  assumes "data_op\<^sup>*\<^sup>* p q"
  shows "same_status p q"
  using assms
proof (induction rule: rtranclp_induct)
  case (step q r)
  from data_op_continues [OF step.hyps(2)] have "same_status q r" by (simp add: continues_def)
  with step.IH show ?case by (rule same_status_trans)
qed (simp add: same_status_def)

lemma served_place:
  assumes "served data_op\<^sup>*\<^sup>* n n'"
  shows "same_place n n'" and "loops_ok n \<Longrightarrow> loops_ok n'" and "leads_at e (lookup ref n) \<Longrightarrow> leads_at e (lookup ref n')"
proof -
  from assms have n': "n' = n\<lparr>nd_replicas := nd_replicas n', nd_ops := nd_ops n'\<rparr>"
    and ok: "gm_ok (nd_replicas n) \<longrightarrow> gm_ok (nd_replicas n')"
    and rel: "rel_option (\<lambda>r r'. hr_following r' = hr_following r \<and> data_op\<^sup>*\<^sup>* (hr_part r) (hr_part r'))
      (map_of (nd_replicas n) ref) (map_of (nd_replicas n') ref)" for ref
    unfolding served_def by blast+
  show "same_place n n'" by (subst n') (simp add: same_place_def)
  show "loops_ok n'" if "loops_ok n"
    unfolding loops_ok_def
  proof (intro conjI allI impI)
    fix ref r' assume "map_of (nd_replicas n') ref = Some r'"
    with rel [of ref] obtain r where "map_of (nd_replicas n) ref = Some r" "hr_following r' = hr_following r"
      "data_op\<^sup>*\<^sup>* (hr_part r) (hr_part r')" by (auto simp: option_rel_Some2)
    with that show "hr_following r' \<longleftrightarrow> rp_role (hr_part r') = NodeRoleFollower"
      using data_steps_status [of "hr_part r" "hr_part r'"] by (auto simp: loops_ok_def same_status_def)
  qed (use ok that in \<open>simp add: loops_ok_def\<close>)
  show "leads_at e (lookup ref n')" if "leads_at e (lookup ref n)"
    using that served_lookup [OF assms, of ref] data_steps_status
    by (fastforce simp: leads_at_def option_rel_Some1 same_status_def)
qed

lemma follow_answer_role: "rp_role (fst (follow_answer req resp p)) = rp_role p"
proof -
  have "rp_role (snd (apply_entries es p)) = rp_role p" for es
    using apply_entries_evolves [of p es] by (simp add: evolves_def same_status_def)
  then have "rp_role (snd (ApplyLogEntries es e p)) = rp_role p" for es e
    by (auto simp: ApplyLogEntries_def split: prod.splits option.splits) (metis snd_conv)+
  then show ?thesis
    unfolding follow_answer_def
    by (auto simp: LoadSnapshot_def Replica_Reset_def resetLocked_def
        split: follow_request.splits node_response.splits prod.splits option.splits) (metis snd_conv)+
qed

lemma deliver_place:
  shows "same_place n (deliver_answer ref req resp n)" and "loops_ok n \<Longrightarrow> loops_ok (deliver_answer ref req resp n)"
proof -
  have put: "same_place n (put_part ref (fst (follow_answer req resp part)) n)"
    "loops_ok n \<Longrightarrow> lookup ref n = Some part \<Longrightarrow> loops_ok (put_part ref (fst (follow_answer req resp part)) n)" for part
    by (auto simp: same_place_def loops_ok_def put_part_def lookup_def gomap_simps follow_answer_role split: option.splits)
  then show "same_place n (deliver_answer ref req resp n)" "loops_ok n \<Longrightarrow> loops_ok (deliver_answer ref req resp n)"
    by (auto simp: deliver_answer_def case_prod_beta Let_def same_place_def loops_ok_def split: option.splits)
qed

text \<open>Reconciling with a layout that assigns nothing, or with none.\<close>

lemma reconcile_nothing:
  "lo = None \<or> (\<exists>l. lo = Some l \<and> uninitialised l) \<Longrightarrow> nd_replicas (reconcile lo n) = []"
  by (auto simp: reconcile_def desired_replicas_def Each_def uninitialised_def Let_def)

lemma lookup_nothing: "nd_replicas n = [] \<Longrightarrow> lookup ref n = None"
  by (simp add: lookup_def)

lemma Find_uninitialised: "uninitialised l \<Longrightarrow> Find (Some l) ref = None"
  by (simp add: Find_def uninitialised_def)

lemma lookup_reconcile_stored:
  assumes "stored_ok l" and "gm_ok (nd_replicas n)"
  shows "lookup ref (reconcile (Some l) n) =
    (if is_member n l
     then (case Find (Some l) ref of
             Some p \<Rightarrow> if Has p (nd_ID n) then Some (hr_part (reconciled n ref p (map_of (nd_replicas n) ref))) else None
           | None \<Rightarrow> None)
     else None)"
proof (cases "uninitialised l")
  case True
  then show ?thesis by (simp add: Find_uninitialised lookup_nothing reconcile_nothing)
next
  case False
  with assms(1) have "layout_ok l" by (simp add: stored_ok_def)
  then show ?thesis using assms(2) by (rule lookup_reconcile)
qed

lemma loops_ok_reconcile:
  assumes "loops_ok n" and "\<And>l. lo = Some l \<Longrightarrow> stored_ok l"
  shows "loops_ok (reconcile lo n)"
proof (cases "lo = None \<or> (\<exists>l. lo = Some l \<and> uninitialised l)")
  case True
  then show ?thesis by (simp add: reconcile_nothing loops_ok_def gm_ok_def)
next
  case False
  then obtain l where l: "lo = Some l" "layout_ok l" using assms(2) by (auto simp: stored_ok_def)
  have ok: "gm_ok (nd_replicas n)" using assms(1) by (simp add: loops_ok_def)
  have "hr_following (reconciled n ref p old) \<longleftrightarrow> rp_role (hr_part (reconciled n ref p old)) = NodeRoleFollower" for ref p old
    by (simp add: reconciled_def Let_def)
  then show ?thesis
    using gm_ok_reconcile [OF ok] by (auto simp: loops_ok_def l(1) map_of_reconcile [OF l(2) ok] split: if_splits option.splits)
qed

lemma led_by_layout:
  assumes "stored_ok l" and "gm_ok (nd_replicas n)" and "lookup ref (reconcile (Some l) n) = Some part"
    and "rp_role part = NodeRoleLeader"
  obtains p where "is_member n l" and "Find (Some l) ref = Some p" and "p_Leader p = nd_ID n" and "p_Epoch p = rp_epoch part"
proof -
  from assms(3) obtain p where p: "is_member n l" "Find (Some l) ref = Some p"
    and part: "part = hr_part (reconciled n ref p (map_of (nd_replicas n) ref))"
    by (auto simp: lookup_reconcile_stored [OF assms(1,2)] split: if_splits option.splits)
  with assms(4) have "p_Leader p = nd_ID n" by (auto simp: reconciled_def Let_def split: if_splits)
  with p part show ?thesis by (intro that [of p]) (simp_all add: reconciled_def Let_def)
qed

lemma leads_by_layout:
  assumes "stored_ok l" and "gm_ok (nd_replicas n)" and "is_member n l" and "Find (Some l) ref = Some p"
    and "p_Leader p = nd_ID n"
  shows "leads_at (p_Epoch p) (lookup ref (reconcile (Some l) n))"
  using assms by (auto simp: lookup_reconcile_stored leads_at_def reconciled_def Has_def Let_def)

section \<open>The history of layouts\<close>

definition history_ok :: "Layout option list \<Rightarrow> bool" where
  "history_ok h \<longleftrightarrow> (\<forall>l. Some l \<in> set h \<longrightarrow> stored_ok l) \<and>
     (\<forall>j k l. j \<le> k \<and> k < length h \<and> h ! j = Some l \<longrightarrow> (\<exists>l'. h ! k = Some l' \<and> succeeds l l'))"

lemma history_stored: "history_ok h \<Longrightarrow> k < length h \<Longrightarrow> h ! k = Some l \<Longrightarrow> stored_ok l"
  unfolding history_ok_def by (metis nth_mem)

lemma history_later:
  assumes "history_ok h" and "j \<le> k" and "k < length h" and "h ! j = Some l"
  obtains l' where "h ! k = Some l'" and "succeeds l l'"
  using assms unfolding history_ok_def by blast

lemma history_append:
  assumes h: "history_ok h" "h \<noteq> []" and later: "\<And>l. last h = Some l \<Longrightarrow> \<exists>l'. lo = Some l' \<and> succeeds l l'"
    and ok: "\<And>l. lo = Some l \<Longrightarrow> stored_ok l"
  shows "history_ok (h @ [lo])"
  unfolding history_ok_def
proof (intro conjI allI impI)
  fix j k l assume jk: "j \<le> k \<and> k < length (h @ [lo]) \<and> (h @ [lo]) ! j = Some l"
  show "\<exists>l'. (h @ [lo]) ! k = Some l' \<and> succeeds l l'"
  proof (cases "k < length h")
    case True
    with jk have "j < length h" by simp
    with jk have "h ! j = Some l" by (simp add: nth_append)
    with True jk show ?thesis using history_later [OF h(1), of j k l] by (auto simp: nth_append)
  next
    case False
    with jk have k: "k = length h" by simp
    show ?thesis
    proof (cases "j = length h")
      case True
      with jk k show ?thesis by (auto simp: succ.refl)
    next
      case False
      with jk k have j: "j \<le> length h - 1" "length h - 1 < length h" "h ! j = Some l" by (auto simp: nth_append)
      then obtain m where "h ! (length h - 1) = Some m" "succeeds l m" by (rule history_later [OF h(1)])
      with later h(2) k show ?thesis by (auto simp: last_conv_nth intro: succ.trans)
    qed
  qed
next
  fix l assume "Some l \<in> set (h @ [lo])"
  with h(1) ok show "stored_ok l" unfolding history_ok_def by auto
qed

text \<open>Two layouts of the history that name leaders at one epoch name the same incarnation of the same node.\<close>

lemma one_seat:
  assumes h: "history_ok h" and j: "j < length h" "h ! j = Some l" and k: "k < length h" "h ! k = Some l'"
    and a: "Find (Some l) ref = Some a" and b: "Find (Some l') ref = Some b"
    and e: "p_Epoch a = p_Epoch b" and n: "p_Leader a \<noteq> ''''" "p_Leader b \<noteq> ''''"
  shows "p_Leader a = p_Leader b \<and> map_of (l_Members l) (p_Leader b) = map_of (l_Members l') (p_Leader b)"
proof -
  note ok = history_stored [OF h j] history_stored [OF h k]
  have "seat l l' a b \<or> seat l' l b a"
  proof (cases "j \<le> k")
    case True
    with history_later [OF h True k(1) j(2)] k(2) have "succeeds l l'" by auto
    then show ?thesis using succeeds_leader [OF _ ok a b] by blast
  next
    case False
    with history_later [OF h _ j(1) k(2)] j(2) have "succeeds l' l" by (metis nat_le_linear option.inject)
    then show ?thesis using succeeds_leader [OF _ ok(2,1) b a] by blast
  qed
  with e n show ?thesis by (auto simp: seat_def leads_on_def)
qed

text \<open>A partition that two layouts have is in every layout between them.\<close>

lemma Find_between:
  assumes h: "history_ok h" and jk: "j \<le> i" "i \<le> k" "k < length h"
    and l: "h ! j = Some l" "h ! i = Some m" "h ! k = Some l'"
    and a: "Find (Some l) ref = Some a" and b: "Find (Some l') ref = Some b"
  obtains p where "Find (Some m) ref = Some p" and "seat l m a p" and "seat m l' p b"
proof -
  from jk have lt: "j < length h" "i < length h" by auto
  note ok = history_stored [OF h lt(1) l(1)] history_stored [OF h lt(2) l(2)] history_stored [OF h jk(3) l(3)]
  have lm: "succeeds l m" using history_later [OF h jk(1) lt(2) l(1)] l(2) by auto
  have ml: "succeeds m l'" using history_later [OF h jk(2,3) l(2)] l(3) by auto
  let ?g = "ref_Generation ref" and ?i = "nat (ref_ID ref)"
  have "table l ?g \<noteq> []" using Find_tableD(1) [OF ok(1) a] by auto
  moreover have gen: "l_Generation m \<le> ?g" using Find_tableD(3) [OF ok(3) b] ml by (simp add: succeeds_def)
  ultimately have "list_all2 (seat l m) (table l ?g) (table m ?g)" using lm by (auto simp: succeeds_def)
  then have len: "length (table m ?g) = length (table l ?g)" by (simp add: list_all2_lengthD)
  have "0 \<le> ref_ID ref" using a by (auto simp: Find_def split: if_splits option.splits)
  then have "Find (Some m) ref = Some (table m ?g ! ?i)"
    using len Find_tableD(1) [OF ok(1) a] by (auto simp: Find_def table_def split: if_splits option.splits)
  then show ?thesis
    using succeeds_leader [OF lm ok(1,2) a] succeeds_leader [OF ml ok(2,3) _ b] by (intro that) auto
qed

section \<open>The invariant\<close>

definition node_inv :: "Options \<Rightarrow> cluster \<Rightarrow> node_id \<Rightarrow> bool" where
  "node_inv opts c n \<longleftrightarrow>
     (let nd = cl_node c n in
      nd_ID nd = n \<and> nd_opts nd = opts \<and> loops_ok nd \<and> nd_incarnation nd \<in> cl_used c n \<and>
      cl_seen c n < length (cl_history c) \<and> nd_layout nd \<in> {None, cl_history c ! cl_seen c n} \<and>
      (\<forall>l ref p. nd_layout nd = Some l \<and> is_member nd l \<and> Find (Some l) ref = Some p \<and> p_Leader p = n \<longrightarrow>
         leads_at (p_Epoch p) (lookup ref nd)))"

text \<open>An epoch that was led: the layout that asked for it, for an incarnation of its leader that there was.\<close>

definition led_inv :: "cluster \<Rightarrow> PartitionRef \<Rightarrow> int \<Rightarrow> bool" where
  "led_inv c ref e \<longleftrightarrow> (\<exists>j l p. j < length (cl_history c) \<and> cl_history c ! j = Some l \<and> Find (Some l) ref = Some p \<and>
     p_Epoch p = e \<and> p_Leader p \<noteq> '''' \<and> gm_get 0 (l_Members l) (p_Leader p) \<in> cl_used c (p_Leader p) \<and>
     (gm_get 0 (l_Members l) (p_Leader p) = nd_incarnation (cl_node c (p_Leader p)) \<longrightarrow>
        j \<le> cl_seen c (p_Leader p) \<and> nd_layout (cl_node c (p_Leader p)) \<noteq> None))"

definition cluster_inv :: "Options \<Rightarrow> cluster \<Rightarrow> bool" where
  "cluster_inv opts c \<longleftrightarrow> store_ok (cl_store c) \<and> cl_history c \<noteq> [] \<and> last (cl_history c) = stored_layout (cl_store c) \<and>
     history_ok (cl_history c) \<and> (\<forall>n. node_inv opts c n) \<and>
     (\<forall>ref. (group_step ref opts)\<^sup>*\<^sup>* group_init (grp ref c)) \<and>
     (\<forall>ref. \<forall>e \<in> cl_led c ref. led_inv c ref e)"

lemma cluster_invD:
  assumes "cluster_inv opts c"
  shows "history_ok (cl_history c)" and "node_inv opts c n" and "(group_step ref opts)\<^sup>*\<^sup>* group_init (grp ref c)"
    and "e \<in> cl_led c ref \<Longrightarrow> led_inv c ref e"
  using assms unfolding cluster_inv_def by blast+

lemma cluster_inv_step:
  assumes "cluster_inv opts c" and "cl_store c' = cl_store c" and "cl_history c' = cl_history c"
    and "\<And>n. node_inv opts c' n" and "\<And>ref. (group_step ref opts)\<^sup>*\<^sup>* (grp ref c) (grp ref c')"
    and "\<And>ref e. e \<in> cl_led c' ref \<Longrightarrow> led_inv c' ref e"
  shows "cluster_inv opts c'"
proof -
  have "(group_step ref opts)\<^sup>*\<^sup>* group_init (grp ref c')" for ref
    using cluster_invD(3) [OF assms(1)] assms(5) by (rule rtranclp_trans)
  with assms(1-4,6) show ?thesis unfolding cluster_inv_def by metis
qed

lemma node_inv_leads:
  assumes "node_inv opts c n" and "nd_layout (cl_node c n) = Some l" and "is_member (cl_node c n) l"
    and "Find (Some l) ref = Some p" and "p_Leader p = n"
  shows "leads_at (p_Epoch p) (lookup ref (cl_node c n))"
  using assms unfolding node_inv_def Let_def by blast

lemma gm_get_cong: "map_of m k = map_of m' k \<Longrightarrow> gm_get d m k = gm_get d m' k"
  by (simp add: gm_get_def)

text \<open>
  The heart of the matter. When a node is told to lead at an epoch that was led before, it is that
  leader, the same incarnation, and has led at that epoch ever since.
\<close>

lemma led_again:
  assumes inv: "cluster_inv opts c" and n: "n \<noteq> ''''" and k: "cl_seen c n \<le> k" "k < length (cl_history c)"
    and l: "cl_history c ! k = Some l" and inc: "i = nd_incarnation (cl_node c n) \<or> i \<notin> cl_used c n"
    and mem: "gm_get 0 (l_Members l) n = i" and p: "Find (Some l) ref = Some p" "p_Leader p = n"
    and led: "p_Epoch p \<in> cl_led c ref"
  shows "leads_at (p_Epoch p) (lookup ref (cl_node c n))"
proof -
  let ?h = "cl_history c" and ?nd = "cl_node c n"
  note h = cluster_invD(1) [OF inv]
  from cluster_invD(4) [OF inv led] obtain j l0 a where j: "j < length ?h" "?h ! j = Some l0"
    and a: "Find (Some l0) ref = Some a" "p_Epoch a = p_Epoch p" "p_Leader a \<noteq> ''''"
    and used: "gm_get 0 (l_Members l0) (p_Leader a) \<in> cl_used c (p_Leader a)"
    and seen: "gm_get 0 (l_Members l0) (p_Leader a) = nd_incarnation (cl_node c (p_Leader a)) \<Longrightarrow>
      j \<le> cl_seen c (p_Leader a) \<and> nd_layout (cl_node c (p_Leader a)) \<noteq> None"
    unfolding led_inv_def by blast
  from one_seat [OF h j k(2) l a(1) p(1) a(2,3)] n p(2) have an: "p_Leader a = n"
    and mm: "map_of (l_Members l0) n = map_of (l_Members l) n" by auto
  from gm_get_cong [OF mm, of 0] mem have i0: "gm_get 0 (l_Members l0) n = i" by simp
  with used an inc have i: "i = nd_incarnation ?nd" by auto
  from seen i0 i an have j': "j \<le> cl_seen c n" "nd_layout ?nd \<noteq> None" by auto
  have ni: "node_inv opts c n" using inv by (rule cluster_invD)
  with j' obtain l1 where l1: "nd_layout ?nd = Some l1" "?h ! cl_seen c n = Some l1" by (auto simp: node_inv_def Let_def)
  obtain q where q: "Find (Some l1) ref = Some q" "seat l0 l1 a q" "seat l1 l q p"
    using h j'(1) k j(2) l1(2) l a(1) p(1) by (rule Find_between)
  have qe: "p_Epoch q = p_Epoch p" using q(2,3) a(2) by (simp add: seat_def leads_on_def)
  then have qn: "p_Leader q = n" using q(3) p(2) n by (auto simp: seat_def leads_on_def)
  have "map_of (l_Members l1) n = map_of (l_Members l) n" using q(3) qe qn p(2) n by (auto simp: seat_def)
  then have "is_member ?nd l1"
    using gm_get_cong [of "l_Members l1" n "l_Members l" 0] mem i ni by (simp add: is_member_def node_inv_def Let_def)
  with node_inv_leads [OF ni l1(1) _ q(1) qn] qe show ?thesis by simp
qed

lemma settle_group:
  assumes inv: "cluster_inv opts c" and n: "n \<noteq> ''''" and k: "cl_seen c n \<le> k" "k < length (cl_history c)"
    and i: "i = nd_incarnation (cl_node c n) \<or> i \<notin> cl_used c n"
    and lo: "lo = None \<or> lo = cl_history c ! k" and nd: "nd = (cl_node c n)\<lparr>nd_incarnation := i, nd_layout := lo\<rparr>"
  shows "group_step ref opts (grp ref c) (regroup n (lookup ref (reconcile lo nd)) (grp ref c))"
proof (cases "lo = None \<or> (\<exists>l. lo = Some l \<and> uninitialised l)")
  case True
  then show ?thesis by (simp add: lookup_nothing reconcile_nothing regroup_def group_step.drop)
next
  case False
  then obtain l where l: "lo = Some l" and init: "\<not> uninitialised l" by auto
  with lo have hl: "cl_history c ! k = Some l" by auto
  have st: "stored_ok l" using cluster_invD(1) [OF inv] k(2) hl by (rule history_stored)
  with init have ok: "layout_ok l" by (simp add: stored_ok_def)
  have ni: "node_inv opts c n" using inv by (rule cluster_invD)
  then have nd': "nd_ID nd = n" "nd_opts nd = opts" "gm_ok (nd_replicas nd)" "lookup ref nd = lookup ref (cl_node c n)"
    by (simp_all add: nd node_inv_def loops_ok_def Let_def)
  obtain H G where gi: "group_inv H G (grp ref c)" using group_inv_reachable [OF cluster_invD(3) [OF inv]] by blast
  have "group_step ref (nd_opts nd) (grp ref c) (regroup (nd_ID nd) (lookup ref (reconcile (Some l) nd)) (grp ref c))"
  proof (rule reconcile_group_step [OF ok nd'(3) gi])
    show "g_part (grp ref c) (nd_ID nd) = lookup ref nd" using nd' by simp
    fix p assume m: "is_member nd l" and p: "Find (Some l) ref = Some p" "p_Leader p = nd_ID nd"
    have "0 \<le> p_Epoch p" using st Find_parts_of [OF p(1)] by (auto simp: stored_ok_def)
    moreover have "leads_at (p_Epoch p) (lookup ref (cl_node c n))" if "p_Epoch p \<in> cl_led c ref"
      using led_again [OF inv n k hl i _ p(1) _ that] m p(2) nd'(1) by (simp add: is_member_def nd)
    ultimately show "0 \<le> p_Epoch p \<and> (p_Epoch p \<in> g_led (grp ref c) \<longrightarrow>
        (\<exists>part. lookup ref nd = Some part \<and> rp_role part = NodeRoleLeader \<and> rp_epoch part = p_Epoch p))"
      by (auto simp: leads_at_def nd')
  qed
  with nd' l show ?thesis by simp
qed

text \<open>A node takes up a layout, as the incarnation it was or as a new one.\<close>

lemma settle_led:
  assumes inv: "cluster_inv opts c" and n: "n \<noteq> ''''" and k: "cl_seen c n \<le> k" "k < length (cl_history c)"
    and i: "i = nd_incarnation (cl_node c n) \<or> i \<notin> cl_used c n"
    and lo: "lo = cl_history c ! k \<or> lo = None \<and> i \<notin> cl_used c n"
    and nd: "nd = (cl_node c n)\<lparr>nd_incarnation := i, nd_layout := lo\<rparr>"
    and c': "c' = settle n (reconcile lo nd)
      (c\<lparr>cl_seen := (cl_seen c)(n := k), cl_used := (cl_used c)(n := insert i (cl_used c n))\<rparr>)"
    and e: "e \<in> cl_led c' ref"
  shows "led_inv c' ref e"
proof (cases "e \<in> cl_led c ref")
  case True
  from cluster_invD(4) [OF inv True] obtain j l a where j: "j < length (cl_history c)" "cl_history c ! j = Some l"
    and a: "Find (Some l) ref = Some a" "p_Epoch a = e" "p_Leader a \<noteq> ''''"
    and used: "gm_get 0 (l_Members l) (p_Leader a) \<in> cl_used c (p_Leader a)"
    and seen: "gm_get 0 (l_Members l) (p_Leader a) = nd_incarnation (cl_node c (p_Leader a)) \<Longrightarrow>
      j \<le> cl_seen c (p_Leader a) \<and> nd_layout (cl_node c (p_Leader a)) \<noteq> None"
    unfolding led_inv_def by blast
  have "j \<le> k \<and> lo \<noteq> None" if "p_Leader a = n" "gm_get 0 (l_Members l) n = i"
  proof -
    from used that i lo have "i = nd_incarnation (cl_node c n)" "lo = cl_history c ! k" by auto
    with seen that k have jk: "j \<le> k" by auto
    obtain l' where "cl_history c ! k = Some l'" using cluster_invD(1) [OF inv] jk k(2) j(2) by (rule history_later)
    with jk \<open>lo = cl_history c ! k\<close> show ?thesis by simp
  qed
  with used seen have "gm_get 0 (l_Members l) (p_Leader a) \<in> cl_used c' (p_Leader a) \<and>
    (gm_get 0 (l_Members l) (p_Leader a) = nd_incarnation (cl_node c' (p_Leader a)) \<longrightarrow>
        j \<le> cl_seen c' (p_Leader a) \<and> nd_layout (cl_node c' (p_Leader a)) \<noteq> None)"
    by (auto simp: c' settle_def nd)
  with j a show ?thesis unfolding led_inv_def by (intro exI [of _ j] exI [of _ l] exI [of _ a]) (simp add: c' settle_def)
next
  case False
  with e obtain part where part: "lookup ref (reconcile lo nd) = Some part" "rp_role part = NodeRoleLeader" "rp_epoch part = e"
    by (auto simp: c' settle_def leads_now_def split: if_splits option.splits)
  then have "lo \<noteq> None" using reconcile_nothing [of lo nd] lookup_nothing by fastforce
  with lo obtain l where l: "lo = Some l" "cl_history c ! k = Some l" by auto
  have st: "stored_ok l" using cluster_invD(1) [OF inv] k(2) l(2) by (rule history_stored)
  have ni: "node_inv opts c n" using inv by (rule cluster_invD)
  then have ok: "gm_ok (nd_replicas nd)" "nd_ID nd = n" by (simp_all add: nd node_inv_def loops_ok_def Let_def)
  obtain p where "is_member nd l" "Find (Some l) ref = Some p" "p_Leader p = nd_ID nd" "p_Epoch p = rp_epoch part"
    using st ok(1) part(1) [unfolded l(1)] part(2) by (rule led_by_layout)
  with ok(2) k(2) l part(3) n show ?thesis
    unfolding led_inv_def by (intro exI [of _ k] exI [of _ l] exI [of _ p]) (simp add: c' settle_def nd is_member_def)
qed

lemma settle_node:
  assumes inv: "cluster_inv opts c" and k: "cl_seen c n \<le> k" "k < length (cl_history c)"
    and lo: "lo = None \<or> lo = cl_history c ! k" and nd: "nd = (cl_node c n)\<lparr>nd_incarnation := i, nd_layout := lo\<rparr>"
    and c': "c' = settle n (reconcile lo nd)
      (c\<lparr>cl_seen := (cl_seen c)(n := k), cl_used := (cl_used c)(n := insert i (cl_used c n))\<rparr>)"
  shows "node_inv opts c' m"
proof (cases "m = n")
  case False
  with cluster_invD(2) [OF inv, of m] show ?thesis by (simp add: node_inv_def c' settle_def)
next
  case True
  have st: "lo = Some l \<Longrightarrow> stored_ok l" for l
    using history_stored [OF cluster_invD(1) [OF inv] k(2)] lo by auto
  have ni: "node_inv opts c n" using inv by (rule cluster_invD)
  then have ok: "loops_ok nd" "nd_ID nd = n" "nd_opts nd = opts" by (simp_all add: nd node_inv_def loops_ok_def Let_def)
  then have lp: "loops_ok (reconcile lo nd)" using st by (intro loops_ok_reconcile)
  have "leads_at (p_Epoch p) (lookup ref (reconcile lo nd))"
    if "lo = Some l" "is_member (reconcile lo nd) l" "Find (Some l) ref = Some p" "p_Leader p = n" for l ref p
    using leads_by_layout [of l nd ref p] st that ok by (simp add: is_member_def loops_ok_def)
  moreover have "nd_layout nd = lo" "nd_incarnation nd = i" by (simp_all add: nd)
  ultimately show ?thesis
    using True ok lp k(2) lo by (auto simp: node_inv_def c' settle_def Let_def)
qed

lemma settle_inv:
  assumes inv: "cluster_inv opts c" and n: "n \<noteq> ''''" and k: "cl_seen c n \<le> k" "k < length (cl_history c)"
    and i: "i = nd_incarnation (cl_node c n) \<or> i \<notin> cl_used c n"
    and lo: "lo = cl_history c ! k \<or> lo = None \<and> i \<notin> cl_used c n"
  shows "cluster_inv opts (settle n (reconcile lo ((cl_node c n)\<lparr>nd_incarnation := i, nd_layout := lo\<rparr>))
      (c\<lparr>cl_seen := (cl_seen c)(n := k), cl_used := (cl_used c)(n := insert i (cl_used c n))\<rparr>))" (is "cluster_inv opts ?c'")
proof (rule cluster_inv_step [OF inv])
  have lo': "lo = None \<or> lo = cl_history c ! k" using lo by auto
  show "(group_step ref opts)\<^sup>*\<^sup>* (grp ref c) (grp ref ?c')" for ref
    unfolding grp_settle grp_frame by (intro r_into_rtranclp settle_group [OF inv n k i lo' refl])
  show "node_inv opts ?c' m" for m by (rule settle_node [OF inv k lo' refl refl])
  show "led_inv ?c' ref e" if "e \<in> cl_led ?c' ref" for ref e by (rule settle_led [OF inv n k i lo refl refl that])
qed (simp_all add: settle_def)

section \<open>Every step keeps it\<close>

lemma place_inv:
  assumes inv: "cluster_inv opts c"
    and c': "cl_store c' = cl_store c" "cl_history c' = cl_history c" "cl_seen c' = cl_seen c" "cl_used c' = cl_used c"
      "cl_led c' = cl_led c"
    and place: "\<And>n. same_place (cl_node c n) (cl_node c' n)" "\<And>n. loops_ok (cl_node c n) \<Longrightarrow> loops_ok (cl_node c' n)"
      "\<And>n ref e. leads_at e (lookup ref (cl_node c n)) \<Longrightarrow> leads_at e (lookup ref (cl_node c' n))"
    and grp: "\<And>ref. (group_step ref opts)\<^sup>*\<^sup>* (grp ref c) (grp ref c')"
  shows "cluster_inv opts c'"
proof (rule cluster_inv_step [OF inv c'(1,2) _ grp])
  have mem: "is_member (cl_node c' n) l = is_member (cl_node c n) l" for n l
    using place(1) [of n] by (simp add: same_place_def is_member_def)
  show "node_inv opts c' n" for n
    using cluster_invD(2) [OF inv, of n] place(1) [of n] place(2) [of n] place(3) [of _ _ n]
    unfolding node_inv_def Let_def mem c' same_place_def by metis
  show "led_inv c' ref e" if "e \<in> cl_led c' ref" for ref e
    using cluster_invD(4) [OF inv that [unfolded c']] place(1) unfolding led_inv_def c' by (simp add: same_place_def)
qed

lemma set_node_inv:
  assumes inv: "cluster_inv opts c" and nd: "same_place (cl_node c n) nd" "loops_ok (cl_node c n) \<Longrightarrow> loops_ok nd"
    "\<And>ref e. leads_at e (lookup ref (cl_node c n)) \<Longrightarrow> leads_at e (lookup ref nd)"
    and grp: "\<And>ref. (group_step ref opts)\<^sup>*\<^sup>* (grp ref c) (grp ref c')"
    and c': "c' = set_node n nd c\<lparr>cl_flight := fl\<rparr>"
  shows "cluster_inv opts c'"
  using inv _ _ _ _ _ _ _ _ grp
  by (rule place_inv) (use nd in \<open>auto simp: c' set_node_def same_place_def\<close>)

lemma set_request_inv:
  assumes inv: "cluster_inv opts c" and step: "group_step ref opts (grp ref c) (set_flight n f (grp ref c))"
  shows "cluster_inv opts (set_request n ref f c)"
  using inv _ _ _ _ _ _ _ _ _
proof (rule place_inv)
  show "(group_step ref' opts)\<^sup>*\<^sup>* (grp ref' c) (grp ref' (set_request n ref f c))" for ref'
    using step by (auto simp: grp_set_request)
qed (simp_all add: set_request_def same_place_def)

lemma grp_served_request:
  assumes "served data_op\<^sup>*\<^sup>* (cl_node c m) nd"
    and "group_step ref opts (grp ref c) (set_part m (lookup ref nd) (set_flight n f (grp ref c)))"
  shows "(group_step ref' opts)\<^sup>*\<^sup>* (grp ref' c) (grp ref' (set_request n ref f (set_node m nd c)))"
proof (cases "ref' = ref")
  case True
  have "set_flight n f (set_part m (lookup ref nd) (grp ref c)) = set_part m (lookup ref nd) (set_flight n f (grp ref c))"
    by (simp add: set_flight_def set_part_def)
  with True assms(2) show ?thesis by (auto simp: grp_set_request grp_set_node)
next
  case False
  with served_group [OF assms(1), of ref'] show ?thesis by (simp add: grp_set_request)
qed

lemma serve_snapshot_inv:
  assumes inv: "cluster_inv opts c" and fl: "cl_flight c n ref = Asked m (AskSnapshot addr ref e)"
    and h: "handleSnapshot now (Some ref) (show_int e) (cl_node c m) = (resp, nd)"
  shows "cluster_inv opts (set_request n ref (Answered (AskSnapshot addr ref e) resp) (set_node m nd c))"
proof (rule set_node_inv [OF inv])
  have sv: "served data_op\<^sup>*\<^sup>* (cl_node c m) nd" using dop.served_handleSnapshot [of "cl_node c m" now "Some ref" "show_int e"] h by simp
  note pl = served_place [OF sv]
  show "same_place (cl_node c m) nd" by (rule pl)
  show "loops_ok nd" if "loops_ok (cl_node c m)" using that by (rule pl)
  show "leads_at e (lookup ref nd)" if "leads_at e (lookup ref (cl_node c m))" for ref e using that by (rule pl)
  have "group_step ref opts (grp ref c) (set_part m (lookup ref nd) (set_flight n (Answered (AskSnapshot addr ref e) resp) (grp ref c)))"
  proof (cases "lookup ref (cl_node c m)")
    case None
    with h have r: "resp = NError 404" "nd = cl_node c m" by (auto simp: handleSnapshot_def)
    have "set_part m (lookup ref nd) (set_flight n (Answered (AskSnapshot addr ref e) resp) (grp ref c)) =
        set_flight n (Answered (AskSnapshot addr ref e) (NError 404)) (grp ref c)"
      by (auto simp: r set_part_def set_flight_def grp_def)
    with fl show ?thesis by (simp add: group_step.refuse)
  next
    case (Some q)
    obtain resp' q' where s: "snapshot_part now (show_int e) q = (resp', q')" by fastforce
    with h Some have "resp = resp'" "lookup ref nd = Some q'"
      by (auto simp: handleSnapshot_def lookup_put split: node_response.splits)
    with fl Some s show ?thesis by (simp add: group_step.serve_snapshot)
  qed
  then show "(group_step ref' opts)\<^sup>*\<^sup>* (grp ref' c)
      (grp ref' (set_request n ref (Answered (AskSnapshot addr ref e) resp) (set_node m nd c)))" for ref'
    by (rule grp_served_request [OF sv])
qed (simp add: set_request_def)

lemma serve_entries_inv:
  assumes inv: "cluster_inv opts c" and fl: "cl_flight c n ref = Asked m (AskEntries addr rq)" and rq: "rq_ref rq = Some ref"
    and h: "handleReplicate rq None (cl_node c m) = resp"
  shows "cluster_inv opts (set_request n ref
    (if resp = NClosed then Waiting m (AskEntries addr rq) else Answered (AskEntries addr rq) resp) c)"
proof (rule set_request_inv [OF inv])
  let ?f = "if resp = NClosed then Waiting m (AskEntries addr rq) else Answered (AskEntries addr rq) resp"
  show "group_step ref opts (grp ref c) (set_flight n ?f (grp ref c))"
  proof (cases "\<exists>e d a q. rq_epoch rq = Some e \<and> rq_dataEpoch rq = Some d \<and> rq_after rq = Some a \<and> lookup ref (cl_node c m) = Some q")
    case True
    then obtain e d a q where r: "rq_epoch rq = Some e" "rq_dataEpoch rq = Some d" "rq_after rq = Some a"
      "lookup ref (cl_node c m) = Some q" by blast
    have "replicate_begin e d a (rq_wait rq) q \<noteq> Some NClosed"
      by (auto simp: replicate_begin_def split: prod.splits bool.splits if_splits)
    with h r rq have "?f = (case replicate_begin e d a (rq_wait rq) q of
        Some resp \<Rightarrow> Answered (AskEntries addr rq) resp | None \<Rightarrow> Waiting m (AskEntries addr rq))"
      by (auto simp: handleReplicate_def split: option.splits)
    with group_step.serve_begin [of "grp ref c" n m addr rq q e d a ref opts] fl r show ?thesis by simp
  next
    case False
    with h rq obtain code where "resp = NError code" by (auto simp: handleReplicate_def split: option.splits)
    with group_step.refuse [of "grp ref c" n m "AskEntries addr rq" ref opts code] fl show ?thesis by simp
  qed
qed

lemma deliver_inv:
  assumes inv: "cluster_inv opts c" and fl: "cl_flight c n ref = Answered req resp"
  shows "cluster_inv opts (set_request n ref Idle (set_node n (deliver_answer ref req resp (cl_node c n)) c))"
    (is "cluster_inv opts ?c'")
proof (rule set_node_inv [OF inv])
  let ?nd = "deliver_answer ref req resp (cl_node c n)"
  show "same_place (cl_node c n) ?nd" "loops_ok (cl_node c n) \<Longrightarrow> loops_ok ?nd" by (rule deliver_place)+
  obtain H G where gi: "group_inv H G (grp ref c)" using group_inv_reachable [OF cluster_invD(3) [OF inv]] by blast
  show "leads_at e (lookup ref' ?nd)" if "leads_at e (lookup ref' (cl_node c n))" for ref' e
    using that leader_idle(1) [OF gi, of n] fl by (auto simp: lookup_deliver leads_at_def)
  have "group_step ref opts (grp ref c) (set_part n (lookup ref ?nd) (set_flight n Idle (grp ref c)))"
  proof (cases "lookup ref (cl_node c n)")
    case None
    then have "set_part n (lookup ref ?nd) (set_flight n Idle (grp ref c)) = set_flight n Idle (grp ref c)"
      by (auto simp: lookup_deliver set_part_def set_flight_def grp_def)
    then show ?thesis by (simp add: group_step.fails)
  next
    case (Some p)
    with fl show ?thesis by (simp add: lookup_deliver group_step.deliver)
  qed
  moreover have "grp ref ?c' = set_part n (lookup ref ?nd) (set_flight n Idle (grp ref c))"
    by (simp add: grp_set_request grp_set_node set_part_def set_flight_def)
  moreover have "grp ref' ?c' = grp ref' c" if "ref' \<noteq> ref" for ref'
    using that by (auto simp: grp_set_request grp_set_node lookup_deliver set_part_def fun_upd_idem_iff intro!: group.equality)
  ultimately show "(group_step ref' opts)\<^sup>*\<^sup>* (grp ref' c) (grp ref' ?c')" for ref'
    by (cases "ref' = ref") auto
qed (simp add: set_request_def)

lemma control_inv:
  assumes inv: "cluster_inv opts c" and step: "store_step (cl_store c) st"
    and h': "h' = (if stored_layout st = stored_layout (cl_store c) then cl_history c else cl_history c @ [stored_layout st])"
  shows "cluster_inv opts (c\<lparr>cl_store := st, cl_history := h'\<rparr>)" (is "cluster_inv opts ?c'")
proof -
  let ?h = "cl_history c"
  from inv have st: "store_ok (cl_store c)" and h: "?h \<noteq> []" "last ?h = stored_layout (cl_store c)" "history_ok ?h"
    unfolding cluster_inv_def by blast+
  from store_step_inv [OF step st] have st': "store_ok st" and lt: "later (cl_store c) st" by simp_all
  have "\<exists>l'. stored_layout st = Some l' \<and> succeeds l l'" if "last ?h = Some l" for l
    using lt that h(2) unfolding later_def by metis
  then have "history_ok (?h @ [stored_layout st])"
    using st' by (intro history_append [OF h(3,1)]) (auto simp: store_ok_def)
  then have hist: "history_ok h'" "h' \<noteq> []" "last h' = stored_layout st" using h by (auto simp: h')
  have nth: "h' ! j = ?h ! j" "j < length h'" if "j < length ?h" for j using that by (auto simp: h' nth_append)
  have "node_inv opts ?c' n" for n
  proof -
    have ni: "node_inv opts c n" using inv by (rule cluster_invD)
    then have "cl_seen c n < length ?h" by (simp add: node_inv_def Let_def)
    from nth [OF this] ni show ?thesis unfolding node_inv_def Let_def by auto
  qed
  moreover have "led_inv ?c' ref e" if "e \<in> cl_led c ref" for ref e
    using cluster_invD(4) [OF inv that] unfolding led_inv_def by simp (metis nth)
  ultimately show ?thesis
    using st' hist cluster_invD(3) [OF inv] unfolding cluster_inv_def by auto
qed

lemma restart_inv:
  assumes inv: "cluster_inv opts c" and now: "now \<notin> cl_used c n"
  shows "cluster_inv opts (settle n (NewNode n addr opts now)
      (c\<lparr>cl_seen := (cl_seen c)(n := 0), cl_used := (cl_used c)(n := insert now (cl_used c n))\<rparr>))"
    (is "cluster_inv opts ?c'")
proof (rule cluster_inv_step [OF inv])
  have none: "lookup ref (NewNode n addr opts now) = None" for ref by (simp add: lookup_def NewNode_def)
  show "(group_step ref opts)\<^sup>*\<^sup>* (grp ref c) (grp ref ?c')" for ref
    by (simp add: grp_settle none regroup_def group_step.drop r_into_rtranclp)
  show "node_inv opts ?c' m" for m
  proof (cases "m = n")
    case True
    have "cl_history c \<noteq> []" using inv by (simp add: cluster_inv_def)
    with True show ?thesis by (simp add: node_inv_def settle_def NewNode_def loops_ok_def gm_ok_def)
  next
    case False
    with cluster_invD(2) [OF inv, of m] show ?thesis by (simp add: node_inv_def settle_def)
  qed
  show "led_inv ?c' ref e" if "e \<in> cl_led ?c' ref" for ref e
  proof -
    from that have "e \<in> cl_led c ref" by (simp add: settle_def none leads_now_def)
    from cluster_invD(4) [OF inv this] now show ?thesis
      unfolding led_inv_def by (auto simp: settle_def NewNode_def)
  qed
qed (simp_all add: settle_def)

lemma cluster_inv_steps_one:
  assumes "cluster_step opts c c'" and inv: "cluster_inv opts c"
  shows "cluster_inv opts c'"
  using assms(1)
proof cases
  case (control st)
  then show ?thesis using control_inv [OF inv _ refl] by simp
next
  case (watch n k lo)
  have ni: "node_inv opts c n" using inv by (rule cluster_invD)
  let ?i = "nd_incarnation (cl_node c n)"
  have "insert ?i (cl_used c n) = cl_used c n" using ni by (auto simp: node_inv_def Let_def)
  with settle_inv [OF inv watch(2-4), of ?i lo] watch(1,5) show ?thesis by simp
next
  case (lost n now)
  have ni: "node_inv opts c n" using inv by (rule cluster_invD)
  let ?lo = "nd_layout (cl_node c n)"
  have "cl_seen c n < length (cl_history c)" "?lo = cl_history c ! cl_seen c n \<or> ?lo = None \<and> now \<notin> cl_used c n"
    using ni lost(3) by (auto simp: node_inv_def Let_def)
  with settle_inv [OF inv lost(2) order_refl, of now ?lo] lost(1,3) show ?thesis by (simp add: rejoin_def Let_def)
next
  case (restart now n addr)
  then show ?thesis using restart_inv [OF inv] by simp
next
  case (members n ns)
  have "grp ref (set_node n ((cl_node c n)\<lparr>nd_nodes := ns\<rparr>) c) = grp ref c" for ref
    by (auto simp: grp_def set_node_def)
  with members show ?thesis
    by (intro set_node_inv [OF inv, where n = n and nd = "(cl_node c n)\<lparr>nd_nodes := ns\<rparr>" and fl = "cl_flight c"])
      (simp_all add: same_place_def loops_ok_def set_node_def)
next
  case (request n nd)
  note sv = request_served [OF request(2)]
  show ?thesis
    using served_place [OF sv] served_group [OF sv] request(1)
    by (intro set_node_inv [OF inv, where n = n and nd = nd and fl = "cl_flight c"]) (simp_all add: set_node_def)
next
  case (ask n ref r ldr addr m)
  have "loops_ok (cl_node c n)" using cluster_invD(2) [OF inv, of n] by (simp add: node_inv_def Let_def)
  with ask show ?thesis
    by (auto intro!: set_request_inv [OF inv] group_step.ask simp: lookup_def loops_ok_def)
next
  case (serve_snapshot n ref m addr e now resp nd)
  then show ?thesis using serve_snapshot_inv [OF inv] by simp
next
  case (serve_entries n ref m addr rq resp)
  then show ?thesis using serve_entries_inv [OF inv] by simp
next
  case (wake n ref m addr rq part e a)
  then show ?thesis by (auto intro!: set_request_inv [OF inv] group_step.serve_wake)
next
  case (fails n ref)
  then show ?thesis by (auto intro!: set_request_inv [OF inv] group_step.fails)
next
  case (deliver n ref req resp)
  then show ?thesis using deliver_inv [OF inv] by simp
qed

lemma cluster_inv_init:
  assumes "store_ok st"
  shows "cluster_inv opts (cluster_init opts st addr started)" (is "cluster_inv opts ?c")
proof -
  have "history_ok [stored_layout st]" using assms by (auto simp: history_ok_def store_ok_def succ.refl)
  moreover have "grp ref ?c = group_init" for ref
    by (simp add: grp_def group_init_def cluster_init_def lookup_def NewNode_def)
  moreover have "node_inv opts ?c n" for n
    by (simp add: node_inv_def cluster_init_def NewNode_def loops_ok_def gm_ok_def)
  ultimately show ?thesis using assms by (simp add: cluster_inv_def) (simp add: cluster_init_def)
qed

lemma cluster_inv_reachable:
  assumes "(cluster_step opts)\<^sup>*\<^sup>* (cluster_init opts st addr started) c" and "store_ok st"
  shows "cluster_inv opts c"
  using assms(1)
proof (induction rule: rtranclp_induct)
  case (step b c)
  then show ?case by (blast intro: cluster_inv_steps_one)
qed (rule cluster_inv_init [OF assms(2)])

section \<open>Consistency of the cluster\<close>

text \<open>
  C1. The whole system keeps the copies of a partition consistent. Let any number of controllers change
  the layout in etcd (planning rounds, resharding, the panel, elections), let nodes crash and start
  again, lose their lease and rejoin, see the layouts in order but arbitrarily late, serve clients and
  migrations, and replicate over a network that delays and loses messages, all in any order. As long as
  no node uses an incarnation twice, two nodes never lead a partition at one epoch, and any two synced
  replicas of the same data epoch are at positions of one history: the data of the one that is ahead
  is the data of the other with the entries in between applied.
\<close>

theorem cluster_consistent:
  assumes "store_ok st" and "(cluster_step opts)\<^sup>*\<^sup>* (cluster_init opts st addr started) c"
    and "lookup ref (cl_node c n) = Some p" and "lookup ref (cl_node c m) = Some q"
  shows "(rp_role p = NodeRoleLeader \<and> rp_role q = NodeRoleLeader \<and> rp_epoch p = rp_epoch q \<longrightarrow> n = m) \<and>
    (rp_synced p \<and> rp_synced q \<and> rp_dataEpoch p = rp_dataEpoch q \<and> w_currentSeq (rp_wal p) \<le> w_currentSeq (rp_wal q) \<longrightarrow>
      (\<exists>g x. tracks g p \<and> tracks (g @ x) q \<and>
        int (length x) = w_currentSeq (rp_wal q) - w_currentSeq (rp_wal p) \<and>
        contents (rp_store q) = fold (\<lambda>e. op_spec (le_Operation e)) x (contents (rp_store p)) \<and>
        (w_currentSeq (rp_wal p) = w_currentSeq (rp_wal q) \<longrightarrow> rp_keys p = rp_keys q)))"
proof -
  have "cluster_inv opts c" using assms(2,1) by (rule cluster_inv_reachable)
  then obtain H G where inv: "group_inv H G (grp ref c)"
    using group_inv_reachable [OF cluster_invD(3)] by blast
  have parts: "g_part (grp ref c) n = Some p" "g_part (grp ref c) m = Some q" using assms(3,4) by simp_all
  show ?thesis using group_invD(4) [OF inv parts] positions_agree [OF inv parts] by blast
qed

text \<open>Two nodes take up their assignments; the follower loads the leader's snapshot.\<close>

definition example_started :: "node_id \<Rightarrow> int" where
  "example_started n = (if n = ''node1'' then 11 else 12)"

definition example_directory :: "(node_id, Node) gomap" where
  "example_directory = [(''node1'', \<lparr>n_ID = ''node1'', n_Address = ''node1:7000'', n_Incarnation = 11\<rparr>)]"

lemma example_cluster:
  obtains c p q where "(cluster_step example_opts)\<^sup>*\<^sup>* (cluster_init example_opts example_store (\<lambda>n. n @ '':7000'') example_started) c"
    and "lookup (PartitionRef 1 0) (cl_node c ''node1'') = Some p" and "lookup (PartitionRef 1 0) (cl_node c ''node2'') = Some q"
    and "rp_role p = NodeRoleLeader" and "rp_role q = NodeRoleFollower" and "rp_synced p" and "rp_synced q"
    and "rp_dataEpoch p = 1" and "rp_dataEpoch q = 1" and "w_currentSeq (rp_wal p) = 1" and "w_currentSeq (rp_wal q) = 1"
proof -
  let ?ref = "PartitionRef 1 0" and ?step = "cluster_step example_opts" and ?lo = "Some example_layout"
  define c0 where "c0 = cluster_init example_opts example_store (\<lambda>n. n @ '':7000'') example_started"
  define n1 where "n1 = reconcile ?lo ((cl_node c0 ''node1'')\<lparr>nd_layout := ?lo\<rparr>)"
  define n2 where "n2 = (reconcile ?lo ((cl_node c0 ''node2'')\<lparr>nd_layout := ?lo\<rparr>))\<lparr>nd_nodes := example_directory\<rparr>"
  define c1 where "c1 = settle ''node1'' n1 (c0\<lparr>cl_seen := (cl_seen c0)(''node1'' := 0)\<rparr>)"
  define c2 where "c2 = settle ''node2'' (reconcile ?lo ((cl_node c1 ''node2'')\<lparr>nd_layout := ?lo\<rparr>))
    (c1\<lparr>cl_seen := (cl_seen c1)(''node2'' := 0)\<rparr>)"
  define c3 where "c3 = set_node ''node2'' n2 c2"
  have f: "Find ?lo ?ref = Some (example_partition 0)" by (simp add: Find_def example_layout_def)
  have n1: "lookup ?ref n1 = Some example_leader"
    using example_server_lookup [OF f]
    by (simp add: n1_def c0_def cluster_init_def example_started_def example_server_def example_leader_def)
  have n2: "map_of (nd_replicas n2) ?ref = Some \<lparr>hr_part = example_follower, hr_following = True\<rparr>"
    by (simp add: n2_def c0_def cluster_init_def map_of_reconcile [OF example_layout_ok] NewNode_def gm_ok_def is_member_def f
        example_started_def reconciled_def example_follower_def)
      (simp add: example_layout_def gm_get_def example_partition_def Has_def)
  have ldr: "leaderOf ?ref n2 = Some (''node1'', ''node1:7000'')"
    by (simp add: leaderOf_def n2_def c0_def cluster_init_def NewNode_def f)
      (simp add: example_partition_def example_directory_def reconcile_def Let_def)
  let ?req = "AskSnapshot ''node1:7000'' ?ref 1"
  have ask: "follow_ask ?ref ''node1:7000'' example_follower = ?req"
    by (simp add: follow_ask_def example_follower_def Follow_def NewPartition_def)
  have role: "rp_role example_leader = NodeRoleLeader" by (simp add: example_leader_def LeadFresh_def resetLocked_def)
  obtain snap p where sn: "Take_Snapshot 5 None example_leader = (Inr snap, p)" using Take_Snapshot_leader [OF role] by blast
  have p: "same_status example_leader p" "sn_Epoch snap = 1" "sn_Seq snap = 1" "w_currentSeq (rp_wal p) = 1"
    using sn by (auto simp: Take_Snapshot_def same_status_def WAL_Checkpoint_def Append_def Let_def split_beta example_leader_def
        LeadFresh_def resetLocked_def WAL_Reset_def)
  define n1' where "n1' = node_Inc ''snapshots_served'' (put_part ?ref p n1)"
  have sp: "handleSnapshot 5 (Some ?ref) (show_int 1) n1 = (NSnapshot snap, n1')"
    using sn n1 by (simp add: handleSnapshot_def snapshot_part_def n1'_def)
      (simp add: example_leader_def LeadFresh_def resetLocked_def)
  define c4 where "c4 = set_request ''node2'' ?ref (Asked ''node1'' ?req) c3"
  define c5 where "c5 = set_request ''node2'' ?ref (Answered ?req (NSnapshot snap)) (set_node ''node1'' n1' c4)"
  define n2' where "n2' = deliver_answer ?ref ?req (NSnapshot snap) n2"
  define c6 where "c6 = set_request ''node2'' ?ref Idle (set_node ''node2'' n2' c5)"
  note defs = c1_def c2_def c3_def c4_def c5_def c6_def settle_def set_node_def set_request_def
  have h: "cl_history c0 = [?lo]" "cl_seen c0 = (\<lambda>_. 0)"
    using example_store_layout by (simp_all add: c0_def cluster_init_def)
  have "?step c0 c1" unfolding c1_def n1_def by (rule cluster_step.watch) (simp_all add: h)
  moreover have "?step c1 c2" unfolding c2_def by (rule cluster_step.watch) (simp_all add: c1_def settle_def h)
  moreover have "?step c2 c3"
    using cluster_step.members [of example_opts c2 "''node2''" example_directory]
    by (simp add: c3_def n2_def) (simp add: c2_def c1_def settle_def)
  moreover have nodes: "cl_node c3 ''node1'' = n1" "cl_node c3 ''node2'' = n2" by (simp_all add: c3_def c2_def c1_def settle_def set_node_def)
  have "?step c3 c4"
    using cluster_step.ask [of c3 "''node2''" ?ref "\<lparr>hr_part = example_follower, hr_following = True\<rparr>" "''node1''" "''node1:7000''"
        example_opts "''node1''"] n2 ldr ask nodes
    by (simp add: c4_def) (simp add: c3_def c2_def c1_def settle_def set_node_def lookup_def c0_def cluster_init_def NewNode_def)
  moreover have "?step c4 c5"
    unfolding c5_def by (rule cluster_step.serve_snapshot) (use sp nodes in \<open>simp_all add: c4_def set_request_def\<close>)
  moreover have "?step c5 c6"
    using cluster_step.deliver [of c5 "''node2''" ?ref ?req "NSnapshot snap" example_opts] nodes
    by (simp add: c6_def n2'_def) (simp add: c5_def c4_def set_request_def set_node_def)
  ultimately have "?step\<^sup>*\<^sup>* c0 c6" by (meson rtranclp.rtrancl_refl rtranclp.rtrancl_into_rtrancl)
  moreover have "lookup ?ref (cl_node c6 ''node1'') = Some p"
    using nodes n1 by (simp add: c6_def c5_def c4_def set_request_def set_node_def n1'_def lookup_put)
  moreover obtain q where q: "lookup ?ref (cl_node c6 ''node2'') = Some q" "q = fst (follow_answer ?req (NSnapshot snap) example_follower)"
    using n2 by (simp add: c6_def set_request_def set_node_def n2'_def lookup_deliver) (simp add: lookup_def)
  moreover have "rp_role q = NodeRoleFollower" "rp_synced q" "rp_dataEpoch q = 1" "w_currentSeq (rp_wal q) = 1"
    using p(2,3) by (simp_all add: q(2) follow_answer_def LoadSnapshot_def WAL_Reset_def example_follower_def Follow_def NewPartition_def)
  moreover have "rp_role p = NodeRoleLeader" "rp_synced p" "rp_dataEpoch p = 1"
    using p(1) by (simp_all add: same_status_def example_leader_def LeadFresh_def resetLocked_def)
  ultimately show ?thesis using p(4) by (intro that [of c6 p q]) (simp_all add: c0_def)
qed

theorem cluster_consistent_witness:
  "\<exists>c p q. (cluster_step example_opts)\<^sup>*\<^sup>* (cluster_init example_opts example_store (\<lambda>n. n @ '':7000'') example_started) c \<and>
    lookup (PartitionRef 1 0) (cl_node c ''node1'') = Some p \<and> lookup (PartitionRef 1 0) (cl_node c ''node2'') = Some q \<and>
    rp_role p = NodeRoleLeader \<and> rp_role q = NodeRoleFollower \<and> contents (rp_store q) = contents (rp_store p) \<and> rp_keys q = rp_keys p"
proof -
  obtain c p q where c: "(cluster_step example_opts)\<^sup>*\<^sup>* (cluster_init example_opts example_store (\<lambda>n. n @ '':7000'') example_started) c"
    and l: "lookup (PartitionRef 1 0) (cl_node c ''node1'') = Some p" "lookup (PartitionRef 1 0) (cl_node c ''node2'') = Some q"
    and r: "rp_role p = NodeRoleLeader" "rp_role q = NodeRoleFollower" "rp_synced p" "rp_synced q"
    "rp_dataEpoch p = 1" "rp_dataEpoch q = 1" "w_currentSeq (rp_wal p) = 1" "w_currentSeq (rp_wal q) = 1"
    by (rule example_cluster)
  from cluster_consistent [OF example_store_good c l] r obtain x where "int (length x) = 0"
    "contents (rp_store q) = fold (\<lambda>e. op_spec (le_Operation e)) x (contents (rp_store p))" "rp_keys p = rp_keys q" by auto
  with c l r show ?thesis by auto
qed

end
