(* ===== verification/Membership.thy ===== *)
theory Membership
  imports ControlRun NodeServe
begin

text \<open>
  The loops that keep a process in the cluster: \<open>campaign\<close> and \<open>announce\<close> of a controller
  (\<open>src/internal/controller/controller.go\<close>) and \<open>keepMembership\<close> of a node
  (\<open>src/internal/node/node.go\<close>), against the contracts of etcd's leases and of its election library.
  Then every operation of a running controller as one run.
\<close>

section \<open>Contracts\<close>

text \<open>
  What a call that ends a lease does to the key space: keys that were bound to it go away, with other
  clients in between. Nothing binds the layout to a lease.
\<close>

definition releasing :: "(etcd_store \<Rightarrow> etcd_store \<Rightarrow> bool) \<Rightarrow> etcd_store \<Rightarrow> etcd_store \<Rightarrow> bool" where
  "releasing env a b \<longleftrightarrow> env a b \<or> (\<exists>k. k \<noteq> LayoutKey \<and> b = es_change (ChangeDelete k) a)"

definition lease_ok ::
  "'s etcd_client \<Rightarrow> ('s \<Rightarrow> etcd_store) \<Rightarrow> (etcd_store \<Rightarrow> etcd_store \<Rightarrow> bool) \<Rightarrow> bool" where
  "lease_ok ec view env \<longleftrightarrow>
     (\<forall>ttl s. env\<^sup>*\<^sup>* (view s) (view (snd (ec_Grant ec ttl s)))) \<and>
     (\<forall>k v lease s. \<exists>st. env\<^sup>*\<^sup>* (view s) st \<and>
        (let after = view (snd (ec_PutLease ec k v lease s)) in
         env\<^sup>*\<^sup>* (es_change (ChangePut k v) st) after \<or> (\<exists>e. fst (ec_PutLease ec k v lease s) = Inl e) \<and> env\<^sup>*\<^sup>* st after)) \<and>
     (\<forall>lease s. env\<^sup>*\<^sup>* (view s) (view (snd (ec_KeepAlive ec lease s)))) \<and>
     (\<forall>lease s. (releasing env)\<^sup>*\<^sup>* (view s) (view (snd (ec_Revoke ec lease s))))"

text \<open>
  The election: a candidate creates a key of its own under the prefix, and has won at a moment when no
  older key of the election was left.
\<close>

definition campaign_ok :: "'s election \<Rightarrow> ('s \<Rightarrow> etcd_store) \<Rightarrow> (etcd_store \<Rightarrow> etcd_store \<Rightarrow> bool) \<Rightarrow> bool" where
  "campaign_ok el view env \<longleftrightarrow>
     (\<forall>ttl s. env\<^sup>*\<^sup>* (view s) (view (snd (el_NewSession el ttl s)))) \<and>
     (\<forall>session pre v s. \<exists>st. env\<^sup>*\<^sup>* (view s) st \<and>
        (env\<^sup>*\<^sup>* st (view (snd (el_Campaign el session pre v s))) \<or>
         (\<exists>k val. election_key k \<and> lookup_kv k st = None \<and>
            env\<^sup>*\<^sup>* (es_change (ChangePut k val) st) (view (snd (el_Campaign el session pre v s)))))) \<and>
     (\<forall>session pre v s key electionRev. fst (el_Campaign el session pre v s) = Inr (key, electionRev) \<longrightarrow>
        (\<exists>st. elected \<lparr>f_key = key, f_rev = electionRev\<rparr> st \<and> env\<^sup>*\<^sup>* st (view (snd (el_Campaign el session pre v s))))) \<and>
     (\<forall>session s. (releasing env)\<^sup>*\<^sup>* (view s) (view (el_Resign el session s))) \<and>
     (\<forall>session s. (releasing env)\<^sup>*\<^sup>* (view s) (view (el_Close el session s)))"

text \<open>The fields \<open>fence\<close> and \<open>leading\<close> of the controller are written by \<open>campaign\<close> only.\<close>

definition same_seat :: "'s world \<Rightarrow> 's \<Rightarrow> 's \<Rightarrow> bool" where
  "same_seat w s s' \<longleftrightarrow> w_fence w s' = w_fence w s \<and> w_leading w s' = w_leading w s"

definition seat_ok :: "'s world \<Rightarrow> 's election \<Rightarrow> ('s \<Rightarrow> etcd_store) \<Rightarrow> bool" where
  "seat_ok w el view \<longleftrightarrow>
     (\<forall>f s. view (el_fence el f s) = view s \<and> w_leading w (el_fence el f s) = w_leading w s \<and>
        ((\<forall>g. f = Some g \<longrightarrow> fence_ok g) \<longrightarrow> w_fence w (el_fence el f s) = f)) \<and>
     (\<forall>b s. view (el_leading el b s) = view s \<and> w_leading w (el_leading el b s) = b \<and>
        w_fence w (el_leading el b s) = w_fence w s) \<and>
     (\<forall>session s. same_seat w s (el_Resign el session s) \<and> same_seat w s (el_Close el session s)) \<and>
     (\<forall>ttl s. same_seat w s (snd (el_NewSession el ttl s))) \<and>
     (\<forall>session pre v s. same_seat w s (snd (el_Campaign el session pre v s))) \<and> (\<forall>s. same_seat w s (w_wait w s))"

lemma releasing_steps:
  assumes "(releasing env)\<^sup>*\<^sup>* a b" and "env \<le> store_step"
  shows "store_step\<^sup>*\<^sup>* a b"
  using assms(1)
proof (induction rule: rtranclp_induct)
  case (step b c)
  from step.hyps(2) assms(2) have "store_step b c"
    by (auto simp: releasing_def simp del: es_change.simps intro: store_step.resign store_step.delete_other)
  with step.IH show ?case by simp
qed simp

lemma campaign_okD:
  assumes "campaign_ok el view env" and "env \<le> store_step"
  shows "reaches view s (snd (el_NewSession el ttl s))" "reaches view s (snd (el_Campaign el session pre v s))"
    "reaches view s (el_Resign el session s)" "reaches view s (el_Close el session s)"
    "fst (el_Campaign el session pre v s) = Inr (key, electionRev) \<Longrightarrow> fence_ok \<lparr>f_key = key, f_rev = electionRev\<rparr>"
proof -
  note steps = env_steps [OF _ assms(2)]
  from assms(1) have ok: "env\<^sup>*\<^sup>* (view s) (view (snd (el_NewSession el ttl s)))"
    "\<exists>st. env\<^sup>*\<^sup>* (view s) st \<and> (env\<^sup>*\<^sup>* st (view (snd (el_Campaign el session pre v s))) \<or>
       (\<exists>k val. election_key k \<and> lookup_kv k st = None \<and>
          env\<^sup>*\<^sup>* (es_change (ChangePut k val) st) (view (snd (el_Campaign el session pre v s)))))"
    "(releasing env)\<^sup>*\<^sup>* (view s) (view (el_Resign el session s))" "(releasing env)\<^sup>*\<^sup>* (view s) (view (el_Close el session s))"
    "fst (el_Campaign el session pre v s) = Inr (key, electionRev) \<longrightarrow> (\<exists>st. elected \<lparr>f_key = key, f_rev = electionRev\<rparr> st \<and>
       env\<^sup>*\<^sup>* st (view (snd (el_Campaign el session pre v s))))"
    by (simp_all add: campaign_ok_def)
  show "reaches view s (snd (el_NewSession el ttl s))" using ok(1) by (simp add: reaches_def steps)
  show "reaches view s (el_Resign el session s)" "reaches view s (el_Close el session s)"
    using ok(3,4) releasing_steps [OF _ assms(2)] by (simp_all add: reaches_def)
  from ok(2) obtain st where st: "store_step\<^sup>*\<^sup>* (view s) st" "env\<^sup>*\<^sup>* st (view (snd (el_Campaign el session pre v s))) \<or>
       (\<exists>k val. store_step st (es_change (ChangePut k val) st) \<and>
          env\<^sup>*\<^sup>* (es_change (ChangePut k val) st) (view (snd (el_Campaign el session pre v s))))"
    using steps store_step.campaign by blast
  from st(2) have "store_step\<^sup>*\<^sup>* st (view (snd (el_Campaign el session pre v s)))"
    using steps converse_rtranclp_into_rtranclp [of store_step] by blast
  with st(1) show "reaches view s (snd (el_Campaign el session pre v s))" by (simp add: reaches_def)
  show "fst (el_Campaign el session pre v s) = Inr (key, electionRev) \<Longrightarrow> fence_ok \<lparr>f_key = key, f_rev = electionRev\<rparr>"
    using ok(5) by (auto simp: elected_def)
qed

section \<open>Leases and elections only move the store by its steps\<close>

lemma Revoke_reaches:
  assumes "world_ok w view env" and "lease_ok (w_etcd w) view env"
  shows "reaches view s (Revoke (w_etcd w) lease s)"
  using assms(2) releasing_steps [OF _ world_okD(2) [OF assms(1)]]
  by (simp add: reaches_def Revoke_def lease_ok_def)

lemma PutLease_reaches:
  assumes "world_ok w view env" and "lease_ok (w_etcd w) view env" and "\<not> election_key k" and "k \<noteq> LayoutKey" and "entry_ok k v"
  shows "reaches view s (snd (ec_PutLease (w_etcd w) k v lease s))"
proof -
  note le = world_okD(2) [OF assms(1)]
  obtain st where st: "env\<^sup>*\<^sup>* (view s) st" "env\<^sup>*\<^sup>* (es_change (ChangePut k v) st) (view (snd (ec_PutLease (w_etcd w) k v lease s))) \<or>
      env\<^sup>*\<^sup>* st (view (snd (ec_PutLease (w_etcd w) k v lease s)))"
    using assms(2) unfolding lease_ok_def Let_def by (elim conjE) blast
  with put_other_steps [OF assms(3-5) le] env_steps [OF _ le] show ?thesis
    unfolding reaches_def by (meson rtranclp_trans)
qed

lemma Register_reaches:
  assumes "world_ok w view env" and "lease_ok (w_etcd w) view env" and "\<not> election_key k" and "k \<noteq> LayoutKey" and "entry_ok k v"
  shows "reaches view s (snd (Register (w_etcd w) k v ttl s))"
proof -
  note le = world_okD(2) [OF assms(1)]
  obtain g s1 where g: "ec_Grant (w_etcd w) ttl s = (g, s1)" by fastforce
  have s1: "reaches view s s1"
    using assms(2) g env_steps [OF _ le] unfolding lease_ok_def reaches_def by (metis snd_conv)
  have put: "reaches view s (snd (ec_PutLease (w_etcd w) k v lease s1))" for lease
    using s1 PutLease_reaches [OF assms] by (rule re.trans)
  have keep: "reaches view s (snd (ec_KeepAlive (w_etcd w) lease s2))" if "reaches view s s2" for lease s2
    using assms(2) env_steps [OF _ le] re.trans [OF that] unfolding lease_ok_def reaches_def by blast
  have rev: "reaches view s (snd (ec_Revoke (w_etcd w) lease s2))" if "reaches view s s2" for lease s2
    using Revoke_reaches [OF assms(1,2), of s2 lease] re.trans [OF that] by (simp add: Revoke_def)
  show ?thesis
  proof (cases g)
    case (Inr lease)
    obtain q s2 where q: "ec_PutLease (w_etcd w) k v lease s1 = (q, s2)" by fastforce
    have s2: "reaches view s s2" using put [of lease] q by simp
    with g q Inr keep [OF s2, of lease] rev [OF s2, of lease] show ?thesis
      by (auto simp: Register_def split: sum.split prod.split)
  qed (use g s1 in \<open>simp add: Register_def\<close>)
qed

lemma announce_turn_reaches:
  assumes "world_ok w view env" and "lease_ok (w_etcd w) view env"
  shows "reaches view s (announce_turn w ended c s)"
proof -
  let ?info = "\<lparr>ci_ID = co_ID (ct_opts c), ci_Address = co_Advertise (ct_opts c)\<rparr>"
  obtain r s1 where r: "RegisterController (w_etcd w) ?info (co_SessionTTL (ct_opts c)) s = (r, s1)" by fastforce
  have key: "\<not> election_key (ControllersPrefix @ n)" "ControllersPrefix @ n \<noteq> LayoutKey" "entry_ok (ControllersPrefix @ n) v" for n v
    by (auto simp: election_key_def entry_ok_def key_defs prefix_def)
  have s1: "reaches view s s1"
    using Register_reaches [OF assms key, of s "co_ID (ct_opts c)" "VController ?info" "co_SessionTTL (ct_opts c)"] r
    by (simp add: RegisterController_def)
  then have "reaches view s (w_wait w s1)"
    using world_okD(8) [OF assms(1)] by (auto simp: reaches_def intro: rtranclp_trans)
  with r Revoke_reaches [OF assms, of "w_wait w s1"] show ?thesis
    by (auto simp: announce_turn_def Let_def intro: re.trans split: sum.split)
qed

lemma view_fields_reach:
  assumes "seat_ok w el view"
  shows "reaches view s (el_fence el f s') = reaches view s s'" "reaches view s (el_leading el b s') = reaches view s s'"
  using assms by (simp_all add: reaches_def seat_ok_def)

lemma wait_reaches: "world_ok w view env \<Longrightarrow> reaches view s s' \<Longrightarrow> reaches view s (w_wait w s')"
  by (rule re.trans, assumption) (simp add: reaches_def world_okD(8))

lemma campaign_start_reaches:
  assumes "world_ok w view env" and "campaign_ok el view env" and "seat_ok w el view"
  shows "reaches view s (snd (snd (campaign_start w el c s)))"
proof -
  note ok = campaign_okD [OF assms(2) world_okD(2) [OF assms(1)]]
  obtain r s1 where r: "el_NewSession el (co_SessionTTL (ct_opts c)) s = (r, s1)" by fastforce
  have s1: "reaches view s s1" using ok(1) [of s "co_SessionTTL (ct_opts c)"] r by simp
  show ?thesis
  proof (cases r)
    case (Inr session)
    obtain q s2 where q: "el_Campaign el session ElectionPrefix (co_Advertise (ct_opts c)) s1 = (q, s2)" by fastforce
    have s2: "reaches view s s2" using re.trans [OF s1 ok(2)] q by (metis snd_conv)
    have "reaches view s (w_wait w (el_Close el session s2))"
      by (rule wait_reaches [OF assms(1) re.trans [OF s2 ok(4)]])
    with r q Inr s2 show ?thesis
      by (simp add: campaign_start_def Let_def view_fields_reach [OF assms(3)] split: sum.split prod.split)
  qed (use r wait_reaches [OF assms(1) s1] in \<open>simp add: campaign_start_def\<close>)
qed

lemma campaign_end_reaches:
  assumes "world_ok w view env" and "campaign_ok el view env" and "seat_ok w el view"
  shows "reaches view s (snd (campaign_end w el session c s))"
proof -
  note ok = campaign_okD [OF assms(2) world_okD(2) [OF assms(1)]]
  have "reaches view s (el_fence el None (el_leading el False s))"
    by (simp add: view_fields_reach [OF assms(3)] re.refl)
  from re.trans [OF re.trans [OF this ok(3)] ok(4)] show ?thesis by (simp add: campaign_end_def Let_def)
qed

lemma campaign_keeps:
  "keeps c (fst (snd (campaign_start w el c s)))" "keeps c (fst (campaign_end w el session c s))"
  "keeps c (fst (lead_wake w woken c s))"
  by (auto simp: campaign_start_def campaign_end_def lead_wake_def Let_def keeps_record kp.refl split: sum.split prod.split)

section \<open>A term of office\<close>

lemma lead_rounds_keeps_opts: "ct_opts (fst (lead_rounds w waits c s)) = ct_opts c"
proof (induction waits arbitrary: c s)
  case Nil
  have "keeps c (fst (lead_wake w None (fst (round w c s)) (snd (round w c s))))"
    by (rule kp.trans [OF round_keeps campaign_keeps(3)])
  then show ?case by (simp add: case_prod_beta keeps_def)
next
  case (Cons x waits)
  have "keeps c (fst (lead_wake w (Some x) (fst (round w c s)) (snd (round w c s))))"
    by (rule kp.trans [OF round_keeps campaign_keeps(3)])
  with Cons show ?case by (simp add: case_prod_beta keeps_def)
qed

lemma last_event: "ct_events (record_event now msg c) \<noteq> [] \<and> ev_Message (last (ct_events (record_event now msg c))) = msg"
  by (simp add: record_event_def Let_def maxEvents_def last_drop)

lemma no_fence_no_update: "w_fence w s = None \<Longrightarrow> updateLayout w m s = (Inl errNotLeader, s)"
  by (simp add: updateLayout_def numeral_eq_Suc)

lemma seat_okD:
  assumes "seat_ok w el view"
  shows "w_leading w (el_leading el b s) = b" "w_leading w (el_fence el f s) = w_leading w s" "w_fence w (el_leading el b s) = w_fence w s"
    "w_fence w (el_fence el None s) = None" "fence_ok g \<Longrightarrow> w_fence w (el_fence el (Some g) s) = Some g"
    "same_seat w s (el_Resign el session s)" "same_seat w s (el_Close el session s)" "same_seat w s (w_wait w s)"
    "same_seat w s (snd (el_NewSession el ttl s))" "same_seat w s (snd (el_Campaign el session pre v s))"
    "view (el_fence el f s) = view s" "view (el_leading el b s) = view s"
  using assms by (simp_all add: seat_ok_def)

lemma campaign_start_seat:
  assumes "world_ok w view env" and "campaign_ok el view env" and "seat_ok w el view"
    and "campaign_start w el c s = (won, c1, s1)"
  shows "won = None \<Longrightarrow> c1 = c \<and> same_seat w s s1"
    and "won \<noteq> None \<Longrightarrow> w_leading w s1 \<and>
      (\<exists>f st. w_fence w s1 = Some f \<and> elected f st \<and> env\<^sup>*\<^sup>* st (view s1))"
proof -
  note seat = seat_okD [OF assms(3)]
  obtain r sa where r: "el_NewSession el (co_SessionTTL (ct_opts c)) s = (r, sa)" by fastforce
  have sa: "same_seat w s sa" using seat(9) [of s "co_SessionTTL (ct_opts c)"] r by simp
  have "(won = None \<longrightarrow> c1 = c \<and> same_seat w s s1) \<and> (won \<noteq> None \<longrightarrow> w_leading w s1 \<and>
      (\<exists>f st. w_fence w s1 = Some f \<and> elected f st \<and> env\<^sup>*\<^sup>* st (view s1)))"
  proof (cases r)
    case (Inl e)
    with r sa seat(8) [of sa] assms(4) show ?thesis by (auto simp: campaign_start_def same_seat_def)
  next
    case (Inr session)
    obtain q sb where q: "el_Campaign el session ElectionPrefix (co_Advertise (ct_opts c)) sa = (q, sb)" by fastforce
    have sb: "same_seat w s sb" using sa seat(10) [of sa session ElectionPrefix "co_Advertise (ct_opts c)"] q by (simp add: same_seat_def)
    show ?thesis
    proof (cases q)
      case (Inl e)
      with r Inr q sb seat(7) [of sb session] seat(8) [of "el_Close el session sb"] assms(4) show ?thesis
        by (auto simp: campaign_start_def same_seat_def)
    next
      case (Inr kr)
      obtain key electionRev where kr: "kr = (key, electionRev)" by fastforce
      obtain st where st: "elected \<lparr>f_key = key, f_rev = electionRev\<rparr> st" "env\<^sup>*\<^sup>* st (view sb)"
        using assms(2) q Inr kr unfolding campaign_ok_def by (metis fst_conv snd_conv)
      then have "fence_ok \<lparr>f_key = key, f_rev = electionRev\<rparr>" by (simp add: elected_def)
      with r \<open>r = Inr session\<close> q Inr kr st seat assms(4) show ?thesis by (auto simp: campaign_start_def Let_def)
    qed
  qed
  then show "won = None \<Longrightarrow> c1 = c \<and> same_seat w s s1"
    "won \<noteq> None \<Longrightarrow> w_leading w s1 \<and> (\<exists>f st. w_fence w s1 = Some f \<and> elected f st \<and> env\<^sup>*\<^sup>* st (view s1))" by simp_all
qed

text \<open>
  C12. A controller leads only in office. A turn of its campaign either fails before an election is won,
  and then changes nothing of the controller; or it takes office with the fence of an election that it
  had won at a moment before, and the events say so. Whatever happens during the term, when the turn is over
  the controller does not lead, has recorded that it stopped, and holds no fence: every layout update it tries until
  the next won election is refused without a request to etcd.
\<close>

theorem leads_only_in_office:
  assumes "world_ok w view env" and "campaign_ok el view env" and "seat_ok w el view"
    and "campaign_start w el c s = (won, c1, s1)" and "campaign_turn w el waits c s = (c', s')"
    and "w_fence w s = None" and "\<not> w_leading w s"
  shows "w_fence w s' = None \<and> \<not> w_leading w s' \<and> (\<forall>m. updateLayout w m s' = (Inl errNotLeader, s')) \<and>
    (case won of
       None \<Rightarrow> c' = c
     | Some session \<Rightarrow> w_leading w s1 \<and> (\<exists>f st. w_fence w s1 = Some f \<and> elected f st \<and> env\<^sup>*\<^sup>* st (view s1)) \<and>
         ev_Message (last (ct_events c')) = MStopped (co_ID (ct_opts c)))"
proof (cases won)
  case None
  with campaign_start_seat(1) [OF assms(1-4)] assms(4-7) have "c' = c" "w_fence w s' = None" "\<not> w_leading w s'"
    by (auto simp: campaign_turn_def same_seat_def)
  with None show ?thesis by (simp add: no_fence_no_update)
next
  case (Some session)
  note seat = seat_okD [OF assms(3)]
  obtain c2 s2 where t: "lead_term w waits c1 s1 = (c2, s2)" by fastforce
  have opts: "ct_opts c2 = ct_opts c"
    using lead_rounds_keeps_opts [of w waits c1 "lead_init w c1 s1"] t campaign_keeps(1) [of c w el s] assms(4)
    by (simp add: lead_term_def keeps_def)
  have turn: "campaign_end w el session c2 s2 = (c', s')" using assms(4,5) Some t by (simp add: campaign_turn_def)
  let ?s = "el_fence el None (el_leading el False s2)"
  have "same_seat w ?s s'"
    using turn seat(6) [of ?s session] seat(7) [of "el_Resign el session ?s" session]
    by (auto simp: campaign_end_def Let_def same_seat_def)
  then have off: "w_fence w s' = None" "\<not> w_leading w s'" by (simp_all add: same_seat_def seat)
  have "ev_Message (last (ct_events c')) = MStopped (co_ID (ct_opts c))"
    using turn last_event [of _ _ c2] opts by (auto simp: campaign_end_def Let_def)
  with off Some campaign_start_seat(2) [OF assms(1-4)] show ?thesis by (simp add: no_fence_no_update)
qed

section \<open>Runs of a controller\<close>

text \<open>
  The operations of a running controller at the grain at which they interleave: the parts of a turn
  of its campaign, its announcements, resharding ticks and requests.
\<close>

datatype ctl_op =
    CtlCampaign
  | CtlInit
  | CtlRound
  | CtlWake "lead_wait option"
  | CtlEnd int
  | CtlAnnounce bool
  | CtlReshard bool "step_error option"
  | CtlAPI api_request

fun run_op :: "'s world \<Rightarrow> 's election \<Rightarrow> ctl_op \<Rightarrow> Controller \<times> 's \<Rightarrow> Controller \<times> 's" where
  "run_op w el CtlCampaign (c, s) = snd (campaign_start w el c s)"
| "run_op w el CtlInit (c, s) = (c, lead_init w c s)"
| "run_op w el CtlRound (c, s) = round w c s"
| "run_op w el (CtlWake woken) (c, s) = lead_wake w woken c s"
| "run_op w el (CtlEnd session) (c, s) = campaign_end w el session c s"
| "run_op w el (CtlAnnounce ended) (c, s) = (c, announce_turn w ended c s)"
| "run_op w el (CtlReshard cancelled err) (c, s) = snd (reshard_tick w cancelled err c s)"
| "run_op w el (CtlAPI req) (c, s) = snd (handleAPI w req c s)"

text \<open>A turn of the campaign is a run of these.\<close>

fun round_ops :: "lead_wait list \<Rightarrow> ctl_op list" where
  "round_ops [] = [CtlRound, CtlWake None]"
| "round_ops (woken # waits) = CtlRound # CtlWake (Some woken) # round_ops waits"

lemma lead_rounds_run: "lead_rounds w waits c s = fold (run_op w el) (round_ops waits) (c, s)"
proof (induction waits arbitrary: c s)
  case Nil
  obtain c1 s1 where "round w c s = (c1, s1)" by fastforce
  then show ?case by simp
next
  case (Cons x waits)
  obtain c1 s1 where r: "round w c s = (c1, s1)" by fastforce
  obtain c2 s2 where l: "lead_wake w (Some x) c1 s1 = (c2, s2)" by fastforce
  with Cons [of c2 s2] r show ?case by simp
qed

lemma campaign_turn_run:
  "campaign_turn w el waits c s = fold (run_op w el)
     (case fst (campaign_start w el c s) of
        None \<Rightarrow> [CtlCampaign]
      | Some session \<Rightarrow> CtlCampaign # CtlInit # round_ops waits @ [CtlEnd session]) (c, s)"
proof -
  obtain won c1 s1 where st: "campaign_start w el c s = (won, c1, s1)" by (metis prod.collapse)
  obtain c2 s2 where t: "lead_term w waits c1 s1 = (c2, s2)" by fastforce
  with lead_rounds_run [of w waits c1 "lead_init w c1 s1" el] st show ?thesis
    by (cases won) (simp_all add: campaign_turn_def lead_term_def)
qed

text \<open>All that a controller relies on.\<close>

definition controller_env ::
  "'s world \<Rightarrow> 's election \<Rightarrow> ('s \<Rightarrow> etcd_store) \<Rightarrow> (etcd_store \<Rightarrow> etcd_store \<Rightarrow> bool) \<Rightarrow> bool" where
  "controller_env w el view env \<longleftrightarrow> world_ok w view env \<and> lease_ok (w_etcd w) view env \<and> campaign_ok el view env \<and> seat_ok w el view"

lemma controller_envD:
  assumes "controller_env w el view env"
  shows "world_ok w view env" "lease_ok (w_etcd w) view env" "campaign_ok el view env" "seat_ok w el view"
  using assms by (simp_all add: controller_env_def)

text \<open>What a run keeps: a good store that moved by store steps, a bounded log, the options.\<close>

definition run_inv :: "('s \<Rightarrow> etcd_store) \<Rightarrow> 's \<Rightarrow> Controller \<times> 's \<Rightarrow> bool" where
  "run_inv view s0 cs \<longleftrightarrow> reaches view s0 (snd cs) \<and> ControlSafety.store_ok (view (snd cs)) \<and>
     length (ct_events (fst cs)) \<le> maxEvents \<and> co_PartitionCount (ct_opts (fst cs)) < 2 ^ 32"

lemma run_op_keeps: "keeps (fst cs) (fst (run_op w el op cs))"
  by (cases op; cases cs) (simp_all add: campaign_keeps kp.refl round_keeps reshard_tick_keeps handleAPI_keeps)

lemma reshard_tick_reaches:
  assumes "world_ok w view env" and "ControlSafety.store_ok (view s)"
  shows "reaches view s (snd (snd (reshard_tick w cancelled err c s)))"
  using reshardStep_reaches [OF assms, of c]
  by (simp add: reshard_tick_def Let_def case_prod_beta split: option.split)

lemma run_op_reaches:
  assumes "controller_env w el view env" and "ControlSafety.store_ok (view (snd cs))" and "co_PartitionCount (ct_opts (fst cs)) < 2 ^ 32"
  shows "reaches view (snd cs) (snd (run_op w el op cs))"
proof -
  note w = controller_envD [OF assms(1)]
  obtain c s where cs: "cs = (c, s)" by fastforce
  with assms have ok: "ControlSafety.store_ok (view s)" "co_PartitionCount (ct_opts c) < 2 ^ 32" by simp_all
  note reach = campaign_start_reaches [OF w(1,3,4)] campaign_end_reaches [OF w(1,3,4)] announce_turn_reaches [OF w(1,2)]
    lead_init_reaches [OF w(1) ok(2)] lead_wake_reaches [OF w(1)] round_reaches [OF w(1) ok(1)]
    reshard_tick_reaches [OF w(1) ok(1)] handleAPI_reaches [OF w(1) ok(1)]
  show ?thesis unfolding cs by (cases op) (simp_all only: run_op.simps snd_conv reach)
qed

lemma run_inv_step:
  assumes "controller_env w el view env" and "run_inv view s0 cs"
  shows "run_inv view s0 (run_op w el op cs)"
proof -
  from assms(2) have r: "reaches view (snd cs) (snd (run_op w el op cs))"
    using run_op_reaches [OF assms(1)] by (simp add: run_inv_def)
  with assms(2) show ?thesis
    using reaches_ok [OF r] run_op_keeps [of cs w el op]
    by (auto simp: run_inv_def keeps_def intro: re.trans)
qed

lemma run_inv_steps:
  assumes "controller_env w el view env" and "run_inv view s0 cs"
  shows "run_inv view s0 (fold (run_op w el) ops cs)"
  using assms(2) by (induction ops arbitrary: cs) (simp_all add: run_inv_step [OF assms(1)])

text \<open>
  C10. The code of a controller is one of the participants the store theorems speak about. Let a
  controller with a sane initial count run any operations in any order (campaigns and their
  ends, control rounds, announcements, resharding ticks, requests of the admin API, their failures included) against an etcd that
  others use at the same time. Then the store only ever moved by store steps, so it is good and the
  stored layout is a successor of the first one, and the controller's log never holds more than 300 events.
\<close>

theorem controller_refines_store_steps:
  assumes "controller_env w el view env" and "ControlSafety.store_ok (view s)" and "co_PartitionCount opts < 2 ^ 32"
    and "fold (run_op w el) ops (NewController opts, s) = (c', s')"
  shows "store_step\<^sup>*\<^sup>* (view s) (view s') \<and> ControlSafety.store_ok (view s') \<and> later (view s) (view s') \<and>
    length (ct_events c') \<le> 300"
proof -
  have "run_inv view s (NewController opts, s)"
    using assms(2,3) by (simp add: run_inv_def re.refl NewController_def Let_def)
  from run_inv_steps [OF assms(1) this, of ops] have inv: "run_inv view s (c', s')" by (simp add: assms(4))
  then have "store_step\<^sup>*\<^sup>* (view s) (view s')" by (simp add: run_inv_def reaches_def)
  with inv store_steps_inv [OF this assms(2)] show ?thesis by (simp add: run_inv_def maxEvents_def)
qed

definition example_options :: ctl_Options where
  "example_options = \<lparr>co_ID = ''c1'', co_Advertise = ''c1:8080'', co_PartitionCount = 8, co_ReplicationFactor = 2,
     co_Interval = 0, co_AutoBalance = True, co_SessionTTL = 5\<rparr>"

definition example_call :: api_request where
  "example_call = \<lparr>aq_method = ''POST'', aq_path = ''/api/partitions/leader'', aq_proxied = '''', aq_config = None,
     aq_drain = None, aq_partition = Some example_transfer\<rparr>"

section \<open>A concrete controller\<close>

text \<open>A store and the two fields of a controller, with calls that are answered at once.\<close>

type_synonym seat_state = "etcd_store \<times> fence option \<times> bool"

definition on_store :: "(etcd_store \<Rightarrow> 'r \<times> etcd_store) \<Rightarrow> seat_state \<Rightarrow> 'r \<times> seat_state" where
  "on_store call = (\<lambda>(st, x). (fst (call st), snd (call st), x))"

definition seat_etcd :: "seat_state etcd_client" where
  "seat_etcd = \<lparr>
     ec_Get = \<lambda>opt k. on_store (ec_Get local_etcd opt k),
     ec_Put = \<lambda>k v. on_store (ec_Put local_etcd k v),
     ec_Delete = \<lambda>k. on_store (ec_Delete local_etcd k),
     ec_Txn = \<lambda>cmps k v. on_store (ec_Txn local_etcd cmps k v),
     ec_Grant = \<lambda>ttl. on_store (ec_Grant local_etcd ttl),
     ec_PutLease = \<lambda>k v lease. on_store (ec_PutLease local_etcd k v lease),
     ec_Revoke = \<lambda>lease. on_store (ec_Revoke local_etcd lease),
     ec_KeepAlive = \<lambda>lease. on_store (ec_KeepAlive local_etcd lease)\<rparr>"

definition seat_world :: "seat_state world" where
  "seat_world = \<lparr>w_etcd = seat_etcd, w_leading = (\<lambda>(st, f, l). l),
     w_fence = (\<lambda>(st, f, l). case f of Some g \<Rightarrow> if fence_ok g then Some g else None | None \<Rightarrow> None),
     w_nodes = \<lambda>_. pi_Nodes example_alive, w_layout = (\<lambda>(st, x). stored_layout st), w_now = \<lambda>_. 1000, w_format = \<lambda>_. ''now'',
     w_status = \<lambda>addr s. (Inl ''refused'', s), w_pull = \<lambda>addr req s. (Inl ''refused'', s),
     w_parses = \<lambda>_. True, w_proxy = \<lambda>addr req s. (Inl ''refused'', s), w_wait = \<lambda>s. s\<rparr>"

definition seat_key :: string where "seat_key = ElectionPrefix @ ''/8b''"

definition seat_election :: "seat_state election" where
  "seat_election = \<lparr>el_NewSession = \<lambda>ttl s. (Inr 1, s),
     el_Campaign = \<lambda>session pre v (st, x).
       if 0 \<le> es_Revision st \<and> list_all (\<lambda>kv. \<not> election_key (kv_Key kv)) (es_KVs st)
       then (Inr (seat_key, es_Revision st + 1), es_change (ChangePut seat_key (VText v)) st, x)
       else (Inl ''deadline exceeded'', st, x),
     el_Resign = \<lambda>session (st, x). (es_change (ChangeDelete seat_key) st, x),
     el_Close = \<lambda>session s. s,
     el_fence = \<lambda>f (st, f', l). (st, f, l),
     el_leading = \<lambda>b (st, f, l). (st, f, b)\<rparr>"

lemma seat_world_ok: "world_ok seat_world fst nobody"
proof -
  have "'''' \<notin> dom (map_of (w_nodes seat_world s))" for s
    by (simp add: seat_world_def example_alive_def)
  then show ?thesis
    by (auto simp: world_ok_def etcd_ok_def seat_world_def seat_etcd_def on_store_def local_etcd_def le_fun_def nobody_def Let_def
        split: option.splits if_splits simp del: es_change.simps)
qed

lemma seat_lease_ok: "lease_ok (w_etcd seat_world) fst nobody"
  by (simp add: lease_ok_def seat_world_def seat_etcd_def on_store_def local_etcd_def case_prod_beta del: es_change.simps)

lemma seat_key_free:
  assumes "list_all (\<lambda>kv. \<not> election_key (kv_Key kv)) (es_KVs st)"
  shows "election_key seat_key" and "lookup_kv seat_key st = None"
proof -
  show k: "election_key seat_key" by (simp add: seat_key_def election_key_def)
  with assms show "lookup_kv seat_key st = None"
    by (auto simp: lookup_kv_def find_None_iff list_all_iff)
qed

lemma seat_wins:
  assumes "0 \<le> es_Revision st" and "list_all (\<lambda>kv. \<not> election_key (kv_Key kv)) (es_KVs st)"
  shows "elected \<lparr>f_key = seat_key, f_rev = es_Revision st + 1\<rparr> (es_change (ChangePut seat_key v) st)"
proof -
  note k = seat_key_free [OF assms(2)]
  have "create_revision seat_key (es_change (ChangePut seat_key v) st) = es_Revision st + 1"
    using k by (simp add: create_revision_def lookup_kv_change new_kv_def Let_def del: es_change.simps)
  moreover have "f_key \<lparr>f_key = seat_key, f_rev = es_Revision st + 1\<rparr> = seat_key" by simp
  moreover have "kv \<in> set (es_KVs (es_change (ChangePut seat_key v) st)) \<Longrightarrow> \<not> election_key (kv_Key kv) \<or> kv_Key kv = seat_key" for kv
    using assms(2) by (auto simp: list_all_iff new_kv_def Let_def)
  ultimately show ?thesis
    using k(1) assms(1) by (auto simp: elected_def fence_ok_def fence_live_def simp del: es_change.simps)
qed

lemma seat_campaign_ok: "campaign_ok seat_election fst nobody"
proof -
  have resign: "(releasing nobody)\<^sup>*\<^sup>* st (es_change (ChangeDelete seat_key) st)" for st
    by (rule r_into_rtranclp, unfold releasing_def, rule disjI2, rule exI [of _ seat_key])
      (simp add: seat_key_def key_defs del: es_change.simps)
  show ?thesis
    using resign seat_wins seat_key_free
    by (auto simp: campaign_ok_def seat_election_def simp del: es_change.simps split: prod.split) (metis option.distinct(1))
qed

lemma seat_seat_ok: "seat_ok seat_world seat_election fst"
  by (auto simp: seat_ok_def same_seat_def seat_world_def seat_election_def split: option.splits)

lemma seat_controller_env: "controller_env seat_world seat_election fst nobody"
  by (simp add: controller_env_def seat_world_ok seat_lease_ok seat_campaign_ok seat_seat_ok)

lemma example_expired_good: "ControlSafety.store_ok example_expired"
proof -
  have "store_step example_store example_expired"
    unfolding example_expired_def by (rule store_step.resign) (simp add: election_key_def key_defs prefix_def)
  then show ?thesis using store_steps_inv [OF r_into_rtranclp example_store_good] by blast
qed

theorem controller_refines_store_steps_witness:
  "\<exists>c' s'. fold (run_op seat_world seat_election) [CtlAnnounce False, CtlCampaign, CtlInit, CtlRound, CtlAPI example_call,
      CtlWake (Some Triggered), CtlReshard False None, CtlRound, CtlWake None, CtlEnd 1]
      (NewController example_options, example_expired, None, False) = (c', s') \<and>
    store_step\<^sup>*\<^sup>* example_expired (fst s') \<and> ControlSafety.store_ok (fst s') \<and> later example_expired (fst s') \<and> length (ct_events c') \<le> 300"
proof -
  let ?ops = "[CtlAnnounce False, CtlCampaign, CtlInit, CtlRound, CtlAPI example_call,
      CtlWake (Some Triggered), CtlReshard False None, CtlRound, CtlWake None, CtlEnd 1]"
  obtain c' s' where eq: "fold (run_op seat_world seat_election) ?ops (NewController example_options, example_expired, None, False) = (c', s')"
    by (rule prod.exhaust)
  have "co_PartitionCount example_options < 2 ^ 32" by (simp add: example_options_def)
  from controller_refines_store_steps [OF seat_controller_env _ this eq] example_expired_good eq show ?thesis by simp
qed

theorem leads_only_in_office_witness:
  "\<exists>c1 s1 c' s'. campaign_start seat_world seat_election (NewController example_options) (example_expired, None, False) = (Some 1, c1, s1) \<and>
    campaign_turn seat_world seat_election [Ticked] (NewController example_options) (example_expired, None, False) = (c', s') \<and>
    w_leading seat_world s1 \<and> w_fence seat_world s' = None \<and> \<not> w_leading seat_world s' \<and>
    ev_Message (last (ct_events c')) = MStopped ''c1''"
proof -
  let ?c = "NewController example_options" let ?s = "(example_expired, None, False) :: seat_state"
  have free: "0 \<le> es_Revision example_expired" "list_all (\<lambda>kv. \<not> election_key (kv_Key kv)) (es_KVs example_expired)"
    by (simp_all add: example_expired_def example_store_def lookup_kv_def election_key_def key_defs prefix_def)
  obtain c1 s1 where st: "campaign_start seat_world seat_election ?c ?s = (Some 1, c1, s1)"
    using free by (auto simp: campaign_start_def seat_election_def Let_def simp del: es_change.simps split: prod.split)
  obtain c' s' where turn: "campaign_turn seat_world seat_election [Ticked] ?c ?s = (c', s')" by (rule prod.exhaust)
  have "w_fence seat_world ?s = None" "\<not> w_leading seat_world ?s" by (simp_all add: seat_world_def)
  from leads_only_in_office [OF seat_world_ok seat_campaign_ok seat_seat_ok st turn this] st turn
  show ?thesis by (auto simp: NewController_def example_options_def Let_def)
qed

section \<open>Nodes\<close>

text \<open>
  A turn of \<open>keepMembership\<close>. \<open>wait\<close> is what happens to the node and to the world while it waits
  for the loss of the lease (or before it registers again); \<open>ended\<close> is whether the node is shutting
  down by then, and \<open>now\<close> the clock. The lease of a registration that succeeded is returned.
\<close>

definition keepMembership_turn ::
  "'s etcd_client \<Rightarrow> int \<Rightarrow> (NodeServer \<times> 's \<Rightarrow> NodeServer \<times> 's) \<Rightarrow> bool \<Rightarrow> go_time \<Rightarrow> NodeServer \<Rightarrow> 's \<Rightarrow>
   int option \<times> NodeServer \<times> 's" where
  "keepMembership_turn ec ttl wait ended now n s =
     (case RegisterNode ec (self n) ttl s of
        (Inl e, s) \<Rightarrow> (None, wait (n, s))
      | (Inr lease, s) \<Rightarrow>
          let (n, s) = wait (n, s) in (Some lease, if ended then n else rejoin now n, s))"

lemma Register_puts:
  assumes "lease_ok ec view env" and "Register ec k v ttl s = (Inr lease, s')"
  shows "\<exists>st. env\<^sup>*\<^sup>* (view s) st \<and> env\<^sup>*\<^sup>* (es_change (ChangePut k v) st) (view s')"
proof -
  obtain s1 s2 where g: "ec_Grant ec ttl s = (Inr lease, s1)" and p: "ec_PutLease ec k v lease s1 = (Inr (), s2)"
    and a: "s' = snd (ec_KeepAlive ec lease s2)"
    using assms(2) by (auto simp: Register_def split: sum.splits prod.splits)
  have ok: "env\<^sup>*\<^sup>* (view s) (view (snd (ec_Grant ec ttl s)))"
    "\<exists>st. env\<^sup>*\<^sup>* (view s1) st \<and> (env\<^sup>*\<^sup>* (es_change (ChangePut k v) st) (view (snd (ec_PutLease ec k v lease s1))) \<or>
       (\<exists>e. fst (ec_PutLease ec k v lease s1) = Inl e) \<and> env\<^sup>*\<^sup>* st (view (snd (ec_PutLease ec k v lease s1))))"
    "env\<^sup>*\<^sup>* (view s2) (view (snd (ec_KeepAlive ec lease s2)))"
    using assms(1) by (simp_all add: lease_ok_def Let_def del: es_change.simps)
  then obtain st where "env\<^sup>*\<^sup>* (view s1) st" "env\<^sup>*\<^sup>* (es_change (ChangePut k v) st) (view s2)" using p by auto
  with ok(1,3) g a show ?thesis by (metis rtranclp_trans snd_conv)
qed

lemma rejoin_drops:
  assumes "lookup ref (rejoin now n) = Some part"
  shows "\<exists>l. nd_layout n = Some l \<and> gm_get 0 (l_Members l) (nd_ID n) = now"
proof (rule ccontr)
  assume "\<not> ?thesis"
  then have "desired_replicas (n\<lparr>nd_incarnation := now\<rparr>) (nd_layout n) = []"
    by (auto simp: desired_replicas_def split: option.split)
  with assms show False by (simp add: rejoin_def reconcile_def lookup_def Let_def)
qed

text \<open>
  C15. A node rejoins as a new member. When its registration succeeds, there was a moment at which etcd
  listed the node under its current address and incarnation. Once the lease is lost, the node has a new
  incarnation and has dropped every replica: it holds none unless the layout it sees already
  lists the new incarnation. A registration that fails keeps the incarnation and runs nothing else.
\<close>

theorem rejoins_as_new_member:
  assumes "lease_ok ec view env" and "keepMembership_turn ec ttl wait ended now n s = (registered, n', s')"
    and "\<And>n s. self (fst (wait (n, s))) = self n"
  shows "case registered of
      None \<Rightarrow> self n' = self n \<and> (\<exists>s1. (n', s') = wait (n, s1))
    | Some lease \<Rightarrow>
        (\<exists>st s1. env\<^sup>*\<^sup>* (view s) st \<and> env\<^sup>*\<^sup>* (es_change (ChangePut (NodesPrefix @ nd_ID n) (VNode (self n))) st) (view s1) \<and>
           live_node (es_change (ChangePut (NodesPrefix @ nd_ID n) (VNode (self n))) st) (nd_ID n) = Some (self n) \<and>
           s' = snd (wait (n, s1))) \<and>
        (\<not> ended \<longrightarrow> nd_incarnation n' = now \<and>
           (\<forall>ref. lookup ref n' \<noteq> None \<longrightarrow> (\<exists>l. nd_layout n' = Some l \<and> gm_get 0 (l_Members l) (nd_ID n) = now)))"
proof -
  obtain r s1 where r: "RegisterNode ec (self n) ttl s = (r, s1)" by fastforce
  obtain n2 s2 where w: "wait (n, s1) = (n2, s2)" by fastforce
  have same: "self n2 = self n" using assms(3) [of n s1] w by simp
  show ?thesis
  proof (cases r)
    case (Inl e)
    with r w assms(2) same show ?thesis by (auto simp: keepMembership_turn_def intro: sym)
  next
    case (Inr lease)
    with r w assms(2) have out: "registered = Some lease" "n' = (if ended then n2 else rejoin now n2)" "s' = s2"
      by (simp_all add: keepMembership_turn_def)
    have "Register ec (NodesPrefix @ nd_ID n) (VNode (self n)) ttl s = (Inr lease, s1)"
      using r Inr by (simp add: RegisterNode_def self_def)
    from Register_puts [OF assms(1) this] obtain st where st: "env\<^sup>*\<^sup>* (view s) st"
      "env\<^sup>*\<^sup>* (es_change (ChangePut (NodesPrefix @ nd_ID n) (VNode (self n))) st) (view s1)" by blast
    have live: "live_node (es_change (ChangePut (NodesPrefix @ nd_ID n) (VNode (self n))) st) (nd_ID n) = Some (self n)"
      by (simp add: live_node_def lookup_kv_change new_kv_def Let_def del: es_change.simps)
    have left: "nd_incarnation n' = now \<and>
        (\<forall>ref. lookup ref n' \<noteq> None \<longrightarrow> (\<exists>l. nd_layout n' = Some l \<and> gm_get 0 (l_Members l) (nd_ID n) = now))" if "\<not> ended"
    proof -
      have "nd_incarnation n' = now" "nd_layout n' = nd_layout n2" "nd_ID n2 = nd_ID n"
        using that out(2) same by (simp_all add: rejoin_def reconcile_def self_def Let_def)
      with rejoin_drops [of _ now n2] that out(2) show ?thesis by auto
    qed
    have "s' = snd (wait (n, s1))" using w out(3) by simp
    with st live left out(1) show ?thesis by auto
  qed
qed

theorem rejoins_as_new_member_witness:
  "\<exists>lease n' s'. keepMembership_turn local_etcd 5 (\<lambda>x. x) False 77 example_server example_store = (Some lease, n', s') \<and>
    nd_incarnation n' = 77 \<and> (\<forall>ref. lookup ref n' = None)"
proof -
  obtain lease n' s' where t: "keepMembership_turn local_etcd 5 (\<lambda>x. x) False 77 example_server example_store = (Some lease, n', s')"
    by (auto simp: keepMembership_turn_def RegisterNode_def Register_def local_etcd_def)
  have "lease_ok local_etcd (\<lambda>st. st) nobody" by (simp add: lease_ok_def local_etcd_def del: es_change.simps)
  from rejoins_as_new_member [OF this t] have n: "nd_incarnation n' = 77"
    "\<forall>ref. lookup ref n' \<noteq> None \<longrightarrow> (\<exists>l. nd_layout n' = Some l \<and> gm_get 0 (l_Members l) (nd_ID example_server) = 77)"
    by simp_all
  have "nd_layout n' = Some example_layout"
    using t example_server_layout(1) by (auto simp: keepMembership_turn_def rejoin_def reconcile_def Let_def split: sum.splits prod.splits)
  with n t show ?thesis
    by (auto simp: example_layout_def gm_get_def example_server_layout)
qed

end
