(* ===== verification/Network.thy ===== *)
theory Network
  imports Balancer NodeServe
begin

text \<open>
  \<open>src/pkg/network/network.go\<close> (the JSON client that nodes, controllers and balancers share) and the
  operations of \<open>src/pkg/client/client.go\<close> on top of the retry loop in \<open>Balancer\<close>. The HTTP transport
  and the JSON codec are parameters: building a request may fail, sending it may fail or give a
  response, encoding and decoding may fail.
\<close>

section \<open>Requests and responses\<close>

record net_request =
  nq_Method :: string
  nq_URL :: string
  nq_Body :: "string option"
  nq_JSON :: bool  \<comment> \<open>the \<open>Content-Type\<close> header is set\<close>

record net_response =
  nr_StatusCode :: int
  nr_Body :: string

text \<open>\<open>http.NewRequestWithContext\<close> and \<open>http.Client.Do\<close>; an error is its text.\<close>

record transport =
  tr_check :: "string \<Rightarrow> string \<Rightarrow> string option"
  tr_send :: "net_request \<Rightarrow> string + net_response"

datatype net_error =
    NetError string
  | StatusError int string  \<comment> \<open>\<open>Code\<close>, \<open>Body\<close>\<close>

definition StatusCode :: "net_error \<Rightarrow> int" where
  "StatusCode err = (case err of StatusError code _ \<Rightarrow> code | NetError _ \<Rightarrow> 0)"

definition StatusError_Error :: "int \<Rightarrow> string \<Rightarrow> string" where
  "StatusError_Error code body = ''received non-200 response: '' @ show_int code @ '' '' @ TrimSpace body"

section \<open>The shared client\<close>

text \<open>
  \<open>data\<close> is what to send, if anything; \<open>response\<close> is the decoder of the value the caller asked for, if
  any. The result is the error or what was decoded.
\<close>

definition Do ::
  "transport \<Rightarrow> ('d \<Rightarrow> string + string) \<Rightarrow> string \<Rightarrow> string \<Rightarrow> 'd option \<Rightarrow> (string \<Rightarrow> string + 'r) option \<Rightarrow>
   net_error + 'r option" where
  "Do tr marshal method url data response =
     (case (case data of None \<Rightarrow> Inr None | Some d \<Rightarrow> map_sum id Some (marshal d)) of
        Inl err \<Rightarrow> Inl (NetError err)
      | Inr body \<Rightarrow>
          (case tr_check tr method url of
             Some err \<Rightarrow> Inl (NetError err)
           | None \<Rightarrow>
               (case tr_send tr \<lparr>nq_Method = method, nq_URL = url, nq_Body = body, nq_JSON = (data \<noteq> None)\<rparr> of
                  Inl err \<Rightarrow> Inl (NetError err)
                | Inr resp \<Rightarrow>
                    if nr_StatusCode resp \<noteq> 200
                    then Inl (StatusError (nr_StatusCode resp) (take 1024 (nr_Body resp)))
                    else (case response of
                            None \<Rightarrow> Inr None
                          | Some decode \<Rightarrow>
                              (case decode (nr_Body resp) of Inl err \<Rightarrow> Inl (NetError err) | Inr r \<Rightarrow> Inr (Some r))))))"

definition net_Post where "net_Post tr marshal url data response = Do tr marshal ''POST'' url data response"
definition net_Get where "net_Get tr marshal url response = Do tr marshal ''GET'' url None response"
definition net_Delete where "net_Delete tr marshal url data response = Do tr marshal ''DELETE'' url data response"

text \<open>The request a call sends, and the response it gets if there is one.\<close>

definition reply :: "transport \<Rightarrow> ('d \<Rightarrow> string + string) \<Rightarrow> string \<Rightarrow> string \<Rightarrow> 'd option \<Rightarrow> net_response option" where
  "reply tr marshal method url data =
     (case (case data of None \<Rightarrow> Some None | Some d \<Rightarrow> (case marshal d of Inl _ \<Rightarrow> None | Inr b \<Rightarrow> Some (Some b))) of
        None \<Rightarrow> None
      | Some body \<Rightarrow>
          if tr_check tr method url \<noteq> None then None
          else (case tr_send tr \<lparr>nq_Method = method, nq_URL = url, nq_Body = body, nq_JSON = (body \<noteq> None)\<rparr> of
                  Inl _ \<Rightarrow> None | Inr resp \<Rightarrow> Some resp))"

text \<open>
  Callers tell answers apart by \<open>StatusCode\<close>: it is the status of a reply other than 200, and 0 for every
  other failure; a call succeeds only on a reply with status 200. The text that an error carries is bounded.
\<close>

lemma Do_outcome:
  "(case Do tr marshal method url data response of
      Inr r \<Rightarrow> (\<exists>resp. reply tr marshal method url data = Some resp \<and> nr_StatusCode resp = 200 \<and>
        (case response of None \<Rightarrow> r = None | Some decode \<Rightarrow> (\<exists>v. decode (nr_Body resp) = Inr v \<and> r = Some v)))
    | Inl err \<Rightarrow>
        (case reply tr marshal method url data of
           None \<Rightarrow> StatusCode err = 0
         | Some resp \<Rightarrow> if nr_StatusCode resp = 200 then StatusCode err = 0 \<and> response \<noteq> None
                         else StatusCode err = nr_StatusCode resp))"
  by (auto simp: Do_def reply_def StatusCode_def split: option.splits sum.splits)

lemma Do_error_bounded: "Do tr marshal method url data response = Inl (StatusError code body) \<Longrightarrow> length body \<le> 1024"
  by (auto simp: Do_def split: option.splits sum.splits if_splits)

section \<open>Operations of the client library\<close>

text \<open>\<open>url.QueryEscape\<close> on bytes, and what the server's query parser makes of it.\<close>

definition unreserved :: "char \<Rightarrow> bool" where
  "unreserved c \<longleftrightarrow> (let n = of_char c :: nat in n \<in> {48..57} \<union> {65..90} \<union> {97..122} \<union> {45, 46, 95, 126})"

definition hex_digit :: "nat \<Rightarrow> char" where
  "hex_digit d = char_of (if d < 10 then 48 + d else 55 + d)"

definition escape_char :: "char \<Rightarrow> string" where
  "escape_char c =
     (if unreserved c then [c]
      else if c = CHR '' '' then ''+''
      else let n = of_char c :: nat in [CHR ''%'', hex_digit (n div 16), hex_digit (n mod 16)])"

definition QueryEscape :: "string \<Rightarrow> string" where
  "QueryEscape s = concat (map escape_char s)"

definition hex_value :: "char \<Rightarrow> nat option" where
  "hex_value c =
     (let n = of_char c :: nat in
      if 48 \<le> n \<and> n \<le> 57 then Some (n - 48)
      else if 65 \<le> n \<and> n \<le> 70 then Some (n - 55)
      else if 97 \<le> n \<and> n \<le> 102 then Some (n - 87)
      else None)"

fun QueryUnescape :: "string \<Rightarrow> string option" where
  "QueryUnescape [] = Some []"
| "QueryUnescape (c # s) =
     (if c = CHR ''%''
      then (case s of
              a # b # rest \<Rightarrow>
                (case (hex_value a, hex_value b) of
                   (Some x, Some y) \<Rightarrow> map_option (Cons (char_of (16 * x + y))) (QueryUnescape rest)
                 | _ \<Rightarrow> None)
            | _ \<Rightarrow> None)
      else map_option (Cons (if c = CHR ''+'' then CHR '' '' else c)) (QueryUnescape s))"

text \<open>One exchange of the client: like \<open>Do\<close>, with the payload encoded before and a shorter error text.\<close>

definition once ::
  "transport \<Rightarrow> string \<Rightarrow> string \<Rightarrow> string option \<Rightarrow> (string \<Rightarrow> string + 'r) option \<Rightarrow> once_result \<times> string \<times> 'r option" where
  "once tr method url payload out =
     (case tr_check tr method url of
        Some err \<Rightarrow> (OnceFailed err, err, None)
      | None \<Rightarrow>
          (case tr_send tr \<lparr>nq_Method = method, nq_URL = url, nq_Body = payload, nq_JSON = (payload \<noteq> None)\<rparr> of
             Inl err \<Rightarrow> (OnceFailed err, err, None)
           | Inr resp \<Rightarrow>
               if nr_StatusCode resp \<noteq> 200
               then (OnceHttp (nr_StatusCode resp), TrimSpace (take 512 (nr_Body resp)), None)
               else (case out of
                       None \<Rightarrow> (OnceOk, '''', None)
                     | Some decode \<Rightarrow>
                         (case decode (nr_Body resp) of Inl err \<Rightarrow> (OnceFailed err, err, None) | Inr r \<Rightarrow> (OnceOk, '''', Some r)))))"

text \<open>
  What an operation meets: the transport at each attempt, and whether the context is done after the
  call and after the pause of the attempt.
\<close>

record client_world =
  cw_transport :: "nat \<Rightarrow> transport"
  cw_done_call :: "nat \<Rightarrow> bool"
  cw_done_pause :: "nat \<Rightarrow> bool"

definition env_of :: "client_world \<Rightarrow> string \<Rightarrow> string \<Rightarrow> string option \<Rightarrow> (string \<Rightarrow> string + 'r) option \<Rightarrow> client_env" where
  "env_of w method path payload out =
     \<lparr>ce_once = (\<lambda>a endpoint. fst (once (cw_transport w a) method (endpoint @ path) payload out)),
      ce_done_call = cw_done_call w, ce_done_pause = cw_done_pause w\<rparr>"

text \<open>\<open>encode\<close> is \<open>json.Marshal\<close> of a map of strings, which does not fail; \<open>decode\<close> reads the field \<open>value\<close>.\<close>

definition client_Set ::
  "((string \<times> string) list \<Rightarrow> string) \<Rightarrow> client_world \<Rightarrow> key \<Rightarrow> string \<Rightarrow> Client \<Rightarrow> client_error option \<times> Client" where
  "client_Set encode w k v c =
     client_do (env_of w ''POST'' ''/set'' (Some (encode [(''key'', k), (''value'', v)]))
       (None :: (string \<Rightarrow> string + unit) option)) c"

definition client_Delete ::
  "((string \<times> string) list \<Rightarrow> string) \<Rightarrow> client_world \<Rightarrow> key \<Rightarrow> Client \<Rightarrow> client_error option \<times> Client" where
  "client_Delete encode w k c =
     client_do (env_of w ''DELETE'' ''/delete'' (Some (encode [(''key'', k)])) (None :: (string \<Rightarrow> string + unit) option)) c"

definition get_path :: "key \<Rightarrow> string" where
  "get_path k = ''/get?key='' @ QueryEscape k"

text \<open>The value is the one the last attempt decoded; the retries of the call tell which attempt that was.\<close>

definition client_Get ::
  "(string \<Rightarrow> string + string) \<Rightarrow> client_world \<Rightarrow> key \<Rightarrow> Client \<Rightarrow> (client_error + string) \<times> Client" where
  "client_Get decode w k c =
     (case client_do (env_of w ''GET'' (get_path k) None (Some decode)) c of
        (Some e, c') \<Rightarrow> (Inl e, c')
      | (None, c') \<Rightarrow>
          let a = nat (c_retries c' - c_retries c);
              (_, _, out) = once (cw_transport w a) ''GET'' (client_endpoint (c_next c + 1) a c @ get_path k) None (Some decode)
          in (Inr (case out of Some v \<Rightarrow> v | None \<Rightarrow> ''''), c'))"

section \<open>Escaping\<close>

lemma hex_digit_value: "d < 16 \<Longrightarrow> hex_value (hex_digit d) = Some d"
  by (auto simp: hex_digit_def hex_value_def Let_def)

lemma unescape_char: "QueryUnescape (escape_char c @ s) = map_option (Cons c) (QueryUnescape s)"
proof (cases "unreserved c \<or> c = CHR '' ''")
  case True
  have "c \<noteq> CHR ''%'' \<and> c \<noteq> CHR ''+''" if "unreserved c" using that by (auto simp: unreserved_def)
  with True show ?thesis by (auto simp: escape_char_def)
next
  case False
  let ?n = "of_char c :: nat"
  have "?n < 256" by simp
  then have "?n div 16 < 16" by (simp only: div_less_iff_less_mult)
  then have "hex_value (hex_digit (?n div 16)) = Some (?n div 16)" "hex_value (hex_digit (?n mod 16)) = Some (?n mod 16)"
    by (simp_all add: hex_digit_value)
  moreover have "16 * (?n div 16) + ?n mod 16 = ?n" by simp
  moreover have "char_of ?n = c" by simp
  ultimately show ?thesis using False by (simp add: escape_char_def Let_def del: char_of_nat)
qed

text \<open>The key that a balancer reads from the query is the key the client asked for, whatever its bytes.\<close>

lemma QueryUnescape_QueryEscape: "QueryUnescape (QueryEscape s) = Some s"
  by (induction s) (simp_all add: QueryEscape_def unescape_char)

section \<open>What a read returns\<close>

lemma client_loop_success:
  assumes "client_loop env start a c = (None, c')"
  shows "\<exists>b \<ge> a. c_retries c' = c_retries c + int (b - a) \<and> ce_once env b (client_endpoint start b c) = OnceOk"
  using assms
proof (induction env start a c rule: client_loop.induct)
  case (1 env start a c)
  let ?r = "ce_once env a (client_endpoint start a c)" and ?c = "c\<lparr>c_retries := c_retries c + 1\<rparr>"
  show ?case
  proof (cases "?r = OnceOk")
    case True
    with 1(2) show ?thesis by (auto simp: client_loop.simps [of env start a c])
  next
    case False
    with 1(2) have go: "client_loop env start (a + 1) ?c = (None, c')"
      by (auto simp: client_loop.simps [of env start a c] Let_def split: if_splits)
    from False 1(2) have rest: "?r \<noteq> OnceHttp 404" "\<not> (case ?r of OnceHttp code \<Rightarrow> code < 500 | _ \<Rightarrow> False)"
      "\<not> ce_done_call env a" "\<not> int a \<ge> c_MaxRetries c" "\<not> ce_done_pause env a"
      by (auto simp: client_loop.simps [of env start a c] Let_def split: if_splits)
    from 1(1) [OF refl False rest(1-4) refl rest(5) go] obtain b where
      "a + 1 \<le> b" "c_retries c' = c_retries c + 1 + int (b - (a + 1))" "ce_once env b (client_endpoint start b c) = OnceOk"
      by (auto simp: client_endpoint_def)
    then show ?thesis by (intro exI [of _ b]) auto
  qed
qed

text \<open>
  A value that \<open>Get\<close> returns was decoded from a reply with status 200 to a request for this key at one
  of the balancers.
\<close>

lemma client_Get_value:
  assumes "client_Get decode w k c = (Inr v, c')"
  shows "\<exists>a resp. tr_send (cw_transport w a) \<lparr>nq_Method = ''GET'',
      nq_URL = client_endpoint (c_next c + 1) a c @ get_path k, nq_Body = None, nq_JSON = False\<rparr> = Inr resp \<and>
    nr_StatusCode resp = 200 \<and> decode (nr_Body resp) = Inr v"
proof -
  let ?env = "env_of w ''GET'' (get_path k) None (Some decode)"
  obtain err c1 where d: "client_do ?env c = (err, c1)" by fastforce
  with assms have err: "err = None" "c1 = c'" by (auto simp: client_Get_def case_prod_beta Let_def split: option.splits)
  define a where "a = nat (c_retries c' - c_retries c)"
  define out where "out = once (cw_transport w a) ''GET'' (client_endpoint (c_next c + 1) a c @ get_path k) None (Some decode)"
  have v: "v = (case snd (snd out) of Some v \<Rightarrow> v | None \<Rightarrow> '''')"
    using assms d err by (simp add: client_Get_def case_prod_beta Let_def flip: a_def out_def)
  from d err have l: "client_loop ?env (c_next c + 1) 0 (c\<lparr>c_next := c_next c + 1\<rparr>) = (None, c')"
    by (auto simp: client_do_def Let_def split: if_splits)
  from client_loop_success [OF l] have "fst out = OnceOk"
    by (auto simp: env_of_def client_endpoint_def a_def out_def)
  with v show ?thesis
    by (intro exI [of _ a]) (auto simp: out_def once_def split: option.splits sum.splits if_splits)
qed

end
