(* ===== verification/Wire.thy ===== *)
theory Wire
  imports Network Migration
begin

text \<open>
  The requests that parts of the program send each other as URLs, and how the receiver reads them: the
  queries built in \<open>Node.follow\<close>, \<open>Node.pull\<close> (\<open>src/internal/node/node.go\<close>) and \<open>LoadBalancer.forward\<close>
  (\<open>src/internal/loadbalancer/loadbalancer.go\<close>), and \<open>refFromQuery\<close> with the parameters that the handlers
  parse. The other theories pass requests as values; the round trips here say that this loses nothing.
\<close>

section \<open>Numbers in queries\<close>

text \<open>\<open>strconv.ParseInt(s, 10, 64)\<close> and, on 64-bit machines, \<open>strconv.Atoi\<close>.\<close>

definition digit_value :: "char \<Rightarrow> nat option" where
  "digit_value c = (let n = of_char c :: nat in if 48 \<le> n \<and> n \<le> 57 then Some (n - 48) else None)"

fun parse_digits :: "string \<Rightarrow> nat \<Rightarrow> nat option" where
  "parse_digits [] acc = Some acc"
| "parse_digits (c # s) acc = (case digit_value c of None \<Rightarrow> None | Some d \<Rightarrow> parse_digits s (10 * acc + d))"

definition in_int64 :: "int \<Rightarrow> bool" where
  "in_int64 i \<longleftrightarrow> - (2 ^ 63) \<le> i \<and> i < 2 ^ 63"

definition parse_unsigned :: "string \<Rightarrow> nat option" where
  "parse_unsigned s = (if s = [] then None else parse_digits s 0)"

text \<open>The value and whether there was no error: a malformed number gives 0, one out of range the nearest bound.\<close>

definition ParseInt :: "string \<Rightarrow> int \<times> bool" where
  "ParseInt s =
     (let (neg, digits) = (case s of
            [] \<Rightarrow> (False, [])
          | c # rest \<Rightarrow> if c = CHR ''-'' then (True, rest) else if c = CHR ''+'' then (False, rest) else (False, s))
      in case parse_unsigned digits of
           None \<Rightarrow> (0, False)
         | Some n \<Rightarrow>
             let i = (if neg then - int n else int n) in
             if in_int64 i then (i, True) else (if neg then - (2 ^ 63) else 2 ^ 63 - 1, False))"

definition ok_int :: "string \<Rightarrow> int option" where
  "ok_int s = (let (i, ok) = ParseInt s in if ok then Some i else None)"

section \<open>Queries\<close>

text \<open>A query as a list of names and values, its text, and \<open>r.URL.Query()\<close> of that text.\<close>

fun join_params :: "(string \<times> string) list \<Rightarrow> string" where
  "join_params [] = []"
| "join_params [(k, v)] = k @ ''='' @ v"
| "join_params ((k, v) # ps) = k @ ''='' @ v @ ''&'' @ join_params ps"

text \<open>The text up to the first separator, and what follows it.\<close>

fun split_at :: "char \<Rightarrow> string \<Rightarrow> string \<times> string option" where
  "split_at sep [] = ([], None)"
| "split_at sep (c # s) = (if c = sep then ([], Some s) else (let (a, b) = split_at sep s in (c # a, b)))"

lemma split_at_shorter: "split_at sep s = (a, Some b) \<Longrightarrow> length b < length s"
proof (induction s arbitrary: a)
  case (Cons c s)
  then show ?case by (cases "split_at sep s") (auto split: if_splits)
qed simp

definition parse_param :: "string \<Rightarrow> (string \<times> string) option" where
  "parse_param s =
     (if CHR '';'' \<in> set s then None
      else case split_at (CHR ''='') s of
        (k, rest) \<Rightarrow>
          (case (QueryUnescape k, QueryUnescape (case rest of None \<Rightarrow> [] | Some v \<Rightarrow> v)) of
             (Some k', Some v') \<Rightarrow> Some (k', v')
           | _ \<Rightarrow> None))"

text \<open>A parameter that cannot be decoded, one with a semicolon and an empty one are skipped.\<close>

function ParseQuery :: "string \<Rightarrow> (string \<times> string) list" where
  "ParseQuery s =
     (case split_at (CHR ''&'') s of
        (p, rest) \<Rightarrow>
          (if p = [] then [] else case parse_param p of None \<Rightarrow> [] | Some kv \<Rightarrow> [kv]) @
          (case rest of None \<Rightarrow> [] | Some s' \<Rightarrow> ParseQuery s'))"
  by pat_completeness auto
termination
  by (relation "measure length") (auto dest: split_at_shorter [OF sym])

declare ParseQuery.simps [simp del]

definition query_Get :: "(string \<times> string) list \<Rightarrow> string \<Rightarrow> string" where
  "query_Get q k = (case map_of q k of None \<Rightarrow> '''' | Some v \<Rightarrow> v)"

definition refFromQuery :: "(string \<times> string) list \<Rightarrow> PartitionRef option" where
  "refFromQuery q =
     (case (ok_int (query_Get q ''gen''), ok_int (query_Get q ''pid'')) of
        (Some gen, Some pid) \<Rightarrow> Some (PartitionRef gen pid)
      | _ \<Rightarrow> None)"

section \<open>What is sent\<close>

definition snapshot_query :: "PartitionRef \<Rightarrow> int \<Rightarrow> string" where
  "snapshot_query ref epoch =
     ''gen='' @ show_int (ref_Generation ref) @ ''&pid='' @ show_int (ref_ID ref) @ ''&epoch='' @ show_int epoch"

definition replicate_url_query :: "PartitionRef \<Rightarrow> int \<Rightarrow> int \<Rightarrow> int \<Rightarrow> int \<Rightarrow> string" where
  "replicate_url_query ref epoch dataEpoch after waitMs =
     ''gen='' @ show_int (ref_Generation ref) @ ''&pid='' @ show_int (ref_ID ref) @ ''&epoch='' @ show_int epoch @
     ''&data_epoch='' @ show_int dataEpoch @ ''&after='' @ show_int after @ ''&wait_ms='' @ show_int waitMs"

definition export_query :: "MigrationRequest \<Rightarrow> MigrationSource \<Rightarrow> bool \<Rightarrow> int \<Rightarrow> string" where
  "export_query req src freezing after =
     ''gen='' @ show_int (mr_SourceGeneration req) @ ''&pid='' @ show_int (ms_PartitionID src) @
     ''&target_count='' @ show_int (mr_TargetCount req) @ ''&target_id='' @ show_int (ref_ID (mr_Target req)) @
     ''&freeze='' @ show_int (if freezing then 1 else 0) @ ''&after='' @ show_int after"

text \<open>The query of a forwarded request; reads carry the key in it.\<close>

definition forward_query :: "PartitionRef \<Rightarrow> key \<Rightarrow> string option \<Rightarrow> string" where
  "forward_query ref k payload =
     ''gen='' @ show_int (ref_Generation ref) @ ''&pid='' @ show_int (ref_ID ref) @
     (if payload = None then ''&key='' @ QueryEscape k else '''')"

section \<open>What is read\<close>

definition read_replicate :: "string \<Rightarrow> replicate_query" where
  "read_replicate s =
     (let q = ParseQuery s in
      \<lparr>rq_ref = refFromQuery q, rq_epoch = ok_int (query_Get q ''epoch''),
       rq_dataEpoch = ok_int (query_Get q ''data_epoch''), rq_after = ok_int (query_Get q ''after''),
       rq_wait = fst (ParseInt (query_Get q ''wait_ms''))\<rparr>)"

definition read_snapshot :: "string \<Rightarrow> PartitionRef option \<times> string" where
  "read_snapshot s = (let q = ParseQuery s in (refFromQuery q, query_Get q ''epoch''))"

text \<open>Partition, target count, target, position and freeze flag of an export.\<close>

definition read_export :: "string \<Rightarrow> PartitionRef option \<times> int option \<times> int option \<times> int \<times> bool" where
  "read_export s =
     (let q = ParseQuery s in
      (refFromQuery q, ok_int (query_Get q ''target_count''), ok_int (query_Get q ''target_id''),
       fst (ParseInt (query_Get q ''after'')), query_Get q ''freeze'' = ''1''))"

definition read_forwarded :: "string \<Rightarrow> PartitionRef option \<times> key" where
  "read_forwarded s = (let q = ParseQuery s in (refFromQuery q, query_Get q ''key''))"

section \<open>Numbers survive\<close>

lemma parse_digits_snoc:
  "parse_digits (s @ [c]) acc =
     (case parse_digits s acc of None \<Rightarrow> None | Some m \<Rightarrow> map_option (\<lambda>d. 10 * m + d) (digit_value c))"
  by (induction s arbitrary: acc) (auto split: option.splits)

lemma digit_value_show: "d < 10 \<Longrightarrow> digit_value (char_of (48 + d)) = Some d"
  by (simp add: digit_value_def Let_def)

lemma parse_show_nat: "parse_digits (show_nat n) 0 = Some n"
proof (induction n rule: show_nat.induct)
  case (1 n)
  show ?case
  proof (cases "n < 10")
    case True
    then show ?thesis by (simp add: show_nat.simps [of n] digit_value_show del: char_of_nat)
  next
    case False
    have "digit_value (char_of (48 + n mod 10)) = Some (n mod 10)" by (rule digit_value_show) simp
    with False 1 show ?thesis by (subst show_nat.simps) (simp add: parse_digits_snoc del: char_of_nat)
  qed
qed

lemma ParseInt_show: "in_int64 i \<Longrightarrow> ParseInt (show_int i) = (i, True)"
proof (cases "i < 0")
  case False
  assume i: "in_int64 i"
  obtain c s where cs: "show_nat (nat i) = c # s" by (cases "show_nat (nat i)") auto
  then have "of_char c \<in> {48..57 :: nat}" using show_nat_digits [of c "nat i"] by simp
  then have "c \<noteq> CHR ''-''" "c \<noteq> CHR ''+''" by auto
  with i cs False parse_show_nat [of "nat i"] show ?thesis
    by (simp add: ParseInt_def show_int_def parse_unsigned_def in_int64_def)
qed (simp add: ParseInt_def show_int_def parse_unsigned_def parse_show_nat in_int64_def)

section \<open>Queries survive\<close>

definition plain :: "char \<Rightarrow> bool" where
  "plain c \<longleftrightarrow> unreserved c \<or> c = CHR ''%'' \<or> c = CHR ''+''"

lemma plain_separators: "plain c \<Longrightarrow> c \<noteq> CHR ''&'' \<and> c \<noteq> CHR ''='' \<and> c \<noteq> CHR '';''"
  by (auto simp: plain_def unreserved_def)

lemma list_all_plain: "list_all plain s \<Longrightarrow> CHR ''&'' \<notin> set s \<and> CHR ''='' \<notin> set s \<and> CHR '';'' \<notin> set s"
  by (auto simp: list_all_iff dest: plain_separators)

lemma unreserved_digit: "of_char c \<in> {48..57 :: nat} \<or> c = CHR ''-'' \<Longrightarrow> unreserved c"
  by (auto simp: unreserved_def Let_def)

lemma unreserved_show_int: "list_all unreserved (show_int i)"
  using show_nat_digits by (auto simp: list_all_iff show_int_def intro!: unreserved_digit)

lemma unescape_unreserved: "list_all unreserved s \<Longrightarrow> QueryUnescape s = Some s"
proof (induction s)
  case (Cons c s)
  then have "c \<noteq> CHR ''%''" "c \<noteq> CHR ''+''" by (auto simp: unreserved_def)
  with Cons show ?case by simp
qed simp

lemma plain_hex: "d < 16 \<Longrightarrow> plain (hex_digit d)"
  by (auto simp: plain_def hex_digit_def unreserved_def Let_def)

lemma plain_escape: "list_all plain (QueryEscape s)"
proof (induction s)
  case (Cons c s)
  have "of_char c div 16 < (16 :: nat)" using nat_of_char_less_256 [of c] by (simp only: div_less_iff_less_mult)
  then have "list_all plain (escape_char c)"
    by (auto simp: escape_char_def Let_def plain_hex) (simp_all add: plain_def)
  with Cons show ?case by (simp add: QueryEscape_def)
qed (simp add: QueryEscape_def)

lemma split_at_none: "sep \<notin> set s \<Longrightarrow> split_at sep s = (s, None)"
  by (induction s) auto

lemma split_at_sep: "sep \<notin> set a \<Longrightarrow> split_at sep (a @ sep # b) = (a, Some b)"
  by (induction a) auto

definition decoded :: "(string \<times> string) list \<Rightarrow> (string \<times> string) list" where
  "decoded ps = map (\<lambda>(k, v). (k, the (QueryUnescape v))) ps"

definition sendable :: "(string \<times> string) list \<Rightarrow> bool" where
  "sendable ps \<longleftrightarrow> (\<forall>(k, v) \<in> set ps. list_all unreserved k \<and> list_all plain v \<and> QueryUnescape v \<noteq> None)"

lemma parse_param_sent:
  assumes "list_all unreserved k" and "list_all plain v" and "QueryUnescape v = Some w"
  shows "parse_param (k @ ''='' @ v) = Some (k, w)"
proof -
  have k: "list_all plain k" using assms(1) by (auto simp: list_all_iff plain_def)
  with assms show ?thesis
    using list_all_plain [OF k] list_all_plain [OF assms(2)]
    by (simp add: parse_param_def split_at_sep unescape_unreserved)
qed

lemma ParseQuery_join: "ps \<noteq> [] \<Longrightarrow> sendable ps \<Longrightarrow> ParseQuery (join_params ps) = decoded ps"
proof (induction ps rule: join_params.induct)
  case (2 k v)
  then obtain w where w: "list_all unreserved k" "list_all plain v" "QueryUnescape v = Some w" by (auto simp: sendable_def)
  then have "CHR ''&'' \<notin> set (k @ ''='' @ v)"
    using list_all_plain [of k] list_all_plain [of v] by (auto simp: list_all_iff plain_def)
  then show ?case
    using parse_param_sent [OF w] w(3) by (simp add: ParseQuery.simps split_at_none decoded_def)
next
  case (3 k v p ps)
  then obtain w where w: "list_all unreserved k" "list_all plain v" "QueryUnescape v = Some w" by (auto simp: sendable_def)
  then have sep: "CHR ''&'' \<notin> set (k @ ''='' @ v)"
    using list_all_plain [of k] list_all_plain [of v] by (auto simp: list_all_iff plain_def)
  have "sendable (p # ps)" using 3(3) by (auto simp: sendable_def)
  with 3(1) have "ParseQuery (join_params (p # ps)) = decoded (p # ps)" by simp
  then show ?case
    using parse_param_sent [OF w] w(3) split_at_sep [OF sep, of "join_params (p # ps)"]
    by (subst ParseQuery.simps) (simp add: decoded_def)
qed simp

lemma plain_show_int: "list_all plain (show_int i)" "QueryUnescape (show_int i) = Some (show_int i)"
  using unreserved_show_int [of i] by (auto simp: list_all_iff plain_def unescape_unreserved)

text \<open>The parameters of the queries, as the receiver gets them.\<close>

lemma parsed_snapshot:
  "ParseQuery (snapshot_query ref epoch) =
     [(''gen'', show_int (ref_Generation ref)), (''pid'', show_int (ref_ID ref)), (''epoch'', show_int epoch)]" (is "_ = ?ps")
proof -
  have "ParseQuery (join_params ?ps) = decoded ?ps"
    by (rule ParseQuery_join) (simp_all add: sendable_def plain_show_int, simp add: unreserved_def)
  then show ?thesis by (simp add: snapshot_query_def decoded_def plain_show_int)
qed

lemma parsed_replicate:
  "ParseQuery (replicate_url_query ref epoch dataEpoch after waitMs) =
     [(''gen'', show_int (ref_Generation ref)), (''pid'', show_int (ref_ID ref)), (''epoch'', show_int epoch),
      (''data_epoch'', show_int dataEpoch), (''after'', show_int after), (''wait_ms'', show_int waitMs)]" (is "_ = ?ps")
proof -
  have "ParseQuery (join_params ?ps) = decoded ?ps"
    by (rule ParseQuery_join) (simp_all add: sendable_def plain_show_int, simp add: unreserved_def)
  then show ?thesis by (simp add: replicate_url_query_def decoded_def plain_show_int)
qed

lemma parsed_export:
  "ParseQuery (export_query req src freezing after) =
     [(''gen'', show_int (mr_SourceGeneration req)), (''pid'', show_int (ms_PartitionID src)),
      (''target_count'', show_int (mr_TargetCount req)), (''target_id'', show_int (ref_ID (mr_Target req))),
      (''freeze'', show_int (if freezing then 1 else 0)), (''after'', show_int after)]" (is "_ = ?ps")
proof -
  have "ParseQuery (join_params ?ps) = decoded ?ps"
    by (rule ParseQuery_join) (simp_all add: sendable_def plain_show_int, simp add: unreserved_def)
  then show ?thesis by (simp add: export_query_def decoded_def plain_show_int)
qed

lemma parsed_forward:
  "ParseQuery (forward_query ref k payload) =
     [(''gen'', show_int (ref_Generation ref)), (''pid'', show_int (ref_ID ref))] @
     (if payload = None then [(''key'', k)] else [])"
proof -
  let ?ref = "[(''gen'', show_int (ref_Generation ref)), (''pid'', show_int (ref_ID ref))]"
  have "ParseQuery (join_params (?ref @ [(''key'', QueryEscape k)])) = decoded (?ref @ [(''key'', QueryEscape k)])"
    by (rule ParseQuery_join)
      (simp_all add: sendable_def plain_show_int plain_escape QueryUnescape_QueryEscape, simp add: unreserved_def)
  moreover have "ParseQuery (join_params ?ref) = decoded ?ref"
    by (rule ParseQuery_join) (simp_all add: sendable_def plain_show_int, simp add: unreserved_def)
  ultimately show ?thesis by (simp add: forward_query_def decoded_def plain_show_int QueryUnescape_QueryEscape)
qed

text \<open>
  A request that one part of the program sends as a URL arrives as it was meant. The leader reads
  from the URL of a follower's loop exactly the request of \<open>follow_ask\<close>; a source of a migration reads the
  partition, the target, the position and the freeze flag that \<open>pull\<close> asked for; a node reads the
  partition and, for reads, the key that the balancer forwarded, whatever bytes the key has. (The
  numbers are 64-bit integers, as they are in the program.)
\<close>

lemma requests_arrive:
  assumes "in_int64 (ref_Generation ref)" and "in_int64 (ref_ID ref)"
    and "in_int64 epoch" and "in_int64 dataEpoch" and "in_int64 after"
    and "in_int64 (mr_SourceGeneration req)" and "in_int64 (ms_PartitionID src)" and "in_int64 (mr_TargetCount req)"
    and "in_int64 (ref_ID (mr_Target req))"
  shows "read_snapshot (snapshot_query ref epoch) = (Some ref, show_int epoch) \<and>
    read_replicate (replicate_url_query ref epoch dataEpoch after replicationWait) =
      \<lparr>rq_ref = Some ref, rq_epoch = Some epoch, rq_dataEpoch = Some dataEpoch, rq_after = Some after,
       rq_wait = replicationWait\<rparr> \<and>
    read_export (export_query req src freezing after) =
      (Some (PartitionRef (mr_SourceGeneration req) (ms_PartitionID src)), Some (mr_TargetCount req),
       Some (ref_ID (mr_Target req)), after, freezing) \<and>
    read_forwarded (forward_query ref k None) = (Some ref, k) \<and>
    fst (read_forwarded (forward_query ref k (Some body))) = Some ref"
proof -
  have wait: "in_int64 replicationWait" by (simp add: in_int64_def replicationWait_def)
  have flag: "show_int (if freezing then 1 else 0) = ''1'' \<longleftrightarrow> freezing"
    by (simp add: show_int_def show_nat.simps char_of_def bit_0)
  note read = refFromQuery_def query_Get_def ok_int_def ParseInt_show assms Let_def
  show ?thesis
    by (simp add: read_snapshot_def parsed_snapshot read_replicate_def parsed_replicate read_export_def parsed_export
        read_forwarded_def parsed_forward read wait flag)
qed

end
