(* ===== verification/Json.thy ===== *)
theory Json
  imports Wire Controller "HOL-Library.Monad_Syntax"
begin

text \<open>
  The values of \<open>src/internal/model/model.go\<close> as \<open>encoding/json\<close> writes and reads them by their field
  tags (\<open>omitempty\<close> included), what follows for \<open>Clone\<close> and \<open>sameLayout\<close>, which go through JSON, and the
  names of partitions. Shown: round trips, and that decoders accept only values of their types. A JSON document is a
  value of \<open>json\<close>, its numbers are integers. Texts are byte strings; the encoder
  and the decoder replace bytes that are not UTF-8 by the replacement character, as Go's do. Object members
  are matched by their exact names. The text of a \<open>time.Time\<close> is a parameter.
\<close>

section \<open>UTF-8\<close>

fun tails_in :: "(nat \<times> nat) list \<Rightarrow> string \<Rightarrow> bool" where
  "tails_in [] s = True"
| "tails_in (r # rs) [] = False"
| "tails_in ((lo, hi) # rs) (c # s) = (lo \<le> of_char c \<and> of_char c \<le> hi \<and> tails_in rs s)"

text \<open>The length of the encoded character at the head of a text (\<open>utf8.DecodeRune\<close>), 0 when there is none.\<close>

definition rune_tails :: "nat \<Rightarrow> (nat \<times> nat) list option" where
  "rune_tails b =
     (if b < 128 then Some []
      else if 194 \<le> b \<and> b \<le> 223 then Some [(128, 191)]
      else if b = 224 then Some [(160, 191), (128, 191)]
      else if b = 237 then Some [(128, 159), (128, 191)]
      else if 225 \<le> b \<and> b \<le> 239 then Some [(128, 191), (128, 191)]
      else if b = 240 then Some [(144, 191), (128, 191), (128, 191)]
      else if 241 \<le> b \<and> b \<le> 243 then Some [(128, 191), (128, 191), (128, 191)]
      else if b = 244 then Some [(128, 143), (128, 191), (128, 191)]
      else None)"

fun rune_len :: "string \<Rightarrow> nat" where
  "rune_len [] = 0"
| "rune_len (c # s) =
     (case rune_tails (of_char c) of
        None \<Rightarrow> 0
      | Some rs \<Rightarrow> if tails_in rs s then Suc (length rs) else 0)"

definition replacement :: string where
  "replacement = map char_of [239, 191, 189 :: nat]"

function to_utf8 :: "string \<Rightarrow> string" where
  "to_utf8 [] = []"
| "to_utf8 (c # s) =
     (if rune_len (c # s) = 0 then replacement @ to_utf8 s
      else take (rune_len (c # s)) (c # s) @ to_utf8 (drop (rune_len (c # s)) (c # s)))"
  by pat_completeness auto
termination
  by (relation "measure length") (simp_all del: rune_len.simps)

function valid_utf8 :: "string \<Rightarrow> bool" where
  "valid_utf8 [] = True"
| "valid_utf8 (c # s) = (if rune_len (c # s) = 0 then False else valid_utf8 (drop (rune_len (c # s)) (c # s)))"
  by pat_completeness auto
termination
  by (relation "measure length") (simp_all del: rune_len.simps)

declare rune_len.simps(2) [simp del]

lemma tails_in_length: "tails_in rs s \<Longrightarrow> length rs \<le> length s"
  by (induction rs s rule: tails_in.induct) auto

lemma rune_len_le: "rune_len s \<le> length s"
  by (cases s) (auto simp: rune_len.simps tails_in_length split: option.split)

lemma tails_in_append: "tails_in rs s \<Longrightarrow> tails_in rs (take (length rs) s @ t)"
  by (induction rs s rule: tails_in.induct) auto

lemma rune_len_take: "rune_len s \<noteq> 0 \<Longrightarrow> rune_len (take (rune_len s) s @ t) = rune_len s"
  by (cases s) (auto simp: rune_len.simps tails_in_append split: option.splits if_splits)

lemma valid_take_append:
  assumes "rune_len s \<noteq> 0" and "valid_utf8 t"
  shows "valid_utf8 (take (rune_len s) s @ t)"
proof -
  have l: "length (take (rune_len s) s) = rune_len s" using rune_len_le [of s] by simp
  obtain c u where cu: "take (rune_len s) s @ t = c # u"
    using assms(1) rune_len_le [of s] by (cases "take (rune_len s) s @ t") auto
  have "rune_len (c # u) = rune_len s" using rune_len_take [OF assms(1)] cu by metis
  moreover have "drop (rune_len s) (c # u) = t" using cu l by (metis append_eq_conv_conj)
  ultimately show ?thesis using assms unfolding cu by simp
qed

lemma rune_len_replacement: "rune_len (replacement @ t) = 3"
  by (simp add: replacement_def rune_len.simps rune_tails_def of_char_of)

lemma valid_replacement: "valid_utf8 t \<Longrightarrow> valid_utf8 (replacement @ t)"
  using valid_take_append [of replacement t] rune_len_replacement [of "[]"] by (simp add: replacement_def)

lemma valid_to_utf8: "valid_utf8 (to_utf8 s)"
proof (induction s rule: to_utf8.induct)
  case (2 c s)
  show ?case
  proof (cases "rune_len (c # s) = 0")
    case True
    with 2 show ?thesis by (simp add: valid_replacement)
  next
    case False
    with 2 show ?thesis using valid_take_append [of "c # s"] by simp
  qed
qed simp

lemma to_utf8_length: "length s \<le> length (to_utf8 s) \<and> (length (to_utf8 s) = length s \<longrightarrow> valid_utf8 s)"
proof (induction s rule: to_utf8.induct)
  case (2 c s)
  then show ?case
    using rune_len_le [of "c # s"] by (auto simp: replacement_def min_def)
qed simp

lemma to_utf8_id: "valid_utf8 s \<Longrightarrow> to_utf8 s = s"
  by (induction s rule: to_utf8.induct) auto

lemma to_utf8_eq_iff: "to_utf8 s = s \<longleftrightarrow> valid_utf8 s"
  using to_utf8_id to_utf8_length by metis

declare to_utf8.simps(2) [simp del] valid_utf8.simps(2) [simp del]

section \<open>Documents\<close>

datatype json =
    JNull
  | JBool bool
  | JNum int
  | JStr string
  | JArr "json list"
  | JObj "(string \<times> json) list"

text \<open>
  A type is encoded faithfully when decoding what was encoded gives the value back, up to a normal form:
  a map is written in the order of its keys.
\<close>

locale codec =
  fixes enc :: "'a \<Rightarrow> json" and dec :: "json \<Rightarrow> 'a option" and ok :: "'a \<Rightarrow> bool" and norm :: "'a \<Rightarrow> 'a"
  assumes roundtrip: "ok x \<Longrightarrow> dec (enc x) = Some (norm x)"
begin

lemma enc_inject: "ok x \<Longrightarrow> ok y \<Longrightarrow> enc x = enc y \<Longrightarrow> norm x = norm y"
  using roundtrip by (metis option.inject)

end

text \<open>Numbers, texts, flags. \<open>null\<close> leaves the zero value in place.\<close>

definition dec_int :: "json \<Rightarrow> int option" where
  "dec_int j = (case j of JNull \<Rightarrow> Some 0 | JNum i \<Rightarrow> if in_int64 i then Some i else None | _ \<Rightarrow> None)"

definition enc_str :: "string \<Rightarrow> json" where
  "enc_str s = JStr (to_utf8 s)"

definition dec_str :: "json \<Rightarrow> string option" where
  "dec_str j = (case j of JNull \<Rightarrow> Some '''' | JStr s \<Rightarrow> Some (to_utf8 s) | _ \<Rightarrow> None)"

definition dec_bool :: "json \<Rightarrow> bool option" where
  "dec_bool j = (case j of JNull \<Rightarrow> Some False | JBool b \<Rightarrow> Some b | _ \<Rightarrow> None)"

text \<open>
  The string types of \<open>model.go\<close> with named constants, by the texts of the constants. (Other texts have no
  value in the model.)
\<close>

definition enc_tag :: "('a \<times> string) list \<Rightarrow> 'a \<Rightarrow> json" where
  "enc_tag tags x = enc_str (gm_get '''' tags x)"

definition dec_tag :: "('a \<times> string) list \<Rightarrow> json \<Rightarrow> 'a option" where
  "dec_tag tags j =
     Option.bind (dec_str j) (\<lambda>s. map_option fst (find (\<lambda>(x, t). t = s) tags))"

definition state_tags :: "(PartitionState \<times> string) list" where
  "state_tags = [(PartitionActive, ''active''), (PartitionHandoff, ''handoff'')]"

definition status_tags :: "(MigrationStatus \<times> string) list" where
  "status_tags = [(MigrationPending, ''pending''), (MigrationDone, ''done'')]"

definition role_tags :: "(NodeRole \<times> string) list" where
  "role_tags = [(NodeRoleLeader, ''leader''), (NodeRoleFollower, ''follower''), (NodeRoleUnset, [])]"

definition op_tags :: "(OpType \<times> string) list" where
  "op_tags = [(OpSet, ''set''), (OpDelete, ''delete''), (OpCheckpoint, ''checkpoint'')]"

definition mode_tags :: "(ChunkMode \<times> string) list" where
  "mode_tags = [(ModeSnapshot, ''snapshot''), (ModeLogs, ''logs'')]"

text \<open>Slices and maps.\<close>

definition enc_list :: "('a \<Rightarrow> json) \<Rightarrow> 'a list \<Rightarrow> json" where
  "enc_list e xs = JArr (map e xs)"

definition dec_list :: "(json \<Rightarrow> 'a option) \<Rightarrow> json \<Rightarrow> 'a list option" where
  "dec_list d j = (case j of JNull \<Rightarrow> Some [] | JArr js \<Rightarrow> those (map d js) | _ \<Rightarrow> None)"

definition enc_map :: "('v \<Rightarrow> json) \<Rightarrow> (string, 'v) gomap \<Rightarrow> json" where
  "enc_map e m = JObj (map (\<lambda>(k, v). (to_utf8 k, e v)) (sort_key fst m))"

fun dec_members :: "(json \<Rightarrow> 'v option) \<Rightarrow> (string \<times> json) list \<Rightarrow> (string, 'v) gomap \<Rightarrow> (string, 'v) gomap option" where
  "dec_members d [] m = Some m"
| "dec_members d ((k, j) # js) m =
     (case d j of None \<Rightarrow> None | Some v \<Rightarrow> dec_members d js (gm_put (to_utf8 k) v m))"

definition dec_map :: "(json \<Rightarrow> 'v option) \<Rightarrow> json \<Rightarrow> (string, 'v) gomap option" where
  "dec_map d j = (case j of JNull \<Rightarrow> Some [] | JObj js \<Rightarrow> dec_members d js [] | _ \<Rightarrow> None)"

text \<open>
  Structs: an object with the fields that are not omitted. A field that is missing is decoded as \<open>null\<close>
  is, of a repeated one the last counts (Go would merge repeated maps and structs; no encoder repeats a field).
\<close>

definition struct_fields :: "(string \<times> json option) list \<Rightarrow> (string \<times> json) list" where
  "struct_fields fs = List.map_filter (\<lambda>(name, j). map_option (Pair name) j) fs"

abbreviation enc_struct :: "(string \<times> json option) list \<Rightarrow> json" where
  "enc_struct fs \<equiv> JObj (struct_fields fs)"

definition omitempty :: "bool \<Rightarrow> json \<Rightarrow> json option" where
  "omitempty unset j = (if unset then None else Some j)"

definition jmembers :: "json \<Rightarrow> (string \<times> json) list option" where
  "jmembers j = (case j of JNull \<Rightarrow> Some [] | JObj js \<Rightarrow> Some js | _ \<Rightarrow> None)"

definition jfield :: "(string \<times> json) list \<Rightarrow> string \<Rightarrow> (json \<Rightarrow> 'a option) \<Rightarrow> 'a option" where
  "jfield js name d = (case map_of (rev js) name of None \<Rightarrow> d JNull | Some j \<Rightarrow> d j)"

named_theorems json_simps \<open>decoding what was encoded\<close>

lemma jfield_struct [json_simps]:
  assumes "distinct (map fst fs)"
  shows "jfield (struct_fields fs) name d = (case map_of fs name of Some (Some j) \<Rightarrow> d j | _ \<Rightarrow> d JNull)"
proof -
  have "map_of (struct_fields fs) name = (case map_of fs name of Some j \<Rightarrow> j | None \<Rightarrow> None)"
    if "distinct (map fst fs)" for fs :: "(string \<times> json option) list"
    using that
  proof (induction fs)
    case (Cons f fs)
    obtain k j where f: "f = (k, j)" by fastforce
    have "map_of fs k = None" using Cons.prems f by (simp add: map_of_eq_None_iff)
    with Cons f show ?case by (cases j) (auto simp: struct_fields_def map_filter_simps)
  qed (simp add: struct_fields_def map_filter_simps)
  moreover have "distinct (map fst (struct_fields fs))"
  proof -
    have sub: "set (map fst (struct_fields fs)) \<subseteq> set (map fst fs)" for fs :: "(string \<times> json option) list"
      by (force simp: struct_fields_def map_filter_def)
    from assms show ?thesis
    proof (induction fs)
      case (Cons f fs)
      with sub [of fs] show ?case by (cases f; cases "snd f") (auto simp: struct_fields_def map_filter_simps)
    qed (simp add: struct_fields_def map_filter_simps)
  qed
  ultimately show ?thesis
    using assms map_of_inject_set [of "rev (struct_fields fs)" "struct_fields fs"]
    by (simp add: jfield_def rev_map [symmetric] split: option.split)
qed

section \<open>Fields survive\<close>

lemma dec_basic [json_simps]:
  "in_int64 i \<Longrightarrow> dec_int (JNum i) = Some i" "valid_utf8 s \<Longrightarrow> dec_str (enc_str s) = Some s" "dec_bool (JBool b) = Some b"
  by (simp_all add: dec_int_def dec_str_def enc_str_def dec_bool_def to_utf8_id)

lemma dec_null [json_simps]:
  "dec_int JNull = Some 0" "dec_str JNull = Some []" "dec_bool JNull = Some False" "dec_list d JNull = Some []" "dec_map d' JNull = Some []"
  by (simp_all add: dec_int_def dec_str_def dec_bool_def dec_list_def dec_map_def)

lemma jmembers_struct [json_simps]: "jmembers (JObj js) = Some js" "jmembers JNull = Some []"
  by (simp_all add: jmembers_def)

lemma to_utf8_ascii: "list_all (\<lambda>c. of_char c < (128 :: nat)) s \<Longrightarrow> to_utf8 s = s"
proof (induction s)
  case (Cons c s)
  have "rune_len (c # s) = 1" using Cons.prems by (simp add: rune_len.simps rune_tails_def)
  with Cons show ?case by (simp add: to_utf8.simps)
qed simp

lemmas tag_defs = dec_tag_def enc_tag_def enc_str_def dec_str_def gm_get_def to_utf8_ascii
  state_tags_def status_tags_def role_tags_def op_tags_def mode_tags_def

lemma dec_state [json_simps]: "dec_tag state_tags (enc_tag state_tags st) = Some st"
  by (cases st) (simp_all add: tag_defs)

lemma dec_status [json_simps]: "dec_tag status_tags (enc_tag status_tags st) = Some st"
  by (cases st) (simp_all add: tag_defs)

lemma dec_role [json_simps]: "dec_tag role_tags (enc_tag role_tags r) = Some r"
  by (cases r) (simp_all add: tag_defs)

lemma dec_op [json_simps]: "dec_tag op_tags (enc_tag op_tags t) = Some t"
  by (cases t) (simp_all add: tag_defs)

lemma dec_mode [json_simps]: "dec_tag mode_tags (enc_tag mode_tags m) = Some m"
  by (cases m) (simp_all add: tag_defs)

context codec
begin

lemma list_roundtrip: "list_all ok xs \<Longrightarrow> dec_list dec (enc_list enc xs) = Some (map norm xs)"
  unfolding dec_list_def enc_list_def by (induction xs) (simp_all add: roundtrip)

lemma members_roundtrip:
  assumes "distinct (map fst (m @ kvs))" and "\<forall>(k, v) \<in> set kvs. valid_utf8 k \<and> ok v"
  shows "dec_members dec (map (\<lambda>(k, v). (to_utf8 k, enc v)) kvs) m = Some (m @ map (\<lambda>(k, v). (k, norm v)) kvs)"
  using assms
proof (induction kvs arbitrary: m)
  case (Cons kv kvs)
  obtain k v where kv: "kv = (k, v)" by fastforce
  have new: "gm_put k (norm v) m = m @ [(k, norm v)]"
    using Cons.prems(1) kv by (intro gm_put_new) (auto simp: map_of_eq_None_iff)
  with Cons kv show ?case by (simp add: roundtrip to_utf8_id)
qed simp

lemma map_roundtrip:
  assumes "gm_ok m" and "\<forall>(k, v) \<in> set m. valid_utf8 k \<and> ok v"
  shows "dec_map dec (enc_map enc m) = Some (map (\<lambda>(k, v). (k, norm v)) (sort_key fst m))"
proof -
  have "distinct (map fst (sort_key fst m))"
    using assms(1) by (simp add: gm_ok_def distinct_map)
  with assms(2) members_roundtrip [of "[]" "sort_key fst m"] show ?thesis by (simp add: dec_map_def enc_map_def)
qed

end

interpretation int_codec: codec JNum dec_int in_int64 "\<lambda>i. i"
  by unfold_locales (simp add: json_simps)

interpretation str_codec: codec enc_str dec_str valid_utf8 "\<lambda>s. s"
  by unfold_locales (simp add: json_simps)

interpretation status_codec: codec "enc_tag status_tags" "dec_tag status_tags" "\<lambda>_. True" "\<lambda>s. s"
  by unfold_locales (simp add: json_simps)

lemma dec_statuses [json_simps]: "dec_list (dec_tag status_tags) (enc_list (enc_tag status_tags) sts) = Some sts"
  using status_codec.list_roundtrip [of sts] by (simp add: list_all_iff)

lemmas [json_simps] = int_codec.list_roundtrip str_codec.list_roundtrip
  int_codec.map_roundtrip str_codec.map_roundtrip

section \<open>The structs\<close>

definition enc_Node :: "Node \<Rightarrow> json" where
  "enc_Node n = enc_struct [(''id'', Some (enc_str (n_ID n))), (''address'', Some (enc_str (n_Address n))),
     (''incarnation'', Some (JNum (n_Incarnation n)))]"

definition dec_Node :: "json \<Rightarrow> Node option" where
  "dec_Node j = do {
     js \<leftarrow> jmembers j; i \<leftarrow> jfield js ''id'' dec_str; a \<leftarrow> jfield js ''address'' dec_str;
     inc \<leftarrow> jfield js ''incarnation'' dec_int;
     Some \<lparr>n_ID = i, n_Address = a, n_Incarnation = inc\<rparr> }"

definition node_fits :: "Node \<Rightarrow> bool" where
  "node_fits n \<longleftrightarrow> valid_utf8 (n_ID n) \<and> valid_utf8 (n_Address n) \<and> in_int64 (n_Incarnation n)"

definition enc_Config :: "Config \<Rightarrow> json" where
  "enc_Config c = enc_struct [(''partition_count'', Some (JNum (cfg_PartitionCount c))),
     (''replication_factor'', Some (JNum (cfg_ReplicationFactor c)))]"

definition dec_Config :: "json \<Rightarrow> Config option" where
  "dec_Config j = do {
     js \<leftarrow> jmembers j; n \<leftarrow> jfield js ''partition_count'' dec_int; r \<leftarrow> jfield js ''replication_factor'' dec_int;
     Some \<lparr>cfg_PartitionCount = n, cfg_ReplicationFactor = r\<rparr> }"

definition config_fits :: "Config \<Rightarrow> bool" where
  "config_fits c \<longleftrightarrow> in_int64 (cfg_PartitionCount c) \<and> in_int64 (cfg_ReplicationFactor c)"

definition enc_Partition :: "Partition \<Rightarrow> json" where
  "enc_Partition p = enc_struct
     [(''id'', Some (JNum (p_ID p))), (''epoch'', Some (JNum (p_Epoch p))), (''leader'', Some (enc_str (p_Leader p))),
      (''followers'', Some (enc_list enc_str (p_Followers p))), (''joining'', Some (enc_list enc_str (p_Joining p))),
      (''evict'', omitempty (p_Evict p = []) (enc_list enc_str (p_Evict p))),
      (''state'', Some (enc_tag state_tags (p_State p))),
      (''handoff_to'', omitempty (p_HandoffTo p = []) (enc_str (p_HandoffTo p))),
      (''handoff_at'', omitempty (p_HandoffAt p = 0) (JNum (p_HandoffAt p))),
      (''handoff_version'', omitempty (p_HandoffVersion p = 0) (JNum (p_HandoffVersion p))),
      (''pinned'', omitempty (\<not> p_Pinned p) (JBool (p_Pinned p)))]"

definition dec_Partition :: "json \<Rightarrow> Partition option" where
  "dec_Partition j = do {
     js \<leftarrow> jmembers j; i \<leftarrow> jfield js ''id'' dec_int; e \<leftarrow> jfield js ''epoch'' dec_int; l \<leftarrow> jfield js ''leader'' dec_str;
     fs \<leftarrow> jfield js ''followers'' (dec_list dec_str); jn \<leftarrow> jfield js ''joining'' (dec_list dec_str);
     ev \<leftarrow> jfield js ''evict'' (dec_list dec_str); st \<leftarrow> jfield js ''state'' (dec_tag state_tags);
     ht \<leftarrow> jfield js ''handoff_to'' dec_str; ha \<leftarrow> jfield js ''handoff_at'' dec_int;
     hv \<leftarrow> jfield js ''handoff_version'' dec_int; pin \<leftarrow> jfield js ''pinned'' dec_bool;
     Some \<lparr>p_ID = i, p_Epoch = e, p_Leader = l, p_Followers = fs, p_Joining = jn, p_Evict = ev, p_State = st,
       p_HandoffTo = ht, p_HandoffAt = ha, p_HandoffVersion = hv, p_Pinned = pin\<rparr> }"

definition partition_fits :: "Partition \<Rightarrow> bool" where
  "partition_fits p \<longleftrightarrow> in_int64 (p_ID p) \<and> in_int64 (p_Epoch p) \<and> valid_utf8 (p_Leader p) \<and>
     list_all valid_utf8 (p_Followers p) \<and> list_all valid_utf8 (p_Joining p) \<and> list_all valid_utf8 (p_Evict p) \<and>
     valid_utf8 (p_HandoffTo p) \<and> in_int64 (p_HandoffAt p) \<and> in_int64 (p_HandoffVersion p)"

definition enc_Resharding :: "Resharding \<Rightarrow> json" where
  "enc_Resharding r = enc_struct
     [(''generation'', Some (JNum (r_Generation r))), (''partition_count'', Some (JNum (r_PartitionCount r))),
      (''partitions'', Some (enc_list enc_Partition (r_Partitions r))),
      (''status'', Some (enc_list (enc_tag status_tags) (r_Status r)))]"

definition dec_Resharding :: "json \<Rightarrow> Resharding option" where
  "dec_Resharding j = do {
     js \<leftarrow> jmembers j; g \<leftarrow> jfield js ''generation'' dec_int; n \<leftarrow> jfield js ''partition_count'' dec_int;
     ps \<leftarrow> jfield js ''partitions'' (dec_list dec_Partition); st \<leftarrow> jfield js ''status'' (dec_list (dec_tag status_tags));
     Some \<lparr>r_Generation = g, r_PartitionCount = n, r_Partitions = ps, r_Status = st\<rparr> }"

definition resharding_fits :: "Resharding \<Rightarrow> bool" where
  "resharding_fits r \<longleftrightarrow> in_int64 (r_Generation r) \<and> in_int64 (r_PartitionCount r) \<and> list_all partition_fits (r_Partitions r)"

text \<open>A pointer: \<open>nil\<close> when the member is missing or \<open>null\<close>.\<close>

definition dec_ptr :: "(json \<Rightarrow> 'a option) \<Rightarrow> json \<Rightarrow> 'a option option" where
  "dec_ptr d j = (if j = JNull then Some None else map_option Some (d j))"

definition enc_Layout :: "Layout \<Rightarrow> json" where
  "enc_Layout l = enc_struct
     [(''version'', Some (JNum (l_Version l))), (''generation'', Some (JNum (l_Generation l))),
      (''partition_count'', Some (JNum (l_PartitionCount l))),
      (''partitions'', Some (enc_list enc_Partition (l_Partitions l))),
      (''resharding'', map_option enc_Resharding (l_Resharding l)),
      (''members'', Some (enc_map JNum (l_Members l)))]"

definition dec_Layout :: "json \<Rightarrow> Layout option" where
  "dec_Layout j = do {
     js \<leftarrow> jmembers j; v \<leftarrow> jfield js ''version'' dec_int; g \<leftarrow> jfield js ''generation'' dec_int;
     n \<leftarrow> jfield js ''partition_count'' dec_int; ps \<leftarrow> jfield js ''partitions'' (dec_list dec_Partition);
     r \<leftarrow> jfield js ''resharding'' (dec_ptr dec_Resharding); m \<leftarrow> jfield js ''members'' (dec_map dec_int);
     Some \<lparr>l_Version = v, l_Generation = g, l_PartitionCount = n, l_Partitions = ps, l_Resharding = r, l_Members = m\<rparr> }"

definition layout_fits :: "Layout \<Rightarrow> bool" where
  "layout_fits l \<longleftrightarrow> in_int64 (l_Version l) \<and> in_int64 (l_Generation l) \<and> in_int64 (l_PartitionCount l) \<and>
     list_all partition_fits (l_Partitions l) \<and> (\<forall>r. l_Resharding l = Some r \<longrightarrow> resharding_fits r) \<and>
     gm_ok (l_Members l) \<and> (\<forall>(k, v) \<in> set (l_Members l). valid_utf8 k \<and> in_int64 v)"

definition ordered_members :: "Layout \<Rightarrow> Layout" where
  "ordered_members l = l\<lparr>l_Members := sort_key fst (l_Members l)\<rparr>"

interpretation node_codec: codec enc_Node dec_Node node_fits "\<lambda>n. n"
  by unfold_locales (simp add: enc_Node_def dec_Node_def node_fits_def json_simps)

interpretation config_codec: codec enc_Config dec_Config config_fits "\<lambda>c. c"
  by unfold_locales (simp add: enc_Config_def dec_Config_def config_fits_def json_simps)

interpretation partition_codec: codec enc_Partition dec_Partition partition_fits "\<lambda>p. p"
  by unfold_locales
    (simp add: enc_Partition_def dec_Partition_def partition_fits_def json_simps omitempty_def)

lemmas [json_simps] = partition_codec.list_roundtrip

interpretation resharding_codec: codec enc_Resharding dec_Resharding resharding_fits "\<lambda>r. r"
  by unfold_locales (simp add: enc_Resharding_def dec_Resharding_def resharding_fits_def json_simps)

lemma dec_ptr_json [json_simps]: "dec_ptr d JNull = Some None" "dec_ptr d (JObj js) = map_option Some (d (JObj js))"
  by (simp_all add: dec_ptr_def)

interpretation layout_codec: codec enc_Layout dec_Layout layout_fits ordered_members
proof unfold_locales
  fix l assume l: "layout_fits l"
  have "(case map_option enc_Resharding (l_Resharding l) of None \<Rightarrow> dec_ptr dec_Resharding JNull | Some j \<Rightarrow> dec_ptr dec_Resharding j) =
      Some (l_Resharding l)"
    using l resharding_codec.roundtrip
    by (cases "l_Resharding l") (simp_all add: layout_fits_def json_simps enc_Resharding_def)
  with l show "dec_Layout (enc_Layout l) = Some (ordered_members l)"
    by (simp add: enc_Layout_def dec_Layout_def layout_fits_def json_simps ordered_members_def)
qed

text \<open>What the parts of the program send each other.\<close>

definition enc_Ref :: "PartitionRef \<Rightarrow> json" where
  "enc_Ref r = enc_struct [(''generation'', Some (JNum (ref_Generation r))), (''id'', Some (JNum (ref_ID r)))]"

definition dec_Ref :: "json \<Rightarrow> PartitionRef option" where
  "dec_Ref j = do {
     js \<leftarrow> jmembers j; g \<leftarrow> jfield js ''generation'' dec_int; i \<leftarrow> jfield js ''id'' dec_int;
     Some (PartitionRef g i) }"

definition enc_Operation :: "(go_time \<Rightarrow> string) \<Rightarrow> Operation \<Rightarrow> json" where
  "enc_Operation fmt op = enc_struct
     [(''type'', Some (enc_tag op_tags (op_Type op))), (''key'', omitempty (op_Key op = []) (enc_str (op_Key op))),
      (''value'', omitempty (op_Value op = []) (enc_str (op_Value op))), (''ts'', Some (JStr (fmt (op_Timestamp op))))]"

definition dec_time :: "(string \<Rightarrow> go_time option) \<Rightarrow> json \<Rightarrow> go_time option" where
  "dec_time parse j = (case j of JNull \<Rightarrow> Some 0 | JStr s \<Rightarrow> parse s | _ \<Rightarrow> None)"

definition dec_Operation :: "(string \<Rightarrow> go_time option) \<Rightarrow> json \<Rightarrow> Operation option" where
  "dec_Operation parse j = do {
     js \<leftarrow> jmembers j; t \<leftarrow> jfield js ''type'' (dec_tag op_tags); k \<leftarrow> jfield js ''key'' dec_str; v \<leftarrow> jfield js ''value'' dec_str;
     ts \<leftarrow> jfield js ''ts'' (dec_time parse);
     Some \<lparr>op_Type = t, op_Key = k, op_Value = v, op_Timestamp = ts\<rparr> }"

definition enc_LogEntry :: "(go_time \<Rightarrow> string) \<Rightarrow> LogEntry \<Rightarrow> json" where
  "enc_LogEntry fmt e = enc_struct
     [(''seq'', Some (JNum (le_SequenceNumber e))), (''op'', Some (enc_Operation fmt (le_Operation e)))]"

definition dec_LogEntry :: "(string \<Rightarrow> go_time option) \<Rightarrow> json \<Rightarrow> LogEntry option" where
  "dec_LogEntry parse j = do {
     js \<leftarrow> jmembers j; n \<leftarrow> jfield js ''seq'' dec_int; op \<leftarrow> jfield js ''op'' (dec_Operation parse);
     Some \<lparr>le_SequenceNumber = n, le_Operation = op\<rparr> }"

definition entry_fits :: "LogEntry \<Rightarrow> bool" where
  "entry_fits e \<longleftrightarrow> in_int64 (le_SequenceNumber e) \<and> in_int64 (op_Timestamp (le_Operation e)) \<and> valid_utf8 (op_Key (le_Operation e)) \<and> valid_utf8 (op_Value (le_Operation e))"

definition data_fits :: "(key, string) gomap \<Rightarrow> bool" where
  "data_fits d \<longleftrightarrow> gm_ok d \<and> (\<forall>(k, v) \<in> set d. valid_utf8 k \<and> valid_utf8 v)"

definition enc_Snapshot :: "Snapshot \<Rightarrow> json" where
  "enc_Snapshot s = enc_struct
     [(''generation'', Some (JNum (sn_Generation s))), (''partition_id'', Some (JNum (sn_PartitionID s))),
      (''epoch'', Some (JNum (sn_Epoch s))), (''seq'', Some (JNum (sn_Seq s))), (''data'', Some (enc_map enc_str (sn_Data s)))]"

definition dec_Snapshot :: "json \<Rightarrow> Snapshot option" where
  "dec_Snapshot j = do {
     js \<leftarrow> jmembers j; g \<leftarrow> jfield js ''generation'' dec_int; p \<leftarrow> jfield js ''partition_id'' dec_int;
     e \<leftarrow> jfield js ''epoch'' dec_int; n \<leftarrow> jfield js ''seq'' dec_int; d \<leftarrow> jfield js ''data'' (dec_map dec_str);
     Some \<lparr>sn_Generation = g, sn_PartitionID = p, sn_Epoch = e, sn_Seq = n, sn_Data = d\<rparr> }"

definition snapshot_fits :: "Snapshot \<Rightarrow> bool" where
  "snapshot_fits s \<longleftrightarrow> in_int64 (sn_Generation s) \<and> in_int64 (sn_PartitionID s) \<and> in_int64 (sn_Epoch s) \<and> in_int64 (sn_Seq s) \<and>
     data_fits (sn_Data s)"

definition enc_ReplicateResponse :: "(go_time \<Rightarrow> string) \<Rightarrow> ReplicateResponse \<Rightarrow> json" where
  "enc_ReplicateResponse fmt r = enc_struct
     [(''epoch'', Some (JNum (rr_Epoch r))), (''leader_seq'', Some (JNum (rr_LeaderSeq r))),
      (''entries'', Some (enc_list (enc_LogEntry fmt) (rr_Entries r)))]"

definition dec_ReplicateResponse :: "(string \<Rightarrow> go_time option) \<Rightarrow> json \<Rightarrow> ReplicateResponse option" where
  "dec_ReplicateResponse parse j = do {
     js \<leftarrow> jmembers j; e \<leftarrow> jfield js ''epoch'' dec_int; n \<leftarrow> jfield js ''leader_seq'' dec_int;
     es \<leftarrow> jfield js ''entries'' (dec_list (dec_LogEntry parse));
     Some \<lparr>rr_Epoch = e, rr_LeaderSeq = n, rr_Entries = es\<rparr> }"

definition replicated_fits :: "ReplicateResponse \<Rightarrow> bool" where
  "replicated_fits r \<longleftrightarrow> in_int64 (rr_Epoch r) \<and> in_int64 (rr_LeaderSeq r) \<and> list_all entry_fits (rr_Entries r)"

definition enc_MigrationChunk :: "(go_time \<Rightarrow> string) \<Rightarrow> MigrationChunk \<Rightarrow> json" where
  "enc_MigrationChunk fmt c = enc_struct
     [(''mode'', Some (enc_tag mode_tags (mc_Mode c))), (''epoch'', Some (JNum (mc_Epoch c))), (''seq'', Some (JNum (mc_Seq c))),
      (''data'', omitempty (mc_Data c = []) (enc_map enc_str (mc_Data c))),
      (''entries'', omitempty (mc_Entries c = []) (enc_list (enc_LogEntry fmt) (mc_Entries c)))]"

definition dec_MigrationChunk :: "(string \<Rightarrow> go_time option) \<Rightarrow> json \<Rightarrow> MigrationChunk option" where
  "dec_MigrationChunk parse j = do {
     js \<leftarrow> jmembers j; m \<leftarrow> jfield js ''mode'' (dec_tag mode_tags); e \<leftarrow> jfield js ''epoch'' dec_int; n \<leftarrow> jfield js ''seq'' dec_int;
     d \<leftarrow> jfield js ''data'' (dec_map dec_str); es \<leftarrow> jfield js ''entries'' (dec_list (dec_LogEntry parse));
     Some \<lparr>mc_Mode = m, mc_Epoch = e, mc_Seq = n, mc_Data = d, mc_Entries = es\<rparr> }"

definition chunk_fits :: "MigrationChunk \<Rightarrow> bool" where
  "chunk_fits c \<longleftrightarrow> in_int64 (mc_Epoch c) \<and> in_int64 (mc_Seq c) \<and> data_fits (mc_Data c) \<and> list_all entry_fits (mc_Entries c)"

definition enc_MigrationSource :: "MigrationSource \<Rightarrow> json" where
  "enc_MigrationSource s = enc_struct
     [(''partition_id'', Some (JNum (ms_PartitionID s))), (''epoch'', Some (JNum (ms_Epoch s))), (''address'', Some (enc_str (ms_Address s)))]"

definition dec_MigrationSource :: "json \<Rightarrow> MigrationSource option" where
  "dec_MigrationSource j = do {
     js \<leftarrow> jmembers j; p \<leftarrow> jfield js ''partition_id'' dec_int; e \<leftarrow> jfield js ''epoch'' dec_int; a \<leftarrow> jfield js ''address'' dec_str;
     Some \<lparr>ms_PartitionID = p, ms_Epoch = e, ms_Address = a\<rparr> }"

definition source_fits :: "MigrationSource \<Rightarrow> bool" where
  "source_fits s \<longleftrightarrow> in_int64 (ms_PartitionID s) \<and> in_int64 (ms_Epoch s) \<and> valid_utf8 (ms_Address s)"

definition enc_MigrationRequest :: "MigrationRequest \<Rightarrow> json" where
  "enc_MigrationRequest r = enc_struct
     [(''target'', Some (enc_Ref (mr_Target r))), (''target_epoch'', Some (JNum (mr_TargetEpoch r))),
      (''target_count'', Some (JNum (mr_TargetCount r))), (''source_generation'', Some (JNum (mr_SourceGeneration r))),
      (''sources'', Some (enc_list enc_MigrationSource (mr_Sources r)))]"

definition dec_MigrationRequest :: "json \<Rightarrow> MigrationRequest option" where
  "dec_MigrationRequest j = do {
     js \<leftarrow> jmembers j; t \<leftarrow> jfield js ''target'' dec_Ref; e \<leftarrow> jfield js ''target_epoch'' dec_int;
     n \<leftarrow> jfield js ''target_count'' dec_int; g \<leftarrow> jfield js ''source_generation'' dec_int;
     ss \<leftarrow> jfield js ''sources'' (dec_list dec_MigrationSource);
     Some \<lparr>mr_Target = t, mr_TargetEpoch = e, mr_TargetCount = n, mr_SourceGeneration = g, mr_Sources = ss\<rparr> }"

definition request_fits :: "MigrationRequest \<Rightarrow> bool" where
  "request_fits r \<longleftrightarrow> in_int64 (ref_Generation (mr_Target r)) \<and> in_int64 (ref_ID (mr_Target r)) \<and> in_int64 (mr_TargetEpoch r) \<and>
     in_int64 (mr_TargetCount r) \<and> in_int64 (mr_SourceGeneration r) \<and> list_all source_fits (mr_Sources r)"

definition enc_MigrationResult :: "MigrationResult \<Rightarrow> json" where
  "enc_MigrationResult r = enc_struct [(''keys'', Some (JNum (mres_Keys r))), (''imported'', Some (JNum (mres_Imported r)))]"

definition dec_MigrationResult :: "json \<Rightarrow> MigrationResult option" where
  "dec_MigrationResult j = do {
     js \<leftarrow> jmembers j; k \<leftarrow> jfield js ''keys'' dec_int; i \<leftarrow> jfield js ''imported'' dec_int;
     Some \<lparr>mres_Keys = k, mres_Imported = i\<rparr> }"

definition enc_PartitionStatus :: "PartitionStatus \<Rightarrow> json" where
  "enc_PartitionStatus s = enc_struct
     [(''generation'', Some (JNum (ps_Generation s))), (''id'', Some (JNum (ps_ID s))), (''role'', Some (enc_tag role_tags (ps_Role s))),
      (''epoch'', Some (JNum (ps_Epoch s))), (''data_epoch'', Some (JNum (ps_DataEpoch s))), (''seq'', Some (JNum (ps_Seq s))),
      (''synced'', Some (JBool (ps_Synced s))), (''sealed'', Some (JBool (ps_Sealed s))), (''keys'', Some (JNum (ps_Keys s))),
      (''memtable'', Some (JNum (ps_MemTable s))), (''levels'', Some (JNum (ps_Levels s))), (''wal'', Some (JNum (ps_WAL s)))]"

definition dec_PartitionStatus :: "json \<Rightarrow> PartitionStatus option" where
  "dec_PartitionStatus j = do {
     js \<leftarrow> jmembers j; g \<leftarrow> jfield js ''generation'' dec_int; i \<leftarrow> jfield js ''id'' dec_int; r \<leftarrow> jfield js ''role'' (dec_tag role_tags);
     e \<leftarrow> jfield js ''epoch'' dec_int; de \<leftarrow> jfield js ''data_epoch'' dec_int; n \<leftarrow> jfield js ''seq'' dec_int;
     sy \<leftarrow> jfield js ''synced'' dec_bool; se \<leftarrow> jfield js ''sealed'' dec_bool; k \<leftarrow> jfield js ''keys'' dec_int;
     mt \<leftarrow> jfield js ''memtable'' dec_int; lv \<leftarrow> jfield js ''levels'' dec_int; w \<leftarrow> jfield js ''wal'' dec_int;
     Some \<lparr>ps_Generation = g, ps_ID = i, ps_Role = r, ps_Epoch = e, ps_DataEpoch = de, ps_Seq = n, ps_Synced = sy, ps_Sealed = se,
       ps_Keys = k, ps_MemTable = mt, ps_Levels = lv, ps_WAL = w\<rparr> }"

definition status_fits :: "PartitionStatus \<Rightarrow> bool" where
  "status_fits s \<longleftrightarrow> in_int64 (ps_Generation s) \<and> in_int64 (ps_ID s) \<and> in_int64 (ps_Epoch s) \<and> in_int64 (ps_DataEpoch s) \<and>
     in_int64 (ps_Seq s) \<and> in_int64 (ps_Keys s) \<and> in_int64 (ps_MemTable s) \<and> in_int64 (ps_Levels s) \<and> in_int64 (ps_WAL s)"

text \<open>The fields of the embedded \<open>Node\<close> are fields of the status.\<close>

definition enc_NodeStatus :: "NodeStatus \<Rightarrow> json" where
  "enc_NodeStatus s = enc_struct
     [(''id'', Some (enc_str (n_ID (ns_Node s)))), (''address'', Some (enc_str (n_Address (ns_Node s)))),
      (''incarnation'', Some (JNum (n_Incarnation (ns_Node s)))), (''layout_version'', Some (JNum (ns_LayoutVersion s))),
      (''partitions'', Some (enc_list enc_PartitionStatus (ns_Partitions s))), (''ops'', Some (enc_map JNum (ns_Ops s)))]"

definition dec_NodeStatus :: "json \<Rightarrow> NodeStatus option" where
  "dec_NodeStatus j = do {
     nd \<leftarrow> dec_Node j; js \<leftarrow> jmembers j; v \<leftarrow> jfield js ''layout_version'' dec_int;
     ps \<leftarrow> jfield js ''partitions'' (dec_list dec_PartitionStatus); ops \<leftarrow> jfield js ''ops'' (dec_map dec_int);
     Some \<lparr>ns_Node = nd, ns_LayoutVersion = v, ns_Partitions = ps, ns_Ops = ops\<rparr> }"

definition report_fits :: "NodeStatus \<Rightarrow> bool" where
  "report_fits s \<longleftrightarrow> node_fits (ns_Node s) \<and> in_int64 (ns_LayoutVersion s) \<and> list_all status_fits (ns_Partitions s) \<and>
     gm_ok (ns_Ops s) \<and> (\<forall>(k, v) \<in> set (ns_Ops s). valid_utf8 k \<and> in_int64 v)"

lemma entry_roundtrip:
  assumes "\<And>t. in_int64 t \<Longrightarrow> parse (fmt t) = Some t"
  shows "codec (enc_LogEntry fmt) (dec_LogEntry parse) entry_fits (\<lambda>e. e)"
  by unfold_locales
    (simp add: enc_LogEntry_def dec_LogEntry_def enc_Operation_def dec_Operation_def dec_time_def entry_fits_def
      json_simps assms omitempty_def)

interpretation snapshot_codec: codec enc_Snapshot dec_Snapshot snapshot_fits "\<lambda>s. s\<lparr>sn_Data := sort_key fst (sn_Data s)\<rparr>"
  by unfold_locales (simp add: enc_Snapshot_def dec_Snapshot_def snapshot_fits_def data_fits_def json_simps)

interpretation source_codec: codec enc_MigrationSource dec_MigrationSource source_fits "\<lambda>s. s"
  by unfold_locales (simp add: enc_MigrationSource_def dec_MigrationSource_def source_fits_def json_simps)

interpretation status_report_codec: codec enc_PartitionStatus dec_PartitionStatus status_fits "\<lambda>s. s"
  by unfold_locales (simp add: enc_PartitionStatus_def dec_PartitionStatus_def status_fits_def json_simps)

lemmas [json_simps] = source_codec.list_roundtrip status_report_codec.list_roundtrip

interpretation request_codec: codec enc_MigrationRequest dec_MigrationRequest request_fits "\<lambda>r. r"
  by unfold_locales
    (simp add: enc_MigrationRequest_def dec_MigrationRequest_def request_fits_def enc_Ref_def dec_Ref_def json_simps)

interpretation result_codec: codec enc_MigrationResult dec_MigrationResult "\<lambda>r. in_int64 (mres_Keys r) \<and> in_int64 (mres_Imported r)" "\<lambda>r. r"
  by unfold_locales (simp add: enc_MigrationResult_def dec_MigrationResult_def json_simps)

interpretation report_codec: codec enc_NodeStatus dec_NodeStatus report_fits "\<lambda>s. s\<lparr>ns_Ops := sort_key fst (ns_Ops s)\<rparr>"
  by unfold_locales
    (simp add: enc_NodeStatus_def dec_NodeStatus_def dec_Node_def report_fits_def node_fits_def json_simps)

lemma response_roundtrip:
  assumes "\<And>t. in_int64 t \<Longrightarrow> parse (fmt t) = Some t"
  shows "codec (enc_ReplicateResponse fmt) (dec_ReplicateResponse parse) replicated_fits (\<lambda>r. r)"
    and "codec (enc_MigrationChunk fmt) (dec_MigrationChunk parse) chunk_fits (\<lambda>c. c\<lparr>mc_Data := sort_key fst (mc_Data c)\<rparr>)"
proof -
  note es = codec.list_roundtrip [OF entry_roundtrip, of parse fmt, OF assms]
  show "codec (enc_ReplicateResponse fmt) (dec_ReplicateResponse parse) replicated_fits (\<lambda>r. r)"
    by unfold_locales (simp add: enc_ReplicateResponse_def dec_ReplicateResponse_def replicated_fits_def json_simps es)
  show "codec (enc_MigrationChunk fmt) (dec_MigrationChunk parse) chunk_fits (\<lambda>c. c\<lparr>mc_Data := sort_key fst (mc_Data c)\<rparr>)"
    by unfold_locales
      (simp add: enc_MigrationChunk_def dec_MigrationChunk_def chunk_fits_def data_fits_def json_simps es omitempty_def)
qed

lemma in_set_put: "x \<in> set (gm_put k v m) \<Longrightarrow> x = (k, v) \<or> x \<in> set m"
  by (induction m) (auto split: if_splits)

section \<open>Whatever arrives is a value of its type\<close>

text \<open>
  A decoder is typed when everything it accepts is in range: whoever wrote the document, what the program goes on
  with are 64-bit numbers, UTF-8 texts and maps with distinct keys.
\<close>

locale decoder =
  fixes dec :: "json \<Rightarrow> 'a option" and ok :: "'a \<Rightarrow> bool"
  assumes decoded: "dec j = Some x \<Longrightarrow> ok x"
begin

lemma field_typed: "jfield js name dec = Some x \<Longrightarrow> ok x"
  by (auto simp: jfield_def dest: decoded split: option.splits)

lemma those_typed: "those (map dec js) = Some xs \<Longrightarrow> list_all ok xs"
proof (induction js arbitrary: xs)
  case (Cons j js)
  then show ?case by (auto split: option.splits dest: decoded)
qed simp

lemma list_typed: "decoder (dec_list dec) (list_all ok)"
  by unfold_locales (auto simp: dec_list_def those_typed split: json.splits)

lemma members_typed:
  assumes "dec_members dec js m = Some m'" "gm_ok m" "\<forall>(k, v) \<in> set m. valid_utf8 k \<and> ok v"
  shows "gm_ok m' \<and> (\<forall>(k, v) \<in> set m'. valid_utf8 k \<and> ok v)"
  using assms
proof (induction js arbitrary: m)
  case (Cons kj js)
  obtain k j where kj: "kj = (k, j)" by fastforce
  with Cons.prems obtain v where v: "dec j = Some v" "dec_members dec js (gm_put (to_utf8 k) v m) = Some m'"
    by (auto split: option.splits)
  moreover have "\<forall>(k, v) \<in> set (gm_put (to_utf8 k) v m). valid_utf8 k \<and> ok v"
    using Cons.prems(3) decoded [OF v(1)] valid_to_utf8 [of k] by (auto dest!: in_set_put)
  ultimately show ?case using Cons by (simp add: gm_ok_put)
qed simp

lemma map_typed: "decoder (dec_map dec) (\<lambda>m. gm_ok m \<and> (\<forall>(k, v) \<in> set m. valid_utf8 k \<and> ok v))"
proof
  fix j m assume "dec_map dec j = Some m"
  then show "gm_ok m \<and> (\<forall>(k, v) \<in> set m. valid_utf8 k \<and> ok v)"
    using members_typed [of _ "[]" m] by (auto simp: dec_map_def split: json.splits)
qed

lemma ptr_typed: "decoder (dec_ptr dec) (\<lambda>x. \<forall>y. x = Some y \<longrightarrow> ok y)"
  by unfold_locales (auto simp: dec_ptr_def dest: decoded split: if_splits)

lemmas fields_typed = field_typed decoder.field_typed [OF list_typed] decoder.field_typed [OF map_typed]
  decoder.field_typed [OF ptr_typed]

end

interpretation int_decoder: decoder dec_int in_int64
  by unfold_locales (auto simp: dec_int_def in_int64_def split: json.splits if_splits)

interpretation str_decoder: decoder dec_str valid_utf8
  by unfold_locales (auto simp: dec_str_def valid_to_utf8 split: json.splits)

lemmas basic_typed = int_decoder.fields_typed str_decoder.fields_typed

interpretation node_decoder: decoder dec_Node node_fits
  by unfold_locales (auto simp: dec_Node_def node_fits_def bind_eq_Some_conv dest: basic_typed)

interpretation config_decoder: decoder dec_Config config_fits
  by unfold_locales (auto simp: dec_Config_def config_fits_def bind_eq_Some_conv dest: basic_typed)

interpretation partition_decoder: decoder dec_Partition partition_fits
  by unfold_locales (auto simp: dec_Partition_def partition_fits_def bind_eq_Some_conv dest: basic_typed)

interpretation resharding_decoder: decoder dec_Resharding resharding_fits
  by unfold_locales
    (auto simp: dec_Resharding_def resharding_fits_def bind_eq_Some_conv dest: basic_typed partition_decoder.fields_typed)

interpretation layout_decoder: decoder dec_Layout layout_fits
proof
  fix j l assume "dec_Layout j = Some l"
  then show "layout_fits l"
    unfolding dec_Layout_def layout_fits_def
    by (auto simp: bind_eq_Some_conv dest!: basic_typed partition_decoder.fields_typed(2) resharding_decoder.fields_typed(4))
qed

interpretation snapshot_decoder: decoder dec_Snapshot snapshot_fits
proof
  fix j s assume "dec_Snapshot j = Some s"
  then show "snapshot_fits s"
    unfolding dec_Snapshot_def snapshot_fits_def data_fits_def by (auto simp: bind_eq_Some_conv dest!: basic_typed)
qed

interpretation ref_decoder: decoder dec_Ref "\<lambda>r. in_int64 (ref_Generation r) \<and> in_int64 (ref_ID r)"
  by unfold_locales (auto simp: dec_Ref_def bind_eq_Some_conv dest: basic_typed)

interpretation source_decoder: decoder dec_MigrationSource source_fits
  by unfold_locales (auto simp: dec_MigrationSource_def source_fits_def bind_eq_Some_conv dest: basic_typed)

interpretation request_decoder: decoder dec_MigrationRequest request_fits
proof
  fix j r assume "dec_MigrationRequest j = Some r"
  then show "request_fits r"
    unfolding dec_MigrationRequest_def request_fits_def
    by (auto simp: bind_eq_Some_conv dest: basic_typed ref_decoder.field_typed source_decoder.fields_typed(2))
qed

interpretation status_decoder: decoder dec_PartitionStatus status_fits
  by unfold_locales (auto simp: dec_PartitionStatus_def status_fits_def bind_eq_Some_conv dest: basic_typed)

interpretation report_decoder: decoder dec_NodeStatus report_fits
proof
  fix j s assume "dec_NodeStatus j = Some s"
  then show "report_fits s"
    unfolding dec_NodeStatus_def report_fits_def
    by (auto simp: bind_eq_Some_conv dest!: basic_typed status_decoder.fields_typed(2) node_decoder.decoded)
qed

lemma entry_typed:
  assumes "\<forall>s t. parse s = Some t \<longrightarrow> in_int64 t"
  shows "decoder (dec_LogEntry parse) entry_fits"
proof -
  have time: "decoder (dec_time parse) in_int64"
    using assms by unfold_locales (auto simp: dec_time_def in_int64_def split: json.splits)
  have op: "decoder (dec_Operation parse) (\<lambda>op. in_int64 (op_Timestamp op) \<and> valid_utf8 (op_Key op) \<and> valid_utf8 (op_Value op))"
    by unfold_locales (auto simp: dec_Operation_def bind_eq_Some_conv dest: basic_typed decoder.field_typed [OF time])
  show ?thesis
    by unfold_locales
      (auto simp: dec_LogEntry_def entry_fits_def bind_eq_Some_conv dest: basic_typed decoder.field_typed [OF op])
qed

lemma response_typed:
  assumes "\<forall>s t. parse s = Some t \<longrightarrow> in_int64 t"
  shows "decoder (dec_ReplicateResponse parse) replicated_fits" and "decoder (dec_MigrationChunk parse) chunk_fits"
proof -
  note es = decoder.fields_typed(2) [OF entry_typed [OF assms]]
  show "decoder (dec_ReplicateResponse parse) replicated_fits"
    by unfold_locales
      (auto simp: dec_ReplicateResponse_def replicated_fits_def bind_eq_Some_conv dest: basic_typed dest!: es)
  show "decoder (dec_MigrationChunk parse) chunk_fits"
    by unfold_locales
      (auto simp: dec_MigrationChunk_def chunk_fits_def data_fits_def bind_eq_Some_conv dest!: basic_typed es)
qed



section \<open>Copies and comparisons of layouts\<close>

definition Clone :: "Layout \<Rightarrow> Layout" where
  "Clone l = (case dec_Layout (enc_Layout l) of Some out \<Rightarrow> out | None \<Rightarrow> empty_layout)"

text \<open>The comparison of \<open>sameLayout\<close> as the code makes it, on the encoded layouts.\<close>

definition same_encoding :: "Layout \<Rightarrow> Layout \<Rightarrow> bool" where
  "same_encoding a b \<longleftrightarrow> enc_Layout a = enc_Layout (b\<lparr>l_Version := l_Version a\<rparr>)"

lemma enc_ordered: "enc_Layout (ordered_members l) = enc_Layout l"
  by (simp add: enc_Layout_def ordered_members_def enc_map_def sort_key_id_if_sorted)

text \<open>
  C21. Copying and comparing layouts through JSON is exact. For layouts whose numbers are 64-bit
  integers and whose names are UTF-8, \<open>Clone\<close> returns the same layout (its members in the order of
  their names), although fields with zero values are left out of the encoding, and two layouts have
  the same encoding up to the version exactly when they are equal up to the version and the order of the
  members. What the controller compares is therefore the layout, and no field of it is lost in etcd.
\<close>

theorem layout_through_json:
  assumes "layout_fits a" and "layout_fits b"
  shows "Clone a = ordered_members a \<and> dec_Layout (enc_Layout a) = Some (ordered_members a) \<and>
    (same_encoding a b \<longleftrightarrow> sameLayout a b)"
proof -
  let ?b = "b\<lparr>l_Version := l_Version a\<rparr>"
  have b: "layout_fits ?b" using assms by (simp add: layout_fits_def)
  have same: "sameLayout a b \<longleftrightarrow> ordered_members a = ordered_members ?b"
    by (simp add: sameLayout_def ordered_members_def)
  have "enc_Layout a = enc_Layout ?b \<longleftrightarrow> ordered_members a = ordered_members ?b"
    using layout_codec.enc_inject [OF assms(1) b] enc_ordered by metis
  with same layout_codec.roundtrip [OF assms(1)] show ?thesis by (simp add: Clone_def same_encoding_def)
qed

lemma valid_ascii: "list_all (\<lambda>c. of_char c < (128 :: nat)) s \<Longrightarrow> valid_utf8 s"
  using to_utf8_ascii to_utf8_eq_iff by blast

lemma example_layout_fits: "layout_fits example_layout"
  by (simp add: layout_fits_def resharding_fits_def partition_fits_def example_layout_def example_partition_def in_int64_def valid_ascii gm_ok_def)

theorem layout_through_json_witness:
  "Clone example_layout = ordered_members example_layout \<and>
   (same_encoding example_layout (example_layout\<lparr>l_Version := 99\<rparr>) \<longleftrightarrow> sameLayout example_layout (example_layout\<lparr>l_Version := 99\<rparr>)) \<and>
   sameLayout example_layout (example_layout\<lparr>l_Version := 99\<rparr>)"
proof -
  have "layout_fits (example_layout\<lparr>l_Version := 99\<rparr>)"
    using example_layout_fits by (simp add: layout_fits_def in_int64_def)
  with layout_through_json [OF example_layout_fits this] show ?thesis by (simp add: sameLayout_def)
qed


definition logs_chunk :: MigrationChunk where
  "logs_chunk = \<lparr>mc_Mode = ModeLogs, mc_Epoch = 1, mc_Seq = 4, mc_Data = [],
     mc_Entries = [\<lparr>le_SequenceNumber = 4, le_Operation = \<lparr>op_Type = OpDelete, op_Key = ''k'', op_Value = [], op_Timestamp = 7\<rparr>\<rparr>]\<rparr>"


section \<open>Names of partitions\<close>

definition PartitionRef_String :: "PartitionRef \<Rightarrow> string" where
  "PartitionRef_String r = ''g'' @ show_int (ref_Generation r) @ ''/p'' @ show_int (ref_ID r)"

lemma PartitionRef_String_inj: "PartitionRef_String r = PartitionRef_String r' \<Longrightarrow> r = r'"
proof -
  assume "PartitionRef_String r = PartitionRef_String r'"
  then have "split_at CHR ''/'' (PartitionRef_String r) = split_at CHR ''/'' (PartitionRef_String r')" by simp
  moreover have "split_at CHR ''/'' (PartitionRef_String x) = (CHR ''g'' # show_int (ref_Generation x), Some (CHR ''p'' # show_int (ref_ID x)))" for x
    using split_at_sep [of "CHR ''/''" "CHR ''g'' # show_int (ref_Generation x)" "CHR ''p'' # show_int (ref_ID x)"] show_int_no_slash
    by (simp add: PartitionRef_String_def)
  ultimately show "r = r'" by (auto dest: show_int_inj intro: PartitionRef.expand)
qed

end
