(* ===== verification/Metrics.thy ===== *)
theory Metrics
  imports Complex_Main Interfaces
begin

text \<open>
  \<open>src/internal/metrics/metrics.go\<close>: the named counters that nodes and balancers bump from every
  request, and the rates made from their snapshots. The counters have no lock: \<open>Add\<close> is a load of a
  concurrent map, a \<open>LoadOrStore\<close> when the name is new and an atomic addition, and other calls may
  run between these. The first part has these as single steps over a store of cells; the second part
  is the tracker, with the quotients of \<open>float64\<close> as exact rationals (infinities and NaN included).
\<close>

section \<open>Counters\<close>

text \<open>The \<open>sync.Map\<close> has the address of a cell (an \<open>atomic.Int64\<close>) for every name.\<close>

record Counters =
  cn_values :: "(string, nat) gomap"
  cn_cells :: "64 word list"

definition NewCounters :: Counters where
  "NewCounters = \<lparr>cn_values = [], cn_cells = []\<rparr>"

definition LoadOrStore :: "string \<Rightarrow> Counters \<Rightarrow> nat \<times> Counters" where
  "LoadOrStore name c =
     (let fresh = length (cn_cells c); c = c\<lparr>cn_cells := cn_cells c @ [0]\<rparr>
      in case map_of (cn_values c) name of
           Some a \<Rightarrow> (a, c)
         | None \<Rightarrow> (fresh, c\<lparr>cn_values := gm_put name fresh (cn_values c)\<rparr>))"

definition atomic_Add :: "nat \<Rightarrow> int \<Rightarrow> Counters \<Rightarrow> Counters" where
  "atomic_Add a delta c = c\<lparr>cn_cells := (cn_cells c)[a := cn_cells c ! a + word_of_int delta]\<rparr>"

definition Counters_Add :: "string \<Rightarrow> int \<Rightarrow> Counters \<Rightarrow> Counters" where
  "Counters_Add name delta c =
     (let (v, c) = (case map_of (cn_values c) name of
                      Some v \<Rightarrow> (v, c)
                    | None \<Rightarrow> LoadOrStore name c)
      in atomic_Add v delta c)"

definition Counters_Inc :: "string \<Rightarrow> Counters \<Rightarrow> Counters" where
  "Counters_Inc name c = Counters_Add name 1 c"

definition Counters_Snapshot :: "Counters \<Rightarrow> (string, int) gomap" where
  "Counters_Snapshot c = map (\<lambda>(k, v). (k, sint (cn_cells c ! v))) (cn_values c)"

text \<open>The value of a counter, 0 when there is none.\<close>

definition counter :: "Counters \<Rightarrow> string \<Rightarrow> 64 word" where
  "counter c name = (case map_of (cn_values c) name of None \<Rightarrow> 0 | Some a \<Rightarrow> cn_cells c ! a)"

text \<open>Well formed: every name has a cell of its own.\<close>

definition counters_ok :: "Counters \<Rightarrow> bool" where
  "counters_ok c \<longleftrightarrow> gm_ok (cn_values c) \<and> distinct (map snd (cn_values c)) \<and>
     (\<forall>a \<in> set (map snd (cn_values c)). a < length (cn_cells c))"

lemma counters_okD:
  assumes "counters_ok c"
  shows "map_of (cn_values c) n = Some a \<Longrightarrow> a < length (cn_cells c)"
    and "map_of (cn_values c) n = Some a \<Longrightarrow> map_of (cn_values c) n' = Some a \<Longrightarrow> n = n'"
proof -
  from assms have v: "distinct (map snd (cn_values c))" "\<forall>a \<in> set (map snd (cn_values c)). a < length (cn_cells c)"
    by (simp_all add: counters_ok_def)
  show "map_of (cn_values c) n = Some a \<Longrightarrow> a < length (cn_cells c)"
    using v(2) by (force dest: map_of_SomeD)
  assume "map_of (cn_values c) n = Some a" and "map_of (cn_values c) n' = Some a"
  then have "(n, a) \<in> set (cn_values c)" "(n', a) \<in> set (cn_values c)" by (auto dest: map_of_SomeD)
  with v(1) show "n = n'" by (metis distinct_map inj_onD prod.inject snd_conv)
qed

lemma counters_ok_New [simp]: "counters_ok NewCounters" "counter NewCounters = (\<lambda>_. 0)"
  by (simp_all add: counters_ok_def NewCounters_def counter_def fun_eq_iff)

lemma LoadOrStore_spec:
  assumes "counters_ok c" and "LoadOrStore name c = (a, c')"
  shows "counters_ok c'" and "counter c' n = counter c n" and "map_of (cn_values c') name = Some a"
    and "map_of (cn_values c) n = Some b \<Longrightarrow> map_of (cn_values c') n = Some b"
proof -
  note lt = counters_okD(1) [OF assms(1)]
  show "map_of (cn_values c') name = Some a"
    and "map_of (cn_values c) n = Some b \<Longrightarrow> map_of (cn_values c') n = Some b"
    using assms(2) by (auto simp: LoadOrStore_def Let_def update_conv' split: option.splits)
  have fresh: "length (cn_cells c) \<notin> set (map snd (cn_values c))"
    using assms(1) by (auto simp: counters_ok_def)
  show "counters_ok c'"
    using assms fresh
    by (fastforce simp: LoadOrStore_def Let_def counters_ok_def gm_put_new gm_ok_def map_of_eq_None_iff less_Suc_eq
        split: option.splits)
  show "counter c' n = counter c n"
    using assms(2) lt
    by (fastforce simp: LoadOrStore_def Let_def counter_def update_conv' nth_append split: option.splits if_splits)
qed

lemma atomic_Add_spec:
  assumes "counters_ok c" and "map_of (cn_values c) name = Some a"
  shows "counters_ok (atomic_Add a delta c)" and "cn_values (atomic_Add a delta c) = cn_values c"
    and "counter (atomic_Add a delta c) n = (if n = name then counter c n + word_of_int delta else counter c n)"
  using assms counters_okD [OF assms(1)]
  by (auto simp: atomic_Add_def counters_ok_def counter_def nth_list_update split: option.splits)

text \<open>The maps that stand for the counters in the models of the node and of the balancer.\<close>

lemma counters_ok_Add [simp]: "counters_ok c \<Longrightarrow> counters_ok (Counters_Add name delta c)"
  and counter_Add: "counters_ok c \<Longrightarrow>
    counter (Counters_Add name delta c) = (counter c)(name := counter c name + word_of_int delta)"
  using LoadOrStore_spec [of c name] atomic_Add_spec
  by (auto simp: Counters_Add_def fun_eq_iff split: option.splits prod.splits)

interpretation adds: functional_refinement "\<lambda>(name, delta). Counters_Add name delta" counters_ok
    "\<lambda>(name, delta) f. f(name := f name + word_of_int delta)" counter
  by unfold_locales (auto simp: counter_Add)

lemma Counters_refine_gm_add:
  "counter (fold (\<lambda>(name, delta). Counters_Add name delta) ops NewCounters) n =
     word_of_int (gm_get 0 (fold (\<lambda>(name, delta). gm_add name delta) ops []) n)"
proof -
  have "word_of_int (gm_get 0 (fold (\<lambda>(name, delta). gm_add name delta) ops m) n) =
      fold (\<lambda>(name, delta) f. f(name := f name + word_of_int delta)) ops (\<lambda>n. word_of_int (gm_get 0 m n) :: 64 word) n" for m
    by (induction ops arbitrary: m) (auto simp: fun_upd_def if_distrib cong: if_cong)
  from this [of "[]"] show ?thesis
    using adds.abs_run [of NewCounters ops] by (simp add: gm_get_def counters_ok_New)
qed

lemma map_of_Snapshot: "counters_ok c \<Longrightarrow>
   map_of (Counters_Snapshot c) n = (if n \<in> dom (map_of (cn_values c)) then Some (sint (counter c n)) else None)"
  by (auto simp: Counters_Snapshot_def map_of_map_snd counter_def split: option.splits)

section \<open>Concurrent calls\<close>

text \<open>
  Where a call of \<open>Add\<close> stands: before its load, before the \<open>LoadOrStore\<close>, before the addition to a
  cell it has found, or done. \<open>add_step\<close> runs a call up to its next access of shared memory.
\<close>

datatype add_pc = AtLoad | AtStore | AtCell nat | AtEnd

record add_call =
  ac_name :: string
  ac_delta :: int
  ac_pc :: add_pc

definition add_step :: "add_call \<Rightarrow> Counters \<Rightarrow> add_call \<times> Counters" where
  "add_step call c =
     (case ac_pc call of
        AtLoad \<Rightarrow>
          (case map_of (cn_values c) (ac_name call) of
             Some v \<Rightarrow> (call\<lparr>ac_pc := AtCell v\<rparr>, c)
           | None \<Rightarrow> (call\<lparr>ac_pc := AtStore\<rparr>, c))
      | AtStore \<Rightarrow> (let (v, c) = LoadOrStore (ac_name call) c in (call\<lparr>ac_pc := AtCell v\<rparr>, c))
      | AtCell v \<Rightarrow> (call\<lparr>ac_pc := AtEnd\<rparr>, atomic_Add v (ac_delta call) c)
      | AtEnd \<Rightarrow> (call, c))"

text \<open>Without interference the steps of a call are the whole operation.\<close>

lemma add_steps_alone:
  "(case_prod add_step ^^ 3) (\<lparr>ac_name = name, ac_delta = delta, ac_pc = AtLoad\<rparr>, c) =
     (\<lparr>ac_name = name, ac_delta = delta, ac_pc = AtEnd\<rparr>, Counters_Add name delta c)"
  by (auto simp: numeral_3_eq_3 add_step_def Counters_Add_def split: option.splits prod.splits)

text \<open>
  Any number of calls and a running \<open>Snapshot\<close>, which loads the cells it visits one at a time.
\<close>

record metrics =
  mt_counters :: Counters
  mt_calls :: "add_call list"
  mt_seen :: "(string, int) gomap"

definition metrics_init :: metrics where
  "metrics_init = \<lparr>mt_counters = NewCounters, mt_calls = [], mt_seen = []\<rparr>"

inductive metrics_step :: "metrics \<Rightarrow> metrics \<Rightarrow> bool" where
  invoke: "metrics_step s (s\<lparr>mt_calls := mt_calls s @ [\<lparr>ac_name = name, ac_delta = delta, ac_pc = AtLoad\<rparr>]\<rparr>)"
| advance: "i < length (mt_calls s) \<Longrightarrow> add_step (mt_calls s ! i) (mt_counters s) = (call, c) \<Longrightarrow>
    metrics_step s (s\<lparr>mt_counters := c, mt_calls := (mt_calls s)[i := call]\<rparr>)"
| visit: "map_of (cn_values (mt_counters s)) name = Some v \<Longrightarrow> map_of (mt_seen s) name = None \<Longrightarrow>
    metrics_step s (s\<lparr>mt_seen := gm_put name (sint (cn_cells (mt_counters s) ! v)) (mt_seen s)\<rparr>)"

text \<open>What the finished calls, and what all calls, add to a counter.\<close>

definition finished :: "string \<Rightarrow> add_call list \<Rightarrow> int" where
  "finished name calls = sum_list (map (\<lambda>a. if ac_name a = name \<and> ac_pc a = AtEnd then ac_delta a else 0) calls)"

definition called :: "string \<Rightarrow> add_call list \<Rightarrow> int" where
  "called name calls = sum_list (map (\<lambda>a. if ac_name a = name then ac_delta a else 0) calls)"

definition metrics_inv :: "metrics \<Rightarrow> bool" where
  "metrics_inv s \<longleftrightarrow> counters_ok (mt_counters s) \<and>
     (\<forall>a \<in> set (mt_calls s). \<forall>v. ac_pc a = AtCell v \<longrightarrow> map_of (cn_values (mt_counters s)) (ac_name a) = Some v) \<and>
     (\<forall>name. counter (mt_counters s) name = word_of_int (finished name (mt_calls s)))"

lemma sum_list_map_update:
  fixes f :: "'a \<Rightarrow> int"
  assumes "i < length xs"
  shows "sum_list (map f (xs[i := x])) = sum_list (map f xs) + f x - f (xs ! i)"
  using assms by (induction xs arbitrary: i) (auto split: nat.split)

lemma add_step_spec:
  assumes "counters_ok c" and "\<And>v. ac_pc a = AtCell v \<Longrightarrow> map_of (cn_values c) (ac_name a) = Some v"
    and "add_step a c = (a', c')"
  shows "counters_ok c'" and "ac_name a' = ac_name a" and "ac_delta a' = ac_delta a"
    and "ac_pc a' = AtCell v \<Longrightarrow> map_of (cn_values c') (ac_name a) = Some v"
    and "map_of (cn_values c) n = Some b \<Longrightarrow> map_of (cn_values c') n = Some b"
    and "counter c' n = (if ac_name a = n \<and> ac_pc a' = AtEnd \<and> ac_pc a \<noteq> AtEnd then counter c n + word_of_int (ac_delta a) else counter c n)"
    and "ac_pc a = AtEnd \<Longrightarrow> ac_pc a' = AtEnd"
  using assms LoadOrStore_spec [OF assms(1)] atomic_Add_spec [OF assms(1)]
  by (auto simp: add_step_def split: add_pc.splits option.splits prod.splits)

lemma finished_update:
  assumes "i < length calls" and "ac_name a = ac_name (calls ! i)" and "ac_delta a = ac_delta (calls ! i)"
    and "ac_pc (calls ! i) = AtEnd \<Longrightarrow> ac_pc a = AtEnd"
  shows "finished name (calls[i := a]) = finished name calls +
    (if ac_name a = name \<and> ac_pc a = AtEnd \<and> ac_pc (calls ! i) \<noteq> AtEnd then ac_delta a else 0)"
    and "called name (calls[i := a]) = called name calls"
  using assms by (auto simp: finished_def called_def sum_list_map_update)

lemma metrics_inv_step:
  assumes "metrics_step s t" and "metrics_inv s"
  shows "metrics_inv t"
  using assms(1)
proof cases
  case (invoke name delta)
  with assms(2) show ?thesis by (auto simp: metrics_inv_def finished_def)
next
  case (advance i call c)
  let ?a = "mt_calls s ! i"
  from assms(2) have inv: "counters_ok (mt_counters s)" "counter (mt_counters s) n = word_of_int (finished n (mt_calls s))"
    "a \<in> set (mt_calls s) \<Longrightarrow> ac_pc a = AtCell v \<Longrightarrow> map_of (cn_values (mt_counters s)) (ac_name a) = Some v" for n a v
    by (auto simp: metrics_inv_def)
  note st = add_step_spec [OF inv(1) inv(3) advance(3), OF nth_mem [OF advance(2)]]
  have "map_of (cn_values c) (ac_name a) = Some v"
    if "a \<in> set ((mt_calls s)[i := call])" and "ac_pc a = AtCell v" for a v
    using set_update_subset_insert [of "mt_calls s" i call] that st(2,4,5) inv(3) by auto
  moreover have "counter c n = word_of_int (finished n ((mt_calls s)[i := call]))" for n
    using st(2,3,6,7) advance(2) by (simp add: finished_update inv(2))
  ultimately show ?thesis using st(1) advance(1) by (simp add: metrics_inv_def)
qed (use assms(2) in \<open>simp add: metrics_inv_def\<close>)

text \<open>With deltas that are not negative (all of the code's are), what is finished only grows.\<close>

definition growing :: "metrics \<Rightarrow> bool" where
  "growing s \<longleftrightarrow> (\<forall>a \<in> set (mt_calls s). 0 \<le> ac_delta a)"

lemma finished_le_called: "growing s \<Longrightarrow> 0 \<le> finished n (mt_calls s) \<and> finished n (mt_calls s) \<le> called n (mt_calls s)"
  unfolding growing_def finished_def called_def by (induction "mt_calls s" arbitrary: s rule: list.induct)
    (auto intro!: sum_list_nonneg sum_list_mono)

lemma metrics_step_grows:
  assumes "metrics_step s t" and "metrics_inv s" and "growing t"
  shows "growing s" and "finished n (mt_calls s) \<le> finished n (mt_calls t)" and "called n (mt_calls s) \<le> called n (mt_calls t)"
proof -
  have "growing s \<and> finished n (mt_calls s) \<le> finished n (mt_calls t) \<and> called n (mt_calls s) \<le> called n (mt_calls t)"
    using assms(1)
  proof cases
    case (invoke name delta)
    with assms(3) show ?thesis by (auto simp: growing_def finished_def called_def)
  next
    case (advance i call c)
    have cell: "\<And>v. ac_pc (mt_calls s ! i) = AtCell v \<Longrightarrow> map_of (cn_values (mt_counters s)) (ac_name (mt_calls s ! i)) = Some v"
      and ok: "counters_ok (mt_counters s)"
      using assms(2) advance(2) by (auto simp: metrics_inv_def)
    note st = add_step_spec [OF ok cell advance(3)]
    have len: "length (mt_calls t) = length (mt_calls s)" and t: "mt_calls t = (mt_calls s)[i := call]"
      using advance(1) by simp_all
    have nn: "0 \<le> ac_delta (mt_calls s ! j)" if "j < length (mt_calls s)" for j
      using assms(3) that st(3) unfolding growing_def all_set_conv_all_nth len
      by (cases "j = i") (auto simp: t nth_list_update)
    then have "growing s" by (simp add: growing_def all_set_conv_all_nth)
    then show ?thesis
      using nn [OF advance(2)] st(2,3,7) advance(2) by (simp add: t finished_update)
  qed (use assms(3) in \<open>simp add: growing_def\<close>)
  then show "growing s" "finished n (mt_calls s) \<le> finished n (mt_calls t)" "called n (mt_calls s) \<le> called n (mt_calls t)"
    by simp_all
qed

lemma metrics_inv_reachable:
  assumes "metrics_step\<^sup>*\<^sup>* s t" and "metrics_inv s"
  shows "metrics_inv t"
  using assms by (induction rule: rtranclp_induct) (auto intro: metrics_inv_step)

lemma metrics_inv_init: "metrics_inv metrics_init"
  by (simp add: metrics_inv_def metrics_init_def finished_def)

lemma metrics_steps_grow:
  assumes "metrics_step\<^sup>*\<^sup>* s t" and "metrics_inv s" and "growing t"
  shows "growing s \<and> finished n (mt_calls s) \<le> finished n (mt_calls t) \<and> called n (mt_calls s) \<le> called n (mt_calls t)"
  using assms
proof (induction rule: rtranclp_induct)
  case (step t u)
  from step.hyps(1) step.prems(1) have "metrics_inv t" by (rule metrics_inv_reachable)
  note g = metrics_step_grows(1) [OF step.hyps(2) this step.prems(2)] metrics_step_grows(2,3) [OF step.hyps(2) this step.prems(2), of n]
  from g step.IH [OF step.prems(1) g(1)] show ?case by simp
qed simp

lemma sint_in_range: "- (2 ^ 63) \<le> x \<Longrightarrow> x < 2 ^ 63 \<Longrightarrow> sint (word_of_int x :: 64 word) = x"
  by transfer (simp add: signed_take_bit_int_eq_self)

lemma counter_exact:
  assumes "metrics_inv s" and "growing s" and "called n (mt_calls s) < 2 ^ 63"
  shows "sint (counter (mt_counters s) n) = finished n (mt_calls s)"
proof -
  have "counter (mt_counters s) n = word_of_int (finished n (mt_calls s))" using assms(1) by (simp add: metrics_inv_def)
  moreover have "0 \<le> finished n (mt_calls s)" "finished n (mt_calls s) < 2 ^ 63"
    using finished_le_called [OF assms(2), of n] assms(3) by simp_all
  ultimately show ?thesis by (simp add: sint_in_range)
qed

text \<open>What a snapshot has seen lies between the values at its start and now.\<close>

lemma seen_between:
  assumes "metrics_step\<^sup>*\<^sup>* s t" and "metrics_inv s" and "mt_seen s = []" and "growing t" and "called n (mt_calls t) < 2 ^ 63"
    and "map_of (mt_seen t) n = Some v"
  shows "finished n (mt_calls s) \<le> v \<and> v \<le> finished n (mt_calls t)"
  using assms
proof (induction arbitrary: v rule: rtranclp_induct)
  case (step t u)
  from step.hyps(1) step.prems(1) have inv: "metrics_inv t" by (rule metrics_inv_reachable)
  note g = metrics_step_grows(1) [OF step.hyps(2) inv step.prems(3)] metrics_step_grows(2,3) [OF step.hyps(2) inv step.prems(3), of n]
  have below: "called n (mt_calls t) < 2 ^ 63" using g(3) step.prems(4) by simp
  show ?case
  proof (cases "map_of (mt_seen t) n = Some v")
    case True
    with step.IH [OF step.prems(1,2) g(1) below] g(2) show ?thesis by simp
  next
    case False
    with step.hyps(2) step.prems(5) have u: "mt_calls u = mt_calls t" "v = sint (counter (mt_counters t) n)"
      by (auto elim!: metrics_step.cases simp: counter_def update_conv' split: if_splits)
    with counter_exact [OF inv g(1) below] metrics_steps_grow [OF step.hyps(1) step.prems(1) g(1), of n]
    show ?thesis by simp
  qed
qed simp

text \<open>
  C39. The counters lose no addition. In every interleaving of calls of \<open>Add\<close>, with names that are new to
  the map raced for by several calls at once, a counter is the sum of the deltas of exactly the calls
  that have finished (modulo \<open>2^64\<close>); and a snapshot that runs among them, loading one counter after
  the other, reports for each a value between the one at its start and the one at its end.
\<close>

theorem counters_exact:
  assumes "metrics_step\<^sup>*\<^sup>* metrics_init s" and "metrics_step\<^sup>*\<^sup>* (s\<lparr>mt_seen := []\<rparr>) t"
  shows "counter (mt_counters t) n = word_of_int (finished n (mt_calls t)) \<and>
    (growing t \<and> called n (mt_calls t) < 2 ^ 63 \<longrightarrow>
       (\<forall>v. map_of (mt_seen t) n = Some v \<longrightarrow> finished n (mt_calls s) \<le> v \<and> v \<le> finished n (mt_calls t)))"
proof -
  from assms(1) have "metrics_inv s" by (rule metrics_inv_reachable) (rule metrics_inv_init)
  then have s: "metrics_inv (s\<lparr>mt_seen := []\<rparr>)" by (simp add: metrics_inv_def)
  from metrics_inv_reachable [OF assms(2) s] have "counter (mt_counters t) n = word_of_int (finished n (mt_calls t))"
    by (simp add: metrics_inv_def)
  with seen_between [OF assms(2) s] show ?thesis by auto
qed

text \<open>Two calls race for a new name; a snapshot visits it between their additions.\<close>

definition racing :: "add_pc \<Rightarrow> add_pc \<Rightarrow> Counters \<Rightarrow> (string, int) gomap \<Rightarrow> metrics" where
  "racing p q c seen = \<lparr>mt_counters = c, mt_calls = [\<lparr>ac_name = ''set'', ac_delta = 1, ac_pc = p\<rparr>,
     \<lparr>ac_name = ''set'', ac_delta = 1, ac_pc = q\<rparr>], mt_seen = seen\<rparr>"

lemma racing_steps:
  "add_step \<lparr>ac_name = ''set'', ac_delta = 1, ac_pc = p\<rparr> c = (\<lparr>ac_name = ''set'', ac_delta = 1, ac_pc = p'\<rparr>, c') \<Longrightarrow>
     metrics_step (racing p q c seen) (racing p' q c' seen)"
  "add_step \<lparr>ac_name = ''set'', ac_delta = 1, ac_pc = q\<rparr> c = (\<lparr>ac_name = ''set'', ac_delta = 1, ac_pc = q'\<rparr>, c') \<Longrightarrow>
     metrics_step (racing p q c seen) (racing p q' c' seen)"
  "map_of (cn_values c) ''set'' = Some v \<Longrightarrow>
     metrics_step (racing p q c []) (racing p q c [(''set'', sint (cn_cells c ! v))])"
  using advance [of 0 "racing p q c seen"] advance [of 1 "racing p q c seen"] visit [of "racing p q c []"]
  by (auto simp: racing_def)

lemma racing_run:
  "metrics_step\<^sup>*\<^sup>* metrics_init (racing AtStore AtStore NewCounters [])"
  "metrics_step\<^sup>*\<^sup>* (racing AtStore AtStore NewCounters [])
     (racing AtEnd AtEnd \<lparr>cn_values = [(''set'', 0)], cn_cells = [2, 0]\<rparr> [(''set'', 1)])"
proof -
  let ?c = "\<lambda>cells. \<lparr>cn_values = [(''set'', 0)], cn_cells = cells\<rparr>"
  let ?one = "metrics_init\<lparr>mt_calls := [\<lparr>ac_name = ''set'', ac_delta = 1, ac_pc = AtLoad\<rparr>]\<rparr>"
  note [trans] = rtranclp.rtrancl_into_rtrancl
  have "metrics_step\<^sup>*\<^sup>* metrics_init metrics_init" by simp
  also have "metrics_step metrics_init ?one"
    using invoke [of metrics_init "''set''" 1] by (simp add: metrics_init_def)
  also have "metrics_step ?one (racing AtLoad AtLoad NewCounters [])"
    using invoke [of ?one "''set''" 1] by (simp add: metrics_init_def racing_def)
  also have "metrics_step (racing AtLoad AtLoad NewCounters []) (racing AtStore AtLoad NewCounters [])"
    by (rule racing_steps(1)) (simp add: add_step_def NewCounters_def)
  also have "metrics_step (racing AtStore AtLoad NewCounters []) (racing AtStore AtStore NewCounters [])"
    by (rule racing_steps(2)) (simp add: add_step_def NewCounters_def)
  finally show "metrics_step\<^sup>*\<^sup>* metrics_init (racing AtStore AtStore NewCounters [])" .
  have "metrics_step\<^sup>*\<^sup>* (racing AtStore AtStore NewCounters []) (racing AtStore AtStore NewCounters [])" by simp
  also have "metrics_step (racing AtStore AtStore NewCounters []) (racing (AtCell 0) AtStore (?c [0]) [])"
    by (rule racing_steps(1)) (simp add: add_step_def NewCounters_def LoadOrStore_def)
  also have "metrics_step \<dots> (racing (AtCell 0) (AtCell 0) (?c [0, 0]) [])"
    by (rule racing_steps(2)) (simp add: add_step_def NewCounters_def LoadOrStore_def)
  also have "metrics_step \<dots> (racing AtEnd (AtCell 0) (?c [1, 0]) [])"
    by (rule racing_steps(1)) (simp add: add_step_def atomic_Add_def)
  also have "metrics_step \<dots> (racing AtEnd (AtCell 0) (?c [1, 0]) [(''set'', 1)])"
    using racing_steps(3) [of "?c [1, 0]" 0 AtEnd "AtCell 0"] by simp
  also have "metrics_step \<dots> (racing AtEnd AtEnd (?c [2, 0]) [(''set'', 1)])"
    by (rule racing_steps(2)) (simp add: add_step_def atomic_Add_def)
  finally show "metrics_step\<^sup>*\<^sup>* (racing AtStore AtStore NewCounters []) (racing AtEnd AtEnd (?c [2, 0]) [(''set'', 1)])" .
qed

theorem counters_exact_witness:
  "\<exists>s t. metrics_step\<^sup>*\<^sup>* metrics_init s \<and> metrics_step\<^sup>*\<^sup>* (s\<lparr>mt_seen := []\<rparr>) t \<and> length (mt_calls t) = 2 \<and>
    counter (mt_counters t) ''set'' = 2 \<and> map_of (mt_seen t) ''set'' = Some 1 \<and> finished ''set'' (mt_calls s) \<le> 1"
proof -
  let ?s = "racing AtStore AtStore NewCounters []"
  let ?t = "racing AtEnd AtEnd \<lparr>cn_values = [(''set'', 0)], cn_cells = [2, 0]\<rparr> [(''set'', 1)]"
  have s: "?s\<lparr>mt_seen := []\<rparr> = ?s" by (simp add: racing_def)
  have v: "finished ''set'' (mt_calls ?t) = 2" "called ''set'' (mt_calls ?t) = 2" "growing ?t"
    "map_of (mt_seen ?t) ''set'' = Some 1" "length (mt_calls ?t) = 2"
    by (simp_all add: racing_def finished_def called_def growing_def)
  with counters_exact [OF racing_run(1), of ?t "''set''"] racing_run s show ?thesis
    by (intro exI [of _ ?s] exI [of _ ?t]) (simp add: s)
qed

section \<open>Rates\<close>

datatype go_float = Fin rat | PosInf | NegInf | NaN

definition float_div :: "rat \<Rightarrow> rat \<Rightarrow> go_float" where
  "float_div x y = (if y \<noteq> 0 then Fin (x / y) else if 0 < x then PosInf else if x < 0 then NegInf else NaN)"

record RateTracker =
  rt_last :: "(string, int) gomap"
  rt_at :: go_time
  rt_rates :: "(string, go_float) gomap"

definition zero_tracker :: RateTracker where
  "zero_tracker = \<lparr>rt_last = [], rt_at = 0, rt_rates = []\<rparr>"

text \<open>\<open>now.Sub(t.at).Seconds()\<close>, and the difference of two \<open>int64\<close>, which wraps.\<close>

definition Seconds :: "int \<Rightarrow> rat" where
  "Seconds d = of_int d / 10 ^ 9"

definition int64_minus :: "int \<Rightarrow> int \<Rightarrow> int" where
  "int64_minus a b = signed_take_bit 63 (a - b)"

definition RateTracker_Update :: "go_time \<Rightarrow> (string, int) gomap \<Rightarrow> RateTracker \<Rightarrow> (string, go_float) gomap \<times> RateTracker" where
  "RateTracker_Update now snapshot t =
     (let rates =
        (if rt_at t = 0 then []
         else let elapsed = Seconds (now - rt_at t)
              in map (\<lambda>(k, v). (k, float_div (of_int (int64_minus v (gm_get 0 (rt_last t) k))) elapsed)) snapshot)
      in (rates, t\<lparr>rt_last := snapshot, rt_at := now, rt_rates := rates\<rparr>))"

definition RateTracker_Rates :: "RateTracker \<Rightarrow> (string, go_float) gomap" where
  "RateTracker_Rates t = rt_rates t"

lemma Update_first: "fst (RateTracker_Update now snap zero_tracker) = []"
  by (simp add: RateTracker_Update_def zero_tracker_def)

lemma Update_Rates: "RateTracker_Rates (snd (RateTracker_Update now snap t)) = fst (RateTracker_Update now snap t)"
  by (simp add: RateTracker_Update_def RateTracker_Rates_def Let_def)

lemma Update_twice:
  assumes "0 < t1" and "t1 < t2" and "0 \<le> gm_get 0 snap1 n" and "0 \<le> gm_get 0 snap2 n" and "gm_get 0 snap1 n < 2 ^ 63"
    and "gm_get 0 snap2 n < 2 ^ 63"
  shows "map_of (fst (RateTracker_Update t2 snap2 (snd (RateTracker_Update t1 snap1 r)))) n =
    (if n \<in> dom (map_of snap2)
     then Some (Fin (of_int (gm_get 0 snap2 n - gm_get 0 snap1 n) / Seconds (t2 - t1))) else None)"
proof -
  have "int64_minus (gm_get 0 snap2 n) (gm_get 0 snap1 n) = gm_get 0 snap2 n - gm_get 0 snap1 n"
    unfolding int64_minus_def using assms(3-6) by (intro signed_take_bit_int_eq_self) simp_all
  moreover have "Seconds (t2 - t1) \<noteq> 0" using assms(2) by (simp add: Seconds_def)
  ultimately show ?thesis
    using assms(1) by (auto simp: RateTracker_Update_def Let_def map_of_map_snd float_div_def gm_get_def split: option.splits)
qed

lemma Snapshot_exact:
  assumes "metrics_inv s" and "growing s" and "called n (mt_calls s) < 2 ^ 63"
  shows "gm_get 0 (Counters_Snapshot (mt_counters s)) n = finished n (mt_calls s)"
proof -
  have "counters_ok (mt_counters s)" using assms(1) by (simp add: metrics_inv_def)
  with counter_exact [OF assms] show ?thesis
    by (auto simp: gm_get_def map_of_Snapshot counter_def split: option.splits)
qed

text \<open>
  The reported rates are the work done. When the tracker is updated with a snapshot of the counters
  and later with another one, whatever calls ran in between and whatever it was updated with before,
  the rate it then has for a counter, times the seconds between the two, is what the calls that
  finished in between have added: it is never negative, infinite or not a number.
\<close>

lemma rates_exact:
  assumes "metrics_step\<^sup>*\<^sup>* metrics_init s" and "metrics_step\<^sup>*\<^sup>* s t" and "growing t" and "called n (mt_calls t) < 2 ^ 63"
    and "0 < t1" and "t1 < t2"
    and "RateTracker_Update t1 (Counters_Snapshot (mt_counters s)) r = (rates1, r1)"
    and "RateTracker_Update t2 (Counters_Snapshot (mt_counters t)) r1 = (rates2, r2)"
    and "map_of (RateTracker_Rates r2) n = Some x"
  shows "\<exists>q. x = Fin q \<and> 0 \<le> q \<and> q * Seconds (t2 - t1) = of_int (finished n (mt_calls t) - finished n (mt_calls s))"
proof -
  from assms(1) have s: "metrics_inv s" by (rule metrics_inv_reachable) (rule metrics_inv_init)
  with assms(2) have t: "metrics_inv t" by (rule metrics_inv_reachable)
  note g = metrics_steps_grow [OF assms(2) s assms(3), of n]
  have below: "called n (mt_calls s) < 2 ^ 63" using g assms(4) by simp
  let ?a = "finished n (mt_calls s)" and ?b = "finished n (mt_calls t)"
  have vals: "gm_get 0 (Counters_Snapshot (mt_counters s)) n = ?a" "gm_get 0 (Counters_Snapshot (mt_counters t)) n = ?b"
    using Snapshot_exact s t g assms(3,4) below by blast+
  have rng: "0 \<le> ?a" "?a \<le> ?b" "?b < 2 ^ 63"
    using finished_le_called [of s n] finished_le_called [OF assms(3), of n] g assms(4) by simp_all
  have pos: "0 < Seconds (t2 - t1)" using assms(6) by (simp add: Seconds_def)
  have "x = Fin (of_int (?b - ?a) / Seconds (t2 - t1))"
    using Update_twice [of t1 t2 "Counters_Snapshot (mt_counters s)" n "Counters_Snapshot (mt_counters t)" r]
      Update_Rates [of t2 "Counters_Snapshot (mt_counters t)" r1] assms(5-9) vals rng
    by (simp split: if_splits)
  with pos rng show ?thesis by (simp del: of_int_diff)
qed

end
