(* ===== verification/Serve.thy ===== *)
theory Serve
  imports Json Metrics "HOL-Library.Countable"
begin

text \<open>
  What the HTTP servers of nodes and load balancers do with a request, from the routes that \<open>Start\<close> sets up
  (\<open>src/internal/node/node.go\<close>, \<open>src/internal/loadbalancer/loadbalancer.go\<close>) through the decoding of query and
  body to the handler. A pattern without a final slash matches the path only. The text of a JSON document
  is a parameter: \<open>parse\<close> and \<open>render\<close>.
\<close>

section \<open>Requests\<close>

record http_call =
  hc_method :: string
  hc_path :: string
  hc_query :: string
  hc_body :: string

text \<open>The bodies of writes: what a handler decodes, and what client and balancer send.\<close>

definition dec_set :: "json \<Rightarrow> (key \<times> string) option" where
  "dec_set j = do { js \<leftarrow> jmembers j; k \<leftarrow> jfield js ''key'' dec_str; v \<leftarrow> jfield js ''value'' dec_str; Some (k, v) }"

definition dec_key :: "json \<Rightarrow> key option" where
  "dec_key j = do { js \<leftarrow> jmembers j; jfield js ''key'' dec_str }"

definition client_set_body :: "key \<Rightarrow> string \<Rightarrow> json" where
  "client_set_body k v = enc_map enc_str [(''key'', k), (''value'', v)]"

definition client_key_body :: "key \<Rightarrow> json" where
  "client_key_body k = enc_map enc_str [(''key'', k)]"

definition lb_set_body :: "key \<Rightarrow> string \<Rightarrow> json" where
  "lb_set_body k v = enc_struct [(''key'', Some (enc_str k)), (''value'', Some (enc_str v))]"

definition lb_key_body :: "key \<Rightarrow> json" where
  "lb_key_body k = enc_struct [(''key'', Some (enc_str k))]"

section \<open>The node\<close>

datatype node_page =
    Handled node_response
  | HealthPage node_id
  | StatusPage NodeStatus
  | PageNotFound

text \<open>\<open>woken\<close> is the replica after the wait of a long poll, \<open>net\<close> the network of a pull.\<close>

definition node_serve ::
  "(string \<Rightarrow> json option) \<Rightarrow> (MigrationSource \<Rightarrow> bool \<Rightarrow> int \<Rightarrow> string + MigrationChunk) \<Rightarrow> go_time \<Rightarrow> Replica option \<Rightarrow>
   http_call \<Rightarrow> NodeServer \<Rightarrow> node_page \<times> NodeServer" where
  "node_serve parse net now woken call n =
     (let m = hc_method call; q = hc_query call; body = parse (hc_body call); ref = refFromQuery (ParseQuery q) in
      if hc_path call = ''/set'' then apfst Handled (handleSet now m ref (Option.bind body dec_set) n)
      else if hc_path call = ''/get'' then apfst Handled (handleGet m ref (query_Get (ParseQuery q) ''key'') n)
      else if hc_path call = ''/delete'' then apfst Handled (handleDelete now m ref (Option.bind body dec_key) n)
      else if hc_path call = ''/health'' then (HealthPage (nd_ID n), n)
      else if hc_path call = ''/status'' then (StatusPage (node_status n), n)
      else if hc_path call = ''/replicate'' then (Handled (handleReplicate (read_replicate q) woken n), n)
      else if hc_path call = ''/snapshot'' then
        (let (sref, e) = read_snapshot q in apfst Handled (handleSnapshot now sref e n))
      else if hc_path call = ''/migrate/export'' then
        (let (eref, cnt, i, after, frz) = read_export q in apfst Handled (handleMigrateExport now eref cnt i after frz n))
      else if hc_path call = ''/migrate/pull'' then
        apfst Handled (handleMigratePull net now m (Option.bind body dec_MigrationRequest) n)
      else (PageNotFound, n))"

section \<open>The load balancer\<close>

datatype lb_page =
    Routed lb_response
  | LbHealth "int option" \<comment> \<open>the layout version, when there is a layout\<close>
  | LbMetrics "(string, int) gomap" "(string, go_float) gomap"
  | LbLayout "Layout option"
  | LbNotFound

definition lb_serve ::
  "(string \<Rightarrow> json option) \<Rightarrow> (json \<Rightarrow> string) \<Rightarrow> (nat \<Rightarrow> attempt_env) \<Rightarrow> LayoutWatcher \<Rightarrow> RateTracker \<Rightarrow>
   http_call \<Rightarrow> LoadBalancer \<Rightarrow> lb_page \<times> LoadBalancer" where
  "lb_serve parse render env layout rates call lb =
     (let m = hc_method call; body = parse (hc_body call) in
      if hc_path call = ''/set'' then
        (let data = Option.bind body dec_set;
             payload = (case data of None \<Rightarrow> '''' | Some (k, v) \<Rightarrow> render (lb_set_body k v))
         in apfst Routed (lb_handleSet env m data payload lb))
      else if hc_path call = ''/get'' then apfst Routed (lb_handleGet env m (query_Get (ParseQuery (hc_query call)) ''key'') lb)
      else if hc_path call = ''/delete'' then
        (let data = Option.bind body dec_key;
             payload = (case data of None \<Rightarrow> '''' | Some k \<Rightarrow> render (lb_key_body k))
         in apfst Routed (lb_handleDelete env m data payload lb))
      else if hc_path call = ''/health'' then (LbHealth (map_option l_Version layout), lb)
      else if hc_path call = ''/metrics'' then (LbMetrics (lb_ops lb) (RateTracker_Rates rates), lb)
      else if hc_path call = ''/layout'' then (LbLayout layout, lb)
      else (LbNotFound, lb))"

section \<open>The controller\<close>

text \<open>The bodies of the admin API; a pointer tells a number that is missing from one that is 0.\<close>

definition dec_configRequest :: "json \<Rightarrow> (int option \<times> int option) option" where
  "dec_configRequest j = do {
     js \<leftarrow> jmembers j; n \<leftarrow> jfield js ''partition_count'' (dec_ptr dec_int); r \<leftarrow> jfield js ''replication_factor'' (dec_ptr dec_int);
     Some (n, r) }"

definition dec_drainRequest :: "json \<Rightarrow> (node_id \<times> bool) option" where
  "dec_drainRequest j = do {
     js \<leftarrow> jmembers j; n \<leftarrow> jfield js ''node'' dec_str; d \<leftarrow> jfield js ''drained'' dec_bool; Some (n, d) }"

definition dec_partitionRequest :: "json \<Rightarrow> partitionRequest option" where
  "dec_partitionRequest j = do {
     js \<leftarrow> jmembers j; g \<leftarrow> jfield js ''generation'' dec_int; p \<leftarrow> jfield js ''partition'' dec_int; n \<leftarrow> jfield js ''node'' dec_str;
     f \<leftarrow> jfield js ''from'' dec_str; t \<leftarrow> jfield js ''to'' dec_str;
     Some \<lparr>pq_Generation = g, pq_Partition = p, pq_Node = n, pq_From = f, pq_To = t\<rparr> }"

datatype ctl_page =
    Panel int
  | CtlHealth string bool
  | Api api_response

text \<open>The pattern of the API ends in a slash and matches every path below it; all other paths are the panel's.\<close>

definition ctl_serve ::
  "(string \<Rightarrow> json option) \<Rightarrow> 's world \<Rightarrow> string \<Rightarrow> http_call \<Rightarrow> Controller \<Rightarrow> 's \<Rightarrow> ctl_page \<times> Controller \<times> 's" where
  "ctl_serve parse w proxied call c s =
     (let body = parse (hc_body call) in
      if hc_path call = ''/health'' then (CtlHealth (co_ID (ct_opts c)) (w_leading w s), c, s)
      else if prefix ''/api/'' (hc_path call) then
        apfst Api (handleAPI w \<lparr>aq_method = hc_method call, aq_path = hc_path call, aq_proxied = proxied,
          aq_config = Option.bind body dec_configRequest, aq_drain = Option.bind body dec_drainRequest,
          aq_partition = Option.bind body dec_partitionRequest\<rparr> c s)
      else (Panel (handlePanel (hc_path call)), c, s))"

section \<open>Log lines\<close>

text \<open>Sums of \<open>float64\<close>.\<close>

fun float_add :: "go_float \<Rightarrow> go_float \<Rightarrow> go_float" where
  "float_add (Fin a) (Fin b) = Fin (a + b)"
| "float_add NaN b = NaN"
| "float_add a NaN = NaN"
| "float_add PosInf NegInf = NaN"
| "float_add NegInf PosInf = NaN"
| "float_add PosInf b = PosInf"
| "float_add NegInf b = NegInf"
| "float_add a PosInf = PosInf"
| "float_add a NegInf = NegInf"

definition op_rate :: "(string, go_float) gomap \<Rightarrow> string \<Rightarrow> go_float" where
  "op_rate r op =
     (let rate = (\<lambda>result. gm_get (Fin 0) r (op @ result))
      in float_add (float_add (float_add (rate ''.ok'') (rate ''.notfound'')) (rate ''.error'')) (rate ''.failed''))"

definition total_rate :: "(string, go_float) gomap \<Rightarrow> go_float" where
  "total_rate r = float_add (float_add (op_rate r ''set'') (op_rate r ''get'')) (op_rate r ''delete'')"

text \<open>A tick of the balancer's \<open>logStats\<close>: the total of the line it prints, if it prints one.\<close>

definition lb_logStats :: "go_time \<Rightarrow> LoadBalancer \<Rightarrow> RateTracker \<Rightarrow> go_float option \<times> RateTracker" where
  "lb_logStats now lb rates =
     (let (r, rates) = RateTracker_Update now (lb_ops lb) rates; total = total_rate r
      in (if total = Fin 0 then None else Some total, rates))"

text \<open>A tick of the node's: partitions, the ones it leads, and their keys.\<close>

definition node_logStats :: "go_time \<Rightarrow> NodeServer \<Rightarrow> RateTracker \<Rightarrow> (int \<times> int \<times> int \<times> (string, go_float) gomap) \<times> RateTracker" where
  "node_logStats now n rates =
     (let st = node_status n;
          (leaders, keys) = foldl (\<lambda>(leaders, keys) p. if ps_Role p = NodeRoleLeader then (leaders + 1, keys + ps_Keys p) else (leaders, keys))
             (0, 0) (ns_Partitions st);
          (r, rates) = RateTracker_Update now (ns_Ops st) rates
      in ((int (length (ns_Partitions st)), leaders, keys, r), rates))"

section \<open>Bodies\<close>

lemma dec_str_utf8: "dec_str (enc_str s) = Some (to_utf8 s)"
  by (simp add: dec_str_def enc_str_def to_utf8_id valid_to_utf8)

lemma dec_bodies:
  "dec_set (client_set_body k v) = Some (to_utf8 k, to_utf8 v)" "dec_key (client_key_body k) = Some (to_utf8 k)"
  "dec_set (lb_set_body k v) = Some (to_utf8 k, to_utf8 v)" "dec_key (lb_key_body k) = Some (to_utf8 k)"
  by (simp_all add: dec_set_def dec_key_def client_set_body_def client_key_body_def lb_set_body_def lb_key_body_def
      enc_map_def jmembers_def jfield_def struct_fields_def map_filter_simps to_utf8_ascii dec_str_utf8)

section \<open>What is sent\<close>

text \<open>The requests that balancers forward, of a follower's loop, of a pull, of the resharding driver, and of the client.\<close>

definition forwarded_set :: "(json \<Rightarrow> string) \<Rightarrow> PartitionRef \<Rightarrow> key \<Rightarrow> string \<Rightarrow> http_call" where
  "forwarded_set render ref k v =
     (let body = render (lb_set_body k v) in
      \<lparr>hc_method = ''POST'', hc_path = ''/set'', hc_query = forward_query ref k (Some body), hc_body = body\<rparr>)"

definition forwarded_delete :: "(json \<Rightarrow> string) \<Rightarrow> PartitionRef \<Rightarrow> key \<Rightarrow> http_call" where
  "forwarded_delete render ref k =
     (let body = render (lb_key_body k) in
      \<lparr>hc_method = ''DELETE'', hc_path = ''/delete'', hc_query = forward_query ref k (Some body), hc_body = body\<rparr>)"

definition forwarded_get :: "PartitionRef \<Rightarrow> key \<Rightarrow> http_call" where
  "forwarded_get ref k = \<lparr>hc_method = ''GET'', hc_path = ''/get'', hc_query = forward_query ref k None, hc_body = ''''\<rparr>"

definition snapshot_call :: "PartitionRef \<Rightarrow> int \<Rightarrow> http_call" where
  "snapshot_call ref e = \<lparr>hc_method = ''GET'', hc_path = ''/snapshot'', hc_query = snapshot_query ref e, hc_body = ''''\<rparr>"

definition replicate_call :: "PartitionRef \<Rightarrow> int \<Rightarrow> int \<Rightarrow> int \<Rightarrow> http_call" where
  "replicate_call ref epoch dataEpoch after =
     \<lparr>hc_method = ''GET'', hc_path = ''/replicate'', hc_query = replicate_url_query ref epoch dataEpoch after replicationWait, hc_body = ''''\<rparr>"

definition export_call :: "MigrationRequest \<Rightarrow> MigrationSource \<Rightarrow> bool \<Rightarrow> int \<Rightarrow> http_call" where
  "export_call req src frz after =
     \<lparr>hc_method = ''GET'', hc_path = ''/migrate/export'', hc_query = export_query req src frz after, hc_body = ''''\<rparr>"

definition pull_call :: "(json \<Rightarrow> string) \<Rightarrow> MigrationRequest \<Rightarrow> http_call" where
  "pull_call render req =
     \<lparr>hc_method = ''POST'', hc_path = ''/migrate/pull'', hc_query = '''', hc_body = render (enc_MigrationRequest req)\<rparr>"

definition client_set_call :: "(json \<Rightarrow> string) \<Rightarrow> key \<Rightarrow> string \<Rightarrow> http_call" where
  "client_set_call render k v =
     \<lparr>hc_method = ''POST'', hc_path = ''/set'', hc_query = '''', hc_body = render (client_set_body k v)\<rparr>"

definition client_delete_call :: "(json \<Rightarrow> string) \<Rightarrow> key \<Rightarrow> http_call" where
  "client_delete_call render k =
     \<lparr>hc_method = ''DELETE'', hc_path = ''/delete'', hc_query = '''', hc_body = render (client_key_body k)\<rparr>"

definition client_get_call :: "key \<Rightarrow> http_call" where
  "client_get_call k = \<lparr>hc_method = ''GET'', hc_path = ''/get'', hc_query = ''key='' @ QueryEscape k, hc_body = ''''\<rparr>"

lemmas call_defs = forwarded_set_def forwarded_delete_def forwarded_get_def snapshot_call_def replicate_call_def export_call_def
  pull_call_def client_set_call_def client_delete_call_def client_get_call_def

section \<open>Every request reaches its handler\<close>

lemma parsed_get: "ParseQuery (''key='' @ QueryEscape k) = [(''key'', k)]"
proof -
  have "ParseQuery (join_params [(''key'', QueryEscape k)]) = decoded [(''key'', QueryEscape k)]"
    by (rule ParseQuery_join) (simp_all add: sendable_def plain_escape QueryUnescape_QueryEscape, simp add: unreserved_def)
  then show ?thesis by (simp add: decoded_def QueryUnescape_QueryEscape)
qed

lemma forwarded_query:
  assumes "in_int64 (ref_Generation ref)" and "in_int64 (ref_ID ref)"
  shows "refFromQuery (ParseQuery (forward_query ref k payload)) = Some ref"
    and "query_Get (ParseQuery (forward_query ref k None)) ''key'' = k"
  using assms by (simp_all add: parsed_forward refFromQuery_def query_Get_def ok_int_def ParseInt_show)

text \<open>
  C20. Every request between the parts of the program reaches its handler as it was meant. From path, query
  and body, a node runs the handler of the request that a balancer forwarded, that a follower's loop or a
  migration pull sent to it, or that the controller sent for a resharding, with exactly the
  partition, positions, keys and values meant; and a balancer runs the handler of the client's request.
  A write carries its key and value in JSON, which replaces what is not UTF-8, and a read carries
  the bytes of its key in the URL: they name the same key exactly when the key is UTF-8.
\<close>

theorem requests_served:
  assumes "\<And>j. parse (render j) = Some j" and "in_int64 (ref_Generation ref)" and "in_int64 (ref_ID ref)"
    and "in_int64 epoch" and "in_int64 dataEpoch" and "in_int64 after" and "request_fits req" and "source_fits src"
    and "serve = node_serve parse net now woken" and "route = lb_serve parse render env layout rates"
  shows "serve (forwarded_set render ref k v) n = apfst Handled (handleSet now ''POST'' (Some ref) (Some (to_utf8 k, to_utf8 v)) n) \<and>
    serve (forwarded_delete render ref k) n = apfst Handled (handleDelete now ''DELETE'' (Some ref) (Some (to_utf8 k)) n) \<and>
    serve (forwarded_get ref k) n = apfst Handled (handleGet ''GET'' (Some ref) k n) \<and>
    serve (snapshot_call ref epoch) n = apfst Handled (handleSnapshot now (Some ref) (show_int epoch) n) \<and>
    serve (replicate_call ref epoch dataEpoch after) n =
      (Handled (handleReplicate \<lparr>rq_ref = Some ref, rq_epoch = Some epoch, rq_dataEpoch = Some dataEpoch, rq_after = Some after,
         rq_wait = replicationWait\<rparr> woken n), n) \<and>
    serve (export_call req src frz after) n =
      apfst Handled (handleMigrateExport now (Some (PartitionRef (mr_SourceGeneration req) (ms_PartitionID src)))
        (Some (mr_TargetCount req)) (Some (ref_ID (mr_Target req))) after frz n) \<and>
    serve (pull_call render req) n = apfst Handled (handleMigratePull net now ''POST'' (Some req) n) \<and>
    route (client_set_call render k v) lb =
      apfst Routed (lb_handleSet env ''POST'' (Some (to_utf8 k, to_utf8 v)) (hc_body (forwarded_set render ref (to_utf8 k) (to_utf8 v))) lb) \<and>
    route (client_delete_call render k) lb =
      apfst Routed (lb_handleDelete env ''DELETE'' (Some (to_utf8 k)) (hc_body (forwarded_delete render ref (to_utf8 k))) lb) \<and>
    route (client_get_call k) lb = apfst Routed (lb_handleGet env ''GET'' k lb) \<and>
    (to_utf8 k = k \<longleftrightarrow> valid_utf8 k)"
proof -
  note q = forwarded_query [OF assms(2,3)]
  have fits: "in_int64 (mr_SourceGeneration req)" "in_int64 (mr_TargetCount req)" "in_int64 (ref_ID (mr_Target req))"
    "in_int64 (ms_PartitionID src)"
    using assms(7,8) by (simp_all add: request_fits_def source_fits_def)
  note arrive = requests_arrive [OF assms(2,3,4,5,6) fits(1,4,2,3), of frz]
  have ns: "serve = node_serve parse net now woken" and lr: "route = lb_serve parse render env layout rates"
    by (rule assms)+
  have "serve (forwarded_set render ref k v) n = apfst Handled (handleSet now ''POST'' (Some ref) (Some (to_utf8 k, to_utf8 v)) n)"
    "serve (forwarded_delete render ref k) n = apfst Handled (handleDelete now ''DELETE'' (Some ref) (Some (to_utf8 k)) n)"
    "serve (forwarded_get ref k) n = apfst Handled (handleGet ''GET'' (Some ref) k n)"
    by (simp_all add: ns node_serve_def call_defs Let_def assms(1) dec_bodies q)
  moreover have "serve (snapshot_call ref epoch) n = apfst Handled (handleSnapshot now (Some ref) (show_int epoch) n)"
    "serve (replicate_call ref epoch dataEpoch after) n =
      (Handled (handleReplicate \<lparr>rq_ref = Some ref, rq_epoch = Some epoch, rq_dataEpoch = Some dataEpoch, rq_after = Some after,
         rq_wait = replicationWait\<rparr> woken n), n)"
    "serve (export_call req src frz after) n =
      apfst Handled (handleMigrateExport now (Some (PartitionRef (mr_SourceGeneration req) (ms_PartitionID src)))
        (Some (mr_TargetCount req)) (Some (ref_ID (mr_Target req))) after frz n)"
    using arrive by (simp_all add: ns node_serve_def call_defs Let_def)
  moreover have "serve (pull_call render req) n = apfst Handled (handleMigratePull net now ''POST'' (Some req) n)"
    using request_codec.roundtrip [OF assms(7)] by (simp add: ns node_serve_def call_defs Let_def assms(1))
  moreover have "route (client_set_call render k v) lb =
      apfst Routed (lb_handleSet env ''POST'' (Some (to_utf8 k, to_utf8 v)) (hc_body (forwarded_set render ref (to_utf8 k) (to_utf8 v))) lb)"
    "route (client_delete_call render k) lb =
      apfst Routed (lb_handleDelete env ''DELETE'' (Some (to_utf8 k)) (hc_body (forwarded_delete render ref (to_utf8 k))) lb)"
    "route (client_get_call k) lb = apfst Routed (lb_handleGet env ''GET'' k lb)"
    by (simp_all add: lr lb_serve_def call_defs Let_def assms(1) dec_bodies parsed_get [simplified] query_Get_def)
  ultimately show ?thesis using to_utf8_eq_iff by blast
qed

text \<open>A key of one byte that is not UTF-8 is written under another key than it is read.\<close>

lemma binary_key_renamed: "to_utf8 [char_of (255 :: nat)] = replacement" "to_utf8 [char_of (255 :: nat)] \<noteq> [char_of (255 :: nat)]"
  by (simp_all add: to_utf8.simps rune_len.simps rune_tails_def replacement_def of_char_of)

text \<open>Documents as texts, for the example: the number of the document.\<close>

instance json :: countable
  by countable_datatype

definition number_text :: "json \<Rightarrow> string" where
  "number_text j = show_nat (to_nat j)"

definition text_number :: "string \<Rightarrow> json option" where
  "text_number s = map_option from_nat (parse_unsigned s)"

lemma text_number_text: "text_number (number_text j) = Some j"
  by (simp add: text_number_def number_text_def parse_unsigned_def parse_show_nat)

theorem requests_served_witness:
  "node_serve text_number (\<lambda>_ _ _. Inl ''down'') 5 None (forwarded_set number_text (PartitionRef 1 0) ''k'' ''v'') example_server =
     apfst Handled (handleSet 5 ''POST'' (Some (PartitionRef 1 0)) (Some (''k'', ''v'')) example_server)"
proof -
  let ?req = "\<lparr>mr_Target = PartitionRef 2 0, mr_TargetEpoch = 1, mr_TargetCount = 4, mr_SourceGeneration = 1, mr_Sources = []\<rparr>"
  let ?src = "\<lparr>ms_PartitionID = 0, ms_Epoch = 1, ms_Address = ''a''\<rparr>"
  have fits: "in_int64 (ref_Generation (PartitionRef 1 0))" "in_int64 (ref_ID (PartitionRef 1 0))" "in_int64 1" "in_int64 0"
    "request_fits ?req" "source_fits ?src"
    by (simp_all add: in_int64_def request_fits_def source_fits_def valid_ascii)
  have "to_utf8 ''k'' = ''k''" "to_utf8 ''v'' = ''v''" by (simp_all add: to_utf8_ascii)
  with requests_served [OF text_number_text fits(1,2,3,3,4,5,6) refl refl, where k = "''k''" and v = "''v''" and now = 5
      and net = "\<lambda>_ _ _. Inl ''down''" and woken = None and n = example_server]
  show ?thesis by simp
qed

section \<open>Configuration requests and silence\<close>

text \<open>
  A configuration that asks only for a new partition count keeps the replication factor, and one that asks for 0
  partitions is not taken for one that leaves the count alone.
\<close>

lemma config_request_fields:
  "in_int64 n \<Longrightarrow> dec_configRequest (JObj [(''partition_count'', JNum n)]) = Some (Some n, None)"
  "dec_configRequest (JObj []) = Some (None, None)"
  by (simp_all add: dec_configRequest_def jmembers_def jfield_def dec_ptr_def dec_int_def)

lemma config_request_zero: "checked_config lw (Some 0, r) cfg = Inl 400"
  by (simp add: checked_config_def)

text \<open>The balancer is silent exactly when no operation finished since the last tick.\<close>

lemma lb_logStats_silent:
  assumes "\<And>k x. map_of (fst (RateTracker_Update now (lb_ops lb) rates)) k = Some x \<Longrightarrow> \<exists>q\<ge>0. x = Fin q"
  shows "fst (lb_logStats now lb rates) = None \<longleftrightarrow>
    (\<forall>op \<in> {''set'', ''get'', ''delete''}. \<forall>result \<in> {''.ok'', ''.notfound'', ''.error'', ''.failed''}.
       gm_get (Fin 0) (fst (RateTracker_Update now (lb_ops lb) rates)) (op @ result) = Fin 0)"
proof -
  let ?r = "fst (RateTracker_Update now (lb_ops lb) rates)"
  have "\<exists>q\<ge>0. gm_get (Fin 0) ?r k = Fin q" for k
    using assms [of k] by (cases "map_of ?r k") (auto simp: gm_get_def)
  then obtain f where f: "0 \<le> f k" "gm_get (Fin 0) ?r k = Fin (f k)" for k by metis
  have add: "float_add (Fin a) (Fin b) = Fin (a + b)" for a b by simp
  have op: "op_rate ?r op = Fin (f (op @ ''.ok'') + f (op @ ''.notfound'') + f (op @ ''.error'') + f (op @ ''.failed''))" for op
    by (simp add: op_rate_def f(2))
  have nn: "a + b = 0 \<longleftrightarrow> a = 0 \<and> b = 0" if "0 \<le> a" "0 \<le> b" for a b :: rat using that by linarith
  have "fst (lb_logStats now lb rates) = None \<longleftrightarrow> total_rate ?r = Fin 0"
    by (simp add: lb_logStats_def case_prod_beta Let_def)
  then show ?thesis
    by (simp add: total_rate_def op f nn)
qed

end
