(* ===== verification/ClientTool.thy ===== *)
theory ClientTool
  imports Balancer NodeServe
begin

text \<open>
  \<open>src/cmd/client/main.go\<close>: the commands of the client, with the pool of workers that \<open>fill\<close> and
  \<open>verify\<close> share, and the recorder of the benchmark. The operations of the client library are
  parameters here: relations between the state of the service before and after, and what they return.
\<close>

section \<open>A pool of workers\<close>

text \<open>
  \<open>parallel\<close>: every worker draws the next index from one atomic counter and calls the function, until
  the indices run out. \<open>po_calls\<close> are the indices in the order in which their calls completed.
\<close>

datatype worker =
    Drawing
  | Calling int
  | Returned

record 's pool =
  po_next :: int
  po_workers :: "worker list"
  po_calls :: "int list"
  po_state :: 's

definition pool_start :: "int \<Rightarrow> 's \<Rightarrow> 's pool" where
  "pool_start workers s =
     \<lparr>po_next = 0, po_workers = replicate (nat workers) Drawing, po_calls = [], po_state = s\<rparr>"

inductive parallel_step :: "int \<Rightarrow> (int \<Rightarrow> 's \<Rightarrow> 's \<Rightarrow> bool) \<Rightarrow> 's pool \<Rightarrow> 's pool \<Rightarrow> bool" for n fn where
  draw: "w < length (po_workers p) \<Longrightarrow> po_workers p ! w = Drawing \<Longrightarrow> i = po_next p \<Longrightarrow>
    parallel_step n fn p (p\<lparr>po_next := i + 1,
      po_workers := (po_workers p)[w := (if n \<le> i then Returned else Calling i)]\<rparr>)"
| call: "w < length (po_workers p) \<Longrightarrow> po_workers p ! w = Calling i \<Longrightarrow> fn i (po_state p) s \<Longrightarrow>
    parallel_step n fn p (p\<lparr>po_workers := (po_workers p)[w := Drawing], po_calls := po_calls p @ [i], po_state := s\<rparr>)"

text \<open>\<open>wg.Wait\<close> returns.\<close>

definition finished_pool :: "'s pool \<Rightarrow> bool" where
  "finished_pool p \<longleftrightarrow> (\<forall>w \<in> set (po_workers p). w = Returned)"

section \<open>Commands\<close>

definition tool_key :: "string \<Rightarrow> int \<Rightarrow> string" where
  "tool_key pre i = pre @ ''-'' @ show_int i"

definition valueFor :: "string \<Rightarrow> int \<Rightarrow> string \<Rightarrow> string" where
  "valueFor pre i tag = pre @ ''-value-'' @ show_int i @ ''-'' @ tag"

type_synonym 's set_call = "key \<Rightarrow> string \<Rightarrow> 's \<Rightarrow> client_error option \<Rightarrow> 's \<Rightarrow> bool"
type_synonym 's get_call = "key \<Rightarrow> 's \<Rightarrow> client_error + string \<Rightarrow> 's \<Rightarrow> bool"

record 's fill_state =
  fl_service :: 's
  fl_failed :: int

definition fill_one :: "'s set_call \<Rightarrow> string \<Rightarrow> string \<Rightarrow> int \<Rightarrow> 's fill_state \<Rightarrow> 's fill_state \<Rightarrow> bool" where
  "fill_one sets pre tag i st st' \<longleftrightarrow> (\<exists>err s. sets (tool_key pre i) (valueFor pre i tag) (fl_service st) err s \<and>
     st' = \<lparr>fl_service = s, fl_failed = fl_failed st + (if err \<noteq> None then 1 else 0)\<rparr>)"

datatype tool_error =
    ExpectedArguments int
  | WritesFailed int
  | VerificationFailed
  | ToolClient client_error

text \<open>What \<open>fill\<close> prints (the number of keys it wrote) and returns.\<close>

definition fill_result :: "int \<Rightarrow> 's fill_state \<Rightarrow> int \<times> tool_error option" where
  "fill_result n st = (n - fl_failed st, if fl_failed st > 0 then Some (WritesFailed (fl_failed st)) else None)"

record 's verify_state =
  vs_service :: 's
  vs_ok :: int
  vs_missing :: int
  vs_wrong :: int
  vs_failed :: int

definition verify_count :: "string \<Rightarrow> (client_error + string) \<Rightarrow> 's verify_state \<Rightarrow> 's verify_state" where
  "verify_count expected r st =
     (case r of
        Inl e \<Rightarrow> if e = ErrNotFound then st\<lparr>vs_missing := vs_missing st + 1\<rparr> else st\<lparr>vs_failed := vs_failed st + 1\<rparr>
      | Inr v \<Rightarrow> if v \<noteq> expected then st\<lparr>vs_wrong := vs_wrong st + 1\<rparr> else st\<lparr>vs_ok := vs_ok st + 1\<rparr>)"

definition verify_one :: "'s get_call \<Rightarrow> string \<Rightarrow> string \<Rightarrow> int \<Rightarrow> 's verify_state \<Rightarrow> 's verify_state \<Rightarrow> bool" where
  "verify_one gets pre tag i st st' \<longleftrightarrow> (\<exists>r s. gets (tool_key pre i) (vs_service st) r s \<and>
     st' = verify_count (valueFor pre i tag) r (st\<lparr>vs_service := s\<rparr>))"

definition verify_start :: "'s \<Rightarrow> 's verify_state" where
  "verify_start s = \<lparr>vs_service = s, vs_ok = 0, vs_missing = 0, vs_wrong = 0, vs_failed = 0\<rparr>"

definition verify_result :: "int \<Rightarrow> 's verify_state \<Rightarrow> tool_error option" where
  "verify_result n st = (if vs_ok st \<noteq> n then Some VerificationFailed else None)"

definition requireArgs :: "string list \<Rightarrow> int \<Rightarrow> (tool_error + 'a) \<Rightarrow> tool_error + 'a" where
  "requireArgs args n run = (if int (length args) \<noteq> n then Inl (ExpectedArguments n) else run)"

text \<open>
  The client library and the commands with flags of their own, as \<open>main\<close> calls them; what it prints
  and the code it exits with (2 after the usage text).
\<close>

record tool_calls =
  tc_Set :: "key \<Rightarrow> string \<Rightarrow> client_error option"
  tc_Get :: "key \<Rightarrow> client_error + string"
  tc_Delete :: "key \<Rightarrow> client_error option"
  tc_bench :: "string list \<Rightarrow> tool_error option"
  tc_fill :: "string list \<Rightarrow> tool_error option"
  tc_verify :: "string list \<Rightarrow> tool_error option"

definition no_output :: "tool_error option \<Rightarrow> tool_error + string list" where
  "no_output err = (case err of None \<Rightarrow> Inr [] | Some e \<Rightarrow> Inl e)"

definition said_ok :: "client_error option \<Rightarrow> tool_error + string list" where
  "said_ok err = (case err of None \<Rightarrow> Inr [''OK''] | Some e \<Rightarrow> Inl (ToolClient e))"

definition dispatch :: "tool_calls \<Rightarrow> string \<Rightarrow> string list \<Rightarrow> (tool_error + string list) option" where
  "dispatch tc cmd args =
     (if cmd = ''set'' then Some (requireArgs args 2 (said_ok (tc_Set tc (args ! 0) (args ! 1))))
      else if cmd = ''get''
      then Some (requireArgs args 1 (case tc_Get tc (args ! 0) of Inl e \<Rightarrow> Inl (ToolClient e) | Inr v \<Rightarrow> Inr [v]))
      else if cmd = ''del'' \<or> cmd = ''delete'' then Some (requireArgs args 1 (said_ok (tc_Delete tc (args ! 0))))
      else if cmd = ''bench'' then Some (no_output (tc_bench tc args))
      else if cmd = ''fill'' then Some (no_output (tc_fill tc args))
      else if cmd = ''verify'' then Some (no_output (tc_verify tc args))
      else None)"

definition client_main :: "tool_calls \<Rightarrow> string list \<Rightarrow> string list \<times> int" where
  "client_main tc arguments =
     (case arguments of
        [] \<Rightarrow> ([], 2)
      | cmd # args \<Rightarrow>
          (case dispatch tc cmd args of
             None \<Rightarrow> ([], 2)
           | Some (Inl err) \<Rightarrow> ([], 1)
           | Some (Inr out) \<Rightarrow> (out, 0)))"

section \<open>The recorder of the benchmark\<close>

record recorder =
  rec_interval :: "int list"
  rec_all :: "int list"
  rec_okI :: int
  rec_errI :: int
  rec_ok :: int
  rec_errs :: int
  rec_notFound :: int
  rec_lastErr :: "client_error option"

definition rec_start :: recorder where
  "rec_start = \<lparr>rec_interval = [], rec_all = [], rec_okI = 0, rec_errI = 0, rec_ok = 0, rec_errs = 0,
     rec_notFound = 0, rec_lastErr = None\<rparr>"

definition rec_add :: "int \<Rightarrow> client_error option \<Rightarrow> recorder \<Rightarrow> recorder" where
  "rec_add d err r =
     (if err \<noteq> None \<and> err \<noteq> Some ErrNotFound
      then r\<lparr>rec_errI := rec_errI r + 1, rec_errs := rec_errs r + 1, rec_lastErr := err\<rparr>
      else
        let r = (if err = Some ErrNotFound then r\<lparr>rec_notFound := rec_notFound r + 1\<rparr> else r)
        in r\<lparr>rec_okI := rec_okI r + 1, rec_ok := rec_ok r + 1, rec_interval := rec_interval r @ [d],
             rec_all := rec_all r @ [d]\<rparr>)"

definition rec_flush :: "recorder \<Rightarrow> (int \<times> int \<times> int list \<times> client_error option) \<times> recorder" where
  "rec_flush r = ((rec_okI r, rec_errI r, rec_interval r, rec_lastErr r),
     r\<lparr>rec_okI := 0, rec_errI := 0, rec_interval := [], rec_lastErr := None\<rparr>)"

section \<open>Every index once\<close>

definition calling :: "worker list \<Rightarrow> int list" where
  "calling ws = concat (map (\<lambda>w. case w of Calling i \<Rightarrow> [i] | _ \<Rightarrow> []) ws)"

lemma mset_calling_update:
  assumes "w < length ws"
  shows "mset (calling (ws[w := x])) + mset (calling [ws ! w]) = mset (calling ws) + mset (calling [x])"
  using assms
proof (induction ws arbitrary: w)
  case (Cons y ws)
  then show ?case by (cases w) (auto simp: calling_def)
qed simp

text \<open>The indices drawn so far are the ones called or being called, each once.\<close>

definition pool_inv :: "int \<Rightarrow> 's pool \<Rightarrow> bool" where
  "pool_inv n p \<longleftrightarrow> 0 \<le> po_next p \<and>
     mset (po_calls p) + mset (calling (po_workers p)) = mset (map int [0..<nat (min n (po_next p))]) \<and>
     (Returned \<in> set (po_workers p) \<longrightarrow> n \<le> po_next p)"

lemma drawn_next:
  assumes "0 \<le> i"
  shows "mset (map int [0..<nat (min n (i + 1))]) = mset (map int [0..<nat (min n i)]) + (if n \<le> i then {#} else {#i#})"
proof (cases "n \<le> i")
  case False
  with assms have "nat (min n (i + 1)) = Suc (nat i)" "nat (min n i) = nat i" by (auto simp: min_def)
  with assms False show ?thesis by simp
qed (simp add: min_def)

lemma pool_inv_step:
  assumes "parallel_step n fn p p'" and "pool_inv n p"
  shows "pool_inv n p'"
  using assms(1)
proof cases
  case (draw w i)
  let ?x = "if n \<le> i then Returned else Calling i"
  have "mset (calling ((po_workers p)[w := ?x])) = mset (calling (po_workers p)) + (if n \<le> i then {#} else {#i#})"
    using mset_calling_update [OF draw(2), of ?x] draw(3) by (simp add: calling_def)
  with assms(2) draw have "mset (po_calls p') + mset (calling (po_workers p')) = mset (map int [0..<nat (min n (po_next p'))])"
    using drawn_next [of "po_next p" n] by (simp add: pool_inv_def)
  moreover have "n \<le> po_next p'" if "Returned \<in> set (po_workers p')"
    using that assms(2) draw set_update_subset_insert [of "po_workers p" w ?x] by (auto simp: pool_inv_def split: if_splits)
  ultimately show ?thesis using assms(2) draw by (simp add: pool_inv_def)
next
  case (call w i s)
  have "mset (calling (po_workers p)) = add_mset i (mset (calling ((po_workers p)[w := Drawing])))"
    using mset_calling_update [OF call(2), of Drawing] call(3) by (simp add: calling_def)
  moreover have "Returned \<in> set (po_workers p)" if "Returned \<in> set ((po_workers p)[w := Drawing])"
    using that set_update_subset_insert [of "po_workers p" w Drawing] by auto
  ultimately show ?thesis using assms(2) call(1) by (simp add: pool_inv_def)
qed

lemma pool_inv_steps: "(parallel_step n fn)\<^sup>*\<^sup>* p p' \<Longrightarrow> pool_inv n p \<Longrightarrow> pool_inv n p'"
  by (induction rule: rtranclp_induct) (auto intro: pool_inv_step)

lemma pool_inv_start: "pool_inv n (pool_start workers s)"
  by (auto simp: pool_inv_def pool_start_def calling_def min_def)

lemma finished_calls:
  assumes "pool_inv n p" and "finished_pool p" and "po_workers p \<noteq> []"
  shows "mset (po_calls p) = mset (map int [0..<nat n])"
proof -
  have "calling (po_workers p) = []" using assms(2) by (auto simp: finished_pool_def calling_def)
  moreover have "Returned \<in> set (po_workers p)" using assms(2,3) by (auto simp: finished_pool_def neq_Nil_conv)
  ultimately show ?thesis using assms(1) by (simp add: pool_inv_def min_absorb1)
qed

text \<open>Work left: two steps for every index not drawn yet, and what each worker has still to do.\<close>

fun worker_rank :: "worker \<Rightarrow> nat" where
  "worker_rank Drawing = 1"
| "worker_rank (Calling i) = 2"
| "worker_rank Returned = 0"

definition pool_rank :: "int \<Rightarrow> 's pool \<Rightarrow> nat" where
  "pool_rank n p = 2 * nat (n - po_next p) + sum_list (map worker_rank (po_workers p))"

lemma rank_update:
  "w < length ws \<Longrightarrow> sum_list (map worker_rank (ws[w := x])) + worker_rank (ws ! w) = sum_list (map worker_rank ws) + worker_rank x"
proof (induction ws arbitrary: w)
  case (Cons y ws)
  then show ?case by (cases w) auto
qed simp

lemma pool_rank_step:
  assumes "parallel_step n fn p p'"
  shows "pool_rank n p' < pool_rank n p \<and> length (po_workers p') = length (po_workers p)"
  using assms
proof cases
  case (draw w i)
  with rank_update [OF draw(2), of "if n \<le> i then Returned else Calling i"] show ?thesis
    by (auto simp: pool_rank_def split: if_splits)
next
  case (call w i s)
  with rank_update [OF call(2), of Drawing] show ?thesis by (auto simp: pool_rank_def)
qed

lemma pool_run_bound:
  assumes "(parallel_step n fn ^^ k) p p'"
  shows "k + pool_rank n p' \<le> pool_rank n p \<and> length (po_workers p') = length (po_workers p)"
  using assms
proof (induction k arbitrary: p')
  case (Suc k)
  from Suc.prems obtain q where q: "(parallel_step n fn ^^ k) p q" "parallel_step n fn q p'" by auto
  with Suc.IH [OF q(1)] pool_rank_step [OF q(2)] show ?case by simp
qed simp

lemma pool_progress:
  assumes "\<And>i s. \<exists>s'. fn i s s'"
  shows "(\<nexists>p'. parallel_step n fn p p') \<longleftrightarrow> finished_pool p"
proof
  assume "finished_pool p"
  then have "po_workers p ! w = Returned" if "w < length (po_workers p)" for w using that by (simp add: finished_pool_def)
  then show "\<nexists>p'. parallel_step n fn p p'" by (auto elim!: parallel_step.cases)
next
  assume stuck: "\<nexists>p'. parallel_step n fn p p'"
  have "po_workers p ! w = Returned" if "w < length (po_workers p)" for w
  proof (cases "po_workers p ! w")
    case Drawing
    with that stuck parallel_step.draw [of w p "po_next p" n fn] show ?thesis by blast
  next
    case (Calling i)
    from assms obtain s where "fn i (po_state p) s" by blast
    with that Calling stuck parallel_step.call [of w p i fn s n] show ?thesis by blast
  qed
  then show "finished_pool p" by (auto simp: finished_pool_def in_set_conv_nth)
qed

text \<open>
  C37. \<open>parallel\<close> with at least one worker, however the workers interleave: it ends after at most
  \<open>2 n + workers\<close> steps, it cannot get stuck before all workers have returned, and when they have, the
  function was called exactly once for every index from 0 to \<open>n - 1\<close>.
\<close>

theorem parallel_runs_each_once:
  assumes "0 < workers" and "\<And>i s. \<exists>s'. fn i s s'" and "(parallel_step n fn ^^ k) (pool_start workers s0) p"
  shows "int k \<le> 2 * max n 0 + workers \<and> ((\<nexists>p'. parallel_step n fn p p') \<longleftrightarrow> finished_pool p) \<and>
    (finished_pool p \<longrightarrow> mset (po_calls p) = mset (map int [0..<nat n]))"
proof -
  note b = pool_run_bound [OF assms(3)]
  have "pool_rank n (pool_start workers s0) = 2 * nat n + nat workers"
    by (simp add: pool_rank_def pool_start_def sum_list_replicate)
  with b assms(1) have "int k \<le> 2 * max n 0 + workers" by linarith
  moreover have "po_workers p \<noteq> []" using b assms(1) by (auto simp: pool_start_def)
  moreover have "pool_inv n p"
    using pool_inv_steps [OF relpowp_imp_rtranclp [OF assms(3)] pool_inv_start] .
  ultimately show ?thesis using pool_progress [of fn n p] assms(2) finished_calls by blast
qed

section \<open>Filling and verifying\<close>

lemma tool_key_inj: "tool_key pre i = tool_key pre j \<Longrightarrow> i = j"
  by (simp add: tool_key_def show_int_inj)

text \<open>
  What the two commands rely on: the service keeps a map from keys to values; a write that succeeded is
  in it, one that failed may be, and a read returns what the map says or an error.
\<close>

definition service_ok :: "('s \<Rightarrow> key \<rightharpoonup> string) \<Rightarrow> 's set_call \<Rightarrow> 's get_call \<Rightarrow> bool" where
  "service_ok view sets gets \<longleftrightarrow>
     (\<forall>k v s err s'. sets k v s err s' \<longrightarrow> view s' = (view s)(k \<mapsto> v) \<or> err \<noteq> None \<and> view s' = view s) \<and>
     (\<forall>k s r s'. gets k s r s' \<longrightarrow> view s' = view s \<and> (r = Inl ErrNotFound \<longrightarrow> view s k = None) \<and>
        (\<forall>v. r = Inr v \<longrightarrow> view s k = Some v))"

definition filled :: "(key \<rightharpoonup> string) \<Rightarrow> string \<Rightarrow> string \<Rightarrow> int \<Rightarrow> bool" where
  "filled m pre tag i \<longleftrightarrow> m (tool_key pre i) = Some (valueFor pre i tag)"

lemma fill_steps:
  assumes "(parallel_step n (fill_one sets pre tag))\<^sup>*\<^sup>* (pool_start workers \<lparr>fl_service = s0, fl_failed = 0\<rparr>) p"
    and ok: "service_ok view sets gets"
  shows "0 \<le> fl_failed (po_state p) \<and>
    (fl_failed (po_state p) = 0 \<longrightarrow> (\<forall>i \<in> set (po_calls p). filled (view (fl_service (po_state p))) pre tag i))"
  using assms(1)
proof (induction rule: rtranclp_induct)
  case (step q r)
  from step(2) show ?case
  proof cases
    case (draw w i)
    with step.IH show ?thesis by simp
  next
    case (call w i st)
    then obtain err s where s: "sets (tool_key pre i) (valueFor pre i tag) (fl_service (po_state q)) err s"
      and st: "st = \<lparr>fl_service = s, fl_failed = fl_failed (po_state q) + (if err \<noteq> None then 1 else 0)\<rparr>"
      by (auto simp: fill_one_def)
    have "filled (view s) pre tag j" if "err = None" "j = i \<or> filled (view (fl_service (po_state q))) pre tag j" for j
      using that s ok tool_key_inj [of pre j i] by (fastforce simp: service_ok_def filled_def)
    with step.IH call(1) st show ?thesis by auto
  qed
qed (simp add: pool_start_def)

lemma verify_steps:
  assumes "(parallel_step n (verify_one gets pre tag))\<^sup>*\<^sup>* (pool_start workers (verify_start s0)) q"
    and ok: "service_ok view sets gets"
  shows "view (vs_service (po_state q)) = view s0 \<and>
    (let st = po_state q in vs_ok st + vs_missing st + vs_wrong st + vs_failed st = int (length (po_calls q)) \<and>
       0 \<le> vs_ok st \<and> 0 \<le> vs_missing st \<and> 0 \<le> vs_wrong st \<and> 0 \<le> vs_failed st \<and>
       (vs_ok st = int (length (po_calls q)) \<longrightarrow> (\<forall>i \<in> set (po_calls q). filled (view s0) pre tag i)) \<and>
       ((\<forall>i \<in> set (po_calls q). filled (view s0) pre tag i) \<longrightarrow> vs_missing st = 0 \<and> vs_wrong st = 0))"
  using assms(1)
proof (induction rule: rtranclp_induct)
  case (step q r)
  from step(2) show ?case
  proof cases
    case (draw w i)
    with step.IH show ?thesis by simp
  next
    case (call w i st)
    then obtain res s where s: "gets (tool_key pre i) (vs_service (po_state q)) res s"
      and st: "st = verify_count (valueFor pre i tag) res ((po_state q)\<lparr>vs_service := s\<rparr>)"
      by (auto simp: verify_one_def)
    with ok step.IH have g: "view s = view s0" "res = Inl ErrNotFound \<longrightarrow> view s0 (tool_key pre i) = None"
      "\<And>v. res = Inr v \<Longrightarrow> view s0 (tool_key pre i) = Some v"
      unfolding service_ok_def by metis+
    with step.IH call(1) st show ?thesis
      by (auto simp: verify_count_def filled_def Let_def split: sum.splits if_splits)
  qed
qed (simp add: pool_start_def verify_start_def)


text \<open>Without workers \<open>fill\<close> calls nothing and still reports that it wrote every key.\<close>

lemma fill_without_workers:
  assumes "(parallel_step n fn)\<^sup>*\<^sup>* (pool_start 0 s0) p"
  shows "p = pool_start 0 s0 \<and> finished_pool p"
  using assms
proof (induction rule: rtranclp_induct)
  case (step q r)
  from step(2) show ?case
    by cases (use step.IH in \<open>simp_all add: pool_start_def\<close>)
qed (simp add: finished_pool_def pool_start_def)

lemma fill_zero_reports_success: "fill_result n \<lparr>fl_service = s, fl_failed = 0\<rparr> = (n, None)"
  by (simp add: fill_result_def)

section \<open>Dispatch and recorder\<close>

text \<open>The tool exits with 0 exactly when its command ran and succeeded, and prints only then.\<close>

lemma client_main_exit:
  "snd (client_main tc arguments) = 0 \<longleftrightarrow> (\<exists>cmd args out. arguments = cmd # args \<and> dispatch tc cmd args = Some (Inr out))"
  "snd (client_main tc arguments) \<noteq> 0 \<Longrightarrow> fst (client_main tc arguments) = []"
  by (auto simp: client_main_def split: list.splits option.splits sum.splits)

lemma client_main_set:
  "client_main tc (''set'' # args) =
     (case args of [k, v] \<Rightarrow> (if tc_Set tc k v = None then ([''OK''], 0) else ([], 1)) | _ \<Rightarrow> ([], 1))"
  by (auto simp: client_main_def dispatch_def requireArgs_def said_ok_def split: list.splits option.splits)

text \<open>Over any run of the recorder, what was flushed and what is pending adds up to the totals.\<close>

fun rec_run :: "(int \<times> client_error option) option list \<Rightarrow> (int list \<times> int) \<times> recorder \<Rightarrow> (int list \<times> int) \<times> recorder" where
  "rec_run [] st = st"
| "rec_run (Some (d, err) # es) (acc, r) = rec_run es (acc, rec_add d err r)"
| "rec_run (None # es) ((lats, errs), r) =
     (let ((ok, e, lat, _), r) = rec_flush r in rec_run es ((lats @ lat, errs + e), r))"

lemma rec_run_totals:
  assumes "rec_run es ((lats, errs), r) = ((lats', errs'), r')"
    and "rec_all r = lats @ rec_interval r" and "rec_errs r = errs + rec_errI r"
    and "rec_ok r = int (length (rec_all r))" and "rec_okI r = int (length (rec_interval r))"
  shows "rec_all r' = lats' @ rec_interval r' \<and> rec_errs r' = errs' + rec_errI r' \<and>
    rec_ok r' = int (length (rec_all r')) \<and> rec_okI r' = int (length (rec_interval r'))"
  using assms
proof (induction es "((lats, errs), r)" arbitrary: lats errs r rule: rec_run.induct)
  case (2 d err es lats errs r)
  then show ?case by (auto simp: rec_add_def Let_def split: if_splits)
next
  case (3 es lats errs r)
  then show ?case by (simp add: rec_flush_def Let_def)
qed simp

section \<open>One worker, one key\<close>

lemma example_run:
  assumes "fn 0 s s'"
  shows "(parallel_step 1 fn ^^ 3) (pool_start 1 s) \<lparr>po_next = 2, po_workers = [Returned], po_calls = [0], po_state = s'\<rparr>"
proof -
  let ?p0 = "pool_start 1 s" let ?p3 = "\<lparr>po_next = 2, po_workers = [Returned], po_calls = [0], po_state = s'\<rparr>"
  let ?p1 = "\<lparr>po_next = 1, po_workers = [Calling 0], po_calls = [], po_state = s\<rparr>"
  let ?p2 = "\<lparr>po_next = 1, po_workers = [Drawing], po_calls = [0], po_state = s'\<rparr>"
  have "parallel_step 1 fn ?p0 ?p1" using parallel_step.draw [of 0 ?p0 0 1 fn] by (simp add: pool_start_def)
  moreover have "parallel_step 1 fn ?p1 ?p2" using parallel_step.call [of 0 ?p1 0 fn s' 1] assms by simp
  moreover have "parallel_step 1 fn ?p2 ?p3" using parallel_step.draw [of 0 ?p2 1 1 fn] by simp
  ultimately show ?thesis by (auto simp: numeral_3_eq_3)
qed

theorem parallel_runs_each_once_witness:
  "\<exists>p. (parallel_step 1 (\<lambda>i s s'. s' = s + (5 :: int)) ^^ 3) (pool_start 1 0) p \<and> finished_pool p \<and>
    mset (po_calls p) = {#0#} \<and> po_state p = 5"
proof -
  let ?p = "\<lparr>po_next = 2, po_workers = [Returned], po_calls = [0], po_state = (5 :: int)\<rparr>"
  have run: "(parallel_step 1 (\<lambda>i s s'. s' = s + (5 :: int)) ^^ 3) (pool_start 1 0) ?p" by (rule example_run) simp
  moreover have "finished_pool ?p" by (simp add: finished_pool_def)
  moreover from this have "mset (po_calls ?p) = {#0#}"
    using parallel_runs_each_once [OF _ _ run] by simp
  ultimately show ?thesis by (intro exI [of _ ?p]) simp
qed

definition map_sets :: "(key \<rightharpoonup> string) set_call" where
  "map_sets k v m err m' \<longleftrightarrow> err = None \<and> m' = m(k \<mapsto> v)"

definition map_gets :: "(key \<rightharpoonup> string) get_call" where
  "map_gets k m r m' \<longleftrightarrow> m' = m \<and> r = (case m k of None \<Rightarrow> Inl ErrNotFound | Some v \<Rightarrow> Inr v)"


end
