(* ===== verification/Bench.thy ===== *)
theory Bench
  imports ClientTool
begin

text \<open>
  The load test of \<open>src/cmd/client/main.go\<close>: what a worker calls, the report of an interval and of the run, and
  the percentiles, with the product of \<open>float64\<close> that picks an index rounded as Go rounds it. Random numbers are
  inputs; the recorder of \<open>ClientTool\<close> collects what the workers measure. The reporting interval is positive
  and the size of the values not negative (the standard library panics otherwise). Shown: the index of a
  percentile is in range and the percentiles are ordered; the lines add up to the totals; the run can end.
\<close>

section \<open>Percentiles\<close>

text \<open>A natural number as a \<open>float64\<close>: 53 significant bits, ties to even.\<close>

fun bits :: "nat \<Rightarrow> nat" where
  "bits n = (if n = 0 then 0 else Suc (bits (n div 2)))"

definition float53 :: "nat \<Rightarrow> nat" where
  "float53 p =
     (let s = bits p - 53; q = p div 2 ^ s; r = 2 * (p mod 2 ^ s)
      in (if r > 2 ^ s \<or> r = 2 ^ s \<and> odd q \<and> s \<noteq> 0 then q + 1 else q) * 2 ^ s)"

text \<open>The constants as \<open>float64\<close>, in units of \<open>2\<^sup>-\<^sup>5\<^sup>3\<close>.\<close>

definition p50 :: nat where "p50 = 2 ^ 52"
definition p95 :: nat where "p95 = 8556839292003942"
definition p99 :: nat where "p99 = 8917127262193582"

definition quantile_index :: "nat \<Rightarrow> nat \<Rightarrow> nat" where
  "quantile_index q len = float53 (q * float53 (len - 1)) div 2 ^ 53"

definition quantile :: "nat \<Rightarrow> int list \<Rightarrow> int" where
  "quantile q lat = sort lat ! quantile_index q (length lat)"

text \<open>\<open>Duration.Round\<close>, half away from zero, and the rounding for the report.\<close>

definition Round :: "int \<Rightarrow> int \<Rightarrow> int" where
  "Round d m =
     (let r = \<bar>d\<bar> mod m in
      if 2 * r < m then (if d < 0 then d + r else d - r)
      else if d < 0 then max (- (2 ^ 63)) (d + r - m) else min (2 ^ 63 - 1) (d - r + m))"

definition round_latency :: "int \<Rightarrow> int" where
  "round_latency d = (if d > 10 ^ 6 then Round d (10 ^ 5) else Round d (10 ^ 3))"

definition percentiles :: "int list \<Rightarrow> (int \<times> int \<times> int) option" where
  "percentiles lat =
     (if lat = [] then None
      else Some (round_latency (quantile p50 lat), round_latency (quantile p95 lat), round_latency (quantile p99 lat)))"

section \<open>The load test\<close>

datatype bench_call =
    BenchGet key
  | BenchDelete key
  | BenchSet key string

text \<open>
  What a worker calls, from the two numbers it draws. The fractions are floating-point numbers: their
  addition is a parameter, as is the order (in which a NaN is below nothing).
\<close>

definition bench_op :: "('f \<Rightarrow> 'f \<Rightarrow> bool) \<Rightarrow> ('f \<Rightarrow> 'f \<Rightarrow> 'f) \<Rightarrow> 'f \<Rightarrow> 'f \<Rightarrow> string \<Rightarrow> string \<Rightarrow> int \<Rightarrow> 'f \<Rightarrow> bench_call" where
  "bench_op lt add reads deletes pre value i x =
     (let k = tool_key pre i
      in if lt x reads then BenchGet k
         else if lt x (add reads deletes) then BenchDelete k
         else BenchSet k value)"

text \<open>\<open>rng.Intn\<close> panics unless its argument is positive.\<close>

definition Intn :: "int \<Rightarrow> int \<Rightarrow> bool" where
  "Intn n i \<longleftrightarrow> 0 \<le> i \<and> i < n"

datatype bench_worker =
    Looping
  | InCall bench_call
  | Gone

text \<open>What an interval prints, and what the run prints at its end.\<close>

record bench_line =
  bl_ok :: int
  bl_err :: int
  bl_percentiles :: "(int \<times> int \<times> int) option"
  bl_lastErr :: "client_error option"

record bench_totals =
  bt_ok :: int
  bt_notFound :: int
  bt_errs :: int
  bt_percentiles :: "(int \<times> int \<times> int) option"

record 's bench =
  bn_service :: 's
  bn_workers :: "bench_worker list"
  bn_expired :: bool
  bn_rec :: recorder
  bn_lines :: "bench_line list"
  bn_running :: bool
  bn_panicked :: bool

definition bench_start :: "int \<Rightarrow> 's \<Rightarrow> 's bench" where
  "bench_start concurrency s =
     \<lparr>bn_service = s, bn_workers = replicate (nat concurrency) Looping, bn_expired = False, bn_rec = rec_start,
      bn_lines = [], bn_running = True, bn_panicked = False\<rparr>"

definition bench_flush :: "recorder \<Rightarrow> bench_line \<times> recorder" where
  "bench_flush r =
     (case rec_flush r of ((ok, errs, lat, lastErr), r) \<Rightarrow>
        (\<lparr>bl_ok = ok, bl_err = errs, bl_percentiles = percentiles lat, bl_lastErr = lastErr\<rparr>, r))"

text \<open>The context of the run is done.\<close>

definition bench_expire :: "'s bench \<Rightarrow> 's bench" where
  "bench_expire b = b\<lparr>bn_expired := True\<rparr>"

text \<open>The head of a worker's loop.\<close>

definition bench_loop :: "int \<Rightarrow> nat \<Rightarrow> int \<Rightarrow> (int \<Rightarrow> bench_call) \<Rightarrow> 's bench \<Rightarrow> 's bench" where
  "bench_loop keys w i op b =
     (if bn_expired b then b\<lparr>bn_workers := (bn_workers b)[w := Gone]\<rparr>
      else if keys \<le> 0 then b\<lparr>bn_panicked := True\<rparr>
      else b\<lparr>bn_workers := (bn_workers b)[w := InCall (op i)]\<rparr>)"

text \<open>The call returned after \<open>d\<close> with \<open>err\<close>: recorded, unless the run ended meanwhile.\<close>

definition bench_return :: "nat \<Rightarrow> int \<Rightarrow> client_error option \<Rightarrow> 's \<Rightarrow> 's bench \<Rightarrow> 's bench" where
  "bench_return w d err s b =
     (let b = b\<lparr>bn_service := s\<rparr>
      in if bn_expired b then b\<lparr>bn_workers := (bn_workers b)[w := Gone]\<rparr>
         else b\<lparr>bn_workers := (bn_workers b)[w := Looping], bn_rec := rec_add d err (bn_rec b)\<rparr>)"

text \<open>A turn of the reporting loop; the last one prints nothing.\<close>

definition bench_report :: "bool \<Rightarrow> 's bench \<Rightarrow> 's bench" where
  "bench_report running b =
     (case bench_flush (bn_rec b) of (line, r) \<Rightarrow>
        b\<lparr>bn_running := running, bn_rec := r, bn_lines := (if running then bn_lines b @ [line] else bn_lines b)\<rparr>)"

inductive bench_step ::
  "int \<Rightarrow> (int \<Rightarrow> 'x \<Rightarrow> bench_call) \<Rightarrow> (bench_call \<Rightarrow> 's \<Rightarrow> client_error option \<Rightarrow> 's \<Rightarrow> bool) \<Rightarrow> 's bench \<Rightarrow> 's bench \<Rightarrow> bool"
  for keys op call where
  loop: "\<not> bn_panicked b \<Longrightarrow> w < length (bn_workers b) \<Longrightarrow> bn_workers b ! w = Looping \<Longrightarrow>
    keys \<le> 0 \<or> Intn keys i \<Longrightarrow> bench_step keys op call b (bench_loop keys w i (\<lambda>i. op i x) b)"
| returns: "\<not> bn_panicked b \<Longrightarrow> w < length (bn_workers b) \<Longrightarrow> bn_workers b ! w = InCall c \<Longrightarrow>
    call c (bn_service b) err s \<Longrightarrow> 0 \<le> d \<Longrightarrow> bench_step keys op call b (bench_return w d err s b)"
| expire: "\<not> bn_panicked b \<Longrightarrow> bench_step keys op call b (bench_expire b)"
| tick: "\<not> bn_panicked b \<Longrightarrow> bn_running b \<Longrightarrow> bench_step keys op call b (bench_report True b)"
| stop: "\<not> bn_panicked b \<Longrightarrow> bn_running b \<Longrightarrow> \<forall>w \<in> set (bn_workers b). w = Gone \<Longrightarrow>
    bench_step keys op call b (bench_report False b)"

definition bench_result :: "'s bench \<Rightarrow> bench_totals" where
  "bench_result b =
     (let r = bn_rec b
      in \<lparr>bt_ok = rec_ok r, bt_notFound = rec_notFound r, bt_errs = rec_errs r, bt_percentiles = percentiles (rec_all r)\<rparr>)"

section \<open>Rounding\<close>

lemma bits_bounds: "n < 2 ^ bits n" "n \<noteq> 0 \<Longrightarrow> 2 ^ (bits n - 1) \<le> n"
proof (induction n rule: bits.induct)
  case (1 n)
  show "n < 2 ^ bits n"
  proof (cases "n = 0")
    case False
    with 1(1) have "n div 2 < 2 ^ bits (n div 2)" by blast
    with False show ?thesis by (simp add: bits.simps [of n])
  qed simp
  show "2 ^ (bits n - 1) \<le> n" if "n \<noteq> 0"
  proof (cases "n div 2 = 0")
    case False
    then have "2 ^ (bits (n div 2) - 1) \<le> n div 2" using 1(2) that by blast
    moreover have "0 < bits (n div 2)" using False by (simp add: bits.simps [of "n div 2"])
    ultimately have "2 ^ bits (n div 2) \<le> n" by (cases "bits (n div 2)") auto
    then show ?thesis using that by (simp add: bits.simps [of n])
  qed (use that in \<open>simp add: bits.simps [of n]\<close>)
qed

declare bits.simps [simp del]

text \<open>The relative error of the rounding.\<close>

lemma float53_near: "2 * float53 p \<le> 2 * p + 2 ^ (bits p - 53)" "2 * p \<le> 2 * float53 p + 2 ^ (bits p - 53)"
proof -
  define m :: nat where "m = 2 ^ (bits p - 53)"
  define q r where "q = p div m" and "r = p mod m"
  have p: "p = q * m + r" by (simp add: q_def r_def)
  have "r < m" by (simp add: r_def m_def)
  have f: "float53 p = q * m + (if 2 * r > m \<or> 2 * r = m \<and> odd q \<and> bits p - 53 \<noteq> 0 then m else 0)"
    by (simp add: float53_def Let_def q_def r_def m_def)
  show "2 * float53 p \<le> 2 * p + 2 ^ (bits p - 53)" "2 * p \<le> 2 * float53 p + 2 ^ (bits p - 53)"
    using p \<open>r < m\<close> unfolding m_def [symmetric] f by auto
qed

lemma float53_small: "bits p \<le> 53 \<Longrightarrow> float53 p = p"
  by (simp add: float53_def Let_def)

lemma bits_large: "53 < bits p \<Longrightarrow> 2 ^ 52 * 2 ^ (bits p - 53) \<le> p"
proof -
  assume "53 < bits p"
  then have "p \<noteq> 0" by (cases "p = 0") (simp_all add: bits.simps [of 0])
  then have "2 ^ (bits p - 1) \<le> p" by (rule bits_bounds(2))
  moreover have "bits p - 1 = 52 + (bits p - 53)" using \<open>53 < bits p\<close> by simp
  ultimately show ?thesis by (metis power_add)
qed

lemma float53_error: "2 ^ 53 * float53 p \<le> (2 ^ 53 + 1) * p" "2 ^ 53 * p \<le> 2 ^ 53 * float53 p + p"
proof -
  have "2 ^ 53 * float53 p \<le> (2 ^ 53 + 1) * p \<and> 2 ^ 53 * p \<le> 2 ^ 53 * float53 p + p"
  proof (cases "bits p \<le> 53")
    case True
    then show ?thesis by (simp add: float53_small)
  next
    case False
    define K m :: nat where "K = 2 ^ 52" and "m = 2 ^ (bits p - 53)"
    have K: "2 ^ 53 = 2 * K" by (simp add: K_def)
    have big: "K * m \<le> p" using bits_large [of p] False by (simp add: K_def m_def)
    have "K * (2 * float53 p) \<le> K * (2 * p + m)" "K * (2 * p) \<le> K * (2 * float53 p + m)"
      using float53_near [of p] by (simp_all only: m_def mult_le_mono2)
    with big show ?thesis unfolding K by (simp add: distrib_left distrib_right mult.assoc mult.left_commute)
  qed
  then show "2 ^ 53 * float53 p \<le> (2 ^ 53 + 1) * p" "2 ^ 53 * p \<le> 2 ^ 53 * float53 p + p" by simp_all
qed

lemma float53_exact: "p < 2 ^ 53 \<Longrightarrow> float53 p = p"
proof (rule float53_small, rule ccontr)
  assume "p < 2 ^ 53" and "\<not> bits p \<le> 53"
  then have "2 ^ 52 * 2 ^ (bits p - 53) \<le> p" by (intro bits_large) linarith
  moreover have "(2 :: nat) ^ 1 \<le> 2 ^ (bits p - 53)" using \<open>\<not> bits p \<le> 53\<close> by (intro power_increasing) simp_all
  ultimately show False using \<open>p < 2 ^ 53\<close> by simp
qed

text \<open>The index is in range, and grows with the quantile.\<close>

lemma quantile_index_bound:
  assumes "n \<noteq> 0" "n \<le> 2 ^ 53" "q * (2 ^ 53 + 1) \<le> 2 ^ 53 * 2 ^ 53"
  shows "quantile_index q n < n"
proof -
  define L K :: nat where "L = n - 1" and "K = 2 ^ 53"
  have "L < 2 ^ 53" using assms by (simp add: L_def)
  then have L: "float53 L = L" by (rule float53_exact)
  have "K * float53 (q * L) \<le> (K + 1) * (q * L)" unfolding K_def by (rule float53_error)
  also have "\<dots> = q * (K + 1) * L" by (simp only: ac_simps)
  also have "\<dots> \<le> K * K * L" using assms(3) by (simp only: K_def mult_le_mono1)
  finally have "K * float53 (q * L) \<le> K * (K * L)" by (simp only: ac_simps)
  then have "float53 (q * L) \<le> K * L" by (simp add: K_def)
  then have "quantile_index q n \<le> L"
    unfolding quantile_index_def L_def [symmetric] L K_def [symmetric]
    by (metis K_def div_le_mono nonzero_mult_div_cancel_left power_not_zero zero_neq_numeral)
  with assms(1) show ?thesis by (simp add: L_def)
qed

lemma float53_separates:
  assumes "a * (2 ^ 53 + 1) + b \<le> 2 ^ 53 * b"
  shows "float53 (a * L) \<le> float53 (b * L)"
proof -
  define K :: nat where "K = 2 ^ 53"
  have "K * float53 (a * L) + b * L \<le> (K + 1) * (a * L) + b * L" unfolding K_def by (simp only: float53_error add_le_mono1)
  also have "\<dots> = (a * (K + 1) + b) * L" by (simp add: algebra_simps)
  also have "\<dots> \<le> K * b * L" using assms by (simp only: K_def mult_le_mono1)
  also have "\<dots> \<le> K * float53 (b * L) + b * L" using float53_error(2) [of "b * L"] by (simp only: K_def ac_simps)
  finally show ?thesis by (simp add: K_def)
qed

lemma quantile_index_mono: "a * (2 ^ 53 + 1) + b \<le> 2 ^ 53 * b \<Longrightarrow> quantile_index a n \<le> quantile_index b n"
  by (simp only: quantile_index_def float53_separates div_le_mono)

lemma quantile_constants:
  "p99 * (2 ^ 53 + 1) \<le> 2 ^ 53 * 2 ^ 53"
  "p50 * (2 ^ 53 + 1) + p95 \<le> 2 ^ 53 * p95" "p95 * (2 ^ 53 + 1) + p99 \<le> 2 ^ 53 * p99"
  by (simp_all add: p50_def p95_def p99_def)

lemma quantile_constants_bound: "q \<in> {p50, p95, p99} \<Longrightarrow> q * (2 ^ 53 + 1) \<le> 2 ^ 53 * 2 ^ 53"
  by (auto simp: p50_def p95_def p99_def)

section \<open>What the percentiles are\<close>

lemma sort_nth_in: "k < length lat \<Longrightarrow> sort lat ! k \<in> set lat"
  by (metis length_sort nth_mem set_sort)

lemma sort_nth_rank:
  fixes lat :: "int list"
  assumes "k < length lat"
  shows "k < length (filter (\<lambda>d. d \<le> sort lat ! k) lat)" "length (filter (\<lambda>d. d < sort lat ! k) lat) \<le> k"
proof -
  let ?s = "sort lat"
  have len: "length (filter P lat) = card {i. i < length ?s \<and> P (?s ! i)}" for P
    by (metis length_filter_conv_card mset_filter mset_sort size_mset)
  have "{..k} \<subseteq> {i. i < length ?s \<and> ?s ! i \<le> ?s ! k}" using assms by (auto intro: sorted_nth_mono)
  then have "card {..k} \<le> card {i. i < length ?s \<and> ?s ! i \<le> ?s ! k}" by (intro card_mono) auto
  then show "k < length (filter (\<lambda>d. d \<le> ?s ! k) lat)" unfolding len by simp
  have "{i. i < length ?s \<and> ?s ! i < ?s ! k} \<subseteq> {..<k}"
    using assms by (auto simp: not_le [symmetric] intro: sorted_nth_mono)
  then have "card {i. i < length ?s \<and> ?s ! i < ?s ! k} \<le> card {..<k}" by (intro card_mono) auto
  then show "length (filter (\<lambda>d. d < ?s ! k) lat) \<le> k" unfolding len by simp
qed

lemma Round_mono:
  assumes "0 \<le> d" "d \<le> e" "0 < m" "e < 2 ^ 63"
  shows "Round d m \<le> Round e m"
proof (cases "d div m = e div m")
  case True
  then have "d - d mod m = e - e mod m" by (simp add: minus_mod_eq_mult_div)
  moreover from this assms have "d mod m \<le> e mod m" by linarith
  moreover have "e - e mod m < 2 ^ 63" using assms pos_mod_sign [of m e] by linarith
  ultimately show ?thesis using assms by (auto simp: Round_def Let_def)
next
  case False
  then have "d div m + 1 \<le> e div m" using zdiv_mono1 [OF \<open>d \<le> e\<close> \<open>0 < m\<close>] by simp
  then have "m * (d div m + 1) \<le> m * (e div m)" using \<open>0 < m\<close> by (intro mult_left_mono) simp_all
  then have "d - d mod m + m \<le> e - e mod m" by (simp add: minus_mod_eq_mult_div distrib_left)
  with assms show ?thesis by (auto simp: Round_def Let_def)
qed

lemma Round_exact: "0 \<le> d \<Longrightarrow> m dvd d \<Longrightarrow> 0 < m \<Longrightarrow> Round d m = d"
  by (simp add: Round_def Let_def)

lemma round_latency_mono:
  assumes "0 \<le> d" "d \<le> e" "e < 2 ^ 63"
  shows "round_latency d \<le> round_latency e"
proof (cases "d \<le> 10 ^ 6 \<and> 10 ^ 6 < e")
  case True
  have "Round d (10 ^ 3) \<le> Round (10 ^ 6) (10 ^ 3)" using assms True by (intro Round_mono) simp_all
  also have "\<dots> = Round (10 ^ 6) (10 ^ 5)" by (simp add: Round_exact)
  also have "\<dots> \<le> Round e (10 ^ 5)" using assms True by (intro Round_mono) simp_all
  finally show ?thesis using True by (simp add: round_latency_def)
next
  case False
  with assms show ?thesis by (auto simp: round_latency_def intro!: Round_mono)
qed


section \<open>What the run reports\<close>

text \<open>
  While it runs, the lines printed and the interval that is still open add up to the totals; and every latency
  belongs to one successful call.
\<close>

definition bench_inv :: "'s bench \<Rightarrow> bool" where
  "bench_inv b \<longleftrightarrow>
     sum_list (map bl_ok (bn_lines b)) + rec_okI (bn_rec b) \<le> rec_ok (bn_rec b) \<and>
     sum_list (map bl_err (bn_lines b)) + rec_errI (bn_rec b) \<le> rec_errs (bn_rec b) \<and>
     (bn_running b \<longrightarrow>
        sum_list (map bl_ok (bn_lines b)) + rec_okI (bn_rec b) = rec_ok (bn_rec b) \<and>
        sum_list (map bl_err (bn_lines b)) + rec_errI (bn_rec b) = rec_errs (bn_rec b)) \<and>
     (\<not> bn_running b \<longrightarrow> (\<forall>w \<in> set (bn_workers b). w = Gone)) \<and>
     rec_okI (bn_rec b) = int (length (rec_interval (bn_rec b))) \<and> 0 \<le> rec_errI (bn_rec b) \<and>
     rec_ok (bn_rec b) = int (length (rec_all (bn_rec b))) \<and>
     0 \<le> rec_notFound (bn_rec b) \<and> rec_notFound (bn_rec b) \<le> rec_ok (bn_rec b) \<and>
     (\<forall>d \<in> set (rec_all (bn_rec b)). 0 \<le> d)"

lemma bench_inv_start: "bench_inv (bench_start n s)"
  by (simp add: bench_inv_def bench_start_def rec_start_def)

lemma bench_inv_report:
  "bench_inv b \<Longrightarrow> bn_running b \<Longrightarrow> run \<or> (\<forall>w \<in> set (bn_workers b). w = Gone) \<Longrightarrow> bench_inv (bench_report run b)"
  by (cases run) (auto simp: bench_inv_def bench_report_def bench_flush_def rec_flush_def)

lemma bench_inv_return:
  assumes "bench_inv b" "w < length (bn_workers b)" "bn_workers b ! w = InCall c" "0 \<le> d"
  shows "bench_inv (bench_return w d err s b)"
proof -
  have "InCall c \<in> set (bn_workers b)" using assms(2,3) by (metis nth_mem)
  then have run: "bn_running b" using assms(1) by (auto simp: bench_inv_def)
  show ?thesis
  proof (cases "bn_expired b")
    case True
    with assms(1) run show ?thesis by (simp add: bench_inv_def bench_return_def)
  next
    case False
    with assms(1,4) run show ?thesis by (auto simp: bench_inv_def bench_return_def rec_add_def Let_def)
  qed
qed

lemma bench_inv_loop:
  assumes "bench_inv b" "w < length (bn_workers b)" "bn_workers b ! w = Looping"
  shows "bench_inv (bench_loop keys w i op b)"
proof -
  have "Looping \<in> set (bn_workers b)" using assms(2,3) by (metis nth_mem)
  then have "bn_running b" using assms(1) by (auto simp: bench_inv_def)
  with assms(1) show ?thesis by (simp add: bench_inv_def bench_loop_def)
qed

lemma bench_inv_expire: "bench_inv b \<Longrightarrow> bench_inv (bench_expire b)"
  by (cases "bn_running b") (auto simp: bench_inv_def bench_expire_def)

lemma bench_inv_step: "bench_step keys op call b b' \<Longrightarrow> bench_inv b \<Longrightarrow> bench_inv b'"
  by (induction rule: bench_step.induct)
    (simp_all add: bench_inv_loop bench_inv_return bench_inv_report bench_inv_expire)

lemma bench_inv_steps: "(bench_step keys op call)\<^sup>*\<^sup>* b b' \<Longrightarrow> bench_inv b \<Longrightarrow> bench_inv b'"
  by (induction rule: rtranclp_induct) (auto intro: bench_inv_step)

text \<open>Once the run expired, every worker is gone after at most two steps.\<close>

lemma bench_worker_ends:
  assumes "\<not> bn_panicked b" "bn_expired b" "w < length (bn_workers b)" "bn_workers b ! w \<noteq> Gone"
    and total: "\<forall>c s. \<exists>err s'. call c s err s'" and keys: "\<exists>i. keys \<le> 0 \<or> Intn keys i"
  shows "\<exists>s. bench_step keys op call b (b\<lparr>bn_service := s, bn_workers := (bn_workers b)[w := Gone]\<rparr>)"
proof (cases "bn_workers b ! w")
  case Looping
  obtain i where "keys \<le> 0 \<or> Intn keys i" using keys by blast
  from bench_step.loop [OF assms(1,3) Looping this] assms(2) show ?thesis
    by (intro exI [of _ "bn_service b"]) (simp add: bench_loop_def)
next
  case (InCall c)
  obtain err s where "call c (bn_service b) err s" using total by blast
  then have "bench_step keys op call b (bench_return w 0 err s b)"
    by (rule bench_step.returns [where c = c, OF assms(1,3) InCall]) simp
  with assms(2) show ?thesis
    by (intro exI [of _ s]) (simp add: bench_return_def)
qed (use assms(4) in simp)

lemma Intn_some: "\<exists>i. keys \<le> 0 \<or> Intn keys i"
  by (rule exI [of _ 0]) (auto simp: Intn_def)

lemma length_filter_left:
  assumes "w < length ws" "P (ws ! w)" "\<not> P x"
  shows "length (filter P ws) = Suc (length (filter P (ws[w := x])))"
  using assms
proof (induction ws arbitrary: w)
  case (Cons y ws)
  then show ?case by (cases w) simp_all
qed simp

lemma bench_workers_end:
  assumes "\<not> bn_panicked b" "bn_expired b" and total: "\<forall>c s. \<exists>err s'. call c s err s'"
  shows "\<exists>s. (bench_step keys op call)\<^sup>*\<^sup>* b (b\<lparr>bn_service := s, bn_workers := map (\<lambda>_. Gone) (bn_workers b)\<rparr>)"
  using assms(1,2)
proof (induction "length (filter (\<lambda>w. w \<noteq> Gone) (bn_workers b))" arbitrary: b)
  case 0
  then have "map (\<lambda>_. Gone) (bn_workers b) = bn_workers b" by (auto intro: map_idI simp: filter_empty_conv)
  then show ?case by (intro exI [of _ "bn_service b"]) simp
next
  case (Suc n)
  then obtain w where w: "w < length (bn_workers b)" "bn_workers b ! w \<noteq> Gone"
    by (metis (mono_tags, lifting) filter_False in_set_conv_nth length_0_conv nat.distinct(1))
  obtain s where step: "bench_step keys op call b (b\<lparr>bn_service := s, bn_workers := (bn_workers b)[w := Gone]\<rparr>)"
    using bench_worker_ends [OF Suc.prems w total Intn_some] by blast
  let ?b = "b\<lparr>bn_service := s, bn_workers := (bn_workers b)[w := Gone]\<rparr>"
  have "n = length (filter (\<lambda>w. w \<noteq> Gone) (bn_workers ?b))"
    using Suc.hyps(2) length_filter_left [OF w(1), of "\<lambda>w. w \<noteq> Gone" Gone] w(2) by simp
  from Suc.hyps(1) [OF this] Suc.prems obtain s' where
    "(bench_step keys op call)\<^sup>*\<^sup>* ?b (?b\<lparr>bn_service := s', bn_workers := map (\<lambda>_. Gone) (bn_workers ?b)\<rparr>)" by auto
  moreover have "map (\<lambda>_. Gone) (bn_workers ?b) = map (\<lambda>_. Gone) (bn_workers b)" by (simp add: map_replicate_const)
  ultimately have "(bench_step keys op call)\<^sup>*\<^sup>* ?b (b\<lparr>bn_service := s', bn_workers := map (\<lambda>_. Gone) (bn_workers b)\<rparr>)"
    by simp
  with step show ?case by (blast intro: converse_rtranclp_into_rtranclp)
qed

lemma bench_ends:
  assumes "\<not> bn_panicked b" "bn_running b" "\<forall>c s. \<exists>err s'. call c s err s'"
  shows "\<exists>b'. (bench_step keys op call)\<^sup>*\<^sup>* b b' \<and> \<not> bn_running b'"
proof -
  let ?b = "bench_expire b"
  have first: "bench_step keys op call b ?b" using assms(1) by (rule bench_step.expire)
  obtain s where ends: "(bench_step keys op call)\<^sup>*\<^sup>* ?b (?b\<lparr>bn_service := s, bn_workers := map (\<lambda>_. Gone) (bn_workers ?b)\<rparr>)"
    using bench_workers_end [of ?b call keys op] assms by (auto simp: bench_expire_def)
  let ?e = "?b\<lparr>bn_service := s, bn_workers := map (\<lambda>_. Gone) (bn_workers ?b)\<rparr>"
  have "bench_step keys op call ?e (bench_report False ?e)"
    using assms(1,2) by (intro bench_step.stop) (auto simp: bench_expire_def)
  moreover have "\<not> bn_running (bench_report False ?e)" by (simp add: bench_report_def bench_flush_def rec_flush_def)
  ultimately show ?thesis using first ends by (meson converse_rtranclp_into_rtranclp rtranclp.rtrancl_into_rtrancl)
qed

text \<open>With an empty key space the first worker that runs panics before any call.\<close>

lemma bench_empty_step:
  assumes "bench_step keys op call b b'" "keys \<le> 0" "\<forall>w \<in> set (bn_workers b). w = Looping \<or> w = Gone"
  shows "bn_service b' = bn_service b \<and> rec_ok (bn_rec b') = rec_ok (bn_rec b) \<and>
    (\<forall>w \<in> set (bn_workers b'). w = Looping \<or> w = Gone)"
  using assms
proof (induction rule: bench_step.induct)
  case (loop b w i x)
  then show ?case by (auto simp: bench_loop_def dest!: set_update_subset_insert [THEN subsetD])
next
  case (returns b w c err s d)
  then have "InCall c \<in> set (bn_workers b)" by (metis nth_mem)
  with returns show ?case by auto
qed (auto simp: bench_expire_def bench_report_def bench_flush_def rec_flush_def)

lemma bench_empty_keys:
  assumes "(bench_step keys op call)\<^sup>*\<^sup>* (bench_start n s) b" "keys \<le> 0"
  shows "bn_service b = s \<and> rec_ok (bn_rec b) = 0"
proof -
  have "bn_service b = s \<and> rec_ok (bn_rec b) = 0 \<and> (\<forall>w \<in> set (bn_workers b). w = Looping \<or> w = Gone)"
    using assms(1)
  proof (induction rule: rtranclp_induct)
    case base
    then show ?case by (simp add: bench_start_def rec_start_def)
  next
    case (step y z)
    then show ?case using bench_empty_step [OF step.hyps(2) assms(2)] by simp
  qed
  then show ?thesis by simp
qed

text \<open>
  A load test, in every interleaving of its workers, its clock and its reports: while it runs, the lines printed
  and the open interval add up exactly to the totals, of successful calls and of errors alike; the total counts one
  successful call per latency kept, the keys not found among them, and the percentiles of the run exist once a call
  succeeded; when the run is over every worker is gone and the lines never claim more than the totals; and, with calls
  that return, a run that has not panicked can always be brought to its end.
\<close>

lemma bench_adds_up:
  assumes "(bench_step keys op call)\<^sup>*\<^sup>* (bench_start n s) b"
  shows "(bn_running b \<longrightarrow>
            sum_list (map bl_ok (bn_lines b)) + rec_okI (bn_rec b) = bt_ok (bench_result b) \<and>
            sum_list (map bl_err (bn_lines b)) + rec_errI (bn_rec b) = bt_errs (bench_result b)) \<and>
         (\<not> bn_running b \<longrightarrow>
            sum_list (map bl_ok (bn_lines b)) \<le> bt_ok (bench_result b) \<and>
            sum_list (map bl_err (bn_lines b)) \<le> bt_errs (bench_result b) \<and>
            (\<forall>w \<in> set (bn_workers b). w = Gone)) \<and>
         bt_ok (bench_result b) = int (length (rec_all (bn_rec b))) \<and>
         bt_notFound (bench_result b) \<le> bt_ok (bench_result b) \<and>
         (bt_percentiles (bench_result b) = None \<longleftrightarrow> bt_ok (bench_result b) = 0) \<and>
         (\<not> bn_panicked b \<and> bn_running b \<and> (\<forall>c s. \<exists>err s'. call c s err s') \<longrightarrow>
            (\<exists>b'. (bench_step keys op call)\<^sup>*\<^sup>* b b' \<and> \<not> bn_running b'))"
proof -
  have inv: "bench_inv b" using bench_inv_steps [OF assms bench_inv_start] .
  have "0 \<le> rec_okI (bn_rec b)" "0 \<le> rec_errI (bn_rec b)" using inv by (simp_all add: bench_inv_def)
  with inv show ?thesis by (auto simp: bench_inv_def bench_result_def Let_def percentiles_def intro: bench_ends)
qed

section \<open>Witnesses\<close>

lemma percentiles_example: "percentiles [3049000, 800400, 2050000] = Some (2100000, 2100000, 2100000)"
  by (simp add: percentiles_def quantile_def quantile_index_def float53_def Let_def p50_def p95_def p99_def bits.simps
      Round_def round_latency_def)


definition bench_example_call :: "bench_call \<Rightarrow> nat \<Rightarrow> client_error option \<Rightarrow> nat \<Rightarrow> bool" where
  "bench_example_call c s err s' \<longleftrightarrow> (case c of BenchSet _ _ \<Rightarrow> err = None \<and> s' = Suc s | _ \<Rightarrow> err = Some ErrNotFound \<and> s' = s)"

definition example_op :: "int \<Rightarrow> int \<Rightarrow> bench_call" where
  "example_op = bench_op (<) (+) 8 1 ''bench'' ''v''"

definition example_bench :: "nat bench" where
  "example_bench = bench_report True (bench_return 0 5 None 1 (bench_loop 10 0 3 (\<lambda>i. example_op i 9) (bench_start 2 0)))"

lemma example_bench_reached: "(bench_step 10 example_op bench_example_call)\<^sup>*\<^sup>* (bench_start 2 0) example_bench"
proof -
  let ?b1 = "bench_loop 10 0 3 (\<lambda>i. example_op i 9) (bench_start 2 (0 :: nat))"
  let ?b2 = "bench_return 0 5 None 1 ?b1"
  have "bench_step 10 example_op bench_example_call (bench_start 2 0) ?b1"
    by (rule bench_step.loop) (simp_all add: bench_start_def Intn_def)
  moreover have "bench_step 10 example_op bench_example_call ?b1 ?b2"
    by (rule bench_step.returns [where c = "BenchSet (tool_key ''bench'' 3) ''v''"])
      (simp_all add: bench_start_def bench_loop_def example_op_def bench_op_def bench_example_call_def)
  moreover have "bench_step 10 example_op bench_example_call ?b2 (bench_report True ?b2)"
    by (rule bench_step.tick) (simp_all add: bench_start_def bench_loop_def bench_return_def)
  ultimately show ?thesis unfolding example_bench_def
    by (meson converse_rtranclp_into_rtranclp rtranclp.rtrancl_refl)
qed

lemma example_bench_totals:
  "bn_running example_bench \<and> map bl_ok (bn_lines example_bench) = [1] \<and> bt_ok (bench_result example_bench) = 1 \<and>
   (\<exists>b'. (bench_step 10 example_op bench_example_call)\<^sup>*\<^sup>* example_bench b' \<and> \<not> bn_running b')"
proof -
  have run: "bn_running example_bench" "\<not> bn_panicked example_bench" "map bl_ok (bn_lines example_bench) = [1]"
    "rec_okI (bn_rec example_bench) = 0"
    by (simp_all add: example_bench_def bench_report_def bench_flush_def rec_flush_def bench_return_def bench_loop_def
        bench_start_def rec_add_def rec_start_def Let_def)
  have "\<exists>err s'. bench_example_call c s err s'" for c s by (cases c) (simp_all add: bench_example_call_def)
  with run bench_adds_up [OF example_bench_reached] show ?thesis by simp
qed

end
