(* ===== verification/Commands.thy ===== *)
theory Commands
  imports Bench Controller
begin

text \<open>
  The commands \<open>src/cmd/*/main.go\<close>: from the environment and the values of the flags to the options a component is
  created with, or to the message a command ends with. Flag values are what \<open>flag.Parse\<close> left; the
  connection to etcd is a parameter, which gives the error of \<open>clientv3.New\<close> for a list of endpoints.
\<close>

section \<open>Shared\<close>

definition envOr :: "(string \<Rightarrow> string) \<Rightarrow> string \<Rightarrow> string \<Rightarrow> string" where
  "envOr env name def = (let v = env name in if v \<noteq> '''' then v else def)"

text \<open>\<open>strings.Split\<close> at a separator of one byte.\<close>

fun Split :: "string \<Rightarrow> char \<Rightarrow> string list" where
  "Split [] sep = ['''']"
| "Split (c # s) sep =
     (if c = sep then '''' # Split s sep
      else case Split s sep of [] \<Rightarrow> [[c]] | f # fs \<Rightarrow> (c # f) # fs)"

definition default_advertise :: "string \<Rightarrow> string \<Rightarrow> string \<Rightarrow> string" where
  "default_advertise name addr advertise =
     (if advertise = '''' \<and> prefix '':'' addr then name @ addr
      else if advertise = '''' then addr
      else advertise)"

datatype fatal =
    IdRequired
  | EtcdUnreachable string
  | UnknownStrategy string

section \<open>Node\<close>

record node_flags =
  nf_id :: string
  nf_addr :: string
  nf_advertise :: string
  nf_etcd :: string
  nf_lease_ttl :: int
  nf_flush_size :: int
  nf_max_levels :: int
  nf_wal_retain :: int

definition node_defaults :: "(string \<Rightarrow> string) \<Rightarrow> node_flags" where
  "node_defaults env =
     \<lparr>nf_id = '''', nf_addr = '':7000'', nf_advertise = '''', nf_etcd = envOr env ''SLICEDB_ETCD'' ''localhost:2379'',
      nf_lease_ttl = 5, nf_flush_size = 4096, nf_max_levels = 4, nf_wal_retain = 100000\<rparr>"

text \<open>The server, with the address it listens on and the lease it keeps (\<open>NewNode\<close> replaces a lease that is not positive).\<close>

definition node_main ::
  "(string list \<Rightarrow> string option) \<Rightarrow> node_flags \<Rightarrow> go_time \<Rightarrow> fatal + (string \<times> int \<times> NodeServer)" where
  "node_main connect fl now =
     (if nf_id fl = '''' then Inl IdRequired
      else
        let advertise = default_advertise (nf_id fl) (nf_addr fl) (nf_advertise fl)
        in case connect (Split (nf_etcd fl) CHR '','') of
             Some e \<Rightarrow> Inl (EtcdUnreachable e)
           | None \<Rightarrow>
               Inr (nf_addr fl, if nf_lease_ttl fl \<le> 0 then 5 else nf_lease_ttl fl,
                    NewNode (nf_id fl) advertise
                      \<lparr>opt_FlushSize = nf_flush_size fl, opt_MaxLevels = nf_max_levels fl, opt_WALRetain = nf_wal_retain fl\<rparr> now))"

section \<open>Controller\<close>

record controller_flags =
  cf_id :: string
  cf_addr :: string
  cf_advertise :: string
  cf_partitions :: int
  cf_replication :: int
  cf_etcd :: string
  cf_interval :: int
  cf_auto_balance :: bool
  cf_session_ttl :: int

definition controller_defaults :: "string \<Rightarrow> (string \<Rightarrow> string) \<Rightarrow> controller_flags" where
  "controller_defaults hostname env =
     \<lparr>cf_id = hostname, cf_addr = '':8080'', cf_advertise = '''', cf_partitions = 8, cf_replication = 2,
      cf_etcd = envOr env ''SLICEDB_ETCD'' ''localhost:2379'', cf_interval = 10 ^ 9, cf_auto_balance = True,
      cf_session_ttl = 5\<rparr>"

definition controller_main ::
  "(string list \<Rightarrow> string option) \<Rightarrow> controller_flags \<Rightarrow> fatal + (string \<times> Controller)" where
  "controller_main connect fl =
     (let advertise = default_advertise (cf_id fl) (cf_addr fl) (cf_advertise fl)
      in case connect (Split (cf_etcd fl) CHR '','') of
           Some e \<Rightarrow> Inl (EtcdUnreachable e)
         | None \<Rightarrow>
             Inr (cf_addr fl, NewController
               \<lparr>co_ID = cf_id fl, co_Advertise = advertise, co_PartitionCount = cf_partitions fl,
                co_ReplicationFactor = cf_replication fl, co_Interval = cf_interval fl,
                co_AutoBalance = cf_auto_balance fl, co_SessionTTL = cf_session_ttl fl\<rparr>))"

section \<open>Load balancer\<close>

record lb_flags =
  lf_addr :: string
  lf_etcd :: string
  lf_read_strategy :: string
  lf_attempts :: int
  lf_timeout :: int

definition lb_defaults :: "(string \<Rightarrow> string) \<Rightarrow> lb_flags" where
  "lb_defaults env =
     \<lparr>lf_addr = '':9000'', lf_etcd = envOr env ''SLICEDB_ETCD'' ''localhost:2379'',
      lf_read_strategy = envOr env ''SLICEDB_READ_STRATEGY'' StrategyRoundRobin, lf_attempts = 8, lf_timeout = 3 * 10 ^ 9\<rparr>"

definition lb_main :: "(string list \<Rightarrow> string option) \<Rightarrow> lb_flags \<Rightarrow> fatal + (string \<times> LoadBalancer)" where
  "lb_main connect fl =
     (case connect (Split (lf_etcd fl) CHR '','') of
        Some e \<Rightarrow> Inl (EtcdUnreachable e)
      | None \<Rightarrow>
          (case LB_New \<lparr>lo_ReadStrategy = lf_read_strategy fl, lo_MaxAttempts = lf_attempts fl, lo_Timeout = lf_timeout fl\<rparr> of
             Inl s \<Rightarrow> Inl (UnknownStrategy s)
           | Inr lb \<Rightarrow> Inr (lf_addr fl, lb)))"

section \<open>Client\<close>

record client_flags =
  kf_lb :: string
  kf_retries :: int

definition client_defaults :: "(string \<Rightarrow> string) \<Rightarrow> client_flags" where
  "client_defaults env = \<lparr>kf_lb = envOr env ''SLICEDB_LB'' ''http://localhost:9000'', kf_retries = 8\<rparr>"

definition client_of_flags :: "client_flags \<Rightarrow> Client" where
  "client_of_flags fl = (client_New (Split (kf_lb fl) CHR '',''))\<lparr>c_MaxRetries := kf_retries fl\<rparr>"

section \<open>Splitting\<close>

fun join :: "char \<Rightarrow> string list \<Rightarrow> string" where
  "join sep [] = ''''"
| "join sep [f] = f"
| "join sep (f # g # fs) = f @ sep # join sep (g # fs)"

lemma Split_neq_Nil [simp]: "Split s sep \<noteq> []"
  by (cases s) (auto split: list.split)

lemma join_push: "join sep ((c # f) # fs) = c # join sep (f # fs)"
  by (cases fs) simp_all

lemma join_Split: "join sep (Split s sep) = s"
proof (induction s)
  case (Cons c s)
  obtain f fs where "Split s sep = f # fs" by (cases "Split s sep") simp_all
  with Cons show ?case by (simp add: join_push)
qed simp

lemma Split_fields: "f \<in> set (Split s sep) \<Longrightarrow> sep \<notin> set f"
proof (induction s arbitrary: f)
  case (Cons c s)
  then show ?case by (auto split: if_splits list.splits)
qed simp

lemma Split_append: "sep \<notin> set f \<Longrightarrow> Split (f @ sep # s) sep = f # Split s sep"
  by (induction f) (auto simp: eq_commute [of _ sep])

lemma Split_single: "sep \<notin> set f \<Longrightarrow> Split f sep = [f]"
  by (induction f) (auto simp: eq_commute [of _ sep])

text \<open>The list of endpoints an operator joins with commas is the list a command uses.\<close>

lemma Split_join:
  assumes "fs \<noteq> []" "\<forall>f \<in> set fs. sep \<notin> set f"
  shows "Split (join sep fs) sep = fs"
  using assms by (induction sep fs rule: join.induct) (simp_all add: Split_append Split_single)

section \<open>What the commands start\<close>

lemma node_main_cases:
  "node_main connect fl now = Inl e \<longleftrightarrow>
     (if nf_id fl = '''' then e = IdRequired
      else \<exists>msg. connect (Split (nf_etcd fl) CHR '','') = Some msg \<and> e = EtcdUnreachable msg)"
  by (auto simp: node_main_def Let_def split: option.splits)

lemma default_advertise_neq: "name \<noteq> '''' \<or> addr \<noteq> '''' \<Longrightarrow> addr \<noteq> '''' \<or> adv \<noteq> '''' \<Longrightarrow> default_advertise name addr adv \<noteq> ''''"
  by (auto simp: default_advertise_def)

lemma default_advertise_inj:
  assumes "prefix '':'' addr" "default_advertise n addr '''' = default_advertise m addr ''''"
  shows "n = m"
  using assms by (simp add: default_advertise_def)

text \<open>
  From flags to components. The endpoints of etcd a command connects to are the ones the operator joined with
  commas, whatever they are. A node that starts has an id, so that the registry can tell it apart; with an address of the
  form \<open>:port\<close> and no advertised address, nodes with different ids advertise different addresses; its lease is
  positive. A controller that starts has a positive interval and session. A load balancer that starts has a read strategy
  it knows, makes at least one attempt and has a positive timeout, and any other strategy ends it with the strategy
  named. Every command ends when the registry cannot be created.
\<close>

lemma commands_start:
  assumes "endpoints \<noteq> []" "\<forall>e \<in> set endpoints. CHR '','' \<notin> set e"
    and "nf_etcd nf = join CHR '','' endpoints" "cf_etcd cf = join CHR '','' endpoints" "lf_etcd lf = join CHR '','' endpoints"
  shows "(connect endpoints = Some msg \<longrightarrow>
            controller_main connect cf = Inl (EtcdUnreachable msg) \<and> lb_main connect lf = Inl (EtcdUnreachable msg) \<and>
            node_main connect nf now = Inl (if nf_id nf = '''' then IdRequired else EtcdUnreachable msg)) \<and>
         (connect endpoints = None \<longrightarrow>
            (case node_main connect nf now of
               Inl e \<Rightarrow> e = IdRequired \<and> nf_id nf = ''''
             | Inr (listen, ttl, n) \<Rightarrow>
                 listen = nf_addr nf \<and> 0 < ttl \<and> nd_ID n = nf_id nf \<and> nd_ID n \<noteq> '''' \<and> nd_replicas n = [] \<and>
                 (nf_addr nf \<noteq> '''' \<longrightarrow> n_Address (self n) \<noteq> '''') \<and>
                 (\<forall>nf' now' ttl' n'. prefix '':'' (nf_addr nf) \<and> nf_advertise nf = '''' \<and> nf_advertise nf' = '''' \<and>
                    node_main connect nf' now' = Inr (listen, ttl', n') \<and> nd_ID n' \<noteq> nd_ID n \<longrightarrow>
                    n_Address (self n') \<noteq> n_Address (self n))) \<and>
            (\<exists>c. controller_main connect cf = Inr (cf_addr cf, c) \<and> 0 < co_Interval (ct_opts c) \<and>
                 0 < co_SessionTTL (ct_opts c) \<and> co_ID (ct_opts c) = cf_id cf) \<and>
            (case lb_main connect lf of
               Inl e \<Rightarrow> e = UnknownStrategy (lf_read_strategy lf) \<and>
                 lf_read_strategy lf \<notin> {StrategyLeader, StrategyRoundRobin, StrategyFollowers}
             | Inr (listen, lb) \<Rightarrow>
                 listen = lf_addr lf \<and> lo_ReadStrategy (lb_opts lb) = lf_read_strategy lf \<and>
                 lf_read_strategy lf \<in> {StrategyLeader, StrategyRoundRobin, StrategyFollowers} \<and>
                 0 < lo_MaxAttempts (lb_opts lb) \<and> 0 < lo_Timeout (lb_opts lb)))"
  (is "?fails \<and> (?up \<longrightarrow> ?node \<and> ?ctl \<and> ?lb)")
proof -
  have split: "Split (join CHR '','' endpoints) CHR '','' = endpoints" using assms(1,2) by (rule Split_join)
  have fails: ?fails
    using assms(3-5) split by (simp add: node_main_def controller_main_def lb_main_def Let_def)
  have node: ?node if ?up
  proof (cases "nf_id nf = ''''")
    case True
    then show ?thesis by (simp add: node_main_def)
  next
    case False
    then show ?thesis
      using that assms(3) split
      by (auto simp: node_main_def Let_def NewNode_def self_def default_advertise_def split: option.splits if_splits)
  qed
  have ctl: ?ctl if ?up
    using that assms(4) split by (simp add: controller_main_def Let_def NewController_def)
  have lb: ?lb if ?up
    using that assms(5) split by (auto simp: lb_main_def LB_New_def Let_def split: sum.splits if_splits)
  from fails node ctl lb show ?thesis by blast
qed

text \<open>Without flags or environment the client asks the load balancer of this host.\<close>

lemma client_default_endpoint:
  "c_endpoints (client_of_flags (client_defaults (\<lambda>_. ''''))) = [''http://localhost:9000'']"
  by code_simp

section \<open>Examples\<close>

lemma example_commands:
  "(\<exists>n. node_main (\<lambda>_. None) ((node_defaults (\<lambda>_. ''''))\<lparr>nf_id := ''n1''\<rparr>) 7 = Inr ('':7000'', 5, n) \<and>
        n_Address (self n) = ''n1:7000'') \<and>
   (\<exists>c. controller_main (\<lambda>_. None) (controller_defaults ''c1'' (\<lambda>_. '''')) = Inr ('':8080'', c)) \<and>
   (case lb_main (\<lambda>_. None) ((lb_defaults (\<lambda>_. ''''))\<lparr>lf_read_strategy := ''random''\<rparr>) of
      Inl e \<Rightarrow> e = UnknownStrategy ''random'' | Inr _ \<Rightarrow> False)"
  using commands_start [of "[''localhost:2379'']" "(node_defaults (\<lambda>_. ''''))\<lparr>nf_id := ''n1''\<rparr>"
      "controller_defaults ''c1'' (\<lambda>_. '''')" "(lb_defaults (\<lambda>_. ''''))\<lparr>lf_read_strategy := ''random''\<rparr>" "\<lambda>_. None" "''''" 7]
  by (auto simp: node_defaults_def controller_defaults_def lb_defaults_def envOr_def node_main_def Let_def
      default_advertise_def NewNode_def self_def StrategyLeader_def StrategyRoundRobin_def StrategyFollowers_def
      split: sum.splits)

end
