(* ===== verification/Spec2Isabelle.thy ===== *)
theory Spec2Isabelle
  imports Hashing Model Reshard Lsm Wal Replica PlanSafety Balancer Migration Cluster Membership Serve Commands
begin

text \<open>
  SliceDB (\<open>src/\<close>) is a sharded, replicated key-value store in Go. Its parts and how they interact:

  \<^item> \<^bold>\<open>Data nodes\<close> (\<open>internal/node\<close>) hold replicas of partitions (\<open>internal/partition\<close>), each with an
    LSM-style store (\<open>internal/storage\<close>) and a write-ahead log (\<open>internal/wal\<close>). A node follows the
    layout in etcd, leads or follows the partitions that the layout gives it, and serves reads, writes,
    replication and migrations over HTTP.
  \<^item> \<^bold>\<open>Controllers\<close> (\<open>internal/controller\<close>) campaign in an etcd election. The elected one runs rounds of a
    pure planner (\<open>planner.go\<close>) on what the nodes report, drives reshardings and serves the admin API
    (\<open>api.go\<close>). It writes the layout with a compare-and-swap that is fenced on its election key.
  \<^item> \<^bold>\<open>Load balancers\<close> (\<open>internal/loadbalancer\<close>) route requests by the layout they watch, with retries;
    \<^bold>\<open>clients\<close> (\<open>pkg/client\<close>, \<open>cmd/client\<close>) try several balancers in turn.
  \<^item> The \<^bold>\<open>registry\<close> (\<open>internal/registry\<close>) is the code's view of etcd, \<open>internal/model\<close> the data all
    parts exchange, \<open>pkg/hash\<close> the map from keys to partitions.

  \<^bold>\<open>Theories and sources.\<close>

  \<^item> \<open>Prelude\<close>, \<open>Interfaces\<close>: Go maps as association lists with distinct keys, shared lemmas, and the
    contracts as locales: \<open>invariant_steps\<close>, \<open>functional_refinement\<close>, \<open>kv_store\<close>, \<open>sequenced_log\<close>,
    \<open>evolution\<close> and (in \<open>PlanInv\<close>) \<open>planner_phase\<close>; each is interpreted on the model of the component
    that provides it.
  \<^item> \<open>Hashing\<close>: \<open>pkg/hash/hash.go\<close> (FNV-1a on 32-bit words, the partition of a key, the source
    partitions of a resharding). \<open>Model\<close>: \<open>internal/model/model.go\<close> (records, routing, lookups).
  \<^item> \<open>Lsm\<close>: \<open>internal/storage/lsm.go\<close>, with compaction split into its two critical sections. \<open>Wal\<close>:
    \<open>internal/wal/wal.go\<close>. \<open>Replica\<close>: \<open>internal/partition/partition.go\<close> over the interfaces of these two.
  \<^item> \<open>Planner\<close>: \<open>internal/controller/planner.go\<close>; \<open>PlanInv\<close>, \<open>PlanRound\<close>, \<open>PlanSafety\<close>: its phases, the
    whole round, and its properties. \<open>Reshard\<close>: the two layout changes of a resharding.
  \<^item> \<open>DataNode\<close>: \<open>internal/node/node.go\<close> (reconciliation, request checks, handlers, the follower's loop,
    the migration pull); \<open>Reconcile\<close>, \<open>NodeInv\<close>, \<open>NodeServe\<close>: its properties. \<open>Migration\<close>: the pull
    against its sources. \<open>Replication\<close>: leaders and followers of a partition with messages in flight.
  \<^item> \<open>Balancer\<close>: \<open>internal/loadbalancer/loadbalancer.go\<close> and the retry loop of \<open>pkg/client/client.go\<close>.
    \<open>Network\<close>: \<open>pkg/network/network.go\<close> and the operations of the client on top of that loop.
    \<open>Wire\<close>: the URLs of requests between the parts, as sent and as read. \<open>Json\<close>: every struct of
    \<open>model.go\<close> as \<open>encoding/json\<close> writes and reads it, with the locales \<open>codec\<close> (round trip) and \<open>decoder\<close>
    (well-typed results). \<open>Serve\<close>: the routes of the three HTTP servers, from path, query and body to the
    handlers, with the pages and the periodic statistics.
  \<^item> \<open>ClientTool\<close>, \<open>Bench\<close>: \<open>cmd/client/main.go\<close> (\<open>fill\<close>, \<open>verify\<close> and their pool of workers; the load test, its
    reports and its percentiles). \<open>Commands\<close>: the other \<open>main\<close> functions, from flag values and environment to
    the components they create.
  \<^item> \<open>Registry\<close>: \<open>internal/registry/etcd.go\<close> over an abstract etcd client, and the contract of etcd.
    \<open>Controller\<close>: \<open>controller.go\<close> and \<open>api.go\<close>. \<open>ControlSafety\<close>, \<open>ControlUpdate\<close>, \<open>ControlRun\<close>: any number
    of controllers over one store, the atomicity of \<open>updateLayout\<close>, and every operation of the code.
    \<open>Membership\<close>: the loops that keep a process in the cluster (\<open>campaign\<close> and \<open>announce\<close> of a controller,
    \<open>keepMembership\<close> of a node) over the contracts of leases and elections, and runs of a controller.
  \<^item> \<open>Metrics\<close>: \<open>internal/metrics/metrics.go\<close>, the lock-free counters as single accesses of shared memory,
    and the rate tracker.
  \<^item> \<open>Cluster\<close>: all of it as one step relation: the store with its controllers, nodes that start, crash,
    rejoin and watch with delay (\<open>reconcile\<close>, \<open>rejoin\<close>, the handlers), and replication between them.
  \<^item> This theory: properties that span components (balancer and nodes, planner and replicas, resharding
    driver and migration).

  \<^bold>\<open>How state and operations correspond.\<close> A struct is a record with the same fields behind a short
  prefix (\<open>p_Leader\<close> is \<open>Partition.Leader\<close>), a method a function that takes and returns the receiver,
  a string enumeration a datatype, \<open>nil\<close> an option where the code distinguishes it. An error or a
  run-time panic is a value (\<open>Inl\<close>, \<open>None\<close> or an HTTP status). A loop is a recursive function or a
  fold; the loops that wait (rounds, watches, retries) take what they receive as a list. Nothing here
  needs fuel: every function is total by structural recursion or a measure, and the retry loops carry the
  attempt limits of the code. Log messages are datatype values.

  \<^bold>\<open>What is shown.\<close> Storage: the LSM store implements a map under every interleaving with
  compaction, and the log a window on a history. Replication: replicas at the same data epoch agree on a
  history, followers catch up, a handoff or an export loses no acknowledged write. Planning: a round keeps
  the cluster well formed, never has two leaders at an epoch, never removes the last good copy, and does
  nothing once the cluster is settled. Resharding: the owner of a key moves exactly when its target is
  complete. Nodes and balancers: an acknowledged write took effect at the owner of the key. Control: the
  layout in etcd is safe whatever controllers do, updates are atomic, deposed controllers cannot write,
  and a controller writes only in office; a node that lost its lease rejoins as a new member, without data.
  The whole system: no two leaders at an epoch and consistent replicas, from the layouts the controllers
  store and the incarnations of the nodes. Requests reach the handler they were meant for with the values
  that were meant; JSON loses nothing of a layout or a message, and decoders accept only well-typed values.
  Client tool: every index is run once, \<open>verify\<close> checks \<open>fill\<close>, the percentiles are measured values in order
  and the load test's lines add up. Metrics: no addition is lost.

  \<^bold>\<open>Assumptions of the model.\<close>

  \<^item> Counters that only grow by one (sequence numbers, epochs, versions, generations, revisions) are
    unbounded; hashes and durations keep their width.
  \<^item> An operation reads the clock once. A handler that holds the partition's lock, and the checks before it,
    run as one step; the long poll of replication is two steps with the partition's later state in between.
    The snapshot that an export falls back to is taken in the same step.
  \<^item> \<open>nil\<close> and empty slices are the same list; outside \<open>Json\<close>, copying a layout is the identity, which
    \<open>layout_through_json\<close> justifies. The text of JSON documents and of times, and HTTP, are parameters: a
    document is read as it was written. Object members are matched by their exact names, and a string type
    with named constants has no other values. \<open>TrimSpace\<close> knows the ASCII spaces.
  \<^item> etcd is a parameter with the contract \<open>etcd_ok\<close>: atomic transactions on a revisioned key space, other
    clients in between, and an unanswered write that may or may not have happened. Nodes have non-empty names
    (\<open>cmd/node\<close> insists) and the configured partition count is below \<open>2^32\<close>. Its leases (\<open>lease_ok\<close>) delete
    their keys when they end; its election library (\<open>campaign_ok\<close>) reports a win only when no older key is left.
  \<^item> In \<open>Replication\<close> a replica is promoted only under an epoch that no one has led before; \<open>Cluster\<close> proves
    this of the running system. There a node never uses an incarnation (the clock at its start, in
    nanoseconds) twice, and its watch delivers the values of the layout key in order, from some point on.
    A handler that waits on a dropped replica is covered by waking it before the drop.
  \<^item> \<open>parallel\<close> counts indices without overflow; a call of the client library takes effect when it returns.
  \<^item> The rates of \<open>Metrics\<close> are exact quotients, with the infinities and NaN of a division by zero; sums of
    rates are exact. The percentiles round to 53 bits as \<open>float64\<close> does.

  \<^bold>\<open>Not modelled.\<close> The parsing of flags by the \<open>flag\<close> package, signals, tickers and the life of the HTTP
  servers (\<open>Start\<close>: it connects, starts the loops modelled here and blocks), connecting to etcd, the HTML panel
  and the texts of log lines and error messages. These are library calls without state of the program's own.
\<close>

section \<open>Balancer and nodes\<close>

text \<open>
  A node's answer as the balancer's HTTP client sees it. The rendering of bodies
  (\<open>encoding/json\<close>) is a parameter.
\<close>

definition http_of :: "(node_response \<Rightarrow> string) \<Rightarrow> node_response \<Rightarrow> http_result" where
  "http_of enc resp =
     (case resp of
        NError code \<Rightarrow> HttpResponse code (enc resp) None
      | NClosed \<Rightarrow> HttpFailed ''closed''
      | NPanic \<Rightarrow> HttpFailed ''EOF''
      | _ \<Rightarrow> HttpResponse 200 (enc resp) None)"

lemma write_loop_answer:
  "fst (write_loop env op method k payload n a lastErr lb) = Answer code body \<Longrightarrow>
   \<exists>b. write_attempt (env b) op method k payload = Inr (code, body)"
proof (induction n arbitrary: a lastErr lb)
  case (Suc n)
  obtain alive lb1 where ba: "begin_attempt env op a lb = (alive, lb1)" by fastforce
  with Suc.prems have alive by (cases alive) auto
  show ?case
  proof (cases "\<exists>ref p. Route (ae_layout (env a)) k = Some (ref, Some p) \<and> Writable p")
    case True
    then obtain ref p where r: "Route (ae_layout (env a)) k = Some (ref, Some p)" "Writable p" by blast
    obtain lb2 where f: "forward (env a) method (''/'' @ op) (p_Leader p) ref k (Some payload) lb1 =
      (node_answer (env a) method (''/'' @ op) (p_Leader p) ref k (Some payload), lb2)"
      by (rule forward_answer)
    show ?thesis
    proof (cases "\<exists>c d. node_answer (env a) method (''/'' @ op) (p_Leader p) ref k (Some payload) = Inr (c, d) \<and> \<not> retryable c")
      case True
      with Suc.prems ba \<open>alive\<close> r f have "write_attempt (env a) op method k payload = Inr (code, body)"
        by (auto simp: write_attempt_def finish_def)
      then show ?thesis by blast
    next
      case False
      with Suc ba \<open>alive\<close> r f show ?thesis by (auto split: sum.splits prod.splits if_splits)
    qed
  next
    case False
    with Suc ba \<open>alive\<close> show ?thesis by (auto split: option.splits prod.splits if_splits)
  qed
qed simp

text \<open>
  C6. A set that the balancer acknowledges took effect at the owner of the key, however stale the
  balancer's routing table and whatever the nodes it reached thought of the layout: some node was,
  in its own well-formed layout, the leader of the partition that owns the key, held it unsealed,
  and set exactly that key. No refusal of a node reaches the client as an answer: the only other
  definite answer is the 400 for an empty key.
\<close>

theorem acknowledged_set_at_owner:
  assumes "\<And>b req. ae_http (env b) req =
      http_of enc (fst (handleSet (now b) (hq_method req) (Some (hq_ref req)) (Some (k, v)) (node b req)))"
    and "\<And>b req. node_ok (node b req)" and "\<And>b req. nd_layout (node b req) = Some (lay b req)" and "\<And>b req. layout_ok (lay b req)"
    and "fst (lb_handleSet env ''POST'' (Some (k, v)) payload lb) = Answer code body"
  shows "(k = '''' \<and> code = 400) \<or>
    (code = 200 \<and> (\<exists>b req ref p part. Route (Some (lay b req)) k = Some (ref, Some p) \<and> p_Leader p = nd_ID (node b req) \<and>
       hq_ref req = ref \<and> lookup ref (node b req) = Some part \<and> rp_role part = NodeRoleLeader \<and> \<not> rp_sealed part \<and>
       contents_at ref (snd (handleSet (now b) ''POST'' (Some ref) (Some (k, v)) (node b req))) =
         Some ((contents (rp_store part))(k \<mapsto> v))))"
proof (cases "k = ''''")
  case True
  with assms(5) show ?thesis by (simp add: lb_handleSet_def)
next
  case False
  with assms(5) obtain b where w: "write_attempt (env b) ''set'' ''POST'' k payload = Inr (code, body)"
    using write_loop_answer by (fastforce simp: lb_handleSet_def lb_write_def)
  then obtain ref p nd where r: "Route (ae_layout (env b)) k = Some (ref, Some p)" and nd: "map_of (ae_nodes (env b)) (p_Leader p) = Some nd"
    and a: "node_answer (env b) ''POST'' ''/set'' (p_Leader p) ref k (Some payload) = Inr (code, body)" and nr: "\<not> retryable code"
    by (auto simp: write_attempt_def node_answer_def split: option.splits prod.splits if_splits sum.splits)
  define req where "req = \<lparr>hq_method = ''POST'', hq_address = n_Address nd, hq_path = ''/set'', hq_ref = ref, hq_key = k,
    hq_payload = Some payload\<rparr>"
  obtain resp n' where h: "handleSet (now b) ''POST'' (Some ref) (Some (k, v)) (node b req) = (resp, n')" by fastforce
  have hc: "http_of enc resp = HttpResponse code body None"
    using a nd assms(1) [of b req] h
    by (auto simp: node_answer_def req_def split: http_result.splits option.splits)
  obtain ref' p' where n: "Route (Some (lay b req)) k = Some (ref', Some p')" "Find (Some (lay b req)) ref' = Some p'"
    using assms(4) by (rule Route_Find)
  let ?op = "\<lparr>op_Type = OpSet, op_Key = k, op_Value = v, op_Timestamp = 0\<rparr>"
  have "Set_key (now b) k v part = write_op (now b) ?op part" for part by (simp add: Set_key_def)
  note out = node_write_outcome [OF assms(2,3) n this, where name = "''set''" and qref = "Some ref"]
  have "handleSet (now b) ''POST'' (Some ref) (Some (k, v)) (node b req) =
      node_write ''set'' (Set_key (now b) k v) (Some ref) k (node b req)" using False by (simp add: handleSet_def)
  note o = out [folded this, unfolded h]
  show ?thesis
  proof (cases resp)
    case (NSeq sq)
    with o obtain part where "p_Leader p' = nd_ID (node b req)" "ref' = ref" "lookup ref (node b req) = Some part"
      "rp_role part = NodeRoleLeader" "\<not> rp_sealed part" "contents_at ref n' = Some ((contents (rp_store part))(k \<mapsto> v))"
      by (auto simp: op_spec.simps)
    moreover have "code = 200" using hc NSeq by (simp add: http_of_def)
    moreover have "hq_ref req = ref" by (simp add: req_def)
    ultimately show ?thesis using n(1) h by (metis snd_conv)
  qed (use o hc nr in \<open>auto simp: http_of_def retryable_def\<close>)
qed

theorem acknowledged_set_at_owner_witness:
  "\<exists>env body ref m. fst (lb_handleSet env ''POST'' (Some (''user:42'', ''v'')) ''{}'' \<lparr>lb_opts = \<lparr>lo_ReadStrategy = StrategyLeader,
      lo_MaxAttempts = 8, lo_Timeout = 3\<rparr>, lb_rr = 0, lb_ops = []\<rparr>) = Answer 200 body \<and>
    contents_at ref (snd (handleSet 5 ''POST'' (Some ref) (Some (''user:42'', ''v'')) example_server)) = Some (m(''user:42'' \<mapsto> ''v''))"
proof -
  let ?k = "''user:42''" let ?lb = "\<lparr>lb_opts = \<lparr>lo_ReadStrategy = StrategyLeader, lo_MaxAttempts = 8, lo_Timeout = 3\<rparr>, lb_rr = 0, lb_ops = []\<rparr>"
  define env where "env = (\<lambda>b :: nat. \<lparr>ae_alive = True, ae_layout = Some example_layout,
    ae_nodes = [(''node1'', \<lparr>n_ID = ''node1'', n_Address = ''node1:7000'', n_Incarnation = 11\<rparr>)],
    ae_http = (\<lambda>req. http_of (\<lambda>_. '''') (fst (handleSet 5 (hq_method req) (Some (hq_ref req)) (Some (?k, ''v'')) example_server)))\<rparr>)"
  obtain ref p where r: "Route (Some example_layout) ?k = Some (ref, Some p)" "Find (Some example_layout) ref = Some p"
    using example_layout_ok by (rule Route_Find)
  note ex = example_Find [OF r(2)] and l = example_server_lookup [OF r(2)]
  let ?part = "LeadFresh 1 (NewPartition ref example_opts)"
  have part: "rp_role ?part = NodeRoleLeader" "\<not> rp_sealed ?part" "rp_freezes ?part = []"
    by (simp_all add: LeadFresh_def NewPartition_def resetLocked_def)
  obtain e p1 where w: "write_op 5 \<lparr>op_Type = OpSet, op_Key = ?k, op_Value = ''v'', op_Timestamp = 0\<rparr> ?part = (Inr e, p1)"
    using part by (cases "appendLocked 5 \<lparr>op_Type = OpSet, op_Key = ?k, op_Value = ''v'', op_Timestamp = 0\<rparr> ?part")
      (auto simp: write_op_def frozenLocked_def)
  have "fst (handleSet 5 ''POST'' (Some ref) (Some (?k, ''v'')) example_server) = NSeq (le_SequenceNumber e)"
    using target_write [OF example_server_layout(1) r, of "Some ref"] ex l w example_server_layout(2)
    by (simp add: handleSet_def node_write_def Set_key_def)
  then have "write_attempt (env 0) ''set'' ''POST'' ?k ''{}'' = Inr (200, '''')"
    using r ex by (simp add: write_attempt_def env_def Writable_def node_answer_def http_of_def retryable_def)
  moreover have "\<forall>b. 0 \<le> b \<and> b < 0 + 8 \<longrightarrow> Route (ae_layout (env b)) ?k \<noteq> None \<and> (0 < b \<longrightarrow> ae_alive (env b))"
    using r by (simp add: env_def)
  ultimately have a: "fst (lb_handleSet env ''POST'' (Some (?k, ''v'')) ''{}'' ?lb) = Answer 200 ''''"
    using write_loop_first [of 0 8 env ?k "''set''" "''POST''" "''{}''" NoAttempt ?lb] first_answer_Answer [of _ 8 0 NoAttempt 200 "''''"]
    by (auto simp: lb_handleSet_def lb_write_def intro!: exI [of _ 0])
  have "node_ok example_server" "nd_layout example_server = Some example_layout"
    by (rule example_server_ok, rule example_server_layout)
  then have "\<exists>ref m. contents_at ref (snd (handleSet 5 ''POST'' (Some ref) (Some (?k, ''v'')) example_server)) = Some (m(?k \<mapsto> ''v''))"
    using acknowledged_set_at_owner [where env = env and enc = "\<lambda>_. ''''" and now = "\<lambda>_. 5" and node = "\<lambda>_ _. example_server"
        and lay = "\<lambda>_ _. example_layout", OF _ _ _ example_layout_ok a]
    by (simp add: env_def) blast
  with a show ?thesis by auto
qed


section \<open>Planner and replicas\<close>




section \<open>Resharding driver and migration\<close>

lemma reshard_sources_spec:
  assumes "reshard_sources l nodes ids = Some srcs"
  shows "map ms_PartitionID srcs = ids"
    and "src \<in> set srcs \<Longrightarrow> (\<exists>nd. Writable (l_Partitions l ! nat (ms_PartitionID src)) \<and>
      ms_Epoch src = p_Epoch (l_Partitions l ! nat (ms_PartitionID src)) \<and>
      map_of nodes (p_Leader (l_Partitions l ! nat (ms_PartitionID src))) = Some nd \<and> ms_Address src = n_Address nd)"
  using assms
  by (induction ids arbitrary: srcs) (auto simp: Let_def NodeWatcher_Get_def split: option.splits if_splits)

lemma reshard_request_spec:
  assumes "reshard_request l r nodes statuses i = Some (nd, req)"
  shows "reshard_sources l nodes (SourcePartitions (int i) (l_PartitionCount l) (r_PartitionCount r)) = Some (mr_Sources req)"
    and "map_of nodes (p_Leader (r_Partitions r ! i)) = Some nd" and "Writable (r_Partitions r ! i)"
    and "r_Status r ! i \<noteq> MigrationDone" and "mr_TargetEpoch req = p_Epoch (r_Partitions r ! i)"
  using assms
  by (auto simp: reshard_request_def NodeWatcher_Get_def Let_def case_prod_beta split: if_splits option.splits)


text \<open>A split of one partition into two, on one node.\<close>

definition example_split :: Layout where
  "example_split = \<lparr>l_Version = 3, l_Generation = 1, l_PartitionCount = 1, l_Partitions = [example_partition 0],
     l_Resharding = Some \<lparr>r_Generation = 2, r_PartitionCount = 2, r_Partitions = [example_partition 0, example_partition 1],
       r_Status = [MigrationPending, MigrationPending]\<rparr>, l_Members = [(''node1'', 11), (''node2'', 12)]\<rparr>"


end
